(* ===== verification/Prelude.thy ===== *)
theory Prelude
  imports Complex_Main "HOL-Library.AList" "HOL-Library.List_Lexorder"
    "HOL-Library.Product_Lexorder" "HOL-Library.Multiset" "HOL-Library.Sublist"
begin

text \<open>
  What the components share: Rust strings and the string operations the sources call, 64-bit
  wrap-around, hash maps as association lists, sorting, and generic lemmas on lists.

  A Rust \<^verbatim>\<open>String\<close> is modelled as the list of its Unicode scalar values (\<open>rstring\<close>, integers), so
  that indexing, \<^verbatim>\<open>chars()\<close> and per-character predicates mean what they mean in
  Rust; \<^verbatim>\<open>len()\<close>, which counts UTF-8 bytes, is \<open>utf8_len\<close>. The order on \<open>rstring\<close> is the
  lexicographic one on scalar values, which is the order of \<^verbatim>\<open>str::cmp\<close> (UTF-8
  preserves it). \<open>lit\<close> turns an ASCII literal into an \<open>rstring\<close>.
\<close>

named_theorems rust_simps \<open>facts about the Rust library operations\<close>

section \<open>Strings\<close>

type_synonym rchar = int
type_synonym rstring = "rchar list"

definition lit :: "string \<Rightarrow> rstring" where
  "lit s = map of_char s"

definition ch :: "char \<Rightarrow> rchar" where
  "ch c = of_char c"

text \<open>\<^verbatim>\<open>char::is_whitespace\<close>: the Unicode property White\_Space, in full.\<close>

definition is_whitespace :: "rchar \<Rightarrow> bool" where
  "is_whitespace c \<longleftrightarrow>
     (9 \<le> c \<and> c \<le> 13) \<or> c = 32 \<or> c = 133 \<or> c = 160 \<or> c = 5760 \<or> (8192 \<le> c \<and> c \<le> 8202)
     \<or> c = 8232 \<or> c = 8233 \<or> c = 8239 \<or> c = 8287 \<or> c = 12288"

definition is_ascii_digit :: "rchar \<Rightarrow> bool" where
  "is_ascii_digit c \<longleftrightarrow> 48 \<le> c \<and> c \<le> 57"

definition is_ascii_alphabetic :: "rchar \<Rightarrow> bool" where
  "is_ascii_alphabetic c \<longleftrightarrow> (65 \<le> c \<and> c \<le> 90) \<or> (97 \<le> c \<and> c \<le> 122)"

definition to_ascii_lower :: "rchar \<Rightarrow> rchar" where
  "to_ascii_lower c = (if 65 \<le> c \<and> c \<le> 90 then c + 32 else c)"

definition to_ascii_lowercase :: "rstring \<Rightarrow> rstring" where
  "to_ascii_lowercase s = map to_ascii_lower s"

definition eq_ignore_ascii_case :: "rstring \<Rightarrow> rstring \<Rightarrow> bool" where
  "eq_ignore_ascii_case a b \<longleftrightarrow> to_ascii_lowercase a = to_ascii_lowercase b"

definition utf8_width :: "rchar \<Rightarrow> nat" where
  "utf8_width c = (if c < 128 then 1 else if c < 2048 then 2 else if c < 65536 then 3 else 4)"

definition utf8_len :: "rstring \<Rightarrow> nat" where
  "utf8_len s = sum_list (map utf8_width s)"

definition trim_start_matches :: "(rchar \<Rightarrow> bool) \<Rightarrow> rstring \<Rightarrow> rstring" where
  "trim_start_matches P s = dropWhile P s"

definition trim_end_matches :: "(rchar \<Rightarrow> bool) \<Rightarrow> rstring \<Rightarrow> rstring" where
  "trim_end_matches P s = rev (dropWhile P (rev s))"

definition trim_start :: "rstring \<Rightarrow> rstring" where
  "trim_start s = trim_start_matches is_whitespace s"

definition trim_end :: "rstring \<Rightarrow> rstring" where
  "trim_end s = trim_end_matches is_whitespace s"

definition trim :: "rstring \<Rightarrow> rstring" where
  "trim s = trim_end (trim_start s)"

definition starts_with :: "rstring \<Rightarrow> rstring \<Rightarrow> bool" where
  "starts_with s p \<longleftrightarrow> prefix p s"

definition strip_prefix :: "rstring \<Rightarrow> rstring \<Rightarrow> rstring option" where
  "strip_prefix s p = (if prefix p s then Some (drop (length p) s) else None)"

definition contains_str :: "rstring \<Rightarrow> rstring \<Rightarrow> bool" where
  "contains_str s p \<longleftrightarrow> sublist p s"

text \<open>\<^verbatim>\<open>str::split_whitespace\<close>: the maximal runs of non-whitespace, in order.\<close>

fun split_ws :: "rstring \<Rightarrow> rstring \<Rightarrow> rstring list" where
  "split_ws acc [] = (if acc = [] then [] else [rev acc])"
| "split_ws acc (c # cs) =
     (if is_whitespace c then (if acc = [] then split_ws [] cs else rev acc # split_ws [] cs)
      else split_ws (c # acc) cs)"

definition split_whitespace :: "rstring \<Rightarrow> rstring list" where
  "split_whitespace s = split_ws [] s"

fun join :: "rstring \<Rightarrow> rstring list \<Rightarrow> rstring" where
  "join sep [] = []"
| "join sep [x] = x"
| "join sep (x # y # zs) = x @ sep @ join sep (y # zs)"

subsection \<open>Trimming\<close>

lemma trim_start_Nil [simp]: "trim_start [] = []" and trim_end_Nil [simp]: "trim_end [] = []"
  and trim_Nil [simp]: "trim [] = []"
  by (simp_all add: trim_def trim_start_def trim_end_def trim_start_matches_def trim_end_matches_def)

lemma set_trim_start_matches: "set (trim_start_matches P s) \<subseteq> set s"
  by (simp add: trim_start_matches_def) (meson set_dropWhileD subsetI)

lemma set_trim_end_matches: "set (trim_end_matches P s) \<subseteq> set s"
  by (simp add: trim_end_matches_def) (metis set_dropWhileD set_rev subsetI)

lemma set_trim: "set (trim s) \<subseteq> set s"
  unfolding trim_def trim_start_def trim_end_def
  using set_trim_start_matches set_trim_end_matches by blast

lemma hd_trim_start_matches:
  "trim_start_matches P s \<noteq> [] \<Longrightarrow> \<not> P (hd (trim_start_matches P s))"
  by (simp add: trim_start_matches_def hd_dropWhile)

lemma last_trim_end_matches:
  "trim_end_matches P s \<noteq> [] \<Longrightarrow> \<not> P (last (trim_end_matches P s))"
  by (simp add: trim_end_matches_def hd_dropWhile last_rev)

lemma prefix_trim_end_matches: "prefix (trim_end_matches P s) s"
proof -
  have "suffix (dropWhile P (rev s)) (rev s)" by (rule suffix_dropWhile)
  then show ?thesis by (simp add: trim_end_matches_def suffix_to_prefix)
qed

lemma hd_trim_end_matches:
  "trim_end_matches P s \<noteq> [] \<Longrightarrow> hd (trim_end_matches P s) = hd s"
  by (metis hd_append2 prefixE prefix_trim_end_matches)

text \<open>\<open>trim s\<close> neither starts nor ends with whitespace, and trimming again changes nothing.\<close>

definition trimmed :: "rstring \<Rightarrow> bool" where
  "trimmed s \<longleftrightarrow> s = [] \<or> (\<not> is_whitespace (hd s) \<and> \<not> is_whitespace (last s))"

lemma trimmed_trim [simp, intro]: "trimmed (trim s)"
proof (cases "trim s = []")
  case False
  then have ne: "trim_end_matches is_whitespace (trim_start s) \<noteq> []"
    by (simp add: trim_def trim_end_def)
  then have "trim_start s \<noteq> []" by (auto simp: trim_end_matches_def)
  then have "\<not> is_whitespace (hd (trim_start s))"
    unfolding trim_start_def by (rule hd_trim_start_matches)
  moreover have "hd (trim s) = hd (trim_start s)"
    unfolding trim_def trim_end_def by (rule hd_trim_end_matches [OF ne])
  moreover have "\<not> is_whitespace (last (trim s))"
    unfolding trim_def trim_end_def by (rule last_trim_end_matches [OF ne])
  ultimately show ?thesis by (simp add: trimmed_def)
qed (simp add: trimmed_def)

lemma trim_trimmed: "trimmed s \<Longrightarrow> trim s = s"
  by (auto simp: trimmed_def trim_def trim_start_def trim_end_def trim_start_matches_def
      trim_end_matches_def dropWhile_eq_self_iff [THEN iffD2] hd_rev)

lemma trim_idem [simp]: "trim (trim s) = trim s"
  by (rule trim_trimmed) (rule trimmed_trim)

subsection \<open>Splitting\<close>

lemma split_ws_words:
  assumes "\<forall>c\<in>set acc. \<not> is_whitespace c" and "w \<in> set (split_ws acc s)"
  shows "w \<noteq> [] \<and> (\<forall>c\<in>set w. \<not> is_whitespace c)"
  using assms
proof (induction acc s rule: split_ws.induct)
  case (1 acc)
  then show ?case by (simp split: if_splits)
next
  case (2 acc c cs)
  show ?case
  proof (cases "is_whitespace c")
    case True
    with "2.prems"(2) have "acc \<noteq> [] \<and> w = rev acc \<or> w \<in> set (split_ws [] cs)"
      by (simp split: if_splits)
    then show ?thesis
    proof
      assume "acc \<noteq> [] \<and> w = rev acc"
      with "2.prems"(1) show ?thesis by simp
    next
      assume "w \<in> set (split_ws [] cs)"
      moreover have "\<forall>c\<in>set []. \<not> is_whitespace c" by simp
      ultimately show ?thesis using "2.IH"(1) [OF True] "2.IH"(2) [OF True] by blast
    qed
  next
    case False
    then have "\<forall>d\<in>set (c # acc). \<not> is_whitespace d" using "2.prems"(1) by simp
    moreover have "w \<in> set (split_ws (c # acc) cs)" using "2.prems"(2) False by simp
    ultimately show ?thesis by (rule "2.IH"(3) [OF False])
  qed
qed

lemma split_whitespace_words:
  "w \<in> set (split_whitespace s) \<Longrightarrow> w \<noteq> [] \<and> (\<forall>c\<in>set w. \<not> is_whitespace c)"
  unfolding split_whitespace_def by (rule split_ws_words) simp_all

lemma split_ws_concat:
  "\<forall>c\<in>set acc. \<not> is_whitespace c \<Longrightarrow>
     concat (split_ws acc s) = rev acc @ filter (\<lambda>c. \<not> is_whitespace c) s"
  by (induction acc s rule: split_ws.induct) auto

lemma split_whitespace_concat:
  "concat (split_whitespace s) = filter (\<lambda>c. \<not> is_whitespace c) s"
  by (simp add: split_whitespace_def split_ws_concat)

section \<open>Machine integers\<close>

text \<open>Release-build \<^verbatim>\<open>i64\<close> and \<^verbatim>\<open>u32\<close> arithmetic wraps.\<close>

definition wrap_i64 :: "int \<Rightarrow> int" where
  "wrap_i64 x = (x + 2 ^ 63) mod 2 ^ 64 - 2 ^ 63"

definition is_i64 :: "int \<Rightarrow> bool" where
  "is_i64 x \<longleftrightarrow> - (2 ^ 63) \<le> x \<and> x < 2 ^ 63"

lemma is_i64_wrap [simp]: "is_i64 (wrap_i64 x)"
  by (simp add: is_i64_def wrap_i64_def)

lemma wrap_i64_id: "is_i64 x \<Longrightarrow> wrap_i64 x = x"
  by (simp add: is_i64_def wrap_i64_def)

section \<open>Sorting\<close>

text \<open>
  Rust's \<^verbatim>\<open>sort_by\<close> and \<^verbatim>\<open>sort_by_key\<close> are stable; a comparator that compares one key is
  \<open>sort_key\<close>. When no two elements have the same key the result does not depend on the
  order of the input, which is how the sources get a deterministic order out of hash maps.
\<close>

lemma sort_key_perm:
  assumes "mset xs = mset ys" and "inj_on f (set xs)"
  shows "sort_key f xs = sort_key f ys"
  using sort_key_inj_key_eq [of xs "sort_key f ys" f] assms by simp

section \<open>Hash maps as association lists\<close>

lemma map_of_filter_key:
  "map_of (filter (\<lambda>(k, _). P k) xs) = (\<lambda>k. if P k then map_of xs k else None)"
  by (induction xs) (auto simp: fun_eq_iff)

lemma distinct_map_fst_filter: "distinct (map fst xs) \<Longrightarrow> distinct (map fst (filter P xs))"
  by (induction xs) auto

lemma map_of_update: "map_of (AList.update k v al) k' = (if k' = k then Some v else map_of al k')"
  by (simp add: AList.update_conv')

lemma update_keeps:
  "(\<forall>p\<in>set al. P p) \<Longrightarrow> P (k, v) \<Longrightarrow> \<forall>p\<in>set (AList.update k v al). P p"
  by (induction al) auto

lemma set_AList_update: "set (AList.update k v al) \<subseteq> insert (k, v) (set al)"
  by (induction al) auto

lemma set_AList_delete: "set (AList.delete k al) \<subseteq> set al"
  by (auto simp: AList.delete_eq)

lemma map_of_perm:
  assumes "mset xs = mset ys" and "distinct (map fst xs)"
  shows "map_of xs = map_of ys"
proof -
  have "mset (map fst xs) = mset (map fst ys)" using assms(1) by simp
  then have "distinct (map fst ys)" using assms(2) mset_eq_imp_distinct_iff by blast
  then show ?thesis using assms mset_eq_setD by (intro map_of_inject_set [THEN iffD2]) auto
qed

end
