(* ===== verification/F32.thy ===== *)
theory F32
  imports Complex_Main "HOL-Library.Log_Nat"
begin

text \<open>
  Single-precision arithmetic as the Rust sources use it (type \<^verbatim>\<open>f32\<close>).
  A finite value is a real number; every arithmetic operation computes the exact result and
  rounds it to the nearest binary32 value, ties to even (IEEE 754, the rounding mode Rust
  guarantees for \<open>+ - * /\<close>). Gradual underflow is modelled (the exponent of the last place
  is never below \<open>-149\<close>); overflow to infinity, NaN and the sign of zero are not: no score
  of the program comes near \<open>2 ^ 128\<close>. The lemmas show that rounding is monotone,
  odd, idempotent and the identity on every representable value, which is all that the
  component proofs need.
\<close>

type_synonym f32 = real

section \<open>Rounding to an integer, ties to even\<close>

definition rhe :: "real \<Rightarrow> int" where
  "rhe y =
     (let f = \<lfloor>y\<rfloor>; d = y - of_int f
      in if d < 1 / 2 then f
         else if 1 / 2 < d then f + 1
         else if even f then f else f + 1)"

lemma rhe_lower: "\<lfloor>y\<rfloor> \<le> rhe y"
  by (simp add: rhe_def Let_def)

lemma rhe_upper: "rhe y \<le> \<lfloor>y\<rfloor> + 1"
  by (simp add: rhe_def Let_def)

lemma rhe_of_int [simp]: "rhe (of_int n) = n"
  by (simp add: rhe_def)

lemma rhe_mono: "x \<le> y \<Longrightarrow> rhe x \<le> rhe y"
proof (cases "\<lfloor>x\<rfloor> = \<lfloor>y\<rfloor>")
  case True
  assume "x \<le> y"
  with True show ?thesis by (auto simp: rhe_def Let_def)
next
  case False
  assume "x \<le> y"
  then have "\<lfloor>x\<rfloor> \<le> \<lfloor>y\<rfloor>" by (rule floor_mono)
  with False have "\<lfloor>x\<rfloor> + 1 \<le> \<lfloor>y\<rfloor>" by simp
  with rhe_upper [of x] rhe_lower [of y] show ?thesis by linarith
qed

lemma rhe_minus: "rhe (- y) = - rhe y"
proof (cases "y = of_int \<lfloor>y\<rfloor>")
  case True
  then have "rhe (- y) = rhe (of_int (- \<lfloor>y\<rfloor>))" by simp
  also have "\<dots> = - rhe (of_int \<lfloor>y\<rfloor>)" by (simp only: rhe_of_int)
  also have "\<dots> = - rhe y" using True by simp
  finally show ?thesis .
next
  case False
  then have fl: "\<lfloor>- y\<rfloor> = - \<lfloor>y\<rfloor> - 1"
    using floor_minus [of y] ceiling_altdef [of y] by simp
  show ?thesis
    unfolding rhe_def Let_def fl by simp
qed

section \<open>The binary exponent\<close>

text \<open>\<open>ilog2 x\<close> is \<open>\<lfloor>log 2 x\<rfloor>\<close> for a positive \<open>x\<close>, computed on integers.\<close>

definition ilog2 :: "real \<Rightarrow> int" where
  "ilog2 x =
     (if 1 \<le> x then int (floorlog 2 (nat \<lfloor>x\<rfloor>)) - 1
      else - int (floorlog 2 (nat (\<lceil>1 / x\<rceil> - 1))))"

lemma floorlog2_pow:
  assumes "0 < n"
  shows "\<exists>k. floorlog 2 n = Suc k \<and> 2 ^ k \<le> n \<and> n < 2 ^ Suc k"
proof -
  from floorlog_bounds [of n 2] assms
  have "2 ^ (floorlog 2 n - 1) \<le> n \<and> n < 2 ^ (floorlog 2 n)" by simp
  moreover have "floorlog 2 n \<noteq> 0"
    using assms by (simp add: floorlog_eq_zero_iff)
  ultimately show ?thesis by (intro exI [of _ "floorlog 2 n - 1"]) auto
qed

lemma ilog2_bounds:
  assumes "0 < x"
  shows "2 powi (ilog2 x) \<le> x" and "x < 2 powi (ilog2 x + 1)"
proof -
  have "2 powi (ilog2 x) \<le> x \<and> x < 2 powi (ilog2 x + 1)"
  proof (cases "1 \<le> x")
    case True
    then have n: "0 < nat \<lfloor>x\<rfloor>" by simp
    from floorlog2_pow [OF n] obtain k where k: "floorlog 2 (nat \<lfloor>x\<rfloor>) = Suc k"
      "2 ^ k \<le> nat \<lfloor>x\<rfloor>" "nat \<lfloor>x\<rfloor> < 2 ^ Suc k" by blast
    have lo: "(2::int) ^ k \<le> \<lfloor>x\<rfloor>" and hi: "\<lfloor>x\<rfloor> + 1 \<le> 2 ^ Suc k"
      using k(2,3) True by (simp_all add: le_nat_iff nat_less_iff)
    have "(2::real) ^ k \<le> x" using lo by (simp add: le_floor_iff)
    moreover have "x < (2::real) ^ Suc k"
    proof -
      have "x < of_int (\<lfloor>x\<rfloor> + 1)" by linarith
      also have "\<dots> \<le> of_int (2 ^ Suc k)" using hi by (simp only: of_int_le_iff)
      finally show ?thesis by simp
    qed
    moreover have "ilog2 x = int k" using True k(1) by (simp add: ilog2_def)
    moreover have "int k + 1 = int (Suc k)" by simp
    ultimately show ?thesis by (metis power_int_of_nat)
  next
    case False
    define y where "y = 1 / x"
    have y: "1 < y" using False assms by (simp add: y_def)
    then have c: "2 \<le> \<lceil>y\<rceil>" by (simp add: le_ceiling_iff)
    then have n: "0 < nat (\<lceil>y\<rceil> - 1)" by simp
    from floorlog2_pow [OF n] obtain k where k: "floorlog 2 (nat (\<lceil>y\<rceil> - 1)) = Suc k"
      "2 ^ k \<le> nat (\<lceil>y\<rceil> - 1)" "nat (\<lceil>y\<rceil> - 1) < 2 ^ Suc k" by blast
    have lo: "(2::int) ^ k \<le> \<lceil>y\<rceil> - 1" and hi: "\<lceil>y\<rceil> \<le> 2 ^ Suc k"
      using k(2,3) c by (simp_all add: le_nat_iff nat_less_iff)
    have ylo: "(2::real) ^ k < y"
    proof -
      have "(2::real) ^ k = of_int (2 ^ k)" by simp
      also have "\<dots> \<le> of_int (\<lceil>y\<rceil> - 1)" using lo by (simp only: of_int_le_iff)
      also have "\<dots> < y" by linarith
      finally show ?thesis .
    qed
    have yhi: "y \<le> (2::real) ^ Suc k"
    proof -
      have "y \<le> of_int \<lceil>y\<rceil>" by simp
      also have "\<dots> \<le> of_int (2 ^ Suc k)" using hi by (simp only: of_int_le_iff)
      finally show ?thesis by simp
    qed
    have e: "ilog2 x = - int (Suc k)" using False k(1) by (simp add: ilog2_def y_def)
    have "2 powi (ilog2 x) = (1 / 2 ^ Suc k :: real)"
      unfolding e by (simp add: power_int_minus divide_inverse del: power_Suc of_nat_Suc)
    moreover have "2 powi (ilog2 x + 1) = (1 / 2 ^ k :: real)"
      unfolding e by (simp add: power_int_minus divide_inverse)
    moreover have "1 / 2 ^ Suc k \<le> x"
      using yhi assms unfolding y_def by (simp add: field_simps)
    moreover have "x < 1 / 2 ^ k"
      using ylo assms unfolding y_def by (simp add: field_simps)
    ultimately show ?thesis by simp
  qed
  then show "2 powi (ilog2 x) \<le> x" and "x < 2 powi (ilog2 x + 1)" by simp_all
qed

lemma ilog2_mono:
  assumes "0 < x" and "x \<le> y"
  shows "ilog2 x \<le> ilog2 y"
proof (rule ccontr)
  assume "\<not> ilog2 x \<le> ilog2 y"
  then have "ilog2 y + 1 \<le> ilog2 x" by simp
  then have "(2::real) powi (ilog2 y + 1) \<le> 2 powi (ilog2 x)"
    by (intro power_int_increasing) simp_all
  moreover have "0 < y" using assms by simp
  ultimately show False using ilog2_bounds(1) [of x] ilog2_bounds(2) [of y] assms by simp
qed

lemma ilog2_unique:
  assumes "2 powi e \<le> x" and "x < 2 powi (e + 1)"
  shows "ilog2 x = e"
proof -
  have pos: "0 < x" using assms(1) zero_less_power_int [of "2::real" e] by linarith
  have "2 powi e < (2::real) powi (ilog2 x + 1)"
    using assms(1) ilog2_bounds(2) [OF pos] by linarith
  moreover have "2 powi (ilog2 x) < (2::real) powi (e + 1)"
    using assms(2) ilog2_bounds(1) [OF pos] by linarith
  ultimately have "\<not> ilog2 x + 1 \<le> e" and "\<not> e + 1 \<le> ilog2 x"
    using power_int_increasing [of "ilog2 x + 1" e "2::real"]
      power_int_increasing [of "e + 1" "ilog2 x" "2::real"] by auto
  then show ?thesis by simp
qed

section \<open>Rounding to binary32\<close>

definition ue :: "real \<Rightarrow> int" where
  "ue x = max (-149) (ilog2 \<bar>x\<bar> - 23)"

definition rnd32 :: "real \<Rightarrow> f32" where
  "rnd32 x = (if x = 0 then 0 else of_int (rhe (x / 2 powi ue x)) * 2 powi ue x)"

definition is_f32 :: "real \<Rightarrow> bool" where
  "is_f32 x \<longleftrightarrow> (\<exists>m e. \<bar>m\<bar> \<le> 2 ^ 24 \<and> -149 \<le> e \<and> x = of_int m * 2 powi e)"

lemma rnd32_zero [simp]: "rnd32 0 = 0"
  by (simp add: rnd32_def)

lemma ue_minus [simp]: "ue (- x) = ue x"
  by (simp add: ue_def)

lemma rnd32_minus: "rnd32 (- x) = - rnd32 x"
  by (simp add: rnd32_def rhe_minus)

lemma powi2_split: "(2::real) powi (a + b) = 2 powi a * 2 powi b"
  by (simp add: power_int_add)

lemma powi2_nat: "0 \<le> d \<Longrightarrow> (2::real) powi d = of_int (2 ^ nat d)"
  by (simp add: power_int_def)

lemma powi2_div: "(2::real) powi a / 2 powi b = 2 powi (a - b)"
  by (simp add: power_int_diff)

text \<open>A power of two at or above the last place of \<open>x\<close> bounds \<open>x\<close> exactly when it bounds its rounding.\<close>

lemma rnd32_le_powi2:
  assumes "0 < x" and "x \<le> 2 powi b" and "ue x \<le> b"
  shows "rnd32 x \<le> 2 powi b"
proof -
  have "x / 2 powi ue x \<le> 2 powi b / 2 powi ue x"
    using assms(2) by (intro divide_right_mono) simp_all
  also have "\<dots> = of_int (2 ^ nat (b - ue x))"
    using assms(3) by (simp only: powi2_div powi2_nat)
  finally have "rhe (x / 2 powi ue x) \<le> 2 ^ nat (b - ue x)"
    using rhe_mono rhe_of_int by metis
  then have "real_of_int (rhe (x / 2 powi ue x)) \<le> of_int (2 ^ nat (b - ue x))"
    by (simp only: of_int_le_iff)
  then have "real_of_int (rhe (x / 2 powi ue x)) * 2 powi ue x
      \<le> of_int (2 ^ nat (b - ue x)) * 2 powi ue x"
    by (intro mult_right_mono) simp_all
  also have "\<dots> = 2 powi b"
    using assms(3) powi2_nat [of "b - ue x"] powi2_split [of "b - ue x" "ue x"] by simp
  finally show ?thesis using assms(1) by (simp add: rnd32_def)
qed

lemma rnd32_ge_powi2:
  assumes "2 powi b \<le> x" and "ue x \<le> b"
  shows "2 powi b \<le> rnd32 x"
proof -
  have pos: "0 < x" using assms(1) zero_less_power_int [of "2::real" b] by linarith
  have "of_int (2 ^ nat (b - ue x)) = 2 powi b / (2 powi ue x :: real)"
    using assms(2) by (simp only: powi2_div powi2_nat)
  also have "\<dots> \<le> x / 2 powi ue x"
    using assms(1) by (intro divide_right_mono) simp_all
  finally have "2 ^ nat (b - ue x) \<le> rhe (x / 2 powi ue x)"
    using rhe_mono rhe_of_int by metis
  then have "real_of_int (2 ^ nat (b - ue x)) \<le> of_int (rhe (x / 2 powi ue x))"
    by (simp only: of_int_le_iff)
  then have "of_int (2 ^ nat (b - ue x)) * 2 powi ue x
      \<le> real_of_int (rhe (x / 2 powi ue x)) * 2 powi ue x"
    by (intro mult_right_mono) simp_all
  moreover have "of_int (2 ^ nat (b - ue x)) * 2 powi ue x = (2 powi b :: real)"
    using assms(2) powi2_nat [of "b - ue x"] powi2_split [of "b - ue x" "ue x"] by simp
  ultimately have "2 powi b \<le> real_of_int (rhe (x / 2 powi ue x)) * 2 powi ue x"
    by linarith
  then show ?thesis using pos by (simp add: rnd32_def)
qed

lemma rnd32_mono_pos:
  assumes "0 < x" and "x \<le> y"
  shows "rnd32 x \<le> rnd32 y"
proof (cases "ue x = ue y")
  case True
  have "rhe (x / 2 powi ue x) \<le> rhe (y / 2 powi ue x)"
    using assms(2) by (intro rhe_mono divide_right_mono) simp_all
  with True assms show ?thesis by (simp add: rnd32_def)
next
  case False
  have y: "0 < y" using assms by simp
  have "ilog2 x \<le> ilog2 y" by (rule ilog2_mono [OF assms])
  with False assms y have lt: "ilog2 x + 1 \<le> ilog2 y" and uey: "ue y = ilog2 y - 23"
    and uexy: "ue x < ue y" by (auto simp: ue_def max_def split: if_splits)
  have "x < 2 powi (ilog2 x + 1)" by (rule ilog2_bounds(2) [OF assms(1)])
  also have "(2::real) powi (ilog2 x + 1) \<le> 2 powi ilog2 y"
    using lt by (intro power_int_increasing) simp_all
  finally have "rnd32 x \<le> 2 powi ilog2 y"
    using uexy uey assms(1) by (intro rnd32_le_powi2) simp_all
  also have "\<dots> \<le> rnd32 y"
    using uey ilog2_bounds(1) [OF y] by (intro rnd32_ge_powi2) simp_all
  finally show ?thesis .
qed

lemma rnd32_nonneg: "0 \<le> x \<Longrightarrow> 0 \<le> rnd32 x"
proof (cases "x = 0")
  case False
  assume "0 \<le> x"
  with False have "0 \<le> x / 2 powi ue x" by simp
  then have "rhe (of_int 0) \<le> rhe (x / 2 powi ue x)" by (intro rhe_mono) simp
  then have "0 \<le> rhe (x / 2 powi ue x)" by (simp only: rhe_of_int)
  with False show ?thesis by (simp add: rnd32_def)
qed simp

lemma rnd32_mono: "x \<le> y \<Longrightarrow> rnd32 x \<le> rnd32 y"
proof -
  assume le: "x \<le> y"
  consider "0 < x" | "x \<le> 0" "0 \<le> y" | "y < 0" using le by linarith
  then show ?thesis
  proof cases
    case 1
    then show ?thesis using le by (rule rnd32_mono_pos)
  next
    case 2
    then show ?thesis
      using rnd32_nonneg [of y] rnd32_nonneg [of "- x"] by (simp add: rnd32_minus)
  next
    case 3
    then show ?thesis
      using rnd32_mono_pos [of "- y" "- x"] le by (simp add: rnd32_minus)
  qed
qed

section \<open>Representable values\<close>

lemma rnd32_id_pos:
  assumes x: "x = of_int m * 2 powi e" and m: "\<bar>m\<bar> \<le> 2 ^ 24" and e: "-149 \<le> e" and pos: "0 < x"
  shows "rnd32 x = x"
proof -
  have mpos: "0 < m"
  proof (rule ccontr)
    assume "\<not> 0 < m"
    then have "x \<le> 0" unfolding x by (intro mult_nonpos_nonneg) simp_all
    with pos show False by simp
  qed
  have "\<exists>n. x / 2 powi ue x = of_int n"
  proof (cases "ue x \<le> e")
    case True
    have "x / 2 powi ue x = of_int m * (2 powi e / 2 powi ue x)" using x by simp
    also have "\<dots> = of_int (m * 2 ^ nat (e - ue x))"
      using True by (simp only: powi2_div powi2_nat of_int_mult diff_ge_0_iff_ge)
    finally show ?thesis by blast
  next
    case False
    then have uex: "ue x = ilog2 x - 23" using e pos by (auto simp: ue_def max_def split: if_splits)
    have "real_of_int m \<le> 2 powi 24"
      using m mpos by simp
    then have "x \<le> 2 powi 24 * 2 powi e"
      unfolding x by (intro mult_right_mono) simp_all
    then have xle: "x \<le> 2 powi (24 + e)" by (simp only: powi2_split)
    have xge: "2 powi (24 + e) \<le> x"
    proof -
      have "24 + e \<le> ilog2 x" using uex False by simp
      then have "(2::real) powi (24 + e) \<le> 2 powi ilog2 x"
        by (intro power_int_increasing) simp_all
      then show ?thesis using ilog2_bounds(1) [OF pos] by simp
    qed
    with xle have xeq: "x = 2 powi (24 + e)" by simp
    then have "ilog2 x = 24 + e" by (intro ilog2_unique) (simp_all add: power_int_add)
    then have "x / 2 powi ue x = 2 powi 23"
      using xeq uex by (simp only: powi2_div) simp
    also have "\<dots> = of_int (2 ^ 23)" by simp
    finally show ?thesis by blast
  qed
  then obtain n where n: "x / 2 powi ue x = of_int n" by blast
  then have "rnd32 x = of_int n * 2 powi ue x" using pos by (simp add: rnd32_def)
  also have "\<dots> = x" using n by (simp add: field_simps)
  finally show ?thesis .
qed

lemma rnd32_id: "is_f32 x \<Longrightarrow> rnd32 x = x"
proof -
  assume "is_f32 x"
  then obtain m e where me: "\<bar>m\<bar> \<le> 2 ^ 24" "-149 \<le> e" "x = of_int m * 2 powi e"
    by (auto simp: is_f32_def)
  consider "x = 0" | "0 < x" | "0 < - x" by linarith
  then show ?thesis
  proof cases
    case 1
    then show ?thesis by simp
  next
    case 2
    with me show ?thesis by (intro rnd32_id_pos [of x m e])
  next
    case 3
    have "rnd32 (- x) = - x"
      using me 3 by (intro rnd32_id_pos [of "- x" "- m" e]) simp_all
    then show ?thesis by (simp add: rnd32_minus)
  qed
qed

lemma is_f32_of_int [simp]: "\<bar>n\<bar> \<le> 2 ^ 24 \<Longrightarrow> is_f32 (of_int n)"
  unfolding is_f32_def by (intro exI [of _ n] exI [of _ 0]) simp

lemma rnd32_of_int: "\<bar>n\<bar> \<le> 2 ^ 24 \<Longrightarrow> rnd32 (of_int n) = of_int n"
  by (intro rnd32_id is_f32_of_int)

lemma rnd32_of_nat: "n \<le> 2 ^ 24 \<Longrightarrow> rnd32 (of_nat n) = of_nat n"
  using rnd32_of_int [of "int n"] by simp

lemma rnd32_one [simp]: "rnd32 1 = 1"
  using rnd32_of_nat [of 1] by simp

lemma rnd32_abs_le:
  "\<bar>rhe (x / 2 powi ue x)\<bar> \<le> 2 ^ 24"
proof (cases "x = 0")
  case True
  have "rhe (of_int 0) = 0" by (rule rhe_of_int)
  with True show ?thesis by simp
next
  case False
  have "\<bar>x\<bar> < 2 powi (ilog2 \<bar>x\<bar> + 1)" using False by (intro ilog2_bounds) simp
  also have "(2::real) powi (ilog2 \<bar>x\<bar> + 1) \<le> 2 powi (ue x + 24)"
    by (intro power_int_increasing) (simp_all add: ue_def)
  finally have "\<bar>x\<bar> \<le> 2 powi 24 * 2 powi ue x" by (simp add: powi2_split)
  then have "\<bar>x / 2 powi ue x\<bar> \<le> of_int (2 ^ 24)"
    by (simp add: divide_le_eq abs_divide)
  then have "x / 2 powi ue x \<le> of_int (2 ^ 24)" and "of_int (- (2 ^ 24)) \<le> x / 2 powi ue x"
    by (simp_all only: abs_le_iff) simp
  then have "rhe (x / 2 powi ue x) \<le> 2 ^ 24" and "- (2 ^ 24) \<le> rhe (x / 2 powi ue x)"
    using rhe_mono rhe_of_int by metis+
  then show ?thesis by simp
qed

lemma is_f32_rnd32 [simp]: "is_f32 (rnd32 x)"
proof (cases "x = 0")
  case True
  then show ?thesis using is_f32_of_int [of 0] by simp
next
  case False
  then show ?thesis
    unfolding is_f32_def
    using rnd32_abs_le [of x]
    by (intro exI [of _ "rhe (x / 2 powi ue x)"] exI [of _ "ue x"] conjI)
      (simp_all add: rnd32_def, simp add: ue_def)
qed

lemma rnd32_idem [simp]: "rnd32 (rnd32 x) = rnd32 x"
  by (intro rnd32_id) simp

text \<open>
  Rounding never crosses a representable value: the two rules with which the component
  proofs bound a rounded result.
\<close>

lemma rnd32_le_f32: "is_f32 b \<Longrightarrow> x \<le> b \<Longrightarrow> rnd32 x \<le> b"
  using rnd32_mono [of x b] rnd32_id [of b] by simp

lemma rnd32_ge_f32: "is_f32 b \<Longrightarrow> b \<le> x \<Longrightarrow> b \<le> rnd32 x"
  using rnd32_mono [of b x] rnd32_id [of b] by simp

text \<open>In the normal range the relative rounding error is at most \<open>2 powi -24\<close>.\<close>

lemma rhe_error: "\<bar>of_int (rhe y) - y\<bar> \<le> 1 / 2"
  unfolding rhe_def Let_def by (simp add: abs_le_iff)

lemma rnd32_rel_error:
  assumes "2 powi (-126) \<le> x"
  shows "\<bar>rnd32 x - x\<bar> \<le> x * 2 powi (-24)"
proof -
  have pos: "0 < x" using assms zero_less_power_int [of "2::real" "-126"] by linarith
  have "-126 \<le> ilog2 x"
  proof (rule ccontr)
    assume "\<not> -126 \<le> ilog2 x"
    then have "(2::real) powi (ilog2 x + 1) \<le> 2 powi (-126)"
      by (intro power_int_increasing) simp_all
    then show False using ilog2_bounds(2) [OF pos] assms by linarith
  qed
  then have ue: "ue x = ilog2 x - 23" using pos by (simp add: ue_def)
  have "rnd32 x - x = (of_int (rhe (x / 2 powi ue x)) - x / 2 powi ue x) * 2 powi ue x"
    using pos by (simp add: rnd32_def field_simps)
  then have "\<bar>rnd32 x - x\<bar> \<le> 1 / 2 * 2 powi ue x"
    using mult_right_mono [OF rhe_error [of "x / 2 powi ue x"], of "2 powi ue x"]
    by (simp add: abs_mult)
  also have "\<dots> = 2 powi (ilog2 x) * 2 powi (-24)"
    using powi2_split [of "-1" "ue x"] powi2_split [of "ilog2 x" "-24"] by (simp add: ue power_int_minus)
  also have "\<dots> \<le> x * 2 powi (-24)"
    using ilog2_bounds(1) [OF pos] by (intro mult_right_mono) simp_all
  finally show ?thesis .
qed

lemma rnd32_strict:
  assumes "2 powi (-126) \<le> x" and "x * (1 + 2 powi (-22)) \<le> y"
  shows "rnd32 x < rnd32 y"
proof -
  have pos: "0 < x" using assms(1) zero_less_power_int [of "2::real" "-126"] by linarith
  have xy: "x \<le> y" using assms(2) pos mult_left_mono [of 1 "1 + 2 powi (-22)" x] by simp
  have ex: "rnd32 x \<le> x * (1 + 2 powi (-24))"
    using rnd32_rel_error [OF assms(1)] unfolding distrib_left abs_le_iff by linarith
  have ey: "y * (1 - 2 powi (-24)) \<le> rnd32 y"
    using rnd32_rel_error [of y] assms(1) xy unfolding right_diff_distrib abs_le_iff by linarith
  have "(1 + 2 powi (-24)) < (1 + 2 powi (-22)) * (1 - 2 powi (-24 :: int) :: real)"
    by (simp add: power_int_minus)
  then have "x * (1 + 2 powi (-24)) < x * ((1 + 2 powi (-22)) * (1 - 2 powi (-24)))"
    using pos by (rule mult_strict_left_mono)
  also have "\<dots> \<le> y * (1 - 2 powi (-24))"
    using mult_right_mono [OF assms(2), of "1 - 2 powi (-24)"] by (simp add: power_int_minus mult.assoc)
  finally show ?thesis using ex ey by linarith
qed

section \<open>The arithmetic operations\<close>

definition f32_add :: "f32 \<Rightarrow> f32 \<Rightarrow> f32" where
  "f32_add a b = rnd32 (a + b)"

definition f32_sub :: "f32 \<Rightarrow> f32 \<Rightarrow> f32" where
  "f32_sub a b = rnd32 (a - b)"

definition f32_mul :: "f32 \<Rightarrow> f32 \<Rightarrow> f32" where
  "f32_mul a b = rnd32 (a * b)"

definition f32_div :: "f32 \<Rightarrow> f32 \<Rightarrow> f32" where
  "f32_div a b = rnd32 (a / b)"

text \<open>\<^verbatim>\<open>Iterator::sum\<close> for \<^verbatim>\<open>f32\<close>: a left fold from zero.\<close>

definition f32_sum :: "f32 list \<Rightarrow> f32" where
  "f32_sum xs = foldl f32_add 0 xs"

lemma f32_add_mono: "a \<le> c \<Longrightarrow> b \<le> d \<Longrightarrow> f32_add a b \<le> f32_add c d"
  by (simp add: f32_add_def rnd32_mono)

lemma f32_mul_mono: "0 \<le> a \<Longrightarrow> 0 \<le> b \<Longrightarrow> a \<le> c \<Longrightarrow> b \<le> d \<Longrightarrow> f32_mul a b \<le> f32_mul c d"
  by (simp add: f32_mul_def rnd32_mono mult_mono)

lemma f32_add_nonneg: "0 \<le> a \<Longrightarrow> 0 \<le> b \<Longrightarrow> 0 \<le> f32_add a b"
  by (simp add: f32_add_def rnd32_nonneg)

lemma f32_mul_nonneg: "0 \<le> a \<Longrightarrow> 0 \<le> b \<Longrightarrow> 0 \<le> f32_mul a b"
  by (simp add: f32_mul_def rnd32_nonneg)

lemma f32_div_nonneg: "0 \<le> a \<Longrightarrow> 0 \<le> b \<Longrightarrow> 0 \<le> f32_div a b"
  by (simp add: f32_div_def rnd32_nonneg)

lemma f32_fold_nonneg: "0 \<le> a \<Longrightarrow> \<forall>x\<in>set xs. 0 \<le> x \<Longrightarrow> 0 \<le> foldl f32_add a xs"
  by (induction xs arbitrary: a) (simp_all add: f32_add_nonneg)

lemma f32_sum_nonneg: "\<forall>x\<in>set xs. 0 \<le> x \<Longrightarrow> 0 \<le> f32_sum xs"
  by (simp add: f32_sum_def f32_fold_nonneg)

lemma f32_fold_le_nat:
  "a \<le> of_nat n \<Longrightarrow> \<forall>x\<in>set xs. x \<le> 1 \<Longrightarrow> n + length xs \<le> 2 ^ 24
   \<Longrightarrow> foldl f32_add a xs \<le> of_nat (n + length xs)"
proof (induction xs arbitrary: a n)
  case (Cons x xs)
  have "f32_add a x \<le> rnd32 (of_nat (Suc n))"
    unfolding f32_add_def using Cons.prems(1,2) by (intro rnd32_mono) simp
  also have "\<dots> = of_nat (Suc n)" using Cons.prems(3) by (intro rnd32_of_nat) simp
  finally show ?case using Cons.IH [of "f32_add a x" "Suc n"] Cons.prems by simp
qed simp

text \<open>A sum of at most \<open>2 ^ 24\<close> terms of at most one is at most their number, rounding included.\<close>

lemma f32_sum_le_length:
  "\<forall>x\<in>set xs. x \<le> 1 \<Longrightarrow> length xs \<le> 2 ^ 24 \<Longrightarrow> f32_sum xs \<le> of_nat (length xs)"
  using f32_fold_le_nat [of 0 0 xs] by (simp add: f32_sum_def)

end
