(* ===== verification/Core_Types.thy ===== *)
theory Core_Types
  imports Prelude F32
begin

text \<open>
  The shared data model of \<^verbatim>\<open>crates/lixun-core/src/lib.rs\<close>: categories, actions, hits, score
  breakdowns, documents and the ranking configuration. Field names carry the prefix of
  their struct because Isabelle record selectors are global constants. Serde attributes
  only affect the wire format and are not part of the model.
\<close>

datatype category = App | File | Mail | Attachment | Calculator | Shell

type_synonym doc_id = rstring
type_synonym path = rstring

datatype action =
    Launch "rstring list" bool "rstring option" "path option" "path option"
  | OpenFile path
  | ShowInFileManager path
  | OpenEmbedded path nat nat rstring rstring rstring
  | ReplaceQuery rstring
  | Exec "rstring list" "path option" bool
  | ExecCapture "rstring list" "path option"
  | OpenUri rstring
  | CopyText rstring

datatype row_menu_verb =
    VOpen | VSecondary | VCopy | VQuickLook | VInfo | VOpenWith | VHideFromResults | VResetRanking

datatype row_menu_visibility = Always | RequiresSecondaryAction

record row_menu_item =
  rmi_label :: rstring
  rmi_verb :: row_menu_verb
  rmi_visibility :: row_menu_visibility

type_synonym row_menu_def = "row_menu_item list"

record hit =
  hit_id :: doc_id
  hit_category :: category
  hit_title :: rstring
  hit_subtitle :: rstring
  hit_icon_name :: "rstring option"
  hit_kind_label :: "rstring option"
  hit_score :: f32
  hit_action :: action
  hit_extract_fail :: bool
  hit_sender :: "rstring option"
  hit_recipients :: "rstring option"
  hit_body :: "rstring option"
  hit_secondary_action :: "action option"
  hit_source_instance :: rstring
  hit_row_menu :: row_menu_def
  hit_mime :: "rstring option"
  hit_timestamp :: "int option"
  hit_size :: "nat option"

record score_breakdown =
  bd_tantivy :: f32
  bd_category_mult :: f32
  bd_exact_title_mult :: f32
  bd_prefix_mult :: f32
  bd_acronym_mult :: f32
  bd_recency_mult :: f32
  bd_coord_mult :: f32
  bd_frecency_mult :: f32
  bd_latch_mult :: f32
  bd_stage2_clamped :: f32
  bd_final_score :: f32
  bd_lexical_fallback :: bool

type_synonym scored_hit = "hit \<times> score_breakdown"

record calculation =
  calc_expr :: rstring
  calc_result :: rstring

datatype plugin_value = PText rstring | PI64 int | PU64 nat | PBool bool

record document =
  doc_id :: doc_id
  doc_category :: category
  doc_title :: rstring
  doc_subtitle :: rstring
  doc_icon_name :: "rstring option"
  doc_kind_label :: "rstring option"
  doc_body :: "rstring option"
  doc_path :: rstring
  doc_mtime :: int
  doc_size :: nat
  doc_action :: action
  doc_extract_fail :: bool
  doc_sender :: "rstring option"
  doc_recipients :: "rstring option"
  doc_source_instance :: rstring
  doc_extra :: "(rstring \<times> plugin_value) list"
  doc_secondary_action :: "action option"
  doc_mime :: "rstring option"

record query =
  q_text :: rstring
  q_limit :: nat

record ranking_config =
  rc_apps :: f32
  rc_files :: f32
  rc_mail :: f32
  rc_attachments :: f32
  rc_prefix_boost :: f32
  rc_acronym_boost :: f32
  rc_exact_title_boost :: f32
  rc_recency_weight :: f32
  rc_recency_tau_days :: f32
  rc_frecency_alpha :: f32
  rc_latch_weight :: f32
  rc_latch_cap :: f32
  rc_total_multiplier_cap :: f32
  rc_top_hit_min_confidence :: f32
  rc_top_hit_min_margin :: f32
  rc_strong_latch_threshold :: nat
  rc_proximity_slop :: nat
  rc_proximity_boost :: f32
  rc_coordination_boost :: f32
  rc_coordination_delta :: f32
  rc_query_prefix_boost :: f32

text \<open>A decimal literal of type \<^verbatim>\<open>f32\<close> denotes the nearest binary32 value.\<close>

definition ranking_default :: ranking_config where
  "ranking_default = \<lparr>
     rc_apps = rnd32 (13 / 10), rc_files = rnd32 (12 / 10), rc_mail = 1,
     rc_attachments = rnd32 (9 / 10), rc_prefix_boost = rnd32 (14 / 10),
     rc_acronym_boost = rnd32 (125 / 100), rc_exact_title_boost = 4,
     rc_recency_weight = rnd32 (2 / 10), rc_recency_tau_days = 30,
     rc_frecency_alpha = rnd32 (1 / 10), rc_latch_weight = rnd32 (5 / 10), rc_latch_cap = 3,
     rc_total_multiplier_cap = 6, rc_top_hit_min_confidence = rnd32 (6 / 10),
     rc_top_hit_min_margin = rnd32 (13 / 10), rc_strong_latch_threshold = 3,
     rc_proximity_slop = 2, rc_proximity_boost = rnd32 (18 / 10),
     rc_coordination_boost = rnd32 (12 / 10), rc_coordination_delta = rnd32 (5 / 10),
     rc_query_prefix_boost = rnd32 (25 / 10)\<rparr>"

definition multiplier_for :: "ranking_config \<Rightarrow> category \<Rightarrow> f32" where
  "multiplier_for c cat =
     (case cat of
        App \<Rightarrow> rc_apps c
      | File \<Rightarrow> rc_files c
      | Mail \<Rightarrow> rc_mail c
      | Attachment \<Rightarrow> rc_attachments c
      | Calculator \<Rightarrow> 1
      | Shell \<Rightarrow> 1)"

definition row_menu_empty :: row_menu_def where
  "row_menu_empty = []"

text \<open>Records of the hits and breakdowns used by concrete examples.\<close>

definition hit_named :: "rstring \<Rightarrow> rstring \<Rightarrow> f32 \<Rightarrow> hit" where
  "hit_named i t s = \<lparr>
     hit_id = i, hit_category = App, hit_title = t, hit_subtitle = [], hit_icon_name = None,
     hit_kind_label = None, hit_score = s, hit_action = ReplaceQuery [], hit_extract_fail = False,
     hit_sender = None, hit_recipients = None, hit_body = None, hit_secondary_action = None,
     hit_source_instance = [], hit_row_menu = row_menu_empty, hit_mime = None,
     hit_timestamp = None, hit_size = None\<rparr>"

definition breakdown_default :: score_breakdown where
  "breakdown_default = \<lparr>
     bd_tantivy = 0, bd_category_mult = 0, bd_exact_title_mult = 0, bd_prefix_mult = 0,
     bd_acronym_mult = 0, bd_recency_mult = 0, bd_coord_mult = 0, bd_frecency_mult = 0,
     bd_latch_mult = 0, bd_stage2_clamped = 0, bd_final_score = 0, bd_lexical_fallback = False\<rparr>"

end
