(* ===== verification/Text_Match.thy ===== *)
theory Text_Match
  imports Core_Types
begin

text \<open>
  Query and title text processing of \<^verbatim>\<open>crates/lixun-index/src\<close>: \<^verbatim>\<open>normalize.rs\<close>, the identifier
  splitter of \<^verbatim>\<open>tokenizer.rs\<close> and the stage-1 multipliers of \<^verbatim>\<open>scoring.rs\<close>.

  The Unicode tables behind \<^verbatim>\<open>to_lowercase\<close>, \<^verbatim>\<open>is_uppercase\<close>, \<^verbatim>\<open>is_alphabetic\<close> and the NFKD
  decomposition (crate \<^verbatim>\<open>unicode-normalization\<close>) are data the repository does not contain:
  they are the fields of a record \<open>unicode\<close>, an argument of every definition that consults
  them. \<open>ascii_unicode\<close> is the instance that is right on ASCII text. The exponential is an
  argument too: Rust leaves the precision of \<^verbatim>\<open>f32::exp\<close> unspecified.
\<close>

record unicode =
  u_nfkd :: "rstring \<Rightarrow> rstring"
  u_str_lower :: "rstring \<Rightarrow> rstring"
  u_char_lower :: "rchar \<Rightarrow> rstring"
  u_is_lower :: "rchar \<Rightarrow> bool"
  u_is_upper :: "rchar \<Rightarrow> bool"
  u_is_alpha :: "rchar \<Rightarrow> bool"

definition ascii_unicode :: unicode where
  "ascii_unicode = \<lparr>
     u_nfkd = (\<lambda>s. s), u_str_lower = to_ascii_lowercase, u_char_lower = (\<lambda>c. [to_ascii_lower c]),
     u_is_lower = (\<lambda>c. 97 \<le> c \<and> c \<le> 122), u_is_upper = (\<lambda>c. 65 \<le> c \<and> c \<le> 90),
     u_is_alpha = is_ascii_alphabetic\<rparr>"

section \<open>Normalisation\<close>

definition is_combining_mark :: "rchar \<Rightarrow> bool" where
  "is_combining_mark c \<longleftrightarrow> 768 \<le> c \<and> c \<le> 879"

fun collapse_ws :: "bool \<Rightarrow> rstring \<Rightarrow> rstring" where
  "collapse_ws prev_was_whitespace [] = []"
| "collapse_ws prev_was_whitespace (c # cs) =
     (if is_whitespace c
      then (if prev_was_whitespace then collapse_ws True cs else 32 # collapse_ws True cs)
      else c # collapse_ws False cs)"

definition collapse_whitespace :: "rstring \<Rightarrow> rstring" where
  "collapse_whitespace s = collapse_ws False s"

definition normalize_for_match :: "unicode \<Rightarrow> rstring \<Rightarrow> rstring" where
  "normalize_for_match u q =
     (let decomposed = u_nfkd u q;
          filtered = u_str_lower u (filter (\<lambda>c. \<not> is_combining_mark c) decomposed);
          trimmed = trim filtered
      in collapse_whitespace trimmed)"

definition is_operator :: "rchar \<Rightarrow> bool" where
  "is_operator c \<longleftrightarrow> c = ch CHR ''-'' \<or> c = ch CHR ''+'' \<or> c = 34"

definition normalize_for_latch_key :: "unicode \<Rightarrow> rstring \<Rightarrow> rstring" where
  "normalize_for_latch_key u q =
     (let normalized = normalize_for_match u q;
          without_leading = trim_start_matches is_operator normalized;
          without_trailing = trim_end_matches is_operator without_leading
      in filter (\<lambda>c. c \<noteq> 34) without_trailing)"

section \<open>Identifier splitting\<close>

definition starts_new_word :: "unicode \<Rightarrow> rchar \<Rightarrow> rstring \<Rightarrow> bool" where
  "starts_new_word u previous rest \<longleftrightarrow>
     u_is_lower u previous \<or> is_ascii_digit previous
     \<or> (u_is_upper u previous \<and> (case rest of [] \<Rightarrow> False | n # _ \<Rightarrow> u_is_lower u n))"

definition ends_with_space :: "rstring \<Rightarrow> bool" where
  "ends_with_space s \<longleftrightarrow> s \<noteq> [] \<and> last s = 32"

fun split_ident_loop :: "unicode \<Rightarrow> rchar option \<Rightarrow> rstring \<Rightarrow> rstring \<Rightarrow> rstring" where
  "split_ident_loop u previous out [] = out"
| "split_ident_loop u previous out (c # cs) =
     (if c = ch CHR ''_'' \<or> c = ch CHR ''-'' then split_ident_loop u (Some c) (out @ [32]) cs
      else if is_whitespace c then split_ident_loop u (Some c) (out @ [32]) cs
      else
        (let brk = (case previous of
                      None \<Rightarrow> False
                    | Some p \<Rightarrow> u_is_upper u c \<and> starts_new_word u p cs \<and> \<not> ends_with_space out)
         in split_ident_loop u (Some c) (out @ (if brk then [32] else []) @ [c]) cs))"

definition split_identifiers :: "unicode \<Rightarrow> rstring \<Rightarrow> rstring" where
  "split_identifiers u input =
     join [32] (map (u_str_lower u) (split_whitespace (split_ident_loop u None [] input)))"

section \<open>Stage-1 multipliers\<close>

definition prefix_mult :: "rstring \<Rightarrow> rstring \<Rightarrow> f32 \<Rightarrow> f32" where
  "prefix_mult title_norm q_norm weight =
     (if q_norm = [] then 1 else if starts_with title_norm q_norm then weight else 1)"

definition exact_title_mult :: "rstring \<Rightarrow> rstring \<Rightarrow> f32 \<Rightarrow> f32" where
  "exact_title_mult title_norm q_norm weight =
     (if q_norm = [] then 1 else if title_norm = q_norm then weight else 1)"

definition is_separator :: "rchar \<Rightarrow> bool" where
  "is_separator c \<longleftrightarrow>
     is_whitespace c \<or> c = ch CHR ''_'' \<or> c = ch CHR ''-'' \<or> c = ch CHR ''.'' \<or> c = ch CHR ''/''"

definition starts_subword :: "unicode \<Rightarrow> rchar option \<Rightarrow> rchar \<Rightarrow> rstring \<Rightarrow> bool" where
  "starts_subword u previous c rest =
     (case previous of
        None \<Rightarrow> True
      | Some p \<Rightarrow>
          (u_is_alpha u p \<and> u_is_lower u p \<and> u_is_upper u c)
          \<or> (u_is_alpha u p \<and> u_is_upper u c
             \<and> (case rest of [] \<Rightarrow> False | n # _ \<Rightarrow> u_is_alpha u n \<and> u_is_lower u n)))"

fun push_word_initials :: "unicode \<Rightarrow> rchar option \<Rightarrow> rstring \<Rightarrow> rstring \<Rightarrow> rstring" where
  "push_word_initials u previous [] initials = initials"
| "push_word_initials u previous (c # cs) initials =
     push_word_initials u (Some c) cs
       (if u_is_alpha u c \<and> starts_subword u previous c cs then initials @ u_char_lower u c
        else initials)"

text \<open>The word being read (\<^verbatim>\<open>title[start..idx]\<close>); the empty list is \<^verbatim>\<open>word_start = None\<close>.\<close>

fun acronym_loop :: "unicode \<Rightarrow> rstring \<Rightarrow> rstring \<Rightarrow> rstring \<Rightarrow> rstring" where
  "acronym_loop u word initials [] =
     (if word = [] then initials else push_word_initials u None word initials)"
| "acronym_loop u word initials (c # cs) =
     (if is_separator c
      then acronym_loop u []
             (if word = [] then initials else push_word_initials u None word initials) cs
      else acronym_loop u (word @ [c]) initials cs)"

definition acronym_initials :: "unicode \<Rightarrow> rstring \<Rightarrow> rstring" where
  "acronym_initials u title = acronym_loop u [] [] title"

definition acronym_mult :: "unicode \<Rightarrow> rstring \<Rightarrow> rstring \<Rightarrow> f32 \<Rightarrow> f32" where
  "acronym_mult u title q_norm weight =
     (if q_norm = [] then 1
      else if starts_with (normalize_for_match u (acronym_initials u title)) q_norm then weight
      else 1)"

text \<open>The \<^verbatim>\<open>assert!(tau_days > 0.0)\<close> panics: \<open>None\<close>.\<close>

definition recency_mult ::
  "(real \<Rightarrow> f32) \<Rightarrow> category \<Rightarrow> int \<Rightarrow> int \<Rightarrow> f32 \<Rightarrow> f32 \<Rightarrow> f32 option" where
  "recency_mult exp32 category mtime_secs now_secs weight tau_days =
     (if category \<noteq> File \<and> category \<noteq> Mail then Some 1
      else if tau_days \<le> 0 then None
      else
        (let age_days = f32_div (rnd32 (of_int (max (wrap_i64 (now_secs - mtime_secs)) 0))) 86400
         in Some (f32_add 1 (f32_mul weight (exp32 (f32_div (- age_days) tau_days))))))"

definition acronym_initials_indexed :: "unicode \<Rightarrow> rstring \<Rightarrow> rstring" where
  "acronym_initials_indexed u title =
     (let per_word = filter (\<lambda>s. s \<noteq> [])
            (map (acronym_initials u) (split_whitespace (split_identifiers u title)));
          concatenated = acronym_initials u title;
          out = join [32] per_word
      in if concatenated \<noteq> [] \<and> concatenated \<notin> set (split_whitespace out)
         then (if out \<noteq> [] then out @ [32] else out) @ concatenated
         else out)"

section \<open>Lemmas on normalisation\<close>

text \<open>Whitespace in canonical form: single ASCII spaces, none at either end.\<close>

fun single_spaced :: "rstring \<Rightarrow> bool" where
  "single_spaced [] = True"
| "single_spaced [c] = (is_whitespace c \<longrightarrow> c = 32)"
| "single_spaced (c # d # s) =
     ((is_whitespace c \<longrightarrow> c = 32 \<and> \<not> is_whitespace d) \<and> single_spaced (d # s))"

lemma is_whitespace_space [simp]: "is_whitespace 32"
  by (simp add: is_whitespace_def)

lemma collapse_ws_True_hd: "collapse_ws True s \<noteq> [] \<Longrightarrow> \<not> is_whitespace (hd (collapse_ws True s))"
  by (induction s) auto

lemma single_spaced_Cons:
  "single_spaced (c # s) \<longleftrightarrow>
     (is_whitespace c \<longrightarrow> c = 32 \<and> (s \<noteq> [] \<longrightarrow> \<not> is_whitespace (hd s))) \<and> single_spaced s"
  by (cases s) auto

lemma single_spaced_collapse_ws: "single_spaced (collapse_ws b s)"
proof (induction s arbitrary: b)
  case (Cons c s)
  have "collapse_ws True s \<noteq> [] \<Longrightarrow> \<not> is_whitespace (hd (collapse_ws True s))"
    by (rule collapse_ws_True_hd)
  with Cons.IH show ?case by (auto simp: single_spaced_Cons)
qed simp

lemma collapse_ws_hd:
  "s \<noteq> [] \<Longrightarrow> \<not> is_whitespace (hd s) \<Longrightarrow> collapse_ws b s \<noteq> [] \<and> hd (collapse_ws b s) = hd s"
  by (cases s) auto

lemma collapse_ws_last:
  "s \<noteq> [] \<Longrightarrow> \<not> is_whitespace (last s) \<Longrightarrow>
     collapse_ws b s \<noteq> [] \<and> last (collapse_ws b s) = last s"
proof (induction s arbitrary: b)
  case (Cons c s)
  then show ?case by (cases "s = []") auto
qed simp

lemma trimmed_collapse: "trimmed s \<Longrightarrow> trimmed (collapse_whitespace s)"
  using collapse_ws_hd [of s False] collapse_ws_last [of s False]
  by (cases "s = []") (auto simp: trimmed_def collapse_whitespace_def)

lemma normalize_canonical:
  "trimmed (normalize_for_match u q) \<and> single_spaced (normalize_for_match u q)"
  by (simp add: normalize_for_match_def Let_def trimmed_collapse collapse_whitespace_def
      single_spaced_collapse_ws flip: collapse_whitespace_def)
    (simp add: collapse_whitespace_def single_spaced_collapse_ws)

lemma collapse_ws_id:
  "single_spaced s \<Longrightarrow> (b \<longrightarrow> s = [] \<or> \<not> is_whitespace (hd s)) \<Longrightarrow> collapse_ws b s = s"
  by (induction s arbitrary: b) (auto simp: single_spaced_Cons)

lemma collapse_whitespace_idem:
  "collapse_whitespace (collapse_whitespace s) = collapse_whitespace s"
  by (simp add: collapse_whitespace_def collapse_ws_id single_spaced_collapse_ws)

lemma latch_key_no_quote: "34 \<notin> set (normalize_for_latch_key u q)"
  by (simp add: normalize_for_latch_key_def Let_def)

lemma filter_hd: "s \<noteq> [] \<Longrightarrow> P (hd s) \<Longrightarrow> filter P s \<noteq> [] \<and> hd (filter P s) = hd s"
  by (cases s) auto

lemma filter_last: "s \<noteq> [] \<Longrightarrow> P (last s) \<Longrightarrow> last (filter P s) = last s"
  by (cases s rule: rev_cases) auto

lemma latch_key_ends:
  assumes "normalize_for_latch_key u q \<noteq> []"
  shows "\<not> is_operator (hd (normalize_for_latch_key u q))
    \<and> \<not> is_operator (last (normalize_for_latch_key u q))"
proof -
  define a where "a = trim_start_matches is_operator (normalize_for_match u q)"
  define b where "b = trim_end_matches is_operator a"
  have key: "normalize_for_latch_key u q = filter (\<lambda>c. c \<noteq> 34) b"
    by (simp add: normalize_for_latch_key_def Let_def a_def b_def)
  with assms have b: "b \<noteq> []" by auto
  then have a: "a \<noteq> []" by (auto simp: b_def trim_end_matches_def)
  have hdb: "hd b = hd a" unfolding b_def by (rule hd_trim_end_matches) (use b b_def in simp)
  have h: "\<not> is_operator (hd b)" unfolding hdb
    using a unfolding a_def by (rule hd_trim_start_matches)
  have l: "\<not> is_operator (last b)"
    using b unfolding b_def by (rule last_trim_end_matches)
  from h l have "hd b \<noteq> 34" "last b \<noteq> 34" by (auto simp: is_operator_def)
  with b h l show ?thesis unfolding key
    using filter_hd [of b "\<lambda>c. c \<noteq> 34"] filter_last [of b "\<lambda>c. c \<noteq> 34"] by simp
qed

section \<open>Lemmas on identifier splitting\<close>

definition is_ident_sep :: "rchar \<Rightarrow> bool" where
  "is_ident_sep c \<longleftrightarrow> c = ch CHR ''_'' \<or> c = ch CHR ''-'' \<or> is_whitespace c"

text \<open>
  The loop only inserts spaces and turns separators into spaces: every other character
  survives, in order.
\<close>

lemma split_ident_loop_keeps:
  "filter (\<lambda>c. \<not> is_whitespace c) (split_ident_loop u p out s)
   = filter (\<lambda>c. \<not> is_whitespace c) out @ filter (\<lambda>c. \<not> is_ident_sep c) s"
proof (induction s arbitrary: p out)
  case (Cons c s)
  then show ?case by (auto simp: Let_def is_ident_sep_def split: option.split)
qed simp

lemma split_identifiers_words:
  "concat (split_whitespace (split_ident_loop u None [] s)) = filter (\<lambda>c. \<not> is_ident_sep c) s"
  by (simp add: split_whitespace_concat split_ident_loop_keeps)

section \<open>Lemmas on acronyms\<close>

text \<open>Reference definition: the words between separators, and the initials of one word.\<close>

fun sep_words :: "rstring \<Rightarrow> rstring \<Rightarrow> rstring list" where
  "sep_words w [] = (if w = [] then [] else [w])"
| "sep_words w (c # cs) =
     (if is_separator c then (if w = [] then [] else [w]) @ sep_words [] cs
      else sep_words (w @ [c]) cs)"

definition word_initials :: "unicode \<Rightarrow> rstring \<Rightarrow> rstring" where
  "word_initials u w = push_word_initials u None w []"

lemma push_word_initials_append:
  "push_word_initials u p w (a @ b) = a @ push_word_initials u p w b"
proof (induction w arbitrary: p b)
  case (Cons c w)
  show ?case using Cons.IH [of "Some c" "b @ u_char_lower u c"] Cons.IH [of "Some c" b] by simp
qed simp

lemma push_word_initials_acc: "push_word_initials u None w a = a @ word_initials u w"
  using push_word_initials_append [of u None w a "[]"] by (simp add: word_initials_def)

lemma acronym_loop_words:
  "acronym_loop u w a s = a @ concat (map (word_initials u) (sep_words w s))"
  by (induction s arbitrary: w a) (simp_all add: push_word_initials_acc)

lemma acronym_initials_words:
  "acronym_initials u t = concat (map (word_initials u) (sep_words [] t))"
  by (simp add: acronym_initials_def acronym_loop_words)

text \<open>What the Unicode tables guarantee about lowercasing a letter.\<close>

definition lower_letters_ok :: "unicode \<Rightarrow> bool" where
  "lower_letters_ok u \<longleftrightarrow>
     (\<forall>c. u_is_alpha u c \<longrightarrow> (\<forall>d\<in>set (u_char_lower u c). \<not> is_whitespace d))"

lemma push_word_initials_no_ws:
  assumes "lower_letters_ok u" and "\<forall>d\<in>set a. \<not> is_whitespace d"
  shows "\<forall>d\<in>set (push_word_initials u p w a). \<not> is_whitespace d"
  using assms(2)
proof (induction w arbitrary: p a)
  case (Cons c w)
  have "\<forall>d\<in>set (if u_is_alpha u c \<and> starts_subword u p c w then a @ u_char_lower u c else a).
      \<not> is_whitespace d"
    using Cons.prems assms(1) by (auto simp: lower_letters_ok_def)
  from Cons.IH [OF this] show ?case by simp
qed simp

lemma acronym_initials_no_ws:
  assumes "lower_letters_ok u" shows "\<forall>d\<in>set (acronym_initials u t). \<not> is_whitespace d"
  using push_word_initials_no_ws [OF assms, of "[]"]
  by (auto simp: acronym_initials_words word_initials_def)

lemma split_ws_word:
  "\<forall>c\<in>set w. \<not> is_whitespace c \<Longrightarrow> acc \<noteq> [] \<or> w \<noteq> [] \<Longrightarrow> split_ws acc w = [rev acc @ w]"
  by (induction w arbitrary: acc) auto

lemma split_ws_append_space:
  "split_ws acc (s @ 32 # w) = split_ws acc s @ split_ws [] w"
  by (induction acc s rule: split_ws.induct) auto

lemma acronym_indexed_token:
  assumes "lower_letters_ok u" and "acronym_initials u t \<noteq> []"
  shows "acronym_initials u t \<in> set (split_whitespace (acronym_initials_indexed u t))"
proof -
  have w: "split_ws [] (acronym_initials u t) = [acronym_initials u t]"
    using split_ws_word [of "acronym_initials u t" "[]"] acronym_initials_no_ws [OF assms(1)] assms(2)
    by simp
  define out where "out = join [32] (filter (\<lambda>s. s \<noteq> [])
            (map (acronym_initials u) (split_whitespace (split_identifiers u t))))"
  show ?thesis
  proof (cases "acronym_initials u t \<in> set (split_whitespace out)")
    case True
    then show ?thesis by (simp add: acronym_initials_indexed_def Let_def out_def)
  next
    case False
    then have "acronym_initials_indexed u t
        = (if out \<noteq> [] then out @ [32] else out) @ acronym_initials u t"
      using assms(2) by (simp add: acronym_initials_indexed_def Let_def out_def)
    then show ?thesis
      using w split_ws_append_space [of "[]" out] by (simp add: split_whitespace_def)
  qed
qed

section \<open>Lemmas on the multipliers\<close>

lemma exact_implies_prefix:
  "exact_title_mult t q w \<noteq> 1 \<Longrightarrow> prefix_mult t q v = v"
  by (auto simp: exact_title_mult_def prefix_mult_def starts_with_def split: if_splits)

lemma prefix_mult_gt1: "1 < w \<Longrightarrow> 1 < prefix_mult t q w \<longleftrightarrow> q \<noteq> [] \<and> prefix q t"
  by (simp add: prefix_mult_def starts_with_def)

lemma recency_mult_bounds:
  assumes "recency_mult exp32 cat m n w tau = Some r"
    and "\<And>x. x \<le> 0 \<Longrightarrow> 0 \<le> exp32 x \<and> exp32 x \<le> 1"
    and "0 \<le> w" and "is_f32 w"
  shows "1 \<le> r \<and> r \<le> f32_add 1 w"
proof (cases "cat \<noteq> File \<and> cat \<noteq> Mail")
  case True
  with assms(1) have "r = 1" by (simp add: recency_mult_def)
  moreover have "1 \<le> f32_add 1 w"
    using assms(3) is_f32_of_int [of 1] by (simp add: f32_add_def rnd32_ge_f32)
  ultimately show ?thesis by simp
next
  case False
  define age where "age = f32_div (rnd32 (of_int (max (wrap_i64 (n - m)) 0))) 86400"
  from assms(1) False have tau: "0 < tau"
    and r: "r = f32_add 1 (f32_mul w (exp32 (f32_div (- age) tau)))"
    by (auto simp: recency_mult_def Let_def age_def split: if_splits)
  have "0 \<le> age" unfolding age_def by (intro f32_div_nonneg rnd32_nonneg) simp_all
  then have "f32_div (- age) tau \<le> 0"
    using tau rnd32_mono [of "- age / tau" 0] by (simp add: f32_div_def)
  from assms(2) [OF this] have e: "0 \<le> exp32 (f32_div (- age) tau)" "exp32 (f32_div (- age) tau) \<le> 1"
    by simp_all
  have lo: "0 \<le> f32_mul w (exp32 (f32_div (- age) tau))"
    using e(1) assms(3) by (rule f32_mul_nonneg [rotated])
  have "f32_mul w (exp32 (f32_div (- age) tau)) \<le> w"
    unfolding f32_mul_def using e assms(3,4) by (intro rnd32_le_f32 mult_left_le) simp_all
  then have "r \<le> f32_add 1 w" unfolding r by (intro f32_add_mono) simp_all
  moreover have "1 \<le> r" unfolding r f32_add_def
    using lo is_f32_of_int [of 1] by (intro rnd32_ge_f32) simp_all
  ultimately show ?thesis by simp
qed

section \<open>Properties\<close>

text \<open>
  The matching keys are canonical. A normalised query has single ASCII spaces only and none at
  its ends, whatever the Unicode tables do; a latch key derived from it contains no quotation mark
  and neither starts nor ends with a search operator, so that the operator and the plain form of a
  query share one latch; and collapsing white space twice changes nothing.
\<close>

theorem match_keys_canonical:
  "trimmed (normalize_for_match u q) \<and> single_spaced (normalize_for_match u q)
   \<and> collapse_whitespace (normalize_for_match u q) = normalize_for_match u q
   \<and> 34 \<notin> set (normalize_for_latch_key u q)
   \<and> (normalize_for_latch_key u q \<noteq> [] \<longrightarrow>
        \<not> is_operator (hd (normalize_for_latch_key u q)) \<and> \<not> is_operator (last (normalize_for_latch_key u q)))"
proof -
  have "collapse_whitespace (normalize_for_match u q) = normalize_for_match u q"
    by (simp add: normalize_for_match_def Let_def collapse_whitespace_idem)
  then show ?thesis using normalize_canonical latch_key_ends latch_key_no_quote by (simp add: ch_def)
qed

theorem match_keys_canonical_witness:
  "normalize_for_latch_key ascii_unicode (lit ''  +Foo   Bar- '') = lit ''foo bar''
   \<and> \<not> is_operator (hd (normalize_for_latch_key ascii_unicode (lit ''  +Foo   Bar- '')))"
proof -
  have k: "normalize_for_latch_key ascii_unicode (lit ''  +Foo   Bar- '') = lit ''foo bar''" by code_simp
  then have "normalize_for_latch_key ascii_unicode (lit ''  +Foo   Bar- '') \<noteq> []" by (simp add: lit_def)
  then show ?thesis using match_keys_canonical [of ascii_unicode "lit ''  +Foo   Bar- ''"] k by blast
qed

text \<open>
  Acronym matching and acronym indexing agree. The initials of a title are those of its words
  between separators, in order; and a non-empty acronym is always one of the white-space separated
  tokens of the acronym field stored in the index, so a query equal to it finds the title. The
  Unicode tables must not lowercase a letter to white space.
\<close>

theorem acronym_is_indexed:
  assumes "lower_letters_ok u"
  shows "acronym_initials u t = concat (map (word_initials u) (sep_words [] t))
    \<and> (acronym_initials u t \<noteq> [] \<longrightarrow>
         acronym_initials u t \<in> set (split_whitespace (acronym_initials_indexed u t)))"
  using acronym_initials_words acronym_indexed_token [OF assms] by blast

theorem acronym_is_indexed_witness:
  "acronym_initials ascii_unicode (lit ''Visual Studio-Code'') = lit ''vsc''
   \<and> lit ''vsc'' \<in> set (split_whitespace (acronym_initials_indexed ascii_unicode (lit ''Visual Studio-Code'')))"
proof -
  have ok: "lower_letters_ok ascii_unicode"
    by (auto simp: lower_letters_ok_def ascii_unicode_def is_ascii_alphabetic_def to_ascii_lower_def
        is_whitespace_def)
  have a: "acronym_initials ascii_unicode (lit ''Visual Studio-Code'') = lit ''vsc''" by code_simp
  have "lit ''vsc'' \<noteq> []" by (simp add: lit_def)
  then show ?thesis
    using acronym_is_indexed [OF ok, of "lit ''Visual Studio-Code''", unfolded a] a by blast
qed

text \<open>
  The identifier tokenizer loses nothing: the words it lowercases are, joined, exactly the
  characters of the input other than underscores, hyphens and white space, and every word is
  non-empty and free of white space. (The camel-case breaks only insert spaces.)
\<close>

theorem split_identifiers_lossless:
  "concat (split_whitespace (split_ident_loop u None [] s)) = filter (\<lambda>c. \<not> is_ident_sep c) s
   \<and> split_identifiers u s = join [32] (map (u_str_lower u) (split_whitespace (split_ident_loop u None [] s)))
   \<and> list_all (\<lambda>w. w \<noteq> [] \<and> list_all (\<lambda>c. \<not> is_whitespace c) w) (split_whitespace (split_ident_loop u None [] s))"
  using split_identifiers_words split_whitespace_words by (auto simp: split_identifiers_def list_all_iff)

text \<open>
  The recency multiplier never lowers a score and never exceeds \<open>1 + weight\<close>, also for time
  stamps in the future and for differences that wrap around; it needs a non-negative weight and
  that the exponential of a non-positive number lies in [0, 1].
\<close>

theorem recency_mult_in_range:
  assumes "recency_mult exp32 cat m n w tau = Some r"
    and "\<And>x. x \<le> 0 \<Longrightarrow> 0 \<le> exp32 x \<and> exp32 x \<le> 1" and "0 \<le> w" and "is_f32 w"
  shows "1 \<le> r \<and> r \<le> f32_add 1 w"
  using assms by (rule recency_mult_bounds)

theorem recency_mult_in_range_witness:
  "\<exists>r. recency_mult (\<lambda>x. if x < - 1 then 0 else 1) File 1000 100000 1 30 = Some r \<and> 1 \<le> r \<and> r \<le> f32_add 1 1"
proof -
  obtain r where r: "recency_mult (\<lambda>x. if x < - 1 then 0 else 1) File 1000 100000 1 30 = Some r"
    by (simp add: recency_mult_def Let_def)
  show ?thesis using recency_mult_in_range [OF r] r is_f32_of_int [of 1] by simp
qed

end
