(* ===== verification/Fusion.thy ===== *)
theory Fusion
  imports Text_Match
begin

text \<open>
  Hybrid search (\<^verbatim>\<open>crates/lixun-fusion/src/rrf.rs\<close> and \<^verbatim>\<open>handle.rs\<close>): reciprocal rank fusion of the
  lexical ranking with the two semantic rankings, the precision-first partition, and the
  two-chunk streaming search built on them.

  The accumulator \<^verbatim>\<open>HashMap\<close> is an association list; \<open>rrf_order_independent\<close> below shows that its
  iteration order does not reach the result. The collaborators are arguments: the lexical
  index and the hydration of document ids (\<open>hs_lex\<close>, \<open>hs_hydrate\<close>), the semantic worker
  (\<open>hs_ann\<close>), and \<^verbatim>\<open>0.95_f32.powi\<close> (\<open>hs_powi95\<close>, whose rounding Rust leaves unspecified). A failed
  call is \<open>None\<close>. Whether the request is cancelled before the semantic calls return is the
  argument \<open>cancelled\<close>.
\<close>

type_synonym ranked = "(doc_id \<times> f32) list"

section \<open>Reciprocal rank fusion\<close>

fun rrf_accumulate :: "f32 \<Rightarrow> f32 \<Rightarrow> nat \<Rightarrow> ranked \<Rightarrow> ranked \<Rightarrow> ranked" where
  "rrf_accumulate w k pos [] fused = fused"
| "rrf_accumulate w k pos ((d, _) # xs) fused =
     (let rank = rnd32 (of_nat (pos + 1));
          old = (case map_of fused d of None \<Rightarrow> 0 | Some s \<Rightarrow> s)
      in rrf_accumulate w k (Suc pos) xs
           (AList.update d (f32_add old (f32_div w (f32_add k rank))) fused))"

definition rrf_sort :: "ranked \<Rightarrow> ranked" where
  "rrf_sort out = sort_key (\<lambda>(d, score). (- score, d)) out"

definition rrf_fuse :: "ranked \<Rightarrow> ranked \<Rightarrow> f32 \<Rightarrow> ranked" where
  "rrf_fuse bm25 ann k = rrf_sort (rrf_accumulate 1 k 0 ann (rrf_accumulate 1 k 0 bm25 []))"

definition rrf_fuse_3way_weighted ::
  "ranked \<Rightarrow> ranked \<Rightarrow> ranked \<Rightarrow> f32 \<Rightarrow> f32 \<times> f32 \<times> f32 \<Rightarrow> ranked" where
  "rrf_fuse_3way_weighted bm25 text_ann image_ann k weights =
     (case weights of (w_bm25, w_text, w_image) \<Rightarrow>
        rrf_sort (rrf_accumulate w_image k 0 image_ann
          (rrf_accumulate w_text k 0 text_ann (rrf_accumulate w_bm25 k 0 bm25 []))))"

definition rrf_fuse_3way :: "ranked \<Rightarrow> ranked \<Rightarrow> ranked \<Rightarrow> f32 \<Rightarrow> ranked" where
  "rrf_fuse_3way bm25 text_ann image_ann k =
     rrf_fuse_3way_weighted bm25 text_ann image_ann k (1, 1, 1)"

definition precision_first :: "ranked \<Rightarrow> doc_id list \<Rightarrow> doc_id list \<Rightarrow> ranked" where
  "precision_first fused precision_ids lexical_ids =
     (if precision_ids = [] then fused
      else
        (let (lexical, ann_only) = partition (\<lambda>(d, _). d \<in> set lexical_ids) fused
         in lexical @ ann_only))"

section \<open>The hybrid search handle\<close>

datatype phase = Initial | Final

record fusion_chunk =
  fc_phase :: phase
  fc_hits :: "scored_hit list"

record ann_hit =
  ah_doc_id :: doc_id
  ah_distance :: f32

datatype modality = MText | MImage | MBoth

record ann_handle =
  ann_search_text :: "rstring \<Rightarrow> nat \<Rightarrow> ann_hit list option"
  ann_search_image :: "rstring \<Rightarrow> nat \<Rightarrow> ann_hit list option"
  ann_classify_query :: "rstring \<Rightarrow> modality option"

record hybrid_search =
  hs_lex :: "query \<Rightarrow> scored_hit list option"
  hs_hydrate :: "doc_id list \<Rightarrow> scored_hit list option"
  hs_ann :: "ann_handle option"
  hs_rrf_k :: f32
  hs_overfetch :: nat
  hs_powi95 :: "nat \<Rightarrow> f32"

definition new_lexical_only ::
  "(query \<Rightarrow> scored_hit list option) \<Rightarrow> (doc_id list \<Rightarrow> scored_hit list option) \<Rightarrow> (nat \<Rightarrow> f32)
     \<Rightarrow> hybrid_search" where
  "new_lexical_only lexical hydrate p =
     \<lparr>hs_lex = lexical, hs_hydrate = hydrate, hs_ann = None, hs_rrf_k = 60, hs_overfetch = 4, hs_powi95 = p\<rparr>"

definition new_hybrid ::
  "(query \<Rightarrow> scored_hit list option) \<Rightarrow> (doc_id list \<Rightarrow> scored_hit list option) \<Rightarrow> ann_handle \<Rightarrow> f32
     \<Rightarrow> (nat \<Rightarrow> f32) \<Rightarrow> hybrid_search" where
  "new_hybrid lexical hydrate ann rrf_k p =
     \<lparr>hs_lex = lexical, hs_hydrate = hydrate, hs_ann = Some ann, hs_rrf_k = rrf_k, hs_overfetch = 4,
      hs_powi95 = p\<rparr>"

definition looks_navigational :: "rstring \<Rightarrow> bool" where
  "looks_navigational q =
     (let t = trim q
      in t \<noteq> [] \<and> \<not> list_ex is_whitespace t
         \<and> list_ex (\<lambda>c. c = ch CHR ''-'' \<or> c = ch CHR ''_'' \<or> c = ch CHR ''.'' \<or> c = ch CHR ''/'') t)"

definition channel_weights :: "modality \<Rightarrow> f32 \<times> f32 \<times> f32" where
  "channel_weights m =
     (case m of
        MImage \<Rightarrow> (1, rnd32 (8 / 10), rnd32 (18 / 10))
      | MBoth \<Rightarrow> (1, 1, rnd32 (13 / 10))
      | MText \<Rightarrow> (1, 1, 1))"

definition choose_modality :: "rstring \<Rightarrow> modality option \<Rightarrow> modality" where
  "choose_modality q res =
     (if looks_navigational q then MText else case res of None \<Rightarrow> MText | Some m \<Rightarrow> m)"

text \<open>\<^verbatim>\<open>collect\<close> into a hash map: the last pair of a key wins.\<close>

definition by_id :: "scored_hit list \<Rightarrow> doc_id \<Rightarrow> scored_hit option" where
  "by_id pairs = map_of (rev (map (\<lambda>(h, bd). (hit_id h, (h, bd))) pairs))"

definition bm25_ranked_of :: "scored_hit list \<Rightarrow> ranked" where
  "bm25_ranked_of lex_pairs =
     map (\<lambda>(h, bd). (hit_id h, bd_final_score bd)) (filter (\<lambda>(_, bd). \<not> bd_lexical_fallback bd) lex_pairs)"

definition ann_ranked_of :: "ann_hit list \<Rightarrow> ranked" where
  "ann_ranked_of hits = map (\<lambda>h. (ah_doc_id h, ah_distance h)) hits"

definition precision_ids_of :: "scored_hit list \<Rightarrow> doc_id list" where
  "precision_ids_of lex_pairs =
     map (\<lambda>(h, _). hit_id h)
       (filter (\<lambda>(_, bd). \<not> bd_lexical_fallback bd \<and> (1 < bd_prefix_mult bd \<or> 1 < bd_exact_title_mult bd))
          lex_pairs)"

definition ladder_of :: "scored_hit list \<Rightarrow> f32 list" where
  "ladder_of lex_pairs =
     sort_key (\<lambda>s. - s) (map (\<lambda>(_, bd). bd_final_score bd)
       (filter (\<lambda>(_, bd). \<not> bd_lexical_fallback bd) lex_pairs))"

definition score_for_rank :: "(nat \<Rightarrow> f32) \<Rightarrow> f32 list \<Rightarrow> nat \<Rightarrow> f32 \<Rightarrow> f32" where
  "score_for_rank powi95 ladder pos rrf_score =
     (if pos < length ladder then ladder ! pos
      else if ladder \<noteq> [] then f32_mul (last ladder) (powi95 (pos + 1 - length ladder))
      else rrf_score)"

definition set_score :: "f32 \<Rightarrow> scored_hit \<Rightarrow> scored_hit" where
  "set_score s p = (case p of (h, bd) \<Rightarrow> (h\<lparr>hit_score := s\<rparr>, bd\<lparr>bd_final_score := s\<rparr>))"

definition neutral_breakdown :: "f32 option \<Rightarrow> score_breakdown \<Rightarrow> score_breakdown" where
  "neutral_breakdown distance bd =
     (case distance of None \<Rightarrow> bd | Some d \<Rightarrow> bd\<lparr>bd_tantivy := d\<rparr>)
       \<lparr>bd_category_mult := 1, bd_exact_title_mult := 1, bd_prefix_mult := 1, bd_acronym_mult := 1,
        bd_recency_mult := 1, bd_coord_mult := 1, bd_frecency_mult := 1, bd_latch_mult := 1,
        bd_stage2_clamped := 1\<rparr>"

text \<open>The hydration loop over the ranked page.\<close>

fun hydrate_page ::
  "(nat \<Rightarrow> f32 \<Rightarrow> f32) \<Rightarrow> (doc_id \<Rightarrow> scored_hit option) \<Rightarrow> (doc_id \<Rightarrow> scored_hit option)
     \<Rightarrow> (doc_id \<Rightarrow> f32 option) \<Rightarrow> nat \<Rightarrow> ranked \<Rightarrow> scored_hit list" where
  "hydrate_page score bm25 hydrated distance pos [] = []"
| "hydrate_page score bm25 hydrated distance pos ((d, rrf) # rest) =
     (case bm25 d of
        Some p \<Rightarrow> set_score (score pos rrf) p # hydrate_page score bm25 hydrated distance (Suc pos) rest
      | None \<Rightarrow>
          (case hydrated d of
             Some (h, bd) \<Rightarrow>
               set_score (score pos rrf) (h, neutral_breakdown (distance d) bd)
                 # hydrate_page score bm25 hydrated distance (Suc pos) rest
           | None \<Rightarrow> hydrate_page score bm25 hydrated distance (Suc pos) rest))"

fun fill_page :: "(nat \<Rightarrow> f32) \<Rightarrow> f32 \<Rightarrow> nat \<Rightarrow> scored_hit list \<Rightarrow> scored_hit list" where
  "fill_page powi95 floor_score i [] = []"
| "fill_page powi95 floor_score i (p # ps) =
     set_score (f32_mul floor_score (powi95 (i + 1))) p # fill_page powi95 floor_score (Suc i) ps"

definition pad_page :: "(nat \<Rightarrow> f32) \<Rightarrow> nat \<Rightarrow> scored_hit list \<Rightarrow> scored_hit list \<Rightarrow> scored_hit list" where
  "pad_page powi95 target_limit lex_pairs out =
     (if length out < target_limit then
        (let in_out = map (\<lambda>(h, _). hit_id h) out;
             filler = take (target_limit - length out)
               (filter (\<lambda>(h, bd). bd_lexical_fallback bd \<and> hit_id h \<notin> set in_out) lex_pairs);
             floor_score = (if out = [] then 1 else hit_score (fst (last out)))
         in out @ fill_page powi95 floor_score 0 filler)
      else out)"

definition fused_ranking ::
  "hybrid_search \<Rightarrow> query \<Rightarrow> scored_hit list \<Rightarrow> ann_hit list \<Rightarrow> ann_hit list \<Rightarrow> modality option \<Rightarrow> ranked" where
  "fused_ranking hs q lex_pairs text_hits image_hits modality_res =
     precision_first
       (rrf_fuse_3way_weighted (bm25_ranked_of lex_pairs) (ann_ranked_of text_hits)
          (ann_ranked_of image_hits) (hs_rrf_k hs) (channel_weights (choose_modality (q_text q) modality_res)))
       (precision_ids_of lex_pairs)
       (map fst (bm25_ranked_of lex_pairs))"

text \<open>
  Everything after the semantic calls returned: the hits of the final chunk, or \<open>None\<close> when the
  batch hydration fails.
\<close>

definition final_page ::
  "hybrid_search \<Rightarrow> query \<Rightarrow> scored_hit list \<Rightarrow> ann_hit list \<Rightarrow> ann_hit list \<Rightarrow> modality option
     \<Rightarrow> scored_hit list option" where
  "final_page hs q lex_pairs text_hits image_hits modality_res =
     (let target_limit = max (q_limit q) 1;
          bm25_by_id = by_id lex_pairs;
          ann_distance_by_id = map_of (rev (ann_ranked_of (text_hits @ image_hits)));
          fused = fused_ranking hs q lex_pairs text_hits image_hits modality_res;
          page = take target_limit fused;
          missing_ids = map fst (filter (\<lambda>(d, _). bm25_by_id d = None) page);
          hydrated = (if missing_ids = [] then Some [] else hs_hydrate hs missing_ids)
      in case hydrated of
           None \<Rightarrow> None
         | Some pairs \<Rightarrow>
             Some (pad_page (hs_powi95 hs) target_limit lex_pairs
               (hydrate_page (score_for_rank (hs_powi95 hs) (ladder_of lex_pairs)) bm25_by_id (by_id pairs)
                  ann_distance_by_id 0 page)))"

definition fused_search_streaming ::
  "hybrid_search \<Rightarrow> ann_handle \<Rightarrow> query \<Rightarrow> bool \<Rightarrow> fusion_chunk list" where
  "fused_search_streaming hs ann q cancelled =
     (let target_limit = max (q_limit q) 1;
          ann_k = max (min (target_limit * hs_overfetch hs) (2 ^ 64 - 1)) target_limit
      in case hs_lex hs q of
           None \<Rightarrow> []
         | Some lex_pairs \<Rightarrow>
             \<lparr>fc_phase = Initial, fc_hits = lex_pairs\<rparr>
             # (if cancelled then []
                else
                  (let text_hits = (case ann_search_text ann (q_text q) ann_k of None \<Rightarrow> [] | Some h \<Rightarrow> h);
                       image_hits = (case ann_search_image ann (q_text q) ann_k of None \<Rightarrow> [] | Some h \<Rightarrow> h)
                   in case final_page hs q lex_pairs text_hits image_hits (ann_classify_query ann (q_text q)) of
                        None \<Rightarrow> []
                      | Some out \<Rightarrow> [\<lparr>fc_phase = Final, fc_hits = out\<rparr>])))"

text \<open>The chunks the receiver yields; \<open>None\<close> is the error of lexical-only mode.\<close>

definition search_streaming :: "hybrid_search \<Rightarrow> query \<Rightarrow> bool \<Rightarrow> fusion_chunk list option" where
  "search_streaming hs q cancelled =
     (case hs_ann hs of
        None \<Rightarrow> map_option (\<lambda>pairs. [\<lparr>fc_phase = Final, fc_hits = pairs\<rparr>]) (hs_lex hs q)
      | Some ann \<Rightarrow> Some (fused_search_streaming hs ann q cancelled))"

fun collect_final :: "fusion_chunk list \<Rightarrow> scored_hit list" where
  "collect_final [] = []"
| "collect_final (c # cs) = (if fc_phase c = Final then fc_hits c else collect_final cs)"

definition search_with_breakdown :: "hybrid_search \<Rightarrow> query \<Rightarrow> scored_hit list option" where
  "search_with_breakdown hs q = map_option collect_final (search_streaming hs q False)"

definition hybrid_search_hits :: "hybrid_search \<Rightarrow> query \<Rightarrow> hit list option" where
  "hybrid_search_hits hs q = map_option (\<lambda>cs. map fst (collect_final cs)) (search_streaming hs q False)"

section \<open>Lemmas on fusion\<close>

lemma distinct_rrf_accumulate:
  "distinct (map fst fused) \<Longrightarrow> distinct (map fst (rrf_accumulate w k pos xs fused))"
  by (induction w k pos xs fused rule: rrf_accumulate.induct) (simp_all add: Let_def AList.distinct_update)

lemma set_rrf_accumulate:
  "fst ` set (rrf_accumulate w k pos xs fused) = fst ` set xs \<union> fst ` set fused"
  by (induction w k pos xs fused rule: rrf_accumulate.induct) (auto simp: Let_def AList.dom_update)

text \<open>The score of a document: the contributions of the positions where it occurs, in order.\<close>

fun rrf_contrib :: "f32 \<Rightarrow> f32 \<Rightarrow> nat \<Rightarrow> ranked \<Rightarrow> doc_id \<Rightarrow> f32 list" where
  "rrf_contrib w k pos [] d = []"
| "rrf_contrib w k pos ((d', _) # xs) d =
     (if d' = d then [f32_div w (f32_add k (rnd32 (of_nat (pos + 1))))] else [])
       @ rrf_contrib w k (Suc pos) xs d"

lemma map_of_rrf_accumulate:
  "map_of (rrf_accumulate w k pos xs fused) d =
     (if rrf_contrib w k pos xs d = [] then map_of fused d
      else Some (foldl f32_add (case map_of fused d of None \<Rightarrow> 0 | Some s \<Rightarrow> s) (rrf_contrib w k pos xs d)))"
proof (induction w k pos xs fused rule: rrf_accumulate.induct)
  case (2 w k pos d' x xs fused)
  define fused' where "fused' = AList.update d' (f32_add (case map_of fused d' of None \<Rightarrow> 0 | Some s \<Rightarrow> s)
      (f32_div w (f32_add k (rnd32 (of_nat (pos + 1)))))) fused"
  have step: "rrf_accumulate w k pos ((d', x) # xs) fused = rrf_accumulate w k (Suc pos) xs fused'"
    by (simp add: Let_def fused'_def)
  have up: "map_of fused' d = (if d = d' then Some (f32_add (case map_of fused d' of None \<Rightarrow> 0 | Some s \<Rightarrow> s)
      (f32_div w (f32_add k (rnd32 (of_nat (pos + 1)))))) else map_of fused d)"
    by (simp add: fused'_def map_of_update)
  have IH: "map_of (rrf_accumulate w k (Suc pos) xs fused') d =
     (if rrf_contrib w k (Suc pos) xs d = [] then map_of fused' d
      else Some (foldl f32_add (case map_of fused' d of None \<Rightarrow> 0 | Some s \<Rightarrow> s)
             (rrf_contrib w k (Suc pos) xs d)))"
    unfolding fused'_def by (rule "2.IH" [OF refl refl])
  show ?case unfolding step IH up by simp
qed simp

lemma rrf_contrib_Nil: "rrf_contrib w k pos xs d = [] \<longleftrightarrow> d \<notin> fst ` set xs"
  by (induction w k pos xs d rule: rrf_contrib.induct) auto

definition fused_map :: "ranked \<Rightarrow> ranked \<Rightarrow> ranked \<Rightarrow> f32 \<Rightarrow> f32 \<times> f32 \<times> f32 \<Rightarrow> ranked" where
  "fused_map bm25 text_ann image_ann k weights =
     (case weights of (w_bm25, w_text, w_image) \<Rightarrow>
        rrf_accumulate w_image k 0 image_ann
          (rrf_accumulate w_text k 0 text_ann (rrf_accumulate w_bm25 k 0 bm25 [])))"

lemma rrf_fuse_fused_map: "rrf_fuse_3way_weighted b t i k ws = rrf_sort (fused_map b t i k ws)"
  by (cases ws) (simp add: rrf_fuse_3way_weighted_def fused_map_def)

lemma mset_rrf_sort [simp]: "mset (rrf_sort xs) = mset xs"
  by (simp add: rrf_sort_def)

lemma set_rrf_sort [simp]: "set (rrf_sort xs) = set xs"
  by (simp add: rrf_sort_def)

lemma distinct_rrf_sort: "distinct (map fst xs) \<Longrightarrow> distinct (map fst (rrf_sort xs))"
proof -
  assume "distinct (map fst xs)"
  moreover have "mset (map fst (rrf_sort xs)) = mset (map fst xs)" by simp
  ultimately show ?thesis using mset_eq_imp_distinct_iff by blast
qed

lemma rrf_sort_perm: "mset xs = mset ys \<Longrightarrow> rrf_sort xs = rrf_sort ys"
  unfolding rrf_sort_def by (rule sort_key_perm) (auto simp: inj_on_def)

definition better :: "doc_id \<times> f32 \<Rightarrow> doc_id \<times> f32 \<Rightarrow> bool" where
  "better a b \<longleftrightarrow> snd b < snd a \<or> snd a = snd b \<and> fst a \<le> fst b"

lemma better_le: "better a b \<Longrightarrow> snd b \<le> snd a"
  by (auto simp: better_def)

lemma sorted_rrf_sort: "sorted_wrt better (rrf_sort xs)"
proof -
  have "sorted (map (\<lambda>(d, s). (- s, d)) (rrf_sort xs))" by (simp add: rrf_sort_def)
  then show ?thesis
    by (auto simp: sorted_map sorted_wrt_map less_eq_prod_def better_def elim!: sorted_wrt_mono_rel [rotated])
qed

lemma distinct_fused_map: "distinct (map fst (fused_map b t i k ws))"
  by (cases ws) (simp add: fused_map_def distinct_rrf_accumulate)

lemma set_fused_map: "fst ` set (fused_map b t i k ws) = fst ` set b \<union> fst ` set t \<union> fst ` set i"
  by (cases ws) (auto simp: fused_map_def set_rrf_accumulate)

lemma map_of_fused_map:
  "map_of (fused_map b t i k (wb, wt, wi)) d =
     (let c = rrf_contrib wb k 0 b d @ rrf_contrib wt k 0 t d @ rrf_contrib wi k 0 i d
      in if c = [] then None else Some (foldl f32_add 0 c))"
  by (simp add: fused_map_def map_of_rrf_accumulate Let_def)

lemma precision_first_filter:
  "precision_first fused p l =
     (if p = [] then fused
      else filter (\<lambda>(d, _). d \<in> set l) fused @ filter (\<lambda>(d, _). d \<notin> set l) fused)"
  by (auto simp: precision_first_def o_def case_prod_beta intro: filter_cong)

lemma mset_precision_first: "mset (precision_first fused p l) = mset fused"
proof -
  have "mset (filter P fused) + mset (filter (\<lambda>x. \<not> P x) fused) = mset fused" for P
    by (induction fused) auto
  from this [of "\<lambda>(d, _). d \<in> set l"] show ?thesis
    by (simp add: precision_first_filter case_prod_beta)
qed


lemma fst_set_fused: "fst ` set (fused_ranking hs q lp th ih m) =
    fst ` set (bm25_ranked_of lp) \<union> fst ` set (ann_ranked_of th) \<union> fst ` set (ann_ranked_of ih)"
proof -
  have "set (precision_first f p l) = set f" for f p l
    using mset_precision_first [of f p l] by (metis set_mset_mset)
  then show ?thesis by (simp add: fused_ranking_def rrf_fuse_fused_map set_fused_map)
qed

lemma distinct_precision_first: "distinct (map fst fused) \<Longrightarrow> distinct (map fst (precision_first fused p l))"
proof -
  assume "distinct (map fst fused)"
  moreover have "mset (map fst (precision_first fused p l)) = mset (map fst fused)"
    by (simp add: mset_precision_first)
  ultimately show ?thesis using mset_eq_imp_distinct_iff by blast
qed

lemma distinct_fused_ranking: "distinct (map fst (fused_ranking hs q lp th ih m))"
  unfolding fused_ranking_def rrf_fuse_fused_map
  by (intro distinct_precision_first distinct_rrf_sort distinct_fused_map)

section \<open>Lemmas on the final page\<close>

abbreviation ids_of :: "scored_hit list \<Rightarrow> doc_id list" where
  "ids_of ps \<equiv> map (\<lambda>p. hit_id (fst p)) ps"

abbreviation scores_of :: "scored_hit list \<Rightarrow> f32 list" where
  "scores_of ps \<equiv> map (\<lambda>p. hit_score (fst p)) ps"

lemma set_score_simps [simp]:
  "hit_id (fst (set_score s p)) = hit_id (fst p)" "hit_score (fst (set_score s p)) = s"
  by (simp_all add: set_score_def case_prod_beta)

lemma by_id_Some: "by_id ps d = Some p \<Longrightarrow> p \<in> set ps \<and> hit_id (fst p) = d"
  by (auto simp: by_id_def dest!: map_of_SomeD)

lemma by_id_None: "by_id ps d = None \<longleftrightarrow> d \<notin> set (ids_of ps)"
  by (auto simp: by_id_def map_of_eq_None_iff image_iff)

lemma by_id_distinct: "distinct (ids_of ps) \<Longrightarrow> p \<in> set ps \<Longrightarrow> by_id ps (hit_id (fst p)) = Some p"
  unfolding by_id_def by (rule map_of_is_SomeI) (force simp: rev_map [symmetric] o_def case_prod_beta)+

fun slot_scores :: "(nat \<Rightarrow> f32 \<Rightarrow> f32) \<Rightarrow> nat \<Rightarrow> ranked \<Rightarrow> f32 list" where
  "slot_scores score pos [] = []"
| "slot_scores score pos ((_, rrf) # rest) = score pos rrf # slot_scores score (Suc pos) rest"

lemma length_slot_scores [simp]: "length (slot_scores score pos page) = length page"
  by (induction score pos page rule: slot_scores.induct) simp_all

lemma nth_slot_scores:
  "i < length page \<Longrightarrow> slot_scores score pos page ! i = score (pos + i) (snd (page ! i))"
proof (induction score pos page arbitrary: i rule: slot_scores.induct)
  case (2 score pos d rrf rest)
  then show ?case by (cases i) simp_all
qed simp

lemma hydrate_page_scores:
  "subseq (scores_of (hydrate_page score b h ds pos page)) (slot_scores score pos page)"
  by (induction score b h ds pos page rule: hydrate_page.induct) (auto split: option.splits)

lemma hydrate_page_ids:
  assumes "\<And>d p. b d = Some p \<Longrightarrow> hit_id (fst p) = d" and "\<And>d p. h d = Some p \<Longrightarrow> hit_id (fst p) = d"
  shows "subseq (ids_of (hydrate_page score b h ds pos page)) (map fst page)"
  using assms
proof (induction score b h ds pos page rule: hydrate_page.induct)
  case (2 score b h ds pos d rrf rest)
  show ?case
  proof (cases "b d")
    case None
    show ?thesis
    proof (cases "h d")
      case None2: None
      show ?thesis using None None2 "2.IH"(1) [OF None None2 "2.prems"] by (auto intro: list_emb_Cons)
    next
      case (Some p)
      obtain hh bd where p: "p = (hh, bd)" by fastforce
      have "hit_id hh = d" using "2.prems"(2) [OF Some] p by simp
      then show ?thesis using None Some p "2.IH"(2) [OF None Some p [symmetric] "2.prems"] by simp
    qed
  next
    case (Some p)
    have "hit_id (fst p) = d" by (rule "2.prems"(1) [OF Some])
    then show ?thesis using Some "2.IH"(3) [OF Some "2.prems"] by simp
  qed
qed simp

lemma subseq_set: "subseq xs ys \<Longrightarrow> set xs \<subseteq> set ys"
  by (auto dest: list_emb_set)

lemma subseq_distinct: "subseq xs ys \<Longrightarrow> distinct ys \<Longrightarrow> distinct xs"
  by (induction rule: list_emb.induct) (auto dest: subseq_set)

lemma sorted_wrt_subseq: "subseq xs ys \<Longrightarrow> sorted_wrt P ys \<Longrightarrow> sorted_wrt P xs"
proof (induction rule: list_emb.induct)
  case (list_emb_Cons2 x y xs ys)
  then show ?case using list_emb_set [OF list_emb_Cons2.hyps(2)] by fastforce
qed simp_all

lemma sorted_wrt_last_le: "sorted_wrt (\<ge>) xs \<Longrightarrow> t \<in> set xs \<Longrightarrow> last xs \<le> (t :: f32)"
  by (induction xs) auto

lemma fill_page_ids: "ids_of (fill_page p95 fl i ps) = ids_of ps"
  by (induction p95 fl i ps rule: fill_page.induct) simp_all

lemma length_fill_page [simp]: "length (fill_page p95 fl i ps) = length ps"
  by (induction p95 fl i ps rule: fill_page.induct) simp_all

definition decay_ok :: "(nat \<Rightarrow> f32) \<Rightarrow> bool" where
  "decay_ok p95 \<longleftrightarrow> (\<forall>n. 0 \<le> p95 n \<and> p95 n \<le> 1) \<and> antimono p95"

lemma fill_page_scores:
  assumes ok: "decay_ok p95" and fl: "0 \<le> fl"
  shows "sorted_wrt (\<ge>) (scores_of (fill_page p95 fl i ps))
    \<and> (\<forall>s\<in>set (scores_of (fill_page p95 fl i ps)). 0 \<le> s \<and> s \<le> f32_mul fl (p95 (i + 1)))"
proof (induction ps arbitrary: i)
  case (Cons p ps)
  have p: "0 \<le> p95 n" for n using ok by (simp add: decay_ok_def)
  have step: "f32_mul fl (p95 (Suc i + 1)) \<le> f32_mul fl (p95 (i + 1))"
    by (rule f32_mul_mono [OF fl p order_refl])
       (rule antimonoD, use ok in \<open>auto simp: decay_ok_def\<close>)
  note IH = Cons.IH [of "Suc i"]
  have tail: "\<forall>s\<in>set (scores_of (fill_page p95 fl (Suc i) ps)). 0 \<le> s \<and> s \<le> f32_mul fl (p95 (i + 1))"
    using IH step by (meson order_trans)
  show ?case using IH tail f32_mul_nonneg [OF fl p [of "i + 1"]] by auto
qed simp

lemma f32_mul_le_left: "is_f32 a \<Longrightarrow> 0 \<le> a \<Longrightarrow> b \<le> 1 \<Longrightarrow> f32_mul a b \<le> a"
  unfolding f32_mul_def by (rule rnd32_le_f32) (auto intro: mult_left_le)


lemma ladder_sorted: "sorted_wrt (\<ge>) (ladder_of lp)"
proof -
  have "sorted (map (\<lambda>s. - s) (ladder_of lp))" by (simp add: ladder_of_def)
  then show ?thesis by (simp add: sorted_map)
qed

lemma set_ladder: "set (ladder_of lp) = bd_final_score ` snd ` {p \<in> set lp. \<not> bd_lexical_fallback (snd p)}"
  by (auto simp: ladder_of_def case_prod_beta image_iff)

lemma length_ladder: "length (ladder_of lp) = length (bm25_ranked_of lp)"
  by (simp add: ladder_of_def bm25_ranked_of_def)

lemma score_for_rank_antimono:
  assumes ok: "decay_ok p95" and sorted: "sorted_wrt (\<ge>) l" and nn: "\<forall>s\<in>set l. is_f32 s \<and> 0 \<le> s"
    and l: "l \<noteq> []" and ij: "i \<le> j"
  shows "score_for_rank p95 l j r' \<le> score_for_rank p95 l i r"
proof -
  have p: "0 \<le> p95 n" "p95 n \<le> 1" "m \<le> n \<Longrightarrow> p95 n \<le> p95 m" for m n
    using ok by (auto simp: decay_ok_def antimono_def)
  have last: "is_f32 (last l)" "0 \<le> last l" using nn l by auto
  consider "j < length l" | "i < length l" "length l \<le> j" | "length l \<le> i" using ij by linarith
  then show ?thesis
  proof cases
    case 1
    then have "l ! j \<le> l ! i" using sorted ij by (cases "i = j") (auto simp: sorted_wrt_iff_nth_less)
    then show ?thesis using 1 ij by (simp add: score_for_rank_def)
  next
    case 2
    have "last l \<le> l ! i"
    proof (cases "i = length l - 1")
      case False
      then have "i < length l - 1" using 2 by linarith
      then have "l ! (length l - 1) \<le> l ! i" using sorted by (simp add: sorted_wrt_iff_nth_less)
      then show ?thesis using l by (simp add: last_conv_nth)
    qed (use l in \<open>simp add: last_conv_nth\<close>)
    then show ?thesis
      using 2 l f32_mul_le_left [OF last p(2)] by (force simp: score_for_rank_def intro: order_trans)
  next
    case 3
    then show ?thesis
      using ij l by (auto simp: score_for_rank_def intro!: f32_mul_mono last p)
  qed
qed

lemma score_for_rank_nonneg:
  assumes "decay_ok p95" and "\<forall>s\<in>set l. is_f32 s \<and> 0 \<le> s" and "is_f32 r \<and> 0 \<le> r"
  shows "is_f32 (score_for_rank p95 l i r) \<and> 0 \<le> score_for_rank p95 l i r"
  using assms unfolding score_for_rank_def
  by (auto simp: f32_mul_def decay_ok_def intro: f32_mul_nonneg [unfolded f32_mul_def])

lemma rrf_contrib_nonneg:
  "0 \<le> w \<Longrightarrow> 0 \<le> k \<Longrightarrow> \<forall>c\<in>set (rrf_contrib w k pos xs d). 0 \<le> c"
  by (induction w k pos xs d rule: rrf_contrib.induct)
     (auto intro!: f32_div_nonneg f32_add_nonneg rnd32_nonneg)

lemma is_f32_zero [simp]: "is_f32 0"
  using is_f32_of_int [of 0] by simp

lemma is_f32_foldl: "is_f32 a \<Longrightarrow> is_f32 (foldl f32_add a xs)"
  by (induction xs arbitrary: a) (simp_all add: f32_add_def)

lemma channel_weights_nonneg:
  "channel_weights m = (wb, wt, wi) \<Longrightarrow> wb = 1 \<and> 0 \<le> wt \<and> 0 \<le> wi"
  by (cases m) (auto simp: channel_weights_def intro!: rnd32_nonneg)

lemma fused_scores:
  assumes k: "0 \<le> k" and p: "(d, s) \<in> set (rrf_fuse_3way_weighted b t i k (channel_weights m))"
  shows "is_f32 s \<and> 0 \<le> s"
proof -
  obtain wb wt wi where w: "channel_weights m = (wb, wt, wi)" by (cases "channel_weights m") auto
  note nn = channel_weights_nonneg [OF w]
  have "map_of (fused_map b t i k (wb, wt, wi)) d = Some s"
    using p by (simp add: rrf_fuse_fused_map w map_of_is_SomeI distinct_fused_map)
  then have s: "s = foldl f32_add 0 (rrf_contrib wb k 0 b d @ rrf_contrib wt k 0 t d @ rrf_contrib wi k 0 i d)"
    unfolding map_of_fused_map Let_def by (auto split: if_splits)
  have c: "\<forall>c\<in>set (rrf_contrib w k 0 xs d). 0 \<le> c" if "0 \<le> w" for w xs
    by (rule rrf_contrib_nonneg [OF that k])
  have w0: "0 \<le> wb" "0 \<le> wt" "0 \<le> wi" using nn by linarith+
  have "0 \<le> s" unfolding s
    by (rule f32_fold_nonneg [OF order_refl], unfold set_append ball_Un, intro conjI c w0)
  then show ?thesis by (simp add: s is_f32_foldl)
qed

lemma sorted_slot_scores:
  assumes "\<And>i j. i < j \<Longrightarrow> j < length page \<Longrightarrow> score (pos + j) (snd (page ! j)) \<le> score (pos + i) (snd (page ! i))"
  shows "sorted_wrt (\<ge>) (slot_scores score pos page)"
  using assms by (simp add: sorted_wrt_iff_nth_less nth_slot_scores)

lemma fused_page_scores:
  assumes ok: "decay_ok p95" and k: "0 \<le> hs_rrf_k hs"
    and nn: "\<forall>p\<in>set lp. is_f32 (bd_final_score (snd p)) \<and> 0 \<le> bd_final_score (snd p)"
  shows "sorted_wrt (\<ge>) (slot_scores (score_for_rank p95 (ladder_of lp)) 0 (take n (fused_ranking hs q lp th ih m)))"
proof (cases "ladder_of lp = []")
  case False
  show ?thesis
    by (rule sorted_slot_scores, rule score_for_rank_antimono [OF ok ladder_sorted _ False])
       (use nn in \<open>auto simp: set_ladder\<close>)
next
  case True
  then have b: "bm25_ranked_of lp = []" using length_ladder [of lp] by simp
  then have p: "precision_ids_of lp = []"
    by (auto simp: bm25_ranked_of_def precision_ids_of_def filter_empty_conv)
  let ?f = "rrf_fuse_3way_weighted (bm25_ranked_of lp) (ann_ranked_of th) (ann_ranked_of ih) (hs_rrf_k hs)
    (channel_weights (choose_modality (q_text q) m))"
  have fr: "fused_ranking hs q lp th ih m = ?f" by (simp add: fused_ranking_def p precision_first_filter)
  have "sorted_wrt better (take n ?f)"
    unfolding rrf_fuse_fused_map by (rule sorted_wrt_take [OF sorted_rrf_sort])
  then have "snd (take n ?f ! j) \<le> snd (take n ?f ! i)" if "i < j" "j < length (take n ?f)" for i j
    by (meson better_le sorted_wrt_nth_less that)
  then show ?thesis
    unfolding fr by (intro sorted_slot_scores) (simp add: True score_for_rank_def)
qed


lemma hydrate_page_nonneg:
  assumes "\<And>i r. r \<in> snd ` set page \<Longrightarrow> is_f32 (score i r) \<and> 0 \<le> score i r"
  shows "\<forall>s\<in>set (scores_of (hydrate_page score b h ds pos page)). is_f32 s \<and> 0 \<le> s"
proof -
  have "set (scores_of (hydrate_page score b h ds pos page)) \<subseteq> set (slot_scores score pos page)"
    by (rule subseq_set [OF hydrate_page_scores]) 
  moreover have "\<exists>i r. r \<in> snd ` set page \<and> s = score i r" if "s \<in> set (slot_scores score pos page)" for s
    using that by (induction score pos page rule: slot_scores.induct) auto
  ultimately show ?thesis using assms by blast
qed

definition filler_of :: "nat \<Rightarrow> scored_hit list \<Rightarrow> scored_hit list \<Rightarrow> scored_hit list" where
  "filler_of n lp out =
     take (n - length out) (filter (\<lambda>p. bd_lexical_fallback (snd p) \<and> hit_id (fst p) \<notin> set (ids_of out)) lp)"

lemma pad_page_eq:
  "\<exists>fl. (out \<noteq> [] \<longrightarrow> fl = hit_score (fst (last out))) \<and> (out = [] \<longrightarrow> fl = 1)
     \<and> pad_page p95 n lp out = out @ fill_page p95 fl 0 (filler_of n lp out)"
  by (cases "out = []") (auto simp: pad_page_def filler_of_def Let_def case_prod_unfold)

lemma final_page_cases:
  assumes "final_page hs q lp th ih m = Some out"
  obtains pairs page core fl where
    "page = take (max (q_limit q) 1) (fused_ranking hs q lp th ih m)"
    "core = hydrate_page (score_for_rank (hs_powi95 hs) (ladder_of lp)) (by_id lp) (by_id pairs)
       (map_of (rev (ann_ranked_of (th @ ih)))) 0 page"
    "core \<noteq> [] \<longrightarrow> fl = hit_score (fst (last core))" "core = [] \<longrightarrow> fl = 1"
    "out = core @ fill_page (hs_powi95 hs) fl 0 (filler_of (max (q_limit q) 1) lp core)"
proof -
  let ?page = "take (max (q_limit q) 1) (fused_ranking hs q lp th ih m)"
  from assms obtain pairs where out: "out = pad_page (hs_powi95 hs) (max (q_limit q) 1) lp
      (hydrate_page (score_for_rank (hs_powi95 hs) (ladder_of lp)) (by_id lp) (by_id pairs)
         (map_of (rev (ann_ranked_of (th @ ih)))) 0 ?page)" (is "_ = pad_page _ _ _ ?core")
    unfolding final_page_def Let_def by (auto split: option.splits if_splits)
  from pad_page_eq [of ?core "hs_powi95 hs" "max (q_limit q) 1" lp] obtain fl where
    "?core \<noteq> [] \<longrightarrow> fl = hit_score (fst (last ?core))" "?core = [] \<longrightarrow> fl = 1"
    "pad_page (hs_powi95 hs) (max (q_limit q) 1) lp ?core
       = ?core @ fill_page (hs_powi95 hs) fl 0 (filler_of (max (q_limit q) 1) lp ?core)" by blast
  with out that show thesis by blast
qed

lemma set_filler:
  "set (filler_of n lp core) \<subseteq> {p \<in> set lp. bd_lexical_fallback (snd p) \<and> hit_id (fst p) \<notin> set (ids_of core)}"
  unfolding filler_of_def by (rule order_trans [OF set_take_subset]) auto

lemma ids_of_filler: "set (ids_of (filler_of n lp core)) \<inter> set (ids_of core) = {}"
  using set_filler [of n lp core] by auto

lemma distinct_filler: "distinct (ids_of lp) \<Longrightarrow> distinct (ids_of (filler_of n lp core))"
  unfolding filler_of_def take_map [symmetric] by (intro distinct_take distinct_map_filter)

lemma core_ids:
  "subseq (ids_of (hydrate_page score (by_id lp) (by_id pairs) ds 0 page)) (map fst page)"
  by (rule hydrate_page_ids) (use by_id_Some in blast)+

section \<open>A concrete instance\<close>

text \<open>Two full matches (the first with a title-prefix boost) and one fallback hit; a worker that adds \<open>c\<close>.\<close>

definition example_lexical :: "scored_hit list" where
  "example_lexical =
     [(hit_named (lit ''a'') (lit ''alpha'') 4, breakdown_default\<lparr>bd_final_score := 4, bd_prefix_mult := 2\<rparr>),
      (hit_named (lit ''b'') (lit ''beta'') 2, breakdown_default\<lparr>bd_final_score := 2\<rparr>),
      (hit_named (lit ''f'') (lit ''filler'') 1, breakdown_default\<lparr>bd_final_score := 1, bd_lexical_fallback := True\<rparr>)]"

definition example_search :: hybrid_search where
  "example_search = new_hybrid (\<lambda>_. Some example_lexical)
     (\<lambda>ids. Some (map (\<lambda>d. (hit_named d d 0, breakdown_default)) ids))
     \<lparr>ann_search_text = (\<lambda>_ _. Some [\<lparr>ah_doc_id = lit ''c'', ah_distance = 0\<rparr>]),
      ann_search_image = (\<lambda>_ _. None), ann_classify_query = (\<lambda>_. Some MImage)\<rparr>
     60 (\<lambda>n. rnd32 ((19 / 20) ^ n))"

definition example_query :: query where
  "example_query = \<lparr>q_text = lit ''al'', q_limit = 4\<rparr>"

lemma example_decay: "decay_ok (hs_powi95 example_search)"
proof -
  have "0 \<le> rnd32 ((19 / 20) ^ n)" for n by (rule rnd32_nonneg) simp
  moreover have "rnd32 ((19 / 20) ^ n) \<le> 1" for n
    using rnd32_mono [of "(19 / 20) ^ n" 1] by (simp add: power_le_one)
  moreover have "rnd32 ((19 / 20) ^ n) \<le> rnd32 ((19 / 20) ^ m)" if "m \<le> n" for m n
    by (rule rnd32_mono) (use that in \<open>simp add: power_decreasing\<close>)
  ultimately show ?thesis by (simp add: example_search_def new_hybrid_def decay_ok_def antimono_def)
qed

lemma example_facts:
  "distinct (ids_of example_lexical)" "hs_rrf_k example_search = of_nat 60"
  "\<forall>p\<in>set example_lexical. is_f32 (bd_final_score (snd p)) \<and> 0 \<le> bd_final_score (snd p)"
  "precision_ids_of example_lexical \<noteq> []"
  using is_f32_of_int [of 1] is_f32_of_int [of 2] is_f32_of_int [of 4]
  by (simp_all add: example_lexical_def example_search_def new_hybrid_def hit_named_def breakdown_default_def
      precision_ids_of_def lit_def)

lemma example_final:
  "final_page example_search example_query example_lexical th ih m \<noteq> None"
  by (simp add: final_page_def example_search_def new_hybrid_def Let_def)

section \<open>The contract of the final page\<close>

definition strong_ids :: "scored_hit list \<Rightarrow> doc_id set" where
  "strong_ids lp = {hit_id (fst p) | p. p \<in> set lp \<and> \<not> bd_lexical_fallback (snd p)}"

lemma set_bm25_ids: "set (map fst (bm25_ranked_of lp)) = strong_ids lp"
  by (force simp: bm25_ranked_of_def strong_ids_def)

lemma set_bm25_image: "fst ` set (bm25_ranked_of lp) = strong_ids lp"
  using set_bm25_ids [of lp] by simp

lemma strong_ids_subset: "strong_ids lp \<subseteq> (\<lambda>p. hit_id (fst p)) ` set lp"
  unfolding strong_ids_def by blast

lemma set_ann_image: "fst ` set (ann_ranked_of hits) = ah_doc_id ` set hits"
  by (simp add: ann_ranked_of_def image_image)

lemma final_page_ok:
  assumes d: "distinct (ids_of lp)"
    and nn: "\<forall>p\<in>set lp. is_f32 (bd_final_score (snd p)) \<and> 0 \<le> bd_final_score (snd p)"
    and k: "0 \<le> hs_rrf_k hs" and ok: "decay_ok (hs_powi95 hs)"
    and out: "final_page hs q lp th ih m = Some out"
  shows "length out \<le> max (q_limit q) 1 \<and> distinct (ids_of out)
    \<and> set (ids_of out) \<subseteq> set (ids_of lp) \<union> ah_doc_id ` (set th \<union> set ih)
    \<and> sorted_wrt (\<ge>) (scores_of out)"
  using out
proof (cases rule: final_page_cases)
  case (1 pairs page core fl)
  let ?fill = "fill_page (hs_powi95 hs) fl 0 (filler_of (max (q_limit q) 1) lp core)"
  have sub: "subseq (ids_of core) (map fst page)" unfolding 1(2) by (rule core_ids)
  have len_core: "length core \<le> max (q_limit q) 1" using list_emb_length [OF sub] by (simp add: 1(1))
  have len: "length out \<le> max (q_limit q) 1" using len_core by (simp add: 1(5) filler_of_def)
  have "distinct (map fst page)" unfolding 1(1) take_map [symmetric]
    by (rule distinct_take [OF distinct_fused_ranking])
  then have "distinct (ids_of core)" by (rule subseq_distinct [OF sub])
  then have dist: "distinct (ids_of out)"
    using distinct_filler [OF d] ids_of_filler [of _ lp core]
    by (simp only: 1(5) map_append fill_page_ids distinct_append) (simp only: Int_commute simp_thms)
  have "set (map fst page) \<subseteq> fst ` set (fused_ranking hs q lp th ih m)"
    by (auto simp: 1(1) dest: in_set_takeD)
  then have page: "set (map fst page) \<subseteq> set (ids_of lp) \<union> ah_doc_id ` (set th \<union> set ih)"
    using strong_ids_subset [of lp] unfolding fst_set_fused set_bm25_image set_ann_image image_Un by auto
  have "set (ids_of (filler_of (max (q_limit q) 1) lp core)) \<subseteq> set (ids_of lp)"
    using set_filler [of "max (q_limit q) 1" lp core] by auto
  then have subset: "set (ids_of out) \<subseteq> set (ids_of lp) \<union> ah_doc_id ` (set th \<union> set ih)"
    using subseq_set [OF sub] page by (simp only: 1(5) map_append fill_page_ids set_append) blast
  have sc: "sorted_wrt (\<ge>) (scores_of core)" unfolding 1(1,2)
    by (rule sorted_wrt_subseq [OF hydrate_page_scores fused_page_scores [OF ok k nn]])
  have "\<forall>s\<in>set (scores_of core). is_f32 s \<and> 0 \<le> s" unfolding 1(1,2)
  proof (rule hydrate_page_nonneg, rule score_for_rank_nonneg [OF ok])
    fix r assume "r \<in> snd ` set (take (max (q_limit q) 1) (fused_ranking hs q lp th ih m))"
    then obtain dd where "(dd, r) \<in> set (fused_ranking hs q lp th ih m)" by (auto dest: in_set_takeD)
    then have "(dd, r) \<in># mset (fused_ranking hs q lp th ih m)" by simp
    then show "is_f32 r \<and> 0 \<le> r"
      unfolding fused_ranking_def mset_precision_first set_mset_mset by (rule fused_scores [OF k])
  qed (use nn in \<open>auto simp: set_ladder\<close>)
  then have fl: "is_f32 fl \<and> 0 \<le> fl" using 1(3,4) is_f32_of_int [of 1] by (cases "core = []") auto
  have fill: "sorted_wrt (\<ge>) (scores_of ?fill)" "\<forall>s\<in>set (scores_of ?fill). 0 \<le> s \<and> s \<le> f32_mul fl (hs_powi95 hs (0 + 1))"
    using fill_page_scores [OF ok conjunct2 [OF fl]] by blast+
  have "f32_mul fl (hs_powi95 hs (0 + 1)) \<le> fl"
    by (rule f32_mul_le_left) (use fl ok in \<open>simp_all add: decay_ok_def\<close>)
  then have below: "s \<le> fl" if "s \<in> set (scores_of ?fill)" for s using fill(2) that by (meson order_trans)
  have "fl \<le> t" if "t \<in> set (scores_of core)" for t
  proof -
    have "core \<noteq> []" using that by auto
    then have "fl = last (scores_of core)" using 1(3) by (simp add: last_map)
    then show ?thesis using sc that sorted_wrt_last_le by blast
  qed
  then have "\<forall>t\<in>set (scores_of core). \<forall>s\<in>set (scores_of ?fill). s \<le> t" using below by (meson order_trans)
  then have "sorted_wrt (\<ge>) (scores_of out)"
    unfolding 1(5) map_append sorted_wrt_append using sc fill(1) by blast
  then show ?thesis using len dist subset by blast
qed

text \<open>
  C1: The hits of the final chunk: no more than the limit, no document twice, only documents the
  lexical index or the semantic worker returned, and the assigned scores never increase down the
  page (so that sorting by score keeps the fused order). It needs lexical results with distinct
  ids and non-negative scores, a non-negative \<open>rrf_k\<close>, and that the powers of 0.95 decrease
  within [0, 1].
\<close>

theorem final_page_sound:
  assumes d: "distinct (ids_of lp)"
    and nn: "\<forall>p\<in>set lp. is_f32 (bd_final_score (snd p)) \<and> 0 \<le> bd_final_score (snd p)"
    and k: "0 \<le> hs_rrf_k hs" and ok: "decay_ok (hs_powi95 hs)"
    and out: "final_page hs q lp th ih m = Some out"
  shows "length out \<le> max (q_limit q) 1 \<and> distinct (ids_of out)
    \<and> set (ids_of out) \<subseteq> set (ids_of lp) \<union> ah_doc_id ` (set th \<union> set ih)
    \<and> sorted_wrt (\<ge>) (scores_of out)"
  using assms by (rule final_page_ok)


theorem final_page_sound_witness:
  "\<exists>out. final_page example_search example_query example_lexical [\<lparr>ah_doc_id = lit ''c'', ah_distance = 0\<rparr>] [] None = Some out
     \<and> length out \<le> 4 \<and> distinct (ids_of out) \<and> sorted_wrt (\<ge>) (scores_of out)"
proof -
  obtain out where out: "final_page example_search example_query example_lexical
      [\<lparr>ah_doc_id = lit ''c'', ah_distance = 0\<rparr>] [] None = Some out" using example_final by blast
  show ?thesis
    using final_page_sound [OF example_facts(1,3) _ example_decay out] example_facts(2) out
    by (auto simp: example_query_def)
qed

lemma precision_first_order:
  assumes "p \<noteq> []"
  shows "\<exists>a b. precision_first fused p l = a @ b \<and> fst ` set a \<subseteq> set l \<and> fst ` set b \<inter> set l = {}"
  using assms by (intro exI [of _ "filter (\<lambda>(d, _). d \<in> set l) fused"]
      exI [of _ "filter (\<lambda>(d, _). d \<notin> set l) fused"]) (auto simp: precision_first_filter)

definition blocks :: "doc_id set \<Rightarrow> doc_id list \<Rightarrow> bool" where
  "blocks L ids \<longleftrightarrow> sorted_wrt (\<lambda>x y. y \<in> L \<longrightarrow> x \<in> L) ids"

lemma blocks_append: "set a \<subseteq> L \<Longrightarrow> set b \<inter> L = {} \<Longrightarrow> blocks L (a @ b)"
  by (auto simp: blocks_def sorted_wrt_append intro!: sorted_wrt_mono_rel [OF _ sorted_wrt_true])

lemma filler_not_strong:
  assumes "distinct (ids_of lp)" "p \<in> set (filler_of n lp core)"
  shows "hit_id (fst p) \<notin> strong_ids lp"
proof
  assume "hit_id (fst p) \<in> strong_ids lp"
  then obtain p' where p': "p' \<in> set lp" "\<not> bd_lexical_fallback (snd p')" "hit_id (fst p') = hit_id (fst p)"
    by (auto simp: strong_ids_def)
  have "p \<in> set lp" "bd_lexical_fallback (snd p)" using set_filler assms(2) by blast+
  then show False using p' inj_onD [OF distinct_map [THEN iffD1, THEN conjunct2, OF assms(1)]] by metis
qed

lemma final_page_blocks:
  assumes d: "distinct (ids_of lp)" and p: "precision_ids_of lp \<noteq> []"
    and out: "final_page hs q lp th ih m = Some out"
  shows "blocks (strong_ids lp) (ids_of out)"
  using out
proof (cases rule: final_page_cases)
  case (1 pairs page core fl)
  let ?L = "strong_ids lp"
  obtain a b where ab: "fused_ranking hs q lp th ih m = a @ b" "fst ` set a \<subseteq> ?L" "fst ` set b \<inter> ?L = {}"
    unfolding fused_ranking_def using precision_first_order [OF p] by (metis set_bm25_ids)
  have "blocks ?L (map fst (a @ b))" unfolding map_append using ab(2,3) by (intro blocks_append) auto
  then have "blocks ?L (map fst page)"
    unfolding 1(1) ab(1) blocks_def take_map [symmetric] by (rule sorted_wrt_take)
  then have core: "blocks ?L (ids_of core)"
    unfolding blocks_def 1(2) by (rule sorted_wrt_subseq [OF core_ids])
  let ?fill = "filler_of (max (q_limit q) 1) lp core"
  have "set (ids_of ?fill) \<inter> ?L = {}" using filler_not_strong [OF d] by auto
  then show ?thesis
    using core by (auto simp: 1(5) blocks_def sorted_wrt_append fill_page_ids
        intro!: sorted_wrt_mono_rel [OF _ sorted_wrt_true])
qed

text \<open>
  C38: The precision-first invariant on the final page: when the query matches some document
  precisely (a full match with a title-prefix or exact-title boost), no document without full
  lexical standing - neither an ANN-only hit nor page filler - is placed above one that has it.
\<close>

theorem final_page_precision_first:
  assumes d: "distinct (ids_of lp)" and p: "precision_ids_of lp \<noteq> []"
    and out: "final_page hs q lp th ih m = Some out"
  shows "blocks (strong_ids lp) (ids_of out)"
  using assms by (rule final_page_blocks)

theorem final_page_precision_first_witness:
  "\<exists>out. final_page example_search example_query example_lexical [\<lparr>ah_doc_id = lit ''c'', ah_distance = 0\<rparr>] [] None = Some out
     \<and> blocks (strong_ids example_lexical) (ids_of out)"
proof -
  obtain out where out: "final_page example_search example_query example_lexical
      [\<lparr>ah_doc_id = lit ''c'', ah_distance = 0\<rparr>] [] None = Some out" using example_final by blast
  show ?thesis using final_page_precision_first [OF example_facts(1,4) out] out by blast
qed

section \<open>A worker that finds nothing\<close>

definition slot_share :: "f32 \<Rightarrow> nat \<Rightarrow> f32" where
  "slot_share k pos = f32_add 0 (f32_div 1 (f32_add k (rnd32 (of_nat (pos + 1)))))"

fun rrf_slots :: "f32 \<Rightarrow> nat \<Rightarrow> ranked \<Rightarrow> ranked" where
  "rrf_slots k pos [] = []"
| "rrf_slots k pos ((d, _) # xs) = (d, slot_share k pos) # rrf_slots k (Suc pos) xs"

lemma fst_rrf_slots [simp]: "map fst (rrf_slots k pos xs) = map fst xs"
  by (induction k pos xs rule: rrf_slots.induct) simp_all

lemma rrf_slots_in: "p \<in> set (rrf_slots k pos xs) \<Longrightarrow> \<exists>i<length xs. snd p = slot_share k (pos + i)"
proof (induction k pos xs rule: rrf_slots.induct)
  case (2 k pos d s xs)
  show ?case
  proof (cases "p = (d, slot_share k pos)")
    case False
    then obtain i where "i < length xs" "snd p = slot_share k (Suc pos + i)" using 2 by auto
    then show ?thesis by (intro exI [of _ "Suc i"]) simp
  qed (auto intro!: exI [of _ 0])
qed simp

lemma rrf_accumulate_fresh:
  "distinct (map fst xs) \<Longrightarrow> fst ` set xs \<inter> fst ` set fused = {} \<Longrightarrow>
   rrf_accumulate 1 k pos xs fused = fused @ rrf_slots k pos xs"
proof (induction xs arbitrary: pos fused)
  case (Cons x xs)
  obtain d s where x: "x = (d, s)" by fastforce
  have new: "map_of fused d = None" using Cons.prems x by (auto simp: map_of_eq_None_iff)
  have up: "AList.update d v fused = fused @ [(d, v)]" for v
    using new by (induction fused) (auto split: if_splits)
  have "rrf_accumulate 1 k pos (x # xs) fused = rrf_accumulate 1 k (Suc pos) xs (fused @ [(d, slot_share k pos)])"
    by (simp add: x new up Let_def slot_share_def)
  also have "\<dots> = (fused @ [(d, slot_share k pos)]) @ rrf_slots k (Suc pos) xs"
    using Cons.prems by (intro Cons.IH) (auto simp: x)
  finally show ?case by (simp add: x)
qed simp

lemma slot_share_strict:
  assumes "i < j" "k + Suc j \<le> 2 ^ 20"
  shows "slot_share (of_nat k) j < slot_share (of_nat k) i"
proof -
  have val: "slot_share (of_nat k) p = rnd32 (1 / of_nat (k + Suc p))" if "k + Suc p \<le> 2 ^ 20" for p
  proof -
    have "rnd32 (of_nat (p + 1)) = of_nat (p + 1)" using that by (intro rnd32_of_nat) simp
    moreover have "rnd32 (of_nat (k + Suc p)) = of_nat (k + Suc p)" using that by (intro rnd32_of_nat) simp
    ultimately show ?thesis by (simp add: slot_share_def f32_add_def f32_div_def ac_simps)
  qed
  let ?m = "k + Suc i" and ?n = "k + Suc j"
  have n: "?m + 1 \<le> ?n" "?n \<le> 2 ^ 20" "0 < ?m" using assms by simp_all
  have "rnd32 (1 / of_nat ?n) < rnd32 (1 / of_nat ?m)"
  proof (rule rnd32_strict)
    have "(2::real) powi (-126) \<le> 1 / 2 ^ 20" by (simp add: power_int_minus)
    also have "\<dots> \<le> 1 / of_nat ?n" using n by (intro divide_left_mono) (simp_all add: of_nat_le_iff [symmetric, where 'a = real])
    finally show "2 powi (-126) \<le> (1 :: real) / of_nat ?n" .
    have "real ?m * (1 + 2 powi (-22)) \<le> real ?m + 1"
      using n by (simp add: power_int_minus algebra_simps)
    also have "\<dots> \<le> real ?n" using n(1) by simp
    finally show "1 / real ?n * (1 + 2 powi (-22)) \<le> 1 / real ?m"
      using n by (simp add: field_simps)
  qed
  then show ?thesis using val [of i] val [of j] n by simp
qed


lemma rrf_slots_sorted:
  "k + pos + length xs \<le> 2 ^ 20 \<Longrightarrow> sorted_wrt (\<lambda>a b. snd b < snd a) (rrf_slots (of_nat k) pos xs)"
proof (induction xs arbitrary: pos)
  case (Cons x xs)
  have "snd p < slot_share (of_nat k) pos" if "p \<in> set (rrf_slots (of_nat k) (Suc pos) xs)" for p
    using rrf_slots_in [OF that] Cons.prems by (auto intro!: slot_share_strict)
  then show ?case using Cons by (cases x) auto
qed simp

lemma rrf_lexical_only:
  assumes d: "distinct (map fst b)" and k: "k + length b \<le> 2 ^ 20"
  shows "rrf_fuse_3way_weighted b [] [] (of_nat k) (1, wt, wi) = rrf_slots (of_nat k) 0 b"
proof -
  have "sorted (map (\<lambda>(d, s). (- s, d)) (rrf_slots (of_nat k) 0 b))"
    unfolding sorted_map
    by (rule sorted_wrt_mono_rel [OF _ rrf_slots_sorted]) (use k in \<open>auto simp: less_eq_prod_def\<close>)
  then show ?thesis
    using d by (simp add: rrf_fuse_3way_weighted_def rrf_sort_def rrf_accumulate_fresh sort_key_id_if_sorted)
qed

lemma precision_first_all: "fst ` set fused \<subseteq> set l \<Longrightarrow> precision_first fused p l = fused"
proof -
  assume "fst ` set fused \<subseteq> set l"
  then have "filter (\<lambda>(d, _). d \<in> set l) fused = fused" "filter (\<lambda>(d, _). d \<notin> set l) fused = []"
    by (auto simp: filter_id_conv filter_empty_conv)
  then show ?thesis by (simp add: precision_first_filter)
qed

lemma hydrate_page_lexical:
  assumes "\<forall>p\<in>set ps. by_id lp (hit_id (fst p)) = Some p" and "map fst page = ids_of ps"
  shows "hydrate_page score (by_id lp) h ds pos page = map2 set_score (slot_scores score pos page) ps"
  using assms
proof (induction page arbitrary: pos ps)
  case (Cons x page)
  obtain d r where x: "x = (d, r)" by fastforce
  obtain p ps' where ps: "ps = p # ps'" using Cons.prems(2) by (cases ps) auto
  have p: "by_id lp d = Some p" using Cons.prems x ps by simp
  show ?case using Cons.prems x ps p Cons.IH [of ps' "Suc pos"] by simp
qed simp

lemma bm25_ids: "map fst (bm25_ranked_of lp) = ids_of (filter (\<lambda>p. \<not> bd_lexical_fallback (snd p)) lp)"
  by (simp add: bm25_ranked_of_def case_prod_unfold o_def)

lemma ladder_sorted_input:
  assumes "sorted_wrt (\<lambda>a b. bd_final_score (snd b) \<le> bd_final_score (snd a))
    (filter (\<lambda>p. \<not> bd_lexical_fallback (snd p)) lp)"
  shows "ladder_of lp = map (\<lambda>p. bd_final_score (snd p)) (filter (\<lambda>p. \<not> bd_lexical_fallback (snd p)) lp)"
  unfolding ladder_of_def case_prod_unfold
  by (rule sort_key_id_if_sorted) (use assms in \<open>simp add: sorted_map sorted_wrt_map\<close>)

lemma set_score_same: "hit_score (fst p) = s \<Longrightarrow> bd_final_score (snd p) = s \<Longrightarrow> set_score s p = p"
  by (cases p) (simp add: set_score_def)

lemma final_page_degraded:
  assumes d: "distinct (ids_of lp)"
    and same: "\<forall>p\<in>set lp. hit_score (fst p) = bd_final_score (snd p)"
    and srt: "sorted_wrt (\<lambda>a b. bd_final_score (snd b) \<le> bd_final_score (snd a))
      (filter (\<lambda>p. \<not> bd_lexical_fallback (snd p)) lp)"
    and k: "hs_rrf_k hs = of_nat k" "k + length lp \<le> 2 ^ 20"
  shows "\<exists>filler. final_page hs q lp [] [] m =
      Some (take (max (q_limit q) 1) (filter (\<lambda>p. \<not> bd_lexical_fallback (snd p)) lp) @ filler)
    \<and> set (ids_of filler) \<inter> strong_ids lp = {}"
proof -
  let ?strong = "filter (\<lambda>p. \<not> bd_lexical_fallback (snd p)) lp" and ?n = "max (q_limit q) 1"
  let ?score = "score_for_rank (hs_powi95 hs) (ladder_of lp)"
  have len: "k + length (bm25_ranked_of lp) \<le> 2 ^ 20"
    using k(2) length_filter_le [of "\<lambda>(_, bd). \<not> bd_lexical_fallback bd" lp]
    unfolding bm25_ranked_of_def length_map by linarith
  have db: "distinct (map fst (bm25_ranked_of lp))" unfolding bm25_ids using d by (rule distinct_map_filter)
  obtain wt wi where w: "channel_weights (choose_modality (q_text q) m) = (1, wt, wi)"
    using channel_weights_nonneg by (metis prod_cases3)
  have fr: "fused_ranking hs q lp [] [] m = rrf_slots (of_nat k) 0 (bm25_ranked_of lp)"
    unfolding fused_ranking_def w k(1) ann_ranked_of_def list.map rrf_lexical_only [OF db len]
    by (rule precision_first_all) (metis fst_rrf_slots list.set_map order_refl)
  define page where "page = take ?n (fused_ranking hs q lp [] [] m)"
  have ids: "map fst page = ids_of (take ?n ?strong)"
    by (simp only: page_def fr take_map [symmetric] fst_rrf_slots bm25_ids)
  have found: "\<forall>p\<in>set (take ?n ?strong). by_id lp (hit_id (fst p)) = Some p"
    using by_id_distinct [OF d] by (auto dest: in_set_takeD)
  have nomiss: "filter (\<lambda>(d, _). by_id lp d = None) page = []"
  proof -
    have "by_id lp (fst x) \<noteq> None" if "x \<in> set page" for x
    proof -
      have "fst x \<in> set (ids_of (take ?n ?strong))" using that ids by (metis image_eqI list.set_map)
      then show ?thesis using found by auto
    qed
    then show ?thesis by (auto simp: filter_empty_conv)
  qed
  have core: "hydrate_page ?score (by_id lp) h ds 0 page = take ?n ?strong" for h ds
  proof -
    have "map2 set_score (slot_scores ?score 0 page) (take ?n ?strong) = take ?n ?strong"
    proof (rule nth_equalityI)
      have lp: "length page = length (take ?n ?strong)" using ids by (metis length_map)
      then show "length (map2 set_score (slot_scores ?score 0 page) (take ?n ?strong)) = length (take ?n ?strong)" by simp
      fix i assume "i < length (map2 set_score (slot_scores ?score 0 page) (take ?n ?strong))"
      then have i: "i < length (take ?n ?strong)" by simp
      then have s: "slot_scores ?score 0 page ! i = bd_final_score (snd (?strong ! i))"
        using lp by (simp add: nth_slot_scores score_for_rank_def ladder_sorted_input [OF srt])
      have "?strong ! i \<in> set lp" using i nth_mem [of i ?strong] by simp
      then show "map2 set_score (slot_scores ?score 0 page) (take ?n ?strong) ! i = take ?n ?strong ! i"
        using i lp s same by (simp add: set_score_same)
    qed
    then show ?thesis using hydrate_page_lexical [OF found ids] by simp
  qed
  obtain fl where fl: "pad_page (hs_powi95 hs) ?n lp (take ?n ?strong)
      = take ?n ?strong @ fill_page (hs_powi95 hs) fl 0 (filler_of ?n lp (take ?n ?strong))"
    using pad_page_eq by blast
  have fp: "final_page hs q lp [] [] m = Some (pad_page (hs_powi95 hs) ?n lp (take ?n ?strong))"
    unfolding final_page_def Let_def page_def [symmetric] nomiss by (simp add: core)
  have "set (ids_of (filler_of ?n lp (take ?n ?strong))) \<inter> strong_ids lp = {}"
    using filler_not_strong [OF d] by auto
  then show ?thesis unfolding fp fl
    by (intro exI [of _ "fill_page (hs_powi95 hs) fl 0 (filler_of ?n lp (take ?n ?strong))"])
       (simp only: fill_page_ids simp_thms)
qed




section \<open>The chunk protocol\<close>

lemma fused_search_streaming_cases:
  assumes "hs_lex hs q = Some pairs"
  obtains (initial) "fused_search_streaming hs ann q c = [\<lparr>fc_phase = Initial, fc_hits = pairs\<rparr>]"
  | (final) out where "\<not> c" "fused_search_streaming hs ann q c =
      [\<lparr>fc_phase = Initial, fc_hits = pairs\<rparr>, \<lparr>fc_phase = Final, fc_hits = out\<rparr>]"
proof (cases c)
  case False
  obtain r where r: "fused_search_streaming hs ann q c = \<lparr>fc_phase = Initial, fc_hits = pairs\<rparr>
      # (case r of None \<Rightarrow> [] | Some out \<Rightarrow> [\<lparr>fc_phase = Final, fc_hits = out\<rparr>])"
    unfolding fused_search_streaming_def Let_def assms option.case using False by auto
  show thesis by (cases r) (use r False that in auto)
qed (use that in \<open>simp add: fused_search_streaming_def assms Let_def\<close>)

section \<open>What the fusion layer relies on of the lexical index\<close>

text \<open>
  The contract of the lexical search: distinct documents, binary32 scores that are non-negative
  and agree with the breakdown, full matches before partial ones and best first in each tier,
  and no more results than asked for. The index search implements it (theory \<open>Index_Search\<close>).
\<close>

locale lexical_provider =
  fixes lex :: "query \<Rightarrow> scored_hit list option"
  assumes lex_distinct: "lex q = Some lp \<Longrightarrow> distinct (ids_of lp)"
    and lex_scores: "lex q = Some lp \<Longrightarrow> p \<in> set lp \<Longrightarrow>
      is_f32 (bd_final_score (snd p)) \<and> 0 \<le> bd_final_score (snd p) \<and> hit_score (fst p) = bd_final_score (snd p)"
    and lex_tiers: "lex q = Some lp \<Longrightarrow> sorted_wrt (\<lambda>a b. bd_lexical_fallback (snd a) \<le> bd_lexical_fallback (snd b)
      \<and> (bd_lexical_fallback (snd a) = bd_lexical_fallback (snd b) \<longrightarrow> hit_score (fst b) \<le> hit_score (fst a))) lp"
    and lex_limit: "lex q = Some lp \<Longrightarrow> length lp \<le> q_limit q"
begin

lemma lex_full_sorted:
  assumes "lex q = Some lp"
  shows "sorted_wrt (\<lambda>a b. bd_final_score (snd b) \<le> bd_final_score (snd a)) (filter (\<lambda>p. \<not> bd_lexical_fallback (snd p)) lp)"
proof -
  have "sorted_wrt (\<lambda>a b. \<not> bd_lexical_fallback (snd a) \<longrightarrow> \<not> bd_lexical_fallback (snd b) \<longrightarrow>
      bd_final_score (snd b) \<le> bd_final_score (snd a)) lp"
    using lex_scores [OF assms] by (intro sorted_wrt_mono_rel [OF _ lex_tiers [OF assms]]) auto
  from sorted_wrt_filter [OF this] show ?thesis by (rule sorted_wrt_mono_rel [rotated]) auto
qed

lemma provider_final_page:
  assumes lp: "lex q = Some lp" and k: "0 \<le> hs_rrf_k hs" and ok: "decay_ok (hs_powi95 hs)"
    and out: "final_page hs q lp th ih m = Some out"
  shows "length out \<le> max (q_limit q) 1 \<and> distinct (ids_of out) \<and> sorted_wrt (\<ge>) (scores_of out)
    \<and> (precision_ids_of lp \<noteq> [] \<longrightarrow> blocks (strong_ids lp) (ids_of out))"
  using final_page_ok [OF lex_distinct [OF lp] _ k ok out] final_page_blocks [OF lex_distinct [OF lp] _ out]
    lex_scores [OF lp] by blast

lemma provider_degraded_page:
  assumes lp: "lex q = Some lp" and k: "hs_rrf_k hs = of_nat k" "k + q_limit q \<le> 2 ^ 20"
  shows "\<exists>filler. final_page hs q lp [] [] m =
      Some (take (max (q_limit q) 1) (filter (\<lambda>p. \<not> bd_lexical_fallback (snd p)) lp) @ filler)
    \<and> set (ids_of filler) \<inter> strong_ids lp = {}"
  using lex_scores [OF lp] lex_limit [OF lp] k(2)
  by (intro final_page_degraded [OF lex_distinct [OF lp] _ lex_full_sorted [OF lp] k(1)]) auto

lemma provider_streaming:
  assumes lex: "hs_lex hs = lex" and k: "0 \<le> hs_rrf_k hs" and ok: "decay_ok (hs_powi95 hs)"
    and cs: "search_streaming hs q c = Some cs" and ch: "chunk \<in> set cs"
  shows "length (fc_hits chunk) \<le> max (q_limit q) 1 \<and> distinct (ids_of (fc_hits chunk))"
proof -
  have page: "length lp \<le> max (q_limit q) 1 \<and> distinct (ids_of lp)" if "hs_lex hs q = Some lp" for lp
    using lex_limit lex_distinct that lex by (auto simp: max.coboundedI1)
  show ?thesis
  proof (cases "hs_ann hs")
    case None
    then show ?thesis using cs ch page by (auto simp: search_streaming_def split: option.splits)
  next
    case (Some ann)
    then have cs': "cs = fused_search_streaming hs ann q c" using cs by (simp add: search_streaming_def)
    then obtain lp where lp: "hs_lex hs q = Some lp" using ch by (fastforce simp: fused_search_streaming_def Let_def split: option.splits)
    consider "fc_hits chunk = lp" | th ih m where "final_page hs q lp th ih m = Some (fc_hits chunk)"
      using ch lp unfolding cs' fused_search_streaming_def Let_def by (auto split: if_splits option.splits)
    then show ?thesis using page [OF lp] provider_final_page [OF lp [unfolded lex] k ok] by cases auto
  qed
qed

end

text \<open>
  The streaming protocol. Without a semantic worker there is exactly one chunk, the final one,
  with the lexical results unchanged; a lexical error is reported. With a worker the receiver
  always exists; it yields nothing exactly when the lexical search failed, otherwise first the
  lexical results as the initial chunk, then at most one final chunk, none when the request was
  cancelled. Nothing ever follows a final chunk, and the collecting wrappers return the hits of
  that chunk, or no hits when there is none.
\<close>

theorem streaming_protocol:
  "case search_streaming hs q cancelled of
     None \<Rightarrow> hs_ann hs = None \<and> hs_lex hs q = None
   | Some cs \<Rightarrow>
       (case hs_ann hs of
          None \<Rightarrow> (\<exists>pairs. hs_lex hs q = Some pairs \<and> cs = [\<lparr>fc_phase = Final, fc_hits = pairs\<rparr>])
        | Some ann \<Rightarrow>
            (case hs_lex hs q of
               None \<Rightarrow> cs = []
             | Some pairs \<Rightarrow>
                 hd cs = \<lparr>fc_phase = Initial, fc_hits = pairs\<rparr>
                 \<and> (if cancelled then tl cs = []
                    else tl cs = [] \<or> (\<exists>out. tl cs = [\<lparr>fc_phase = Final, fc_hits = out\<rparr>]))))
       \<and> collect_final cs = (case filter (\<lambda>c. fc_phase c = Final) cs of [] \<Rightarrow> [] | c # _ \<Rightarrow> fc_hits c)
       \<and> length (filter (\<lambda>c. fc_phase c = Final) cs) \<le> 1"
proof (cases "hs_ann hs")
  case None
  then show ?thesis by (cases "hs_lex hs q") (simp_all add: search_streaming_def)
next
  case (Some ann)
  show ?thesis
  proof (cases "hs_lex hs q")
    case None
    then show ?thesis using Some by (simp add: search_streaming_def fused_search_streaming_def)
  next
    case (Some pairs)
    then show ?thesis using \<open>hs_ann hs = Some ann\<close>
      by (cases rule: fused_search_streaming_cases [OF Some, of ann cancelled])
         (simp_all add: search_streaming_def)
  qed
qed

section \<open>Reciprocal rank fusion: the contract\<close>

text \<open>Whatever order the hash map is drained in, the sorted result is the same.\<close>

lemma rrf_order_independent:
  "mset drained = mset (fused_map b t i k ws) \<Longrightarrow> rrf_sort drained = rrf_fuse_3way_weighted b t i k ws"
  unfolding rrf_fuse_fused_map by (rule rrf_sort_perm)

lemma rrf_fuse_is_3way: "rrf_fuse b t k = rrf_fuse_3way b t [] k"
  by (simp add: rrf_fuse_def rrf_fuse_3way_def rrf_fuse_3way_weighted_def)

lemma map_of_rrf_sort: "distinct (map fst xs) \<Longrightarrow> map_of (rrf_sort xs) = map_of xs"
  by (rule map_of_perm [OF mset_rrf_sort distinct_rrf_sort])

text \<open>
  Weighted reciprocal rank fusion computes what its description says: the result holds every
  document of the three lists once and no other; its score is the left-to-right binary32 sum of
  \<open>w / (k + rank)\<close> over the lists and positions (ranks from 1) where it occurs; documents are
  ordered by decreasing score, ties by id. These facts leave no freedom for the hash map's
  iteration order. The two-list variant is the three-list one with an empty third list and unit
  weights.
\<close>

theorem rrf_fuse_contract:
  "distinct (map fst (rrf_fuse_3way_weighted b t i k (wb, wt, wi)))
   \<and> fst ` set (rrf_fuse_3way_weighted b t i k (wb, wt, wi)) = fst ` set b \<union> fst ` set t \<union> fst ` set i
   \<and> map_of (rrf_fuse_3way_weighted b t i k (wb, wt, wi)) d =
       (let c = rrf_contrib wb k 0 b d @ rrf_contrib wt k 0 t d @ rrf_contrib wi k 0 i d
        in if c = [] then None else Some (f32_sum c))
   \<and> sorted_wrt better (rrf_fuse_3way_weighted b t i k (wb, wt, wi))
   \<and> rrf_fuse b t k = rrf_fuse_3way_weighted b t [] k (1, 1, 1)"
  unfolding rrf_fuse_fused_map map_of_rrf_sort [OF distinct_fused_map] map_of_fused_map f32_sum_def
    set_rrf_sort set_fused_map
  by (intro conjI distinct_rrf_sort distinct_fused_map sorted_rrf_sort refl)
     (simp add: rrf_fuse_is_3way rrf_fuse_3way_def rrf_fuse_fused_map)

end
