(* ===== verification/State_Files.thy ===== *)
theory State_Files
  imports Core_Types
begin

text \<open>
  How the daemon's ranking stores are kept on disk, and the contract a per-document ranking
  signal offers to the daemon.

  A state directory maps file names to files. Every store is read with the same degradation
  (a missing, unreadable or unparsable file is an empty store) and written with the same
  protocol (write a temporary file, then rename it over the old one). The JSON codec is
  serde's: it is an argument (\<open>to_json\<close>, \<open>from_json\<close>) of the definitions. The outcome of each
  system call of a write is an argument too, so that every early return of \<^verbatim>\<open>save\<close> is a
  branch of the model; a failed \<^verbatim>\<open>write\<close> may leave anything in the temporary file.
\<close>

datatype file_state = Readable rstring | Unreadable

type_synonym state_dir = "rstring \<Rightarrow> file_state option"

record io_outcome =
  mkdir_ok :: bool
  write_ok :: bool
  rename_ok :: bool
  partial_write :: "file_state option"

definition io_success :: io_outcome where
  "io_success = \<lparr>mkdir_ok = True, write_ok = True, rename_ok = True, partial_write = None\<rparr>"

text \<open>\<^verbatim>\<open>read_to_string\<close> followed by \<^verbatim>\<open>serde_json::from_str\<close>, on an existing file.\<close>

definition read_or_default :: "(rstring \<Rightarrow> 's option) \<Rightarrow> 's \<Rightarrow> file_state \<Rightarrow> 's" where
  "read_or_default from_json dflt f =
     (case f of
        Unreadable \<Rightarrow> dflt
      | Readable content \<Rightarrow> (case from_json content of Some s \<Rightarrow> s | None \<Rightarrow> dflt))"

text \<open>
  \<^verbatim>\<open>create_dir_all\<close>, \<^verbatim>\<open>to_string_pretty\<close>, \<^verbatim>\<open>write(tmp)\<close>, \<^verbatim>\<open>rename(tmp, final)\<close>, each
  returning early on an error.
\<close>

definition write_tmp_rename ::
  "('s \<Rightarrow> rstring option) \<Rightarrow> rstring \<Rightarrow> rstring \<Rightarrow> io_outcome \<Rightarrow> 's \<Rightarrow> state_dir \<Rightarrow> bool \<times> state_dir" where
  "write_tmp_rename to_json final_path tmp_path io s d =
     (if \<not> mkdir_ok io then (False, d)
      else case to_json s of
        None \<Rightarrow> (False, d)
      | Some content \<Rightarrow>
          if \<not> write_ok io then (False, d(tmp_path := partial_write io))
          else if \<not> rename_ok io then (False, d(tmp_path := Some (Readable content)))
          else (True, d(tmp_path := None, final_path := Some (Readable content))))"

text \<open>The codec law the stores rely on: what is written reads back.\<close>

definition codec_ok :: "('s \<Rightarrow> rstring option) \<Rightarrow> (rstring \<Rightarrow> 's option) \<Rightarrow> bool" where
  "codec_ok to_json from_json \<longleftrightarrow> (\<forall>s c. to_json s = Some c \<longrightarrow> from_json c = Some s)"

lemma write_tmp_rename_final:
  assumes "tmp \<noteq> final" and "write_tmp_rename to_json final tmp io s d = (ok, d')"
  shows "d' final = (if ok then map_option Readable (to_json s) else d final)"
    and "\<And>n. n \<noteq> final \<Longrightarrow> n \<noteq> tmp \<Longrightarrow> d' n = d n"
    and "ok \<Longrightarrow> \<exists>c. to_json s = Some c"
  using assms by (auto simp: write_tmp_rename_def split: if_splits option.splits)

lemma read_after_write:
  assumes "codec_ok to_json from_json" and "to_json s = Some c"
  shows "read_or_default from_json dflt (Readable c) = s"
  using assms by (simp add: codec_ok_def read_or_default_def)

text \<open>A codec for one store, used to instantiate the law in the witnesses.\<close>

definition one_store_enc :: "'s \<Rightarrow> 's \<Rightarrow> rstring option" where
  "one_store_enc s0 s = (if s = s0 then Some (lit ''{}'') else None)"

definition one_store_dec :: "'s \<Rightarrow> rstring \<Rightarrow> 's option" where
  "one_store_dec s0 c = (if c = lit ''{}'' then Some s0 else None)"

lemma one_store_codec: "codec_ok (one_store_enc s0) (one_store_dec s0)"
  by (simp add: codec_ok_def one_store_enc_def one_store_dec_def)

section \<open>The contract of a per-document ranking signal\<close>

text \<open>
  Frecency and query latches are both keyed by document: the daemon resets a document's
  ranking by calling \<^verbatim>\<open>remove_doc\<close> on each store. The contract: afterwards the document's
  signal is neutral, every other document keeps its signal, the store stays well-formed,
  and \<^verbatim>\<open>false\<close> is returned exactly when nothing was stored.
\<close>

locale doc_signal =
  fixes inv :: "'s \<Rightarrow> bool"
    and remove_doc :: "'s \<Rightarrow> doc_id \<Rightarrow> 's \<times> bool"
    and known :: "'s \<Rightarrow> doc_id \<Rightarrow> bool"
    and signal :: "'s \<Rightarrow> doc_id \<Rightarrow> 'v"
    and neutral :: 'v
  assumes inv_remove: "inv s \<Longrightarrow> inv (fst (remove_doc s d))"
    and known_remove: "inv s \<Longrightarrow> known (fst (remove_doc s d)) d' \<longleftrightarrow> d' \<noteq> d \<and> known s d'"
    and flag_remove: "inv s \<Longrightarrow> snd (remove_doc s d) \<longleftrightarrow> known s d"
    and unknown_neutral: "inv s \<Longrightarrow> \<not> known s d \<Longrightarrow> signal s d = neutral"
    and frame_remove: "inv s \<Longrightarrow> d' \<noteq> d \<Longrightarrow> signal (fst (remove_doc s d)) d' = signal s d'"
begin

lemma reset_neutral: "inv s \<Longrightarrow> signal (fst (remove_doc s d)) d = neutral"
  by (simp add: inv_remove known_remove unknown_neutral)

lemma second_remove_noop: "inv s \<Longrightarrow> \<not> snd (remove_doc (fst (remove_doc s d)) d)"
  by (simp add: flag_remove inv_remove known_remove)

lemma remove_signal:
  "inv s \<Longrightarrow> signal (fst (remove_doc s d)) d' = (if d' = d then neutral else signal s d')"
  by (simp add: reset_neutral frame_remove)

lemma remove_commute:
  "inv s \<Longrightarrow> signal (fst (remove_doc (fst (remove_doc s d)) e)) x
      = signal (fst (remove_doc (fst (remove_doc s e)) d)) x"
  by (simp add: remove_signal inv_remove)

end

end
