(* ===== verification/Frecency.thy ===== *)
theory Frecency
  imports State_Files
begin

text \<open>
  The frecency store of \<^verbatim>\<open>crates/lixun-daemon/src/frecency.rs\<close>: a bounded ring buffer of visit
  timestamps per document, weighted by age at read time. The hash map is an association
  list with distinct keys; where the code iterates over it, the list order stands for the
  (arbitrary) iteration order and the results are shown not to depend on it.
\<close>

datatype visit_kind = Click

record visit_entry =
  ve_ts :: int
  ve_kind :: visit_kind

type_synonym frecency_record = "visit_entry list"

record frecency_store =
  fs_records :: "(doc_id \<times> frecency_record) list"

definition frecency_default :: frecency_store where
  "frecency_default = \<lparr>fs_records = []\<rparr>"

definition MAX_VISITS_PER_DOC :: nat where
  "MAX_VISITS_PER_DOC = 10"

definition SECONDS_PER_DAY :: int where
  "SECONDS_PER_DAY = 86400"

definition bucket_weight :: "int \<Rightarrow> f32" where
  "bucket_weight age_seconds =
     (let age = max age_seconds 0;
          age_days = age div SECONDS_PER_DAY
      in if age_days \<le> 4 then 1
         else if age_days \<le> 14 then rnd32 (70 / 100)
         else if age_days \<le> 31 then rnd32 (50 / 100)
         else if age_days \<le> 90 then rnd32 (30 / 100)
         else rnd32 (10 / 100))"

definition frecency_load ::
  "(rstring \<Rightarrow> frecency_store option) \<Rightarrow> bool \<Rightarrow> state_dir \<Rightarrow> frecency_store option \<times> state_dir" where
  "frecency_load from_json remove_ok d =
     (case d (lit ''frecency.json'') of
        Some f \<Rightarrow> (Some (read_or_default from_json frecency_default f), d)
      | None \<Rightarrow>
          if d (lit ''history.json'') \<noteq> None then
            (if remove_ok then (Some frecency_default, d(lit ''history.json'' := None)) else (None, d))
          else (Some frecency_default, d))"

definition frecency_save ::
  "(frecency_store \<Rightarrow> rstring option) \<Rightarrow> io_outcome \<Rightarrow> frecency_store \<Rightarrow> state_dir \<Rightarrow> bool \<times> state_dir" where
  "frecency_save to_json io s d =
     write_tmp_rename to_json (lit ''frecency.json'') (lit ''frecency.json.tmp'') io s d"

text \<open>The \<^verbatim>\<open>while len > MAX \{ pop_front \}\<close> loop.\<close>

fun pop_front_while :: "nat \<Rightarrow> 'a list \<Rightarrow> 'a list" where
  "pop_front_while n [] = []"
| "pop_front_while n (x # xs) = (if n < length (x # xs) then pop_front_while n xs else x # xs)"

definition record_click :: "frecency_store \<Rightarrow> doc_id \<Rightarrow> int \<Rightarrow> frecency_store" where
  "record_click s d now =
     (let visits = (case map_of (fs_records s) d of None \<Rightarrow> [] | Some r \<Rightarrow> r);
          visits' = visits @ [\<lparr>ve_ts = now, ve_kind = Click\<rparr>]
      in s\<lparr>fs_records := AList.update d (pop_front_while MAX_VISITS_PER_DOC visits') (fs_records s)\<rparr>)"

definition frecency_raw :: "frecency_store \<Rightarrow> doc_id \<Rightarrow> int \<Rightarrow> f32" where
  "frecency_raw s d now =
     (case map_of (fs_records s) d of
        None \<Rightarrow> 0
      | Some record \<Rightarrow> f32_sum (map (\<lambda>v. bucket_weight (wrap_i64 (now - ve_ts v))) record))"

definition frecency_mult :: "frecency_store \<Rightarrow> doc_id \<Rightarrow> int \<Rightarrow> f32 \<Rightarrow> f32" where
  "frecency_mult s d now alpha = f32_add 1 (f32_mul alpha (frecency_raw s d now))"

definition frecency_remove_doc :: "frecency_store \<Rightarrow> doc_id \<Rightarrow> frecency_store \<times> bool" where
  "frecency_remove_doc s d =
     (s\<lparr>fs_records := AList.delete d (fs_records s)\<rparr>, map_of (fs_records s) d \<noteq> None)"

definition top_docs :: "frecency_store \<Rightarrow> int \<Rightarrow> nat \<Rightarrow> doc_id list" where
  "top_docs s now limit =
     (let scored = filter (\<lambda>(score, _). 0 < score)
                     (map (\<lambda>i. (frecency_raw s i now, i)) (map fst (fs_records s)));
          sorted = sort_key (\<lambda>(score, i). (- score, i)) scored
      in map snd (take limit sorted))"

section \<open>Well-formed stores\<close>

definition frecency_inv :: "frecency_store \<Rightarrow> bool" where
  "frecency_inv s \<longleftrightarrow>
     distinct (map fst (fs_records s))
     \<and> (\<forall>r\<in>set (fs_records s). r \<in> UNIV \<times> {v. v \<noteq> [] \<and> length v \<le> MAX_VISITS_PER_DOC})"

lemma pop_front_while_drop: "pop_front_while n xs = drop (length xs - n) xs"
  by (induction xs) (auto simp: Suc_diff_le drop_Cons')

lemma frecency_inv_default: "frecency_inv frecency_default"
  by (simp add: frecency_inv_def frecency_default_def)

lemma record_click_inv: "frecency_inv s \<Longrightarrow> frecency_inv (record_click s d now)"
proof -
  assume inv: "frecency_inv s"
  define v where "v = (case map_of (fs_records s) d of None \<Rightarrow> [] | Some r \<Rightarrow> r)
    @ [\<lparr>ve_ts = now, ve_kind = Click\<rparr>]"
  let ?w = "pop_front_while MAX_VISITS_PER_DOC v"
  have rc: "fs_records (record_click s d now) = AList.update d ?w (fs_records s)"
    by (simp add: record_click_def v_def Let_def)
  have "?w \<noteq> []" "length ?w \<le> MAX_VISITS_PER_DOC"
    by (auto simp: pop_front_while_drop v_def MAX_VISITS_PER_DOC_def)
  then show ?thesis
    using inv set_AList_update [of d ?w "fs_records s"]
    unfolding frecency_inv_def rc by (auto simp: AList.distinct_update)
qed

lemma remove_doc_inv: "frecency_inv s \<Longrightarrow> frecency_inv (fst (frecency_remove_doc s d))"
  using set_AList_delete [of d "fs_records s"]
  by (auto simp: frecency_inv_def frecency_remove_doc_def AList.distinct_delete)

section \<open>Bounds\<close>

lemma bucket_weight_bounds: "0 < bucket_weight a \<and> bucket_weight a \<le> 1"
proof -
  have f: "is_f32 (1 / 16)"
    unfolding is_f32_def by (intro exI [of _ 1] exI [of _ "-4"]) (simp add: power_int_minus)
  have lo: "1 / 16 \<le> x \<Longrightarrow> 0 < rnd32 x" for x
    using rnd32_ge_f32 [OF f, of x] by simp
  have hi: "x \<le> 1 \<Longrightarrow> rnd32 x \<le> 1" for x
    using rnd32_mono [of x 1] by simp
  show ?thesis by (simp add: bucket_weight_def Let_def lo hi)
qed

lemma bucket_weight_antimono:
  assumes "a \<le> b" shows "bucket_weight b \<le> bucket_weight a"
proof -
  have le: "max a 0 div SECONDS_PER_DAY \<le> max b 0 div SECONDS_PER_DAY"
    using assms by (intro zdiv_mono1) (auto simp: SECONDS_PER_DAY_def)
  have "rnd32 (70/100) \<le> 1" using rnd32_mono [of "70/100" 1] by simp
  moreover have "rnd32 (50/100) \<le> rnd32 (70/100)" "rnd32 (30/100) \<le> rnd32 (50/100)"
    "rnd32 (10/100) \<le> rnd32 (30/100)" by (simp_all add: rnd32_mono)
  ultimately show ?thesis using le by (simp add: bucket_weight_def Let_def)
qed

lemma f32_fold_pos: "0 < a \<Longrightarrow> is_f32 a \<Longrightarrow> \<forall>x\<in>set xs. 0 \<le> x \<Longrightarrow> a \<le> foldl f32_add a xs"
proof (induction xs arbitrary: a)
  case (Cons x xs)
  have le: "a \<le> f32_add a x"
    unfolding f32_add_def using Cons.prems by (intro rnd32_ge_f32) simp_all
  have "f32_add a x \<le> foldl f32_add (f32_add a x) xs"
    using Cons.prems le by (intro Cons.IH) (simp_all add: f32_add_def)
  with le show ?case by simp
qed simp

lemma frecency_raw_bounds:
  assumes "frecency_inv s"
  shows "0 \<le> frecency_raw s d now \<and> frecency_raw s d now \<le> of_nat MAX_VISITS_PER_DOC"
proof (cases "map_of (fs_records s) d")
  case None
  then show ?thesis by (simp add: frecency_raw_def)
next
  case (Some r)
  then have len: "length r \<le> MAX_VISITS_PER_DOC"
    using assms map_of_SomeD [OF Some] by (auto simp: frecency_inv_def)
  let ?ws = "map (\<lambda>v. bucket_weight (wrap_i64 (now - ve_ts v))) r"
  have "f32_sum ?ws \<le> of_nat (length ?ws)"
    using len bucket_weight_bounds by (intro f32_sum_le_length) (auto simp: MAX_VISITS_PER_DOC_def)
  moreover have "0 \<le> f32_sum ?ws"
    using bucket_weight_bounds less_imp_le by (intro f32_sum_nonneg) fastforce
  moreover have "real (length ?ws) \<le> of_nat MAX_VISITS_PER_DOC" using len by simp
  ultimately show ?thesis using Some by (simp add: frecency_raw_def)
qed

text \<open>A stored document always scores above zero: no bucket has weight zero.\<close>

lemma frecency_raw_pos:
  assumes "map_of (fs_records s) d = Some r" and "r \<noteq> []"
  shows "0 < frecency_raw s d now"
proof -
  obtain v vs where r: "r = v # vs" using assms(2) by (cases r) auto
  let ?w = "\<lambda>v. bucket_weight (wrap_i64 (now - ve_ts v))"
  have p: "0 < ?w v" using bucket_weight_bounds by simp
  have fa: "is_f32 (1 / 16)"
    unfolding is_f32_def by (intro exI [of _ 1] exI [of _ "-4"]) (simp add: power_int_minus)
  have b: "1 / 16 \<le> ?w v"
    using rnd32_ge_f32 [OF fa] by (simp add: bucket_weight_def Let_def)
  then have b': "1 / 16 \<le> f32_add 0 (?w v)"
    unfolding f32_add_def using fa by (intro rnd32_ge_f32) simp_all
  have "f32_add 0 (?w v) \<le> foldl f32_add (f32_add 0 (?w v)) (map ?w vs)"
    using b' bucket_weight_bounds less_imp_le
    by (intro f32_fold_pos) (auto simp: f32_add_def intro: less_imp_le)
  with b' show ?thesis using assms(1) by (simp add: frecency_raw_def f32_sum_def r)
qed

section \<open>Refinement of the click log\<close>

text \<open>
  The abstract store keeps every click. The ring buffer holds, for each document, the last
  ten clicks on it, in order.
\<close>

type_synonym click_log = "(doc_id \<times> int) list"

definition clicks_of :: "click_log \<Rightarrow> doc_id \<Rightarrow> int list" where
  "clicks_of clog d = map snd (filter (\<lambda>(d', _). d' = d) clog)"

definition last_n :: "nat \<Rightarrow> 'a list \<Rightarrow> 'a list" where
  "last_n n xs = drop (length xs - n) xs"

definition replay :: "click_log \<Rightarrow> frecency_store" where
  "replay clog = foldl (\<lambda>s (d, now). record_click s d now) frecency_default clog"

definition visit_times :: "frecency_store \<Rightarrow> doc_id \<Rightarrow> int list" where
  "visit_times s d = (case map_of (fs_records s) d of None \<Rightarrow> [] | Some r \<Rightarrow> map ve_ts r)"

lemma last_n_snoc: "0 < n \<Longrightarrow> last_n n (last_n n xs @ [x]) = last_n n (xs @ [x])"
  by (cases "length xs \<le> n") (auto simp: last_n_def Suc_diff_le)

lemma visit_times_click:
  "visit_times (record_click s d now) d'
   = (if d' = d then last_n MAX_VISITS_PER_DOC (visit_times s d @ [now]) else visit_times s d')"
  by (auto simp: visit_times_def record_click_def Let_def map_of_update pop_front_while_drop
      last_n_def drop_map MAX_VISITS_PER_DOC_def split: option.split)

lemma replay_snoc: "replay (clog @ [(d, now)]) = record_click (replay clog) d now"
  by (simp add: replay_def)

lemma replay_inv: "frecency_inv (replay clog)"
  by (induction clog rule: rev_induct)
    (auto simp: replay_def frecency_inv_default record_click_inv split: prod.split)

lemma replay_visit_times:
  "visit_times (replay clog) d = last_n MAX_VISITS_PER_DOC (clicks_of clog d)"
proof (induction clog rule: rev_induct)
  case Nil
  then show ?case
    by (simp add: replay_def visit_times_def frecency_default_def clicks_of_def last_n_def)
next
  case (snoc c clog)
  obtain d' now where c: "c = (d', now)" by fastforce
  show ?case
    using snoc.IH last_n_snoc [of MAX_VISITS_PER_DOC "clicks_of clog d" now]
    by (auto simp: c replay_snoc visit_times_click clicks_of_def MAX_VISITS_PER_DOC_def)
qed

section \<open>The frecency store as a document signal\<close>

lemma frecency_raw_unknown: "map_of (fs_records s) d = None \<Longrightarrow> frecency_raw s d now = 0"
  by (simp add: frecency_raw_def)

lemma frecency_mult_unknown:
  "map_of (fs_records s) d = None \<Longrightarrow> frecency_mult s d now alpha = 1"
  by (simp add: frecency_mult_def frecency_raw_unknown f32_mul_def f32_add_def)

lemma frecency_raw_cong:
  "map_of (fs_records s) d = map_of (fs_records t) d \<Longrightarrow> frecency_raw s d now = frecency_raw t d now"
  by (simp add: frecency_raw_def)

interpretation frecency_signal:
  doc_signal frecency_inv frecency_remove_doc "\<lambda>s d. map_of (fs_records s) d \<noteq> None"
    "\<lambda>s d. (\<lambda>now alpha. frecency_mult s d now alpha)" "\<lambda>_ _. 1"
proof unfold_locales
  fix s :: frecency_store and d :: doc_id assume "frecency_inv s"
  then show "frecency_inv (fst (frecency_remove_doc s d))" by (rule remove_doc_inv)
next
  fix s :: frecency_store and d d' :: doc_id
  show "(map_of (fs_records (fst (frecency_remove_doc s d))) d' \<noteq> None)
      \<longleftrightarrow> d' \<noteq> d \<and> map_of (fs_records s) d' \<noteq> None"
    by (simp add: frecency_remove_doc_def AList.delete_conv')
next
  fix s :: frecency_store and d :: doc_id
  show "snd (frecency_remove_doc s d) \<longleftrightarrow> map_of (fs_records s) d \<noteq> None"
    by (simp add: frecency_remove_doc_def)
next
  fix s :: frecency_store and d :: doc_id
  assume "\<not> map_of (fs_records s) d \<noteq> None"
  then show "(\<lambda>now alpha. frecency_mult s d now alpha) = (\<lambda>_ _. 1)"
    by (simp add: frecency_mult_unknown fun_eq_iff)
next
  fix s :: frecency_store and d d' :: doc_id assume "d' \<noteq> d"
  then show "(\<lambda>now alpha. frecency_mult (fst (frecency_remove_doc s d)) d' now alpha)
      = (\<lambda>now alpha. frecency_mult s d' now alpha)"
    by (simp add: fun_eq_iff frecency_mult_def frecency_raw_def frecency_remove_doc_def
        AList.delete_conv')
qed

section \<open>Ranking the store\<close>

definition scored_docs :: "frecency_store \<Rightarrow> int \<Rightarrow> (f32 \<times> doc_id) list" where
  "scored_docs s now = sort_key (\<lambda>(score, i). (- score, i))
     (filter (\<lambda>(score, _). 0 < score)
        (map (\<lambda>i. (frecency_raw s i now, i)) (map fst (fs_records s))))"

lemma top_docs_scored: "top_docs s now limit = map snd (take limit (scored_docs s now))"
  by (simp add: top_docs_def scored_docs_def Let_def)

lemma inj_score_key: "inj_on (\<lambda>(score :: real, i). (- score, i)) A"
  by (auto simp: inj_on_def)

lemma scored_docs_perm:
  assumes "frecency_inv s" and "mset (fs_records s) = mset (fs_records t)"
  shows "scored_docs s now = scored_docs t now"
proof -
  have "map_of (fs_records s) = map_of (fs_records t)"
    using assms by (intro map_of_perm) (simp_all add: frecency_inv_def)
  then have raw: "frecency_raw s i now = frecency_raw t i now" for i
    by (simp add: frecency_raw_def)
  show ?thesis unfolding scored_docs_def raw
    using assms(2) inj_score_key by (intro sort_key_perm) (simp_all add: mset_filter)
qed

lemma scored_docs_set:
  assumes "frecency_inv s"
  shows "set (scored_docs s now)
    = (\<lambda>i. (frecency_raw s i now, i)) ` {i. map_of (fs_records s) i \<noteq> None}"
proof -
  have pos: "0 < frecency_raw s i now" if "i \<in> fst ` set (fs_records s)" for i
  proof -
    from that obtain r where r: "(i, r) \<in> set (fs_records s)" by auto
    with assms have "r \<noteq> []" "map_of (fs_records s) i = Some r"
      by (auto simp: frecency_inv_def)
    then show ?thesis by (intro frecency_raw_pos)
  qed
  have "{i. map_of (fs_records s) i \<noteq> None} = fst ` set (fs_records s)"
    by (auto simp: map_of_eq_None_iff)
  then show ?thesis using pos by (auto simp: scored_docs_def)
qed

lemma scored_docs_distinct:
  assumes "frecency_inv s" shows "distinct (map snd (scored_docs s now))"
proof -
  let ?f = "filter (\<lambda>(score, _). 0 < score)
        (map (\<lambda>i. (frecency_raw s i now, i)) (map fst (fs_records s)))"
  have "distinct (map snd ?f)"
    using assms by (auto simp: frecency_inv_def distinct_map filter_map o_def inj_on_def)
  moreover have "mset (map snd (scored_docs s now)) = mset (map snd ?f)"
    by (simp add: scored_docs_def)
  ultimately show ?thesis using mset_eq_imp_distinct_iff by blast
qed

lemma scored_docs_sorted:
  "sorted_wrt (\<lambda>a b. fst b < fst a \<or> fst a = fst b \<and> snd a \<le> snd b) (scored_docs s now)"
proof -
  have "sorted (map (\<lambda>(score, i). (- score, i)) (scored_docs s now))"
    by (simp add: scored_docs_def)
  then show ?thesis
    by (auto simp: sorted_map sorted_wrt_map less_eq_prod_def elim!: sorted_wrt_mono_rel [rotated])
qed

lemma scored_docs_length: "frecency_inv s \<Longrightarrow> length (scored_docs s now) = length (fs_records s)"
proof -
  assume inv: "frecency_inv s"
  have "length (scored_docs s now) = card (set (map snd (scored_docs s now)))"
    using distinct_card [OF scored_docs_distinct [OF inv]] by simp
  also have "set (map snd (scored_docs s now)) = set (map fst (fs_records s))"
    using scored_docs_set [OF inv] by (force simp: map_of_eq_None_iff image_image)
  also have "card \<dots> = length (fs_records s)"
    using inv distinct_card by (fastforce simp: frecency_inv_def)
  finally show ?thesis .
qed

lemma take_drop_sorted:
  assumes "sorted_wrt P xs" and "x \<in> set (take n xs)" and "y \<in> set (drop n xs)"
  shows "P x y"
  using assms sorted_wrt_append [of P "take n xs" "drop n xs"] by simp

section \<open>Properties\<close>

text \<open>Ring buffer as a refinement of the click log. After any sequence of clicks
  recorded with \<open>record_click\<close> on an empty store, the visits stored for a document are exactly the
  last ten clicks on that document, in order, whatever clicks on other documents came between.\<close>

theorem frecency_refines_click_log:
  "visit_times (replay clog) d = last_n 10 (clicks_of clog d) \<and> frecency_inv (replay clog)"
  using replay_visit_times replay_inv by (simp add: MAX_VISITS_PER_DOC_def)

text \<open>Every visit weighs at most one and at least something, older visits never weigh more, and
  for a well-formed store the multiplier lies between one and \<open>1 + 10 * alpha\<close>, single-precision
  rounding included.\<close>

theorem frecency_mult_bounds:
  assumes "frecency_inv s" and "0 \<le> alpha"
  shows "1 \<le> frecency_mult s d now alpha
    \<and> frecency_mult s d now alpha \<le> f32_add 1 (f32_mul alpha 10)
    \<and> (\<forall>a b. a \<le> b \<longrightarrow> 0 < bucket_weight b \<and> bucket_weight b \<le> bucket_weight a \<and> bucket_weight a \<le> 1)"
proof -
  have raw: "0 \<le> frecency_raw s d now" "frecency_raw s d now \<le> 10"
    using frecency_raw_bounds [OF assms(1), of d now] by (simp_all add: MAX_VISITS_PER_DOC_def)
  have "0 \<le> f32_mul alpha (frecency_raw s d now)" using assms(2) raw(1) by (rule f32_mul_nonneg)
  then have lo: "1 \<le> frecency_mult s d now alpha"
    unfolding frecency_mult_def f32_add_def using is_f32_of_int [of 1] by (intro rnd32_ge_f32) simp_all
  have hi: "frecency_mult s d now alpha \<le> f32_add 1 (f32_mul alpha 10)"
    unfolding frecency_mult_def using assms(2) raw by (intro f32_add_mono f32_mul_mono) simp_all
  show ?thesis using lo hi bucket_weight_bounds bucket_weight_antimono by blast
qed

theorem frecency_mult_bounds_witness:
  "frecency_inv (replay [(lit ''a'', 0), (lit ''a'', 5)]) \<and> (0::real) \<le> 1
   \<and> 1 \<le> frecency_mult (replay [(lit ''a'', 0), (lit ''a'', 5)]) (lit ''a'') 7 1
   \<and> frecency_mult (replay [(lit ''a'', 0), (lit ''a'', 5)]) (lit ''a'') 7 1 \<le> f32_add 1 (f32_mul 1 10)"
  using frecency_mult_bounds [of "replay [(lit ''a'', 0), (lit ''a'', 5)]" 1 "lit ''a''" 7]
    replay_inv [of "[(lit ''a'', 0), (lit ''a'', 5)]"] by simp

text \<open>The Recents ranking. On a well-formed store \<open>top_docs\<close> returns exactly \<open>min limit n\<close> distinct
  stored documents of the \<open>n\<close> stored (a stored document is never dropped as "aged out"), best
  score first with ties by id; no omitted document scores above a returned one; and the
  answer does not depend on the iteration order of the hash map.\<close>

theorem top_docs_correct:
  assumes "frecency_inv s"
  shows "distinct (top_docs s now limit)
    \<and> length (top_docs s now limit) = min limit (length (fs_records s))
    \<and> set (top_docs s now limit) \<subseteq> {i. map_of (fs_records s) i \<noteq> None}
    \<and> sorted_wrt (\<lambda>a b. frecency_raw s b now < frecency_raw s a now
          \<or> frecency_raw s a now = frecency_raw s b now \<and> a \<le> b) (top_docs s now limit)
    \<and> (\<forall>i\<in>set (top_docs s now limit). \<forall>j. map_of (fs_records s) j \<noteq> None \<longrightarrow>
          j \<notin> set (top_docs s now limit) \<longrightarrow> frecency_raw s j now \<le> frecency_raw s i now)
    \<and> (\<forall>t. mset (fs_records t) = mset (fs_records s) \<longrightarrow> top_docs t now limit = top_docs s now limit)"
    (is "?a \<and> ?b \<and> ?c \<and> ?d \<and> ?e \<and> ?f")
proof -
  let ?sd = "scored_docs s now"
  note set_sd = scored_docs_set [OF assms, of now]
  have fst_raw: "fst p = frecency_raw s (snd p) now" if "p \<in> set ?sd" for p
    using that set_sd by auto
  have a: ?a
    unfolding top_docs_scored using scored_docs_distinct [OF assms]
    by (metis distinct_take take_map)
  have b: ?b by (simp add: top_docs_scored scored_docs_length [OF assms])
  have c: ?c using set_sd by (auto simp: top_docs_scored dest!: in_set_takeD)
  have d: ?d
  proof -
    have "sorted_wrt (\<lambda>a b. fst b < fst a \<or> fst a = fst b \<and> snd a \<le> snd b) (take limit ?sd)"
      using scored_docs_sorted by (rule sorted_wrt_take)
    then have "sorted_wrt (\<lambda>a b. frecency_raw s (snd b) now < frecency_raw s (snd a) now
        \<or> frecency_raw s (snd a) now = frecency_raw s (snd b) now \<and> snd a \<le> snd b) (take limit ?sd)"
      by (rule sorted_wrt_mono_rel [rotated]) (metis fst_raw in_set_takeD)
    then show ?thesis by (simp add: top_docs_scored sorted_wrt_map)
  qed
  have e: ?e
  proof (intro ballI allI impI)
    fix i j
    assume i: "i \<in> set (top_docs s now limit)" and j: "map_of (fs_records s) j \<noteq> None"
      and nj: "j \<notin> set (top_docs s now limit)"
    from i obtain p where p: "p \<in> set (take limit ?sd)" "i = snd p" by (auto simp: top_docs_scored)
    have "(frecency_raw s j now, j) \<in> set ?sd" using j set_sd by auto
    moreover have "(frecency_raw s j now, j) \<notin> set (take limit ?sd)"
      using nj by (force simp: top_docs_scored)
    ultimately have "(frecency_raw s j now, j) \<in> set (drop limit ?sd)"
      by (metis UnE append_take_drop_id set_append)
    from take_drop_sorted [OF scored_docs_sorted p(1) this]
    have "frecency_raw s j now \<le> fst p" by auto
    then show "frecency_raw s j now \<le> frecency_raw s i now"
      using fst_raw [of p] p by (auto dest: in_set_takeD)
  qed
  have f: ?f
  proof (intro allI impI)
    fix t :: frecency_store assume "mset (fs_records t) = mset (fs_records s)"
    then have "scored_docs s now = scored_docs t now" by (intro scored_docs_perm [OF assms]) simp
    then show "top_docs t now limit = top_docs s now limit" by (simp only: top_docs_scored)
  qed
  show ?thesis by (rule conjI [OF a conjI [OF b conjI [OF c conjI [OF d conjI [OF e f]]]]])
qed

theorem top_docs_correct_witness:
  "frecency_inv (replay [(lit ''a'', 0), (lit ''b'', 5)])
   \<and> length (top_docs (replay [(lit ''a'', 0), (lit ''b'', 5)]) 7 1) = 1"
proof -
  let ?s = "replay [(lit ''a'', 0), (lit ''b'', 5)]"
  have inv: "frecency_inv ?s" by (rule replay_inv)
  have "length (fs_records ?s) = 2" by code_simp
  moreover have "length (top_docs ?s 7 1) = min 1 (length (fs_records ?s))"
    by (rule top_docs_correct [OF inv, THEN conjunct2, THEN conjunct1])
  ultimately show ?thesis using inv by simp
qed

end
