(* ===== verification/Query_Latch.thy ===== *)
theory Query_Latch
  imports State_Files Text_Match
begin

text \<open>
  The query-latch store of \<^verbatim>\<open>crates/lixun-daemon/src/query_latch.rs\<close>: click counts per
  normalised query and document. Both maps are association lists with distinct keys. The
  natural logarithm is an argument (\<open>ln32\<close>): Rust leaves the precision of \<^verbatim>\<open>f32::ln\<close>
  unspecified. \<^verbatim>\<open>f32::clamp\<close> panics when its bounds are out of order, so \<open>latch_mult\<close> has an
  optional result with \<open>None\<close> for the panic.
\<close>

record latch_entry =
  le_count :: nat
  le_last_ts :: int

definition latch_entry_default :: latch_entry where
  "latch_entry_default = \<lparr>le_count = 0, le_last_ts = 0\<rparr>"

record query_latch_store =
  qls_by_query :: "(rstring \<times> (doc_id \<times> latch_entry) list) list"

definition latch_default :: query_latch_store where
  "latch_default = \<lparr>qls_by_query = []\<rparr>"

definition MAX_COUNT :: nat where
  "MAX_COUNT = 50"

definition recency_weight :: "int \<Rightarrow> f32" where
  "recency_weight age_seconds =
     (let age = max age_seconds 0;
          age_days = rnd32 (of_int (age div 86400))
      in if age_days \<le> 4 then 1
         else if age_days \<le> 14 then rnd32 (7 / 10)
         else if age_days \<le> 31 then rnd32 (5 / 10)
         else if age_days \<le> 90 then rnd32 (3 / 10)
         else rnd32 (1 / 10))"

definition latch_load ::
  "(rstring \<Rightarrow> query_latch_store option) \<Rightarrow> state_dir \<Rightarrow> query_latch_store" where
  "latch_load from_json d =
     (case d (lit ''query_latch.json'') of
        None \<Rightarrow> latch_default
      | Some f \<Rightarrow> read_or_default from_json latch_default f)"

definition latch_save ::
  "(query_latch_store \<Rightarrow> rstring option) \<Rightarrow> io_outcome \<Rightarrow> query_latch_store \<Rightarrow> state_dir
     \<Rightarrow> bool \<times> state_dir" where
  "latch_save to_json io s d =
     write_tmp_rename to_json (lit ''query_latch.json'') (lit ''query_latch.json.tmp'') io s d"

text \<open>\<^verbatim>\<open>count + 1\<close> wraps at \<^verbatim>\<open>u32\<close> before the cap is applied.\<close>

definition latch_record ::
  "unicode \<Rightarrow> query_latch_store \<Rightarrow> rstring \<Rightarrow> doc_id \<Rightarrow> int \<Rightarrow> query_latch_store" where
  "latch_record u s query_raw d now =
     (let key = normalize_for_latch_key u query_raw
      in if key = [] then s
         else
           (let per_query = (case map_of (qls_by_query s) key of None \<Rightarrow> [] | Some m \<Rightarrow> m);
                entry = (case map_of per_query d of None \<Rightarrow> latch_entry_default | Some e \<Rightarrow> e);
                entry' = entry\<lparr>le_count := min ((le_count entry + 1) mod 2 ^ 32) MAX_COUNT,
                               le_last_ts := now\<rparr>
            in s\<lparr>qls_by_query :=
                   AList.update key (AList.update d entry' per_query) (qls_by_query s)\<rparr>))"

definition f32_clamp :: "f32 \<Rightarrow> f32 \<Rightarrow> f32 \<Rightarrow> f32 option" where
  "f32_clamp x lo hi = (if lo \<le> hi then Some (if x < lo then lo else if hi < x then hi else x) else None)"

definition latch_mult ::
  "unicode \<Rightarrow> (real \<Rightarrow> f32) \<Rightarrow> query_latch_store \<Rightarrow> rstring \<Rightarrow> doc_id \<Rightarrow> int \<Rightarrow> f32 \<Rightarrow> f32 \<Rightarrow> f32 option" where
  "latch_mult u ln32 s query_raw d now weight cap =
     (case map_of (qls_by_query s) (normalize_for_latch_key u query_raw) of
        None \<Rightarrow> Some 1
      | Some per_query \<Rightarrow>
          (case map_of per_query d of
             None \<Rightarrow> Some 1
           | Some entry \<Rightarrow>
               (let recency = recency_weight (wrap_i64 (now - le_last_ts entry));
                    raw = f32_mul (ln32 (f32_add 1 (rnd32 (of_nat (le_count entry))))) recency
                in f32_clamp (f32_add 1 (f32_mul weight raw)) 1 cap)))"

text \<open>\<^verbatim>\<open>BTreeMap::retain\<close> with the closure that removes the document and keeps non-empty maps.\<close>

fun retain_without_doc ::
  "doc_id \<Rightarrow> (rstring \<times> (doc_id \<times> latch_entry) list) list \<Rightarrow> bool
     \<Rightarrow> (rstring \<times> (doc_id \<times> latch_entry) list) list \<times> bool" where
  "retain_without_doc d [] removed = ([], removed)"
| "retain_without_doc d ((key, per_query) # rest) removed =
     (let removed' = removed \<or> map_of per_query d \<noteq> None;
          per_query' = AList.delete d per_query;
          (rest', removed'') = retain_without_doc d rest removed'
      in (if per_query' \<noteq> [] then ((key, per_query') # rest', removed'') else (rest', removed'')))"

definition latch_remove_doc :: "query_latch_store \<Rightarrow> doc_id \<Rightarrow> query_latch_store \<times> bool" where
  "latch_remove_doc s d =
     (let (m, removed) = retain_without_doc d (qls_by_query s) False
      in (s\<lparr>qls_by_query := m\<rparr>, removed))"

definition latch_strong :: "unicode \<Rightarrow> query_latch_store \<Rightarrow> rstring \<Rightarrow> doc_id \<Rightarrow> nat \<Rightarrow> bool" where
  "latch_strong u s query_raw d threshold =
     (case map_of (qls_by_query s) (normalize_for_latch_key u query_raw) of
        None \<Rightarrow> False
      | Some per_query \<Rightarrow>
          (case map_of per_query d of None \<Rightarrow> False | Some entry \<Rightarrow> threshold \<le> le_count entry))"

section \<open>Well-formed stores\<close>

definition latch_entry_of :: "query_latch_store \<Rightarrow> rstring \<Rightarrow> doc_id \<Rightarrow> latch_entry option" where
  "latch_entry_of s key d = Option.bind (map_of (qls_by_query s) key) (\<lambda>m. map_of m d)"

definition per_query_ok :: "(doc_id \<times> latch_entry) list \<Rightarrow> bool" where
  "per_query_ok m \<longleftrightarrow>
     m \<noteq> [] \<and> distinct (map fst m) \<and> (\<forall>e\<in>set m. 1 \<le> le_count (snd e) \<and> le_count (snd e) \<le> MAX_COUNT)"

definition latch_inv :: "query_latch_store \<Rightarrow> bool" where
  "latch_inv s \<longleftrightarrow>
     distinct (map fst (qls_by_query s))
     \<and> (\<forall>p\<in>set (qls_by_query s). fst p \<noteq> [] \<and> per_query_ok (snd p))"

lemma latch_inv_default: "latch_inv latch_default"
  by (simp add: latch_inv_def latch_default_def)

lemma latch_inv_per_query: "latch_inv s \<Longrightarrow> map_of (qls_by_query s) key = Some m \<Longrightarrow> per_query_ok m"
  unfolding latch_inv_def by (metis map_of_SomeD snd_conv)

lemma per_query_entry:
  "per_query_ok m \<Longrightarrow> map_of m d = Some e \<Longrightarrow> 1 \<le> le_count e \<and> le_count e \<le> MAX_COUNT"
  unfolding per_query_ok_def by (metis map_of_SomeD snd_conv)

lemma latch_record_inv:
  assumes inv: "latch_inv s" shows "latch_inv (latch_record u s q d now)"
proof (cases "normalize_for_latch_key u q = []")
  case True
  then show ?thesis using inv by (simp add: latch_record_def)
next
  case False
  define key where "key = normalize_for_latch_key u q"
  define pq where "pq = (case map_of (qls_by_query s) key of None \<Rightarrow> [] | Some m \<Rightarrow> m)"
  define e where "e = (case map_of pq d of None \<Rightarrow> latch_entry_default | Some e \<Rightarrow> e)"
  define e' where "e' = e\<lparr>le_count := min ((le_count e + 1) mod 2 ^ 32) MAX_COUNT, le_last_ts := now\<rparr>"
  have rec: "latch_record u s q d now
      = s\<lparr>qls_by_query := AList.update key (AList.update d e' pq) (qls_by_query s)\<rparr>"
    using False by (simp add: latch_record_def Let_def key_def pq_def e_def e'_def)
  have pq: "distinct (map fst pq)" "\<forall>e\<in>set pq. 1 \<le> le_count (snd e) \<and> le_count (snd e) \<le> MAX_COUNT"
    using latch_inv_per_query [OF inv, of key] unfolding pq_def per_query_ok_def
    by (cases "map_of (qls_by_query s) key"; simp)+
  have "le_count e \<le> MAX_COUNT"
    using pq(2) unfolding e_def latch_entry_default_def
    by (auto split: option.splits dest!: map_of_SomeD)
  then have "1 \<le> le_count e' \<and> le_count e' \<le> MAX_COUNT"
    by (simp add: e'_def MAX_COUNT_def)
  then have ok: "per_query_ok (AList.update d e' pq)"
    unfolding per_query_ok_def using pq update_keeps [OF pq(2), of d e']
    by (simp add: AList.distinct_update)
  have "\<forall>p\<in>set (AList.update key (AList.update d e' pq) (qls_by_query s)).
      fst p \<noteq> [] \<and> per_query_ok (snd p)"
    using inv ok False by (intro update_keeps) (auto simp: latch_inv_def key_def)
  then show ?thesis using inv unfolding rec latch_inv_def by (simp add: AList.distinct_update)
qed

lemma latch_entry_of_record:
  assumes "normalize_for_latch_key u q \<noteq> []" and inv: "latch_inv s"
  shows "latch_entry_of (latch_record u s q d now) key d'
    = (if key = normalize_for_latch_key u q \<and> d' = d
       then Some \<lparr>le_count = min ((case latch_entry_of s key d of None \<Rightarrow> 0 | Some e \<Rightarrow> le_count e)
                    + 1) MAX_COUNT, le_last_ts = now\<rparr>
       else latch_entry_of s key d')"
proof -
  have bound: "le_count e \<le> MAX_COUNT" if "map_of m x = Some e" "map_of (qls_by_query s) k = Some m" for k m x e
    using per_query_entry [OF latch_inv_per_query [OF inv that(2)] that(1)] by simp
  then have m: "min ((le_count e + 1) mod 2 ^ 32) MAX_COUNT = min (le_count e + 1) MAX_COUNT"
    if "map_of m x = Some e" "map_of (qls_by_query s) k = Some m" for k m x e
    using bound [OF that] by (simp add: MAX_COUNT_def)
  show ?thesis using assms(1) m
    by (auto simp: latch_entry_of_def latch_record_def Let_def map_of_update
        latch_entry_default_def MAX_COUNT_def split: option.splits)
qed

section \<open>Removal\<close>

lemma delete_Nil_iff: "AList.delete d m = [] \<longleftrightarrow> (\<forall>p\<in>set m. fst p = d)"
  by (auto simp: AList.delete_eq filter_empty_conv)

lemma retain_flag: "snd (retain_without_doc d m b) \<longleftrightarrow> b \<or> (\<exists>p\<in>set m. map_of (snd p) d \<noteq> None)"
proof (induction m arbitrary: b)
  case (Cons p m)
  obtain k pq where p: "p = (k, pq)" by fastforce
  show ?case using Cons.IH [of "b \<or> map_of pq d \<noteq> None"]
    by (simp add: p Let_def case_prod_beta)
qed simp

lemma retain_list:
  "fst (retain_without_doc d m b) = filter (\<lambda>(_, pq). pq \<noteq> []) (map (\<lambda>(k, pq). (k, AList.delete d pq)) m)"
proof (induction m arbitrary: b)
  case (Cons p m)
  obtain k pq where p: "p = (k, pq)" by fastforce
  show ?case using Cons.IH [of "b \<or> map_of pq d \<noteq> None"]
    by (simp add: p Let_def case_prod_beta)
qed simp

lemma map_of_retain:
  "distinct (map fst m) \<Longrightarrow>
   Option.bind (map_of (fst (retain_without_doc d m b)) key) (\<lambda>pq. map_of pq d')
   = (if d' = d then None else Option.bind (map_of m key) (\<lambda>pq. map_of pq d'))"
  unfolding retain_list
proof (induction m)
  case (Cons p m)
  obtain k pq where p: "p = (k, pq)" by fastforce
  have nin: "map_of (filter (\<lambda>(_, pq). pq \<noteq> []) (map (\<lambda>(k, pq). (k, AList.delete d pq)) m)) k = None"
    using Cons.prems by (auto simp: p map_of_eq_None_iff image_iff)
  have gone: "AList.delete d pq = [] \<Longrightarrow> d' \<noteq> d \<Longrightarrow> map_of pq d' = None"
    by (auto simp: delete_Nil_iff map_of_eq_None_iff)
  show ?case using Cons nin gone by (auto simp: p AList.delete_conv')
qed simp

lemma latch_entry_of_remove:
  "latch_inv s \<Longrightarrow>
   latch_entry_of (fst (latch_remove_doc s d)) key d' = (if d' = d then None else latch_entry_of s key d')"
  using map_of_retain [of "qls_by_query s" d False key d']
  by (auto simp: latch_entry_of_def latch_remove_doc_def latch_inv_def Let_def split: prod.splits)

lemma latch_remove_inv: "latch_inv s \<Longrightarrow> latch_inv (fst (latch_remove_doc s d))"
proof -
  assume inv: "latch_inv s"
  have q: "qls_by_query (fst (latch_remove_doc s d)) = fst (retain_without_doc d (qls_by_query s) False)"
    by (simp add: latch_remove_doc_def Let_def split: prod.splits)
  have fsts: "fst \<circ> (\<lambda>(k, pq). (k, AList.delete d pq)) = fst"
    by (simp add: fun_eq_iff)
  have ok: "per_query_ok pq \<Longrightarrow> AList.delete d pq \<noteq> [] \<Longrightarrow> per_query_ok (AList.delete d pq)" for pq
    using set_AList_delete [of d pq] by (auto simp: per_query_ok_def AList.distinct_delete)
  show ?thesis
    using inv ok unfolding latch_inv_def q retain_list
    by (auto simp: fsts intro!: distinct_map_fst_filter)
qed

lemma latch_mult_entry:
  "latch_mult u ln32 s q d now w cap =
     (case latch_entry_of s (normalize_for_latch_key u q) d of
        None \<Rightarrow> Some 1
      | Some e \<Rightarrow> f32_clamp (f32_add 1 (f32_mul w (f32_mul (ln32 (f32_add 1 (rnd32 (of_nat (le_count e)))))
          (recency_weight (wrap_i64 (now - le_last_ts e)))))) 1 cap)"
  by (auto simp: latch_mult_def latch_entry_of_def Let_def split: option.split)

lemma latch_strong_entry:
  "latch_strong u s q d n =
     (case latch_entry_of s (normalize_for_latch_key u q) d of None \<Rightarrow> False | Some e \<Rightarrow> n \<le> le_count e)"
  by (auto simp: latch_strong_def latch_entry_of_def split: option.split)

interpretation latch_signal:
  doc_signal latch_inv latch_remove_doc "\<lambda>s d. \<exists>key. latch_entry_of s key d \<noteq> None"
    "\<lambda>s d. (\<lambda>q now w cap. latch_mult u ln32 s q d now w cap)" "\<lambda>_ _ _ _. Some 1"
  for u :: unicode and ln32 :: "real \<Rightarrow> f32"
proof unfold_locales
  fix s :: query_latch_store and d :: doc_id assume "latch_inv s"
  then show "latch_inv (fst (latch_remove_doc s d))" by (rule latch_remove_inv)
next
  fix s :: query_latch_store and d d' :: doc_id assume "latch_inv s"
  then show "(\<exists>key. latch_entry_of (fst (latch_remove_doc s d)) key d' \<noteq> None)
      \<longleftrightarrow> d' \<noteq> d \<and> (\<exists>key. latch_entry_of s key d' \<noteq> None)"
    by (auto simp: latch_entry_of_remove)
next
  fix s :: query_latch_store and d :: doc_id assume inv: "latch_inv s"
  have "(\<exists>key. latch_entry_of s key d \<noteq> None)
      \<longleftrightarrow> (\<exists>p\<in>set (qls_by_query s). map_of (snd p) d \<noteq> None)"
  proof
    assume "\<exists>key. latch_entry_of s key d \<noteq> None"
    then obtain key m e where "map_of (qls_by_query s) key = Some m" "map_of m d = Some e"
      by (auto simp: latch_entry_of_def bind_eq_Some_conv)
    then show "\<exists>p\<in>set (qls_by_query s). map_of (snd p) d \<noteq> None"
      using map_of_SomeD by (intro bexI [of _ "(key, m)"]) fastforce+
  next
    assume "\<exists>p\<in>set (qls_by_query s). map_of (snd p) d \<noteq> None"
    then obtain key m where "(key, m) \<in> set (qls_by_query s)" "map_of m d \<noteq> None" by auto
    moreover from this inv have "map_of (qls_by_query s) key = Some m" by (simp add: latch_inv_def)
    ultimately show "\<exists>key. latch_entry_of s key d \<noteq> None"
      by (auto simp: latch_entry_of_def intro!: exI [of _ key])
  qed
  then show "snd (latch_remove_doc s d) \<longleftrightarrow> (\<exists>key. latch_entry_of s key d \<noteq> None)"
    using retain_flag [of d "qls_by_query s" False]
    by (simp add: latch_remove_doc_def Let_def case_prod_beta)
next
  fix s :: query_latch_store and d :: doc_id
  assume "\<not> (\<exists>key. latch_entry_of s key d \<noteq> None)"
  then show "(\<lambda>q now w cap. latch_mult u ln32 s q d now w cap) = (\<lambda>_ _ _ _. Some 1)"
    by (simp add: fun_eq_iff latch_mult_entry)
next
  fix s :: query_latch_store and d d' :: doc_id assume "latch_inv s" "d' \<noteq> d"
  then show "(\<lambda>q now w cap. latch_mult u ln32 (fst (latch_remove_doc s d)) q d' now w cap)
      = (\<lambda>q now w cap. latch_mult u ln32 s q d' now w cap)"
    by (simp add: fun_eq_iff latch_mult_entry latch_entry_of_remove)
qed

section \<open>Counting\<close>

definition latch_replay :: "unicode \<Rightarrow> (rstring \<times> doc_id \<times> int) list \<Rightarrow> query_latch_store" where
  "latch_replay u clicks = foldl (\<lambda>s (q, d, now). latch_record u s q d now) latch_default clicks"

definition latch_clicks ::
  "unicode \<Rightarrow> (rstring \<times> doc_id \<times> int) list \<Rightarrow> rstring \<Rightarrow> doc_id \<Rightarrow> int list" where
  "latch_clicks u clicks key d =
     map (snd \<circ> snd) (filter (\<lambda>(q, d', _). normalize_for_latch_key u q = key \<and> d' = d) clicks)"

lemma latch_replay_snoc:
  "latch_replay u (clicks @ [(q, d, now)]) = latch_record u (latch_replay u clicks) q d now"
  by (simp add: latch_replay_def)

lemma latch_replay_inv: "latch_inv (latch_replay u clicks)"
proof (induction clicks rule: rev_induct)
  case Nil
  then show ?case by (simp add: latch_replay_def latch_inv_default)
next
  case (snoc c clicks)
  then show ?case by (cases c) (simp add: latch_replay_snoc latch_record_inv)
qed

lemma latch_replay_entry:
  "latch_entry_of (latch_replay u clicks) key d =
     (if key = [] \<or> latch_clicks u clicks key d = [] then None
      else Some \<lparr>le_count = min (length (latch_clicks u clicks key d)) MAX_COUNT,
                 le_last_ts = last (latch_clicks u clicks key d)\<rparr>)"
proof (induction clicks rule: rev_induct)
  case Nil
  show ?case by (simp add: latch_replay_def latch_entry_of_def latch_default_def latch_clicks_def)
next
  case (snoc c clicks)
  obtain q d' now where c: "c = (q, d', now)" by (cases c)
  define k where "k = normalize_for_latch_key u q"
  have app: "latch_clicks u (clicks @ [c]) key d
      = latch_clicks u clicks key d @ (if k = key \<and> d' = d then [now] else [])"
    by (simp add: latch_clicks_def c k_def)
  show ?case
  proof (cases "k = []")
    case True
    then have "latch_replay u (clicks @ [c]) = latch_replay u clicks"
      by (simp add: c latch_replay_snoc latch_record_def k_def)
    with snoc.IH app True show ?thesis by auto
  next
    case False
    have "latch_entry_of (latch_replay u (clicks @ [c])) key d
      = (if key = k \<and> d = d'
         then Some \<lparr>le_count = min ((case latch_entry_of (latch_replay u clicks) key d' of
                      None \<Rightarrow> 0 | Some e \<Rightarrow> le_count e) + 1) MAX_COUNT, le_last_ts = now\<rparr>
         else latch_entry_of (latch_replay u clicks) key d)"
      using latch_entry_of_record [OF False [unfolded k_def] latch_replay_inv]
      by (simp add: c latch_replay_snoc k_def)
    then show ?thesis using snoc.IH app False by (auto simp: MAX_COUNT_def)
  qed
qed

lemma latch_example_entry:
  "latch_entry_of (latch_replay ascii_unicode [(lit ''ff'', lit ''d'', 0)])
     (normalize_for_latch_key ascii_unicode (lit ''ff'')) (lit ''d'') = Some \<lparr>le_count = 1, le_last_ts = 0\<rparr>"
proof -
  have "normalize_for_latch_key ascii_unicode (lit ''ff'') \<noteq> []" by code_simp
  moreover have "latch_clicks ascii_unicode [(lit ''ff'', lit ''d'', 0)]
      (normalize_for_latch_key ascii_unicode (lit ''ff'')) (lit ''d'') = [0]" by code_simp
  ultimately show ?thesis by (simp add: latch_replay_entry MAX_COUNT_def)
qed

section \<open>Properties\<close>

text \<open>The latch store counts clicks. After any sequence of recorded clicks, the entry of a
  query key and a document holds the number of clicks on that document under that key, capped
  at 50, and the time of the last one; so \<open>latch_strong\<close> holds exactly when that capped count
  reaches the threshold. Clicks with an empty key leave no trace.\<close>

theorem latch_counts_clicks:
  "latch_inv (latch_replay u clicks)
   \<and> latch_entry_of (latch_replay u clicks) key d =
       (if key = [] \<or> latch_clicks u clicks key d = [] then None
        else Some \<lparr>le_count = min (length (latch_clicks u clicks key d)) 50,
                   le_last_ts = last (latch_clicks u clicks key d)\<rparr>)
   \<and> latch_strong u (latch_replay u clicks) q d n =
       (let k = normalize_for_latch_key u q
        in k \<noteq> [] \<and> latch_clicks u clicks k d \<noteq> [] \<and> n \<le> min (length (latch_clicks u clicks k d)) 50)"
  using latch_replay_inv [of u clicks]
  by (simp add: latch_replay_entry latch_strong_entry MAX_COUNT_def Let_def)

text \<open>The latch multiplier is total and lies between one and the configured cap as long as
  the cap is at least one; with a cap below one (the configuration is not validated) it panics
  exactly for the pairs that have an entry.\<close>

theorem latch_mult_total:
  "(1 \<le> cap \<longrightarrow> (\<exists>m. latch_mult u ln32 s q d now w cap = Some m \<and> 1 \<le> m \<and> m \<le> cap))
   \<and> (cap < 1 \<longrightarrow> (latch_mult u ln32 s q d now w cap = None
        \<longleftrightarrow> latch_entry_of s (normalize_for_latch_key u q) d \<noteq> None))"
  by (auto simp: latch_mult_entry f32_clamp_def split: option.split)

theorem latch_mult_total_witness:
  "(\<exists>m. latch_mult ascii_unicode ln (latch_replay ascii_unicode [(lit ''ff'', lit ''d'', 0)])
       (lit ''ff'') (lit ''d'') 9 1 3 = Some m \<and> 1 \<le> m \<and> m \<le> 3)
   \<and> latch_mult ascii_unicode ln (latch_replay ascii_unicode [(lit ''ff'', lit ''d'', 0)])
       (lit ''ff'') (lit ''d'') 9 1 (1 / 2) = None"
proof -
  let ?s = "latch_replay ascii_unicode [(lit ''ff'', lit ''d'', 0)]"
  show ?thesis
    using latch_example_entry latch_mult_total [of 3 ascii_unicode ln ?s "lit ''ff''" "lit ''d''" 9 1]
      latch_mult_total [of "1 / 2" ascii_unicode ln ?s "lit ''ff''" "lit ''d''" 9 1] by simp
qed

text \<open>A latch never decays to a neutral multiplier: however old the entry is, its recency weight
  stays at the floor of one tenth, so with a weight of at least one half, a cap above
  one and a logarithm of two of at least one half the multiplier stays above 1.02.\<close>

theorem latch_never_neutral:
  assumes "latch_entry_of s (normalize_for_latch_key u q) d = Some e" and "1 \<le> le_count e"
    and "\<And>x. 2 \<le> x \<Longrightarrow> 1 / 2 \<le> ln32 x"
    and "1 / 2 \<le> w" and "102 / 100 < cap" and "le_count e \<le> 2 ^ 24"
  shows "\<exists>m. latch_mult u ln32 s q d now w cap = Some m \<and> 102 / 100 < m"
proof -
  have f: "is_f32 (3 / 32)" "is_f32 (3 / 64)" "is_f32 (3 / 128)" "is_f32 (131 / 128)"
    unfolding is_f32_def
    by (intro exI [of _ 3] exI [of _ "-5"], simp add: power_int_minus,
        intro exI [of _ 3] exI [of _ "-6"], simp add: power_int_minus,
        intro exI [of _ 3] exI [of _ "-7"], simp add: power_int_minus,
        intro exI [of _ 131] exI [of _ "-7"], simp add: power_int_minus)
  define r where "r = recency_weight (wrap_i64 (now - le_last_ts e))"
  define l where "l = ln32 (f32_add 1 (rnd32 (of_nat (le_count e))))"
  have r: "3 / 32 \<le> r"
    unfolding r_def recency_weight_def Let_def using rnd32_ge_f32 [OF f(1)] by simp
  have "rnd32 2 \<le> f32_add 1 (rnd32 (of_nat (le_count e)))"
    unfolding f32_add_def using assms(2,6) by (intro rnd32_mono) (simp add: rnd32_of_nat)
  then have l: "1 / 2 \<le> l"
    using assms(3) rnd32_of_nat [of 2] by (simp add: l_def)
  have lr: "3 / 64 \<le> f32_mul l r"
    unfolding f32_mul_def using f(2) mult_mono [of "1/2" l "3/32" r] l r by (intro rnd32_ge_f32) simp_all
  have "3 / 128 \<le> f32_mul w (f32_mul l r)"
    unfolding f32_mul_def [of w] using f(3) mult_mono [of "1/2" w "3/64" "f32_mul l r"] assms(4) lr
    by (intro rnd32_ge_f32) simp_all
  then have m: "131 / 128 \<le> f32_add 1 (f32_mul w (f32_mul l r))"
    unfolding f32_add_def using f(4) by (intro rnd32_ge_f32) simp_all
  have "latch_mult u ln32 s q d now w cap = f32_clamp (f32_add 1 (f32_mul w (f32_mul l r))) 1 cap"
    using assms(1) by (simp add: latch_mult_entry l_def r_def)
  then show ?thesis using m assms(5) by (auto simp: f32_clamp_def)
qed

theorem latch_never_neutral_witness:
  "\<exists>m. latch_mult ascii_unicode (\<lambda>_. 1) (latch_replay ascii_unicode [(lit ''ff'', lit ''d'', 0)])
       (lit ''ff'') (lit ''d'') (10 ^ 12) 1 3 = Some m \<and> 102 / 100 < m"
  by (rule latch_never_neutral [OF latch_example_entry]) simp_all

end
