(* ===== verification/Top_Hit.thy ===== *)
theory Top_Hit
  imports Frecency Query_Latch
begin

text \<open>
  Top Hit selection (\<^verbatim>\<open>crates/lixun-daemon/src/top_hit.rs\<close>): whether the first of the ranked hits is
  promoted to the hero slot. The margin can be infinite, hence the type \<open>fx\<close>.
\<close>

datatype fx = NegInf | Fin f32 | PosInf

fun fx_ge :: "fx \<Rightarrow> f32 \<Rightarrow> bool" where
  "fx_ge NegInf y = False"
| "fx_ge (Fin x) y = (y \<le> x)"
| "fx_ge PosInf y = True"

definition EPSILON :: f32 where
  "EPSILON = rnd32 (1 / 1000000)"

definition FRECENCY_DOMINANCE_MIN_RAW :: f32 where
  "FRECENCY_DOMINANCE_MIN_RAW = 3"

definition FRECENCY_DOMINANCE_RATIO :: f32 where
  "FRECENCY_DOMINANCE_RATIO = 2"

record top_hit_decision =
  th_id :: "doc_id option"
  th_confidence :: f32
  th_margin :: fx
  th_prefix_match :: bool
  th_acronym_match :: bool
  th_has_strong_latch :: bool
  th_dominance :: f32

definition frecency_dominance :: "hit \<Rightarrow> hit list \<Rightarrow> frecency_store \<Rightarrow> int \<Rightarrow> f32" where
  "frecency_dominance candidate hits frecency now =
     (let cand_raw = frecency_raw frecency (hit_id candidate) now
      in case hits of
           _ # runner # _ \<Rightarrow>
             (let runner_raw = frecency_raw frecency (hit_id runner) now
              in if FRECENCY_DOMINANCE_MIN_RAW \<le> cand_raw
                    \<and> f32_mul FRECENCY_DOMINANCE_RATIO (max runner_raw EPSILON) \<le> cand_raw
                 then 1 else 0)
         | _ \<Rightarrow> if FRECENCY_DOMINANCE_MIN_RAW \<le> cand_raw then 1 else 0)"

definition select_top_hit ::
  "unicode \<Rightarrow> rstring \<Rightarrow> hit list \<Rightarrow> frecency_store \<Rightarrow> query_latch_store \<Rightarrow> int
     \<Rightarrow> f32 \<Rightarrow> f32 \<Rightarrow> nat \<Rightarrow> top_hit_decision" where
  "select_top_hit u q_raw hits frecency latch now min_confidence min_margin strong_latch_threshold =
     (case hits of
        [] \<Rightarrow> \<lparr>th_id = None, th_confidence = 0, th_margin = NegInf, th_prefix_match = False,
               th_acronym_match = False, th_has_strong_latch = False, th_dominance = 0\<rparr>
      | candidate # rest \<Rightarrow>
          (let q_norm = normalize_for_match u q_raw;
               title_norm = normalize_for_match u (hit_title candidate);
               prefix_match = 1 < prefix_mult title_norm q_norm 2;
               acronym_match = 1 < acronym_mult u (hit_title candidate) q_norm 2;
               has_strong_latch = latch_strong u latch q_raw (hit_id candidate) strong_latch_threshold;
               dominance = frecency_dominance candidate hits frecency now;
               lexical_confidence = (if prefix_match \<or> acronym_match then 1 else 0);
               latch_confidence = (if has_strong_latch then 1 else 0);
               confidence = max (max lexical_confidence latch_confidence) dominance;
               margin = (case rest of
                           [] \<Rightarrow> PosInf
                         | runner # _ \<Rightarrow>
                             Fin (f32_div (hit_score candidate) (max (hit_score runner) EPSILON)))
           in \<lparr>th_id = (if min_confidence \<le> confidence \<and> fx_ge margin min_margin
                        then Some (hit_id candidate) else None),
               th_confidence = confidence, th_margin = margin, th_prefix_match = prefix_match,
               th_acronym_match = acronym_match, th_has_strong_latch = has_strong_latch,
               th_dominance = dominance\<rparr>))"

lemma frecency_dominance_01: "frecency_dominance c hits fr now \<in> {0, 1}"
  by (auto simp: frecency_dominance_def Let_def split: list.split)

lemma select_top_hit_id:
  "th_id (select_top_hit u q hits fr la now c m n) = Some i \<Longrightarrow> hits \<noteq> [] \<and> i = hit_id (hd hits)"
  by (auto simp: select_top_hit_def Let_def split: list.splits if_splits)

definition top_signals :: "unicode \<Rightarrow> rstring \<Rightarrow> hit list \<Rightarrow> frecency_store \<Rightarrow> query_latch_store \<Rightarrow> int \<Rightarrow> nat \<Rightarrow> bool" where
  "top_signals u q hits fr la now thr \<longleftrightarrow>
     (let nq = normalize_for_match u q in nq \<noteq> [] \<and>
        (prefix nq (normalize_for_match u (hit_title (hd hits)))
         \<or> prefix nq (normalize_for_match u (acronym_initials u (hit_title (hd hits))))))
     \<or> latch_strong u la q (hit_id (hd hits)) thr
     \<or> frecency_dominance (hd hits) hits fr now = 1"

lemma acronym_mult_gt1:
  "1 < w \<Longrightarrow> 1 < acronym_mult u t q w \<longleftrightarrow> q \<noteq> [] \<and> prefix q (normalize_for_match u (acronym_initials u t))"
  by (simp add: acronym_mult_def starts_with_def)

lemma max_signals:
  "d \<in> {0, 1} \<Longrightarrow>
   max (max (if a then 1 else 0) (if b then 1 else 0)) d = (if a \<or> b \<or> d = 1 then 1 else (0::real))"
  by auto

lemma select_top_hit_confidence:
  assumes "hits \<noteq> []"
  shows "th_confidence (select_top_hit u q hits fr la now c m thr)
    = (if top_signals u q hits fr la now thr then 1 else 0)"
proof -
  obtain h rest where h: "hits = h # rest" using assms by (cases hits) auto
  note d = max_signals [OF frecency_dominance_01 [of h hits fr now]]
  show ?thesis
    unfolding select_top_hit_def top_signals_def Let_def h
    by (simp add: d [unfolded h] prefix_mult_gt1 acronym_mult_gt1)
qed

lemma select_top_hit_promotes:
  assumes "hits \<noteq> []"
  shows "th_id (select_top_hit u q hits fr la now c m thr)
    = (if c \<le> th_confidence (select_top_hit u q hits fr la now c m thr)
          \<and> (length hits = 1 \<or> m \<le> f32_div (hit_score (hits ! 0)) (max (hit_score (hits ! 1)) EPSILON))
       then Some (hit_id (hd hits)) else None)"
proof -
  obtain h rest where h: "hits = h # rest" using assms by (cases hits) auto
  show ?thesis unfolding select_top_hit_def Let_def h by (cases rest) simp_all
qed

section \<open>Properties\<close>

text \<open>Top Hit promotion. The decision promotes nothing but the first hit, and it does so
  exactly when both gates pass: for thresholds in the meaningful range (confidence in
  \<open>(0, 1]\<close>) the first hit is promoted if and only if one of the four signals holds (the
  normalised title starts with the normalised non-empty query, the acronym matches, the pair has
  a strong latch, or the hit dominates in frecency) and its score is at least the required
  multiple of the runner-up's (a lone hit always passes). The reported confidence is zero or one.\<close>

theorem top_hit_gates:
  assumes "0 < min_confidence" and "min_confidence \<le> 1"
  shows "let t = select_top_hit u q hits fr la now min_confidence min_margin thr in
    th_confidence t \<in> {0, 1}
    \<and> (th_id t = None \<or> hits \<noteq> [] \<and> th_id t = Some (hit_id (hd hits)))
    \<and> (th_id t \<noteq> None \<longleftrightarrow>
         hits \<noteq> []
         \<and> ((let nq = normalize_for_match u q in nq \<noteq> [] \<and>
               (prefix nq (normalize_for_match u (hit_title (hd hits)))
                \<or> prefix nq (normalize_for_match u (acronym_initials u (hit_title (hd hits))))))
            \<or> latch_strong u la q (hit_id (hd hits)) thr
            \<or> frecency_dominance (hd hits) hits fr now = 1)
         \<and> (length hits = 1
            \<or> min_margin \<le> f32_div (hit_score (hits ! 0)) (max (hit_score (hits ! 1)) EPSILON)))"
proof (cases "hits = []")
  case True
  then show ?thesis by (simp add: select_top_hit_def)
next
  case False
  define t where "t = select_top_hit u q hits fr la now min_confidence min_margin thr"
  have c: "th_confidence t = (if top_signals u q hits fr la now thr then 1 else 0)"
    unfolding t_def by (rule select_top_hit_confidence [OF False])
  have p: "th_id t = (if min_confidence \<le> th_confidence t
      \<and> (length hits = 1
         \<or> min_margin \<le> f32_div (hit_score (hits ! 0)) (max (hit_score (hits ! 1)) EPSILON))
      then Some (hit_id (hd hits)) else None)"
    unfolding t_def by (rule select_top_hit_promotes [OF False])
  show ?thesis
    unfolding top_signals_def [symmetric] t_def [symmetric] Let_def [of t]
    using False assms c p by simp
qed

theorem top_hit_gates_witness:
  "(0::real) < 1 \<and> th_id (select_top_hit ascii_unicode (lit ''fire'')
     [hit_named (lit ''app:firefox'') (lit ''Firefox'') 10] frecency_default latch_default 0 1 1 3)
   = Some (lit ''app:firefox'')"
proof -
  let ?h = "hit_named (lit ''app:firefox'') (lit ''Firefox'') 10"
  have "normalize_for_match ascii_unicode (lit ''fire'') \<noteq> []"
    and "prefix (normalize_for_match ascii_unicode (lit ''fire''))
          (normalize_for_match ascii_unicode (lit ''Firefox''))" by code_simp+
  then show ?thesis
    using top_hit_gates [of 1 ascii_unicode "lit ''fire''" "[?h]" frecency_default latch_default 0 1 3]
    by (auto simp: Let_def hit_named_def)
qed

end
