(* ===== verification/History_Stores.thy ===== *)
theory History_Stores
  imports Frecency Query_Latch
begin

text \<open>
  The two small user-state stores of \<^verbatim>\<open>crates/lixun-daemon/src\<close>: the ranking blocklist
  (\<^verbatim>\<open>blocklist.rs\<close>) and the query history (\<^verbatim>\<open>query_log.rs\<close>), and the on-disk behaviour that the
  blocklist shares with the frecency and latch stores. A \<^verbatim>\<open>BTreeSet\<close> is a sorted list
  without duplicates; a \<^verbatim>\<open>VecDeque\<close> is a list with its front first.
\<close>

section \<open>Blocklist\<close>

record blocklist =
  bl_docs :: "doc_id list"

definition blocklist_default :: blocklist where
  "blocklist_default = \<lparr>bl_docs = []\<rparr>"

definition blocklist_load :: "(rstring \<Rightarrow> blocklist option) \<Rightarrow> state_dir \<Rightarrow> blocklist" where
  "blocklist_load from_json d =
     (case d (lit ''blocklist.json'') of
        None \<Rightarrow> blocklist_default
      | Some f \<Rightarrow> read_or_default from_json blocklist_default f)"

definition blocklist_save ::
  "(blocklist \<Rightarrow> rstring option) \<Rightarrow> io_outcome \<Rightarrow> blocklist \<Rightarrow> state_dir \<Rightarrow> bool \<times> state_dir" where
  "blocklist_save to_json io b d =
     write_tmp_rename to_json (lit ''blocklist.json'') (lit ''blocklist.json.tmp'') io b d"

definition set_hidden :: "blocklist \<Rightarrow> doc_id \<Rightarrow> bool \<Rightarrow> blocklist \<times> bool" where
  "set_hidden b d hidden =
     (if hidden
      then (b\<lparr>bl_docs := insort_insert d (bl_docs b)\<rparr>, d \<notin> set (bl_docs b))
      else (b\<lparr>bl_docs := remove1 d (bl_docs b)\<rparr>, d \<in> set (bl_docs b)))"

definition blocklist_contains :: "blocklist \<Rightarrow> doc_id \<Rightarrow> bool" where
  "blocklist_contains b d \<longleftrightarrow> d \<in> set (bl_docs b)"

definition blocklist_is_empty :: "blocklist \<Rightarrow> bool" where
  "blocklist_is_empty b \<longleftrightarrow> bl_docs b = []"

definition blocklist_list :: "blocklist \<Rightarrow> doc_id list" where
  "blocklist_list b = bl_docs b"

definition blocklist_inv :: "blocklist \<Rightarrow> bool" where
  "blocklist_inv b \<longleftrightarrow> sorted (bl_docs b) \<and> distinct (bl_docs b)"

lemma set_hidden_inv: "blocklist_inv b \<Longrightarrow> blocklist_inv (fst (set_hidden b d h))"
  by (simp add: blocklist_inv_def set_hidden_def sorted_insort_insert distinct_insort_insert sorted_remove1)

lemma set_hidden_contains:
  "blocklist_inv b \<Longrightarrow>
   blocklist_contains (fst (set_hidden b d h)) d' \<longleftrightarrow> (if d' = d then h else blocklist_contains b d')"
  by (auto simp: blocklist_inv_def set_hidden_def blocklist_contains_def set_insort_insert)

section \<open>Query history\<close>

record query_log =
  ql_entries :: "rstring list"
  ql_max :: nat

definition DEFAULT_MAX :: nat where
  "DEFAULT_MAX = 100"

definition query_log_default :: query_log where
  "query_log_default = \<lparr>ql_entries = [], ql_max = DEFAULT_MAX\<rparr>"

text \<open>A read error is returned to the caller (\<open>None\<close>); a parse error is an empty log.\<close>

definition query_log_load :: "(rstring \<Rightarrow> query_log option) \<Rightarrow> state_dir \<Rightarrow> query_log option" where
  "query_log_load from_json d =
     (case d (lit ''queries.json'') of
        None \<Rightarrow> Some query_log_default
      | Some Unreadable \<Rightarrow> None
      | Some (Readable body) \<Rightarrow>
          (let l = (case from_json body of None \<Rightarrow> query_log_default | Some l \<Rightarrow> l)
           in Some (if ql_max l = 0 then l\<lparr>ql_max := DEFAULT_MAX\<rparr> else l)))"

text \<open>
  Unlike the other stores the history is written in place: a failed write may leave anything in
  the file.
\<close>

definition query_log_save ::
  "(query_log \<Rightarrow> rstring option) \<Rightarrow> io_outcome \<Rightarrow> query_log \<Rightarrow> state_dir \<Rightarrow> bool \<times> state_dir" where
  "query_log_save to_json io l d =
     (if \<not> mkdir_ok io then (False, d)
      else case to_json l of
        None \<Rightarrow> (False, d)
      | Some body \<Rightarrow>
          if \<not> write_ok io then (False, d(lit ''queries.json'' := partial_write io))
          else (True, d(lit ''queries.json'' := Some (Readable body))))"

text \<open>The \<^verbatim>\<open>while len > max \{ pop_back \}\<close> loop.\<close>

function pop_back_while :: "nat \<Rightarrow> 'a list \<Rightarrow> 'a list" where
  "pop_back_while n xs = (if n < length xs then pop_back_while n (butlast xs) else xs)"
  by pat_completeness auto
termination
  by (relation "measure (\<lambda>(n, xs). length xs)") auto

declare pop_back_while.simps [simp del]

definition record_query :: "query_log \<Rightarrow> rstring \<Rightarrow> query_log" where
  "record_query l q0 =
     (let q = trim q0
      in if q = [] then l
         else l\<lparr>ql_entries := pop_back_while (ql_max l) (q # filter (\<lambda>e. e \<noteq> q) (ql_entries l))\<rparr>)"

definition recent :: "query_log \<Rightarrow> nat \<Rightarrow> rstring list" where
  "recent l n = take n (ql_entries l)"

lemma pop_back_while_take: "pop_back_while n xs = take n xs"
proof (induction n xs rule: pop_back_while.induct)
  case (1 n xs)
  then show ?case
    by (subst pop_back_while.simps) (auto simp: butlast_conv_take min_def)
qed

text \<open>The specification: the non-blank queries, most recent first, each once.\<close>

definition mru :: "rstring list \<Rightarrow> rstring list" where
  "mru qs = rev (remdups (filter (\<lambda>q. q \<noteq> []) (map trim qs)))"

definition log_replay :: "rstring list \<Rightarrow> query_log" where
  "log_replay qs = foldl record_query query_log_default qs"

lemma filter_take_distinct:
  assumes "distinct xs"
  shows "take n (filter (\<lambda>e. e \<noteq> x) (take (Suc n) xs)) = take n (filter (\<lambda>e. e \<noteq> x) xs)"
  using assms
proof (induction xs arbitrary: n)
  case (Cons y xs)
  show ?case
  proof (cases "y = x")
    case True
    with Cons.prems have nx: "\<forall>e\<in>set xs. e \<noteq> x" by auto
    then have "filter (\<lambda>e. e \<noteq> x) (take n xs) = take n xs" "filter (\<lambda>e. e \<noteq> x) xs = xs"
      by (auto intro!: filter_True dest: in_set_takeD)
    then show ?thesis using True by simp
  next
    case False
    then show ?thesis using Cons.IH [of "n - 1"] Cons.prems by (cases n) simp_all
  qed
qed simp

lemma remdups_snoc: "remdups (xs @ [x]) = filter (\<lambda>e. e \<noteq> x) (remdups xs) @ [x]"
  by (induction xs) auto

lemma mru_snoc: "mru (qs @ [q]) = (if trim q = [] then mru qs
    else trim q # filter (\<lambda>e. e \<noteq> trim q) (mru qs))"
  by (simp add: mru_def remdups_snoc rev_filter)

lemma distinct_mru: "distinct (mru qs)"
  by (simp add: mru_def)

lemma log_replay_mru:
  "ql_entries (log_replay qs) = take DEFAULT_MAX (mru qs) \<and> ql_max (log_replay qs) = DEFAULT_MAX"
proof (induction qs rule: rev_induct)
  case Nil
  show ?case by (simp add: log_replay_def query_log_default_def mru_def)
next
  case (snoc q qs)
  have step: "log_replay (qs @ [q]) = record_query (log_replay qs) q"
    by (simp add: log_replay_def)
  show ?case
  proof (cases "trim q = []")
    case True
    then show ?thesis using snoc.IH by (simp add: step record_query_def mru_snoc)
  next
    case False
    have "take 99 (filter (\<lambda>e. e \<noteq> trim q) (take (Suc 99) (mru qs)))
        = take 99 (filter (\<lambda>e. e \<noteq> trim q) (mru qs))"
      by (rule filter_take_distinct [OF distinct_mru])
    then show ?thesis
      using False snoc.IH
      by (simp add: step record_query_def Let_def mru_snoc pop_back_while_take DEFAULT_MAX_def take_Cons')
  qed
qed

section \<open>Properties\<close>

text \<open>The query history is a bounded most-recently-used list: after any sequence of recorded
  queries the log holds the first hundred entries of the list of distinct non-blank trimmed queries,
  most recent first, and \<open>recent n\<close> returns its first \<open>n\<close>.\<close>

theorem query_log_is_mru:
  "recent (log_replay qs) n = take (min n 100) (mru qs)
   \<and> length (ql_entries (log_replay qs)) \<le> 100 \<and> distinct (ql_entries (log_replay qs))"
  using log_replay_mru [of qs] distinct_mru [of qs]
  by (simp add: recent_def DEFAULT_MAX_def min.commute)

text \<open>Hiding and unhiding a document changes that document only, keeps the list sorted without
  duplicates, and reports a change exactly when there was one.\<close>

theorem blocklist_set_hidden:
  assumes "blocklist_inv b"
  shows "blocklist_inv (fst (set_hidden b d h))
    \<and> (\<forall>d'. blocklist_contains (fst (set_hidden b d h)) d'
         \<longleftrightarrow> (if d' = d then h else blocklist_contains b d'))
    \<and> (snd (set_hidden b d h) \<longleftrightarrow> blocklist_contains b d \<noteq> h)
    \<and> (snd (set_hidden b d h) \<longleftrightarrow> fst (set_hidden b d h) \<noteq> b)
    \<and> sorted (blocklist_list (fst (set_hidden b d h)))"
proof -
  have ch: "snd (set_hidden b d h) \<longleftrightarrow> blocklist_contains b d \<noteq> h"
    by (simp add: set_hidden_def blocklist_contains_def)
  have "fst (set_hidden b d h) = b" if "blocklist_contains b d = h"
    using that by (auto simp: set_hidden_def blocklist_contains_def insort_insert_triv remove1_idem)
  moreover have "fst (set_hidden b d h) \<noteq> b" if "blocklist_contains b d \<noteq> h"
    using that set_hidden_contains [OF assms, of d h d] by auto
  ultimately show ?thesis
    using ch set_hidden_inv [OF assms] set_hidden_contains [OF assms]
    by (auto simp: blocklist_list_def blocklist_inv_def)
qed

theorem blocklist_set_hidden_witness:
  "blocklist_inv blocklist_default
   \<and> blocklist_contains (fst (set_hidden blocklist_default (lit ''fs:/a'') True)) (lit ''fs:/a'')"
proof -
  have "blocklist_inv blocklist_default" by (simp add: blocklist_inv_def blocklist_default_def)
  with blocklist_set_hidden [of blocklist_default "lit ''fs:/a''" True] show ?thesis by simp
qed

text \<open>Crash safety of the ranking stores. For the frecency, latch and blocklist files alike: when
  \<^verbatim>\<open>save\<close> reports success the next \<^verbatim>\<open>load\<close> returns the saved store, and when it fails at any step the
  next \<^verbatim>\<open>load\<close> returns what it would have returned before. The codec law is the only assumption
  on serde.\<close>

theorem stores_survive_failed_saves:
  assumes "codec_ok enc_f dec_f" and "codec_ok enc_l dec_l" and "codec_ok enc_b dec_b"
  shows "(case frecency_save enc_f io s d of (ok, d') \<Rightarrow>
            fst (frecency_load dec_f rm d') = (if ok then Some s else fst (frecency_load dec_f rm d)))
    \<and> (case latch_save enc_l io l d of (ok, d') \<Rightarrow>
            latch_load dec_l d' = (if ok then l else latch_load dec_l d))
    \<and> (case blocklist_save enc_b io b d of (ok, d') \<Rightarrow>
            blocklist_load dec_b d' = (if ok then b else blocklist_load dec_b d))"
proof (intro conjI)
  have ne: "lit ''frecency.json.tmp'' \<noteq> lit ''frecency.json''"
    "lit ''query_latch.json.tmp'' \<noteq> lit ''query_latch.json''"
    "lit ''blocklist.json.tmp'' \<noteq> lit ''blocklist.json''"
    "lit ''history.json'' \<noteq> lit ''frecency.json''"
    "lit ''history.json'' \<noteq> lit ''frecency.json.tmp''" by code_simp+
  obtain ok d' where fw: "frecency_save enc_f io s d = (ok, d')" by fastforce
  note w = write_tmp_rename_final [OF ne(1) fw [unfolded frecency_save_def]]
  have "d' (lit ''history.json'') = d (lit ''history.json'')" using w(2) ne(4,5) by simp
  then have "fst (frecency_load dec_f rm d') = (if ok then Some s else fst (frecency_load dec_f rm d))"
    using w(1,3) read_after_write [OF assms(1)]
    by (auto simp: frecency_load_def split: option.split)
  then show "case frecency_save enc_f io s d of (ok, d') \<Rightarrow>
      fst (frecency_load dec_f rm d') = (if ok then Some s else fst (frecency_load dec_f rm d))"
    by (simp add: fw)
  obtain ok d' where lw: "latch_save enc_l io l d = (ok, d')" by fastforce
  note w = write_tmp_rename_final [OF ne(2) lw [unfolded latch_save_def]]
  have "latch_load dec_l d' = (if ok then l else latch_load dec_l d)"
    using w(1,3) read_after_write [OF assms(2)]
    by (auto simp: latch_load_def split: option.split)
  then show "case latch_save enc_l io l d of (ok, d') \<Rightarrow>
      latch_load dec_l d' = (if ok then l else latch_load dec_l d)" by (simp add: lw)
  obtain ok d' where bw: "blocklist_save enc_b io b d = (ok, d')" by fastforce
  note w = write_tmp_rename_final [OF ne(3) bw [unfolded blocklist_save_def]]
  have "blocklist_load dec_b d' = (if ok then b else blocklist_load dec_b d)"
    using w(1,3) read_after_write [OF assms(3)]
    by (auto simp: blocklist_load_def split: option.split)
  then show "case blocklist_save enc_b io b d of (ok, d') \<Rightarrow>
      blocklist_load dec_b d' = (if ok then b else blocklist_load dec_b d)" by (simp add: bw)
qed

theorem stores_survive_failed_saves_witness:
  "latch_load (one_store_dec (latch_replay ascii_unicode [(lit ''ff'', lit ''d'', 0)]))
     (snd (latch_save (one_store_enc (latch_replay ascii_unicode [(lit ''ff'', lit ''d'', 0)])) io_success
        (latch_replay ascii_unicode [(lit ''ff'', lit ''d'', 0)]) (\<lambda>_. None)))
   = latch_replay ascii_unicode [(lit ''ff'', lit ''d'', 0)]"
proof -
  let ?l = "latch_replay ascii_unicode [(lit ''ff'', lit ''d'', 0)]"
  have "fst (latch_save (one_store_enc ?l) io_success ?l (\<lambda>_. None))"
    by (simp add: latch_save_def write_tmp_rename_def io_success_def one_store_enc_def)
  then show ?thesis
    using stores_survive_failed_saves [OF one_store_codec [of frecency_default] one_store_codec [of ?l]
        one_store_codec [of blocklist_default], where io = io_success and d = "\<lambda>_. None" and l = ?l]
    by (simp add: case_prod_beta)
qed

end
