(* ===== verification/Search_Handler.thy ===== *)
theory Search_Handler
  imports Fusion Top_Hit History_Stores
begin

text \<open>
  The daemon's search path (\<^verbatim>\<open>crates/lixun-daemon/src/main.rs\<close>): what happens to a chunk of fused
  hits before it is sent (hidden documents, claiming plugins, frecency and latch multipliers,
  plugin fan-out, ranking, top hit), the search request around it with its limits, category
  filter and cancellation, the slot that supersedes an older search of the same connection, and
  the requests on the ranking stores.

  A panic is \<open>None\<close> (an index out of bounds, or \<open>f32::clamp\<close> with an inverted range in the latch
  multiplier). A plugin is a record of the source-trait methods the daemon calls; \<open>pl_on_query\<close> is
  \<open>None\<close> when the task panics. What the cancellation token shows at each place where it is read,
  and whether a send succeeds, are arguments. The printed form of a score breakdown
  (\<open>format_breakdown\<close>, decimal formatting of floats) is the argument \<open>sc_fmt\<close>.
\<close>

section \<open>Plugins, configuration, results\<close>

record plugin =
  pl_instance_id :: rstring
  pl_claims_query :: "rstring \<Rightarrow> bool"
  pl_on_query :: "rstring \<Rightarrow> hit list option"
  pl_excludes_from_query_log :: "rstring \<Rightarrow> bool"
  pl_claimed_prefix :: "rstring option"
  pl_row_menu :: row_menu_def

definition row_menu_for :: "plugin list \<Rightarrow> rstring \<Rightarrow> row_menu_def option" where
  "row_menu_for registry instance_id =
     map_option pl_row_menu (find (\<lambda>p. pl_instance_id p = instance_id) registry)"

record search_ctx =
  sc_unicode :: unicode
  sc_ln32 :: "real \<Rightarrow> f32"
  sc_fmt :: "score_breakdown \<Rightarrow> rstring"
  sc_ranking :: ranking_config
  sc_max_results :: nat
  sc_registry :: "plugin list"
  sc_frecency :: frecency_store
  sc_latch :: query_latch_store
  sc_blocklist :: blocklist

record search_result =
  sr_hits :: "hit list"
  sr_calculation :: "calculation option"
  sr_top_hit :: "doc_id option"
  sr_explanations :: "rstring list"
  sr_claimed :: bool

section \<open>Processing one chunk\<close>

definition clamp_stage2_mult :: "f32 \<Rightarrow> f32 \<Rightarrow> f32" where
  "clamp_stage2_mult stage2 cap = min stage2 cap"

datatype rust_ordering = Less | Equal | Greater

definition compare_hits_for_ranking :: "hit \<Rightarrow> hit \<Rightarrow> rust_ordering" where
  "compare_hits_for_ranking a b =
     (if hit_score b < hit_score a then Less
      else if hit_score a < hit_score b then Greater
      else if hit_id a < hit_id b then Less
      else if hit_id a = hit_id b then Equal
      else Greater)"

text \<open>The key whose order the comparison is; Rust's \<^verbatim>\<open>sort_by\<close> is stable, like \<open>sort_key\<close>.\<close>

definition ranking_key :: "hit \<Rightarrow> f32 \<times> doc_id" where
  "ranking_key h = (- hit_score h, hit_id h)"

definition plugin_breakdown :: "hit \<Rightarrow> score_breakdown" where
  "plugin_breakdown h = \<lparr>
     bd_tantivy = hit_score h, bd_category_mult = 1, bd_exact_title_mult = 1, bd_prefix_mult = 1,
     bd_acronym_mult = 1, bd_recency_mult = 1, bd_coord_mult = 1, bd_frecency_mult = 1,
     bd_latch_mult = 1, bd_stage2_clamped = 1, bd_final_score = hit_score h, bd_lexical_fallback = False\<rparr>"

definition drop_hidden ::
  "bool \<Rightarrow> doc_id list \<Rightarrow> hit list \<Rightarrow> score_breakdown list \<Rightarrow> hit list \<times> score_breakdown list" where
  "drop_hidden explain hidden hits breakdowns =
     (if hidden = [] then (hits, breakdowns)
      else if explain \<and> length breakdowns = length hits then
        (let kept = filter (\<lambda>(h, _). hit_id h \<notin> set hidden) (zip hits breakdowns)
         in (map fst kept, map snd kept))
      else (filter (\<lambda>h. hit_id h \<notin> set hidden) hits, breakdowns))"

definition run_plugin :: "bool \<Rightarrow> plugin \<Rightarrow> rstring \<Rightarrow> hit list option" where
  "run_plugin is_cancelled p q = (if is_cancelled then Some [] else pl_on_query p q)"

text \<open>The stage-2 loop; \<open>mults h\<close> are the frecency and the latch multiplier of a hit.\<close>

fun stage2_loop ::
  "(hit \<Rightarrow> (f32 \<times> f32) option) \<Rightarrow> f32 \<Rightarrow> bool \<Rightarrow> hit list \<Rightarrow> score_breakdown list
     \<Rightarrow> (hit list \<times> score_breakdown list) option" where
  "stage2_loop mults total_cap explain [] bs = Some ([], bs)"
| "stage2_loop mults total_cap explain (h # hs) bs =
     (case mults h of
        None \<Rightarrow> None
      | Some (frec, lat) \<Rightarrow>
          (let clamped = clamp_stage2_mult (f32_mul frec lat) total_cap;
               h' = h\<lparr>hit_score := f32_mul (hit_score h) clamped\<rparr>
           in case bs of
                [] \<Rightarrow> map_option (\<lambda>(hs', bs'). (h' # hs', bs')) (stage2_loop mults total_cap explain hs [])
              | b # rest \<Rightarrow>
                  (let b' = (if explain then b\<lparr>bd_frecency_mult := frec, bd_latch_mult := lat,
                                bd_stage2_clamped := clamped, bd_final_score := hit_score h'\<rparr> else b)
                   in map_option (\<lambda>(hs', bs'). (h' # hs', b' # bs'))
                        (stage2_loop mults total_cap explain hs rest))))"

definition stage2_mults :: "search_ctx \<Rightarrow> rstring \<Rightarrow> int \<Rightarrow> hit \<Rightarrow> (f32 \<times> f32) option" where
  "stage2_mults ctx q now h =
     (let rc = sc_ranking ctx
      in map_option (\<lambda>lat. (frecency_mult (sc_frecency ctx) (hit_id h) now (rc_frecency_alpha rc), lat))
           (latch_mult (sc_unicode ctx) (sc_ln32 ctx) (sc_latch ctx) q (hit_id h) now
              (rc_latch_weight rc) (rc_latch_cap rc)))"

definition max_lexical_score :: "hit list \<Rightarrow> f32" where
  "max_lexical_score hits = max (foldl max 0 (map hit_score hits)) 1"

definition rescale_plugin_hit :: "f32 \<Rightarrow> hit \<Rightarrow> hit" where
  "rescale_plugin_hit max_score h = h\<lparr>hit_score := f32_mul (max 0 (min (hit_score h) 1)) max_score\<rparr>"

fun fan_out ::
  "bool \<Rightarrow> doc_id list \<Rightarrow> rstring \<Rightarrow> f32 \<Rightarrow> (nat \<Rightarrow> bool) \<Rightarrow> nat \<Rightarrow> plugin list
     \<Rightarrow> hit list \<times> score_breakdown list \<Rightarrow> hit list \<times> score_breakdown list" where
  "fan_out explain hidden q max_score cancelled i [] acc = acc"
| "fan_out explain hidden q max_score cancelled i (p # ps) (hits, bs) =
     (case run_plugin (cancelled i) p q of
        None \<Rightarrow> fan_out explain hidden q max_score cancelled (Suc i) ps (hits, bs)
      | Some plugin_hits \<Rightarrow>
          (let kept = (if hidden = [] then plugin_hits else filter (\<lambda>h. hit_id h \<notin> set hidden) plugin_hits);
               scaled = map (rescale_plugin_hit max_score) kept
           in fan_out explain hidden q max_score cancelled (Suc i) ps
                (hits @ scaled, if explain then bs @ map plugin_breakdown scaled else bs)))"

definition attach_row_menu :: "plugin list \<Rightarrow> hit \<Rightarrow> hit" where
  "attach_row_menu registry h =
     (if hit_source_instance h = [] then h
      else case row_menu_for registry (hit_source_instance h) of
             None \<Rightarrow> h
           | Some menu \<Rightarrow> h\<lparr>hit_row_menu := menu\<rparr>)"

definition rank_hits ::
  "bool \<Rightarrow> hit list \<Rightarrow> score_breakdown list \<Rightarrow> (hit list \<times> score_breakdown list) option" where
  "rank_hits explain hits breakdowns =
     (if explain then
        (let idx = sort_key (\<lambda>i. ranking_key (hits ! i)) [0..<length hits]
         in if list_all (\<lambda>i. i < length breakdowns) idx
            then Some (map (\<lambda>i. hits ! i) idx, map (\<lambda>i. breakdowns ! i) idx)
            else None)
      else Some (sort_key ranking_key hits, []))"

definition claiming_entry :: "search_ctx \<Rightarrow> phase \<Rightarrow> rstring \<Rightarrow> plugin option" where
  "claiming_entry ctx ph q =
     (if ph = Final then find (\<lambda>p. pl_claims_query p q) (sc_registry ctx) else None)"

definition unranked_hits ::
  "search_ctx \<Rightarrow> phase \<Rightarrow> bool \<Rightarrow> (nat \<Rightarrow> bool) \<Rightarrow> rstring \<Rightarrow> int \<Rightarrow> hit list \<Rightarrow> score_breakdown list
     \<Rightarrow> (hit list \<times> score_breakdown list) option" where
  "unranked_hits ctx ph explain cancelled q now hits breakdowns =
     (case claiming_entry ctx ph q of
        Some claimer \<Rightarrow>
          (let plugin_hits = (case run_plugin (cancelled 0) claimer q of None \<Rightarrow> [] | Some hs \<Rightarrow> hs)
           in Some (plugin_hits, if explain then map plugin_breakdown plugin_hits else []))
      | None \<Rightarrow>
          (case stage2_loop (stage2_mults ctx q now) (rc_total_multiplier_cap (sc_ranking ctx)) explain
                  hits breakdowns of
             None \<Rightarrow> None
           | Some (hs, bs) \<Rightarrow>
               Some (if ph = Final
                     then fan_out explain (blocklist_list (sc_blocklist ctx)) q (max_lexical_score hs)
                            cancelled 0 (sc_registry ctx) (hs, bs)
                     else (hs, bs))))"

definition process_search_chunk ::
  "search_ctx \<Rightarrow> hit list \<Rightarrow> score_breakdown list \<Rightarrow> phase \<Rightarrow> bool \<Rightarrow> (nat \<Rightarrow> bool) \<Rightarrow> rstring \<Rightarrow> int
     \<Rightarrow> search_result option" where
  "process_search_chunk ctx hits0 breakdowns0 ph explain cancelled q now =
     (let hidden = blocklist_list (sc_blocklist ctx);
          (hits, breakdowns) = drop_hidden explain hidden hits0 breakdowns0
      in case unranked_hits ctx ph explain cancelled q now hits breakdowns of
           None \<Rightarrow> None
         | Some (hits1, breakdowns1) \<Rightarrow>
             (case rank_hits explain (map (attach_row_menu (sc_registry ctx)) hits1) breakdowns1 of
                None \<Rightarrow> None
              | Some (hits2, breakdowns2) \<Rightarrow>
                  Some \<lparr>sr_hits = hits2,
                        sr_calculation = None,
                        sr_top_hit =
                          (if ph = Final
                           then th_id (select_top_hit (sc_unicode ctx) q hits2 (sc_frecency ctx) (sc_latch ctx)
                                  now (rc_top_hit_min_confidence (sc_ranking ctx))
                                  (rc_top_hit_min_margin (sc_ranking ctx))
                                  (rc_strong_latch_threshold (sc_ranking ctx)))
                           else None),
                        sr_explanations =
                          (if explain then map (\<lambda>(b, _). sc_fmt ctx b) (zip breakdowns2 hits2) else []),
                        sr_claimed = (claiming_entry ctx ph q \<noteq> None)\<rparr>))"

section \<open>The search request\<close>

definition ABSOLUTE_RESULT_CEILING :: nat where
  "ABSOLUTE_RESULT_CEILING = 1000"

definition saturating_mul_u32 :: "nat \<Rightarrow> nat \<Rightarrow> nat" where
  "saturating_mul_u32 a b = min (a * b) (2 ^ 32 - 1)"

definition clamp_nat :: "nat \<Rightarrow> nat \<Rightarrow> nat \<Rightarrow> nat" where
  "clamp_nat n lo hi = (if n < lo then lo else if hi < n then hi else n)"

definition effective_limit :: "nat \<Rightarrow> nat \<Rightarrow> nat" where
  "effective_limit max_results limit =
     clamp_nat limit 1 (clamp_nat (saturating_mul_u32 max_results 4) 1 ABSOLUTE_RESULT_CEILING)"

definition fetch_limit :: "nat \<Rightarrow> category option \<Rightarrow> nat" where
  "fetch_limit limit category =
     (if category \<noteq> None then min (saturating_mul_u32 limit 4) ABSOLUTE_RESULT_CEILING else limit)"

definition apply_category :: "category option \<Rightarrow> nat \<Rightarrow> search_result \<Rightarrow> search_result" where
  "apply_category category limit r =
     (case category of
        None \<Rightarrow> r
      | Some cat \<Rightarrow>
          if sr_claimed r then r
          else
            (let (hits, expl) =
               (if length (sr_explanations r) = length (sr_hits r) then
                  (let kept = filter (\<lambda>(h, _). hit_category h = cat) (zip (sr_hits r) (sr_explanations r))
                   in (map fst kept, map snd kept))
                else (filter (\<lambda>h. hit_category h = cat) (sr_hits r), sr_explanations r))
             in if limit < length hits
                then r\<lparr>sr_hits := take limit hits, sr_explanations := take limit expl\<rparr>
                else r\<lparr>sr_hits := hits, sr_explanations := expl\<rparr>))"

record search_chunk =
  ck_epoch :: nat
  ck_phase :: phase
  ck_result :: search_result

text \<open>What the token shows before and after processing a chunk, inside plugin tasks, and the sends.\<close>

record chunk_obs =
  ob_before :: bool
  ob_plugin :: "nat \<Rightarrow> bool"
  ob_after :: bool
  ob_sent :: bool
  ob_now :: int

text \<open>The receive loop: the frames sent, and whether it ran to its end.\<close>

fun search_loop ::
  "search_ctx \<Rightarrow> nat \<Rightarrow> rstring \<Rightarrow> nat \<Rightarrow> bool \<Rightarrow> category option \<Rightarrow> (nat \<Rightarrow> chunk_obs) \<Rightarrow> nat \<Rightarrow> fusion_chunk list
     \<Rightarrow> search_chunk list \<times> bool" where
  "search_loop ctx epoch q limit explain category obs i [] = ([], True)"
| "search_loop ctx epoch q limit explain category obs i (c # cs) =
     (if ob_before (obs i) then ([], False)
      else
        (let hits = map fst (fc_hits c);
             breakdowns = (if explain then map snd (fc_hits c) else [])
         in case process_search_chunk ctx hits breakdowns (fc_phase c) explain (ob_plugin (obs i)) q
                   (ob_now (obs i)) of
              None \<Rightarrow> ([], False)
            | Some r \<Rightarrow>
                if ob_after (obs i) then ([], False)
                else
                  (let frame = \<lparr>ck_epoch = epoch, ck_phase = fc_phase c,
                                ck_result = apply_category category limit r\<rparr>
                   in if ob_sent (obs i)
                      then (case search_loop ctx epoch q limit explain category obs (Suc i) cs of
                              (frames, done) \<Rightarrow> (frame # frames, done))
                      else ([], False))))"

definition handle_search ::
  "search_ctx \<Rightarrow> hybrid_search \<Rightarrow> bool \<Rightarrow> nat \<Rightarrow> rstring \<Rightarrow> nat \<Rightarrow> bool \<Rightarrow> category option \<Rightarrow> (nat \<Rightarrow> chunk_obs)
     \<Rightarrow> search_chunk list \<times> bool" where
  "handle_search ctx fusion cancelled epoch q limit0 explain category obs =
     (let limit = effective_limit (sc_max_results ctx) limit0;
          query_obj = \<lparr>q_text = q, q_limit = fetch_limit limit category\<rparr>
      in case search_streaming fusion query_obj cancelled of
           None \<Rightarrow> ([], False)
         | Some chunks \<Rightarrow> search_loop ctx epoch q limit explain category obs 0 chunks)"

section \<open>Requests on the ranking stores\<close>

record daemon_state =
  ds_frecency :: frecency_store
  ds_latch :: query_latch_store
  ds_blocklist :: blocklist
  ds_log :: query_log
  ds_dir :: state_dir

record store_codecs =
  sj_frecency :: "frecency_store \<Rightarrow> rstring option"
  sj_latch :: "query_latch_store \<Rightarrow> rstring option"
  sj_blocklist :: "blocklist \<Rightarrow> rstring option"

datatype ranking_request =
    RecordClick doc_id
  | RecordQuery rstring
  | RecordQueryClick doc_id rstring
  | SearchHistory nat
  | ClaimedPrefixes
  | Recents nat
  | SetDocHidden doc_id bool
  | ResetDocRanking doc_id
  | ListHiddenDocs

datatype ranking_response =
    ROk
  | RQueries "rstring list"
  | RClaimedPrefixes "rstring list"
  | RRecents "hit list"
  | RHiddenDocs "doc_id list"

definition log_query :: "plugin list \<Rightarrow> rstring \<Rightarrow> query_log \<Rightarrow> query_log" where
  "log_query registry q l =
     (if list_ex (\<lambda>p. pl_excludes_from_query_log p q) registry then l else record_query l q)"

definition recents ::
  "search_ctx \<Rightarrow> hybrid_search \<Rightarrow> daemon_state \<Rightarrow> int \<Rightarrow> nat \<Rightarrow> hit list" where
  "recents ctx fusion st now limit0 =
     (let limit = min limit0 (sc_max_results ctx);
          ids0 = top_docs (ds_frecency st) now (min (limit * 2) (2 ^ 64 - 1));
          ids = (if blocklist_is_empty (ds_blocklist st) then ids0
                 else filter (\<lambda>i. \<not> blocklist_contains (ds_blocklist st) i) ids0);
          hits = (case hs_hydrate fusion ids of Some pairs \<Rightarrow> map fst pairs | None \<Rightarrow> [])
      in map (attach_row_menu (sc_registry ctx)) (take limit hits))"

definition handle_request ::
  "search_ctx \<Rightarrow> hybrid_search \<Rightarrow> store_codecs \<Rightarrow> io_outcome \<Rightarrow> io_outcome \<Rightarrow> int \<Rightarrow> daemon_state \<Rightarrow> ranking_request
     \<Rightarrow> daemon_state \<times> ranking_response" where
  "handle_request ctx fusion sj io io' now st req =
     (case req of
        RecordClick d \<Rightarrow> (st\<lparr>ds_frecency := record_click (ds_frecency st) d now\<rparr>, ROk)
      | RecordQuery q \<Rightarrow> (st\<lparr>ds_log := log_query (sc_registry ctx) q (ds_log st)\<rparr>, ROk)
      | RecordQueryClick d q \<Rightarrow>
          (st\<lparr>ds_latch := latch_record (sc_unicode ctx) (ds_latch st) q d now,
              ds_log := log_query (sc_registry ctx) q (ds_log st)\<rparr>, ROk)
      | SearchHistory n \<Rightarrow> (st, RQueries (recent (ds_log st) n))
      | ClaimedPrefixes \<Rightarrow> (st, RClaimedPrefixes (List.map_filter pl_claimed_prefix (sc_registry ctx)))
      | Recents n \<Rightarrow> (st, RRecents (recents ctx fusion st now n))
      | SetDocHidden d hidden \<Rightarrow>
          (let (bl, changed) = set_hidden (ds_blocklist st) d hidden
           in (st\<lparr>ds_blocklist := bl,
                  ds_dir := (if changed then snd (blocklist_save (sj_blocklist sj) io bl (ds_dir st))
                             else ds_dir st)\<rparr>, ROk))
      | ResetDocRanking d \<Rightarrow>
          (let (fr, removed_frecency) = frecency_remove_doc (ds_frecency st) d;
               dir1 = (if removed_frecency then snd (frecency_save (sj_frecency sj) io fr (ds_dir st))
                       else ds_dir st);
               (la, removed_latch) = latch_remove_doc (ds_latch st) d;
               dir2 = (if removed_latch then snd (latch_save (sj_latch sj) io' la dir1) else dir1)
           in (st\<lparr>ds_frecency := fr, ds_latch := la, ds_dir := dir2\<rparr>, ROk))
      | ListHiddenDocs \<Rightarrow> (st, RHiddenDocs (blocklist_list (ds_blocklist st))))"

definition ctx_of :: "search_ctx \<Rightarrow> daemon_state \<Rightarrow> search_ctx" where
  "ctx_of ctx st = ctx\<lparr>sc_frecency := ds_frecency st, sc_latch := ds_latch st, sc_blocklist := ds_blocklist st\<rparr>"

section \<open>The active-search slot of a connection\<close>

text \<open>
  A connection runs its searches as tasks and keeps one slot for the newest. \<open>cn_running\<close> are the
  generations of the spawned tasks that have not ended, \<open>cn_cancelled\<close> those whose token was
  cancelled, \<open>cn_out\<close> the epochs of the \<^verbatim>\<open>Cancelled\<close> responses, newest first.
\<close>

record conn =
  cn_slot :: "(nat \<times> nat) option"
  cn_next :: nat
  cn_running :: "nat list"
  cn_cancelled :: "nat list"
  cn_out :: "nat list"

definition conn_new :: conn where
  "conn_new = \<lparr>cn_slot = None, cn_next = 0, cn_running = [], cn_cancelled = [], cn_out = []\<rparr>"

definition begin_search :: "nat \<Rightarrow> conn \<Rightarrow> conn" where
  "begin_search epoch c =
     (let c1 = (case cn_slot c of
                  None \<Rightarrow> c
                | Some (g, e) \<Rightarrow> c\<lparr>cn_slot := None, cn_cancelled := g # cn_cancelled c, cn_out := e # cn_out c\<rparr>);
          generation = cn_next c1
      in c1\<lparr>cn_next := (cn_next c1 + 1) mod 2 ^ 64, cn_slot := Some (generation, epoch),
            cn_running := generation # cn_running c1\<rparr>)"

text \<open>The end of \<open>handle_search\<close>: the slot is cleared only by the search that owns it.\<close>

definition finish_search :: "nat \<Rightarrow> conn \<Rightarrow> conn" where
  "finish_search generation c =
     (case cn_slot c of
        Some (g, e) \<Rightarrow> if g = generation then c\<lparr>cn_slot := None\<rparr> else c
      | None \<Rightarrow> c)"

definition disconnect :: "conn \<Rightarrow> conn" where
  "disconnect c =
     (case cn_slot c of
        None \<Rightarrow> c\<lparr>cn_running := []\<rparr>
      | Some (g, e) \<Rightarrow> c\<lparr>cn_slot := None, cn_cancelled := g # cn_cancelled c, cn_running := []\<rparr>)"

text \<open>A task ends by running to its end, or early (cancelled, failed, client gone).\<close>

datatype conn_event = Begin nat | Finish nat | Quit nat | Disconnect

inductive conn_step :: "conn \<Rightarrow> conn_event \<Rightarrow> conn \<Rightarrow> bool" where
  step_begin: "conn_step c (Begin epoch) (begin_search epoch c)"
| step_finish: "g \<in> set (cn_running c) \<Longrightarrow>
    conn_step c (Finish g) ((finish_search g c)\<lparr>cn_running := remove1 g (cn_running c)\<rparr>)"
| step_quit: "g \<in> set (cn_running c) \<Longrightarrow> conn_step c (Quit g) (c\<lparr>cn_running := remove1 g (cn_running c)\<rparr>)"
| step_disconnect: "conn_step c Disconnect (disconnect c)"

inductive_cases conn_step_BeginE: "conn_step c (Begin epoch) c'"
inductive_cases conn_step_FinishE: "conn_step c (Finish g) c'"

inductive conn_reach :: "conn_event list \<Rightarrow> conn \<Rightarrow> bool" where
  reach_new: "conn_reach [] conn_new"
| reach_step: "conn_reach tr c \<Longrightarrow> conn_step c ev c' \<Longrightarrow> conn_reach (tr @ [ev]) c'"

definition begins :: "conn_event list \<Rightarrow> nat" where
  "begins tr = length (filter (\<lambda>ev. \<exists>e. ev = Begin e) tr)"

section \<open>Lemmas: sorting\<close>

lemma compare_hits_key:
  "compare_hits_for_ranking a b = Less \<longleftrightarrow> ranking_key a < ranking_key b"
  "compare_hits_for_ranking a b = Equal \<longleftrightarrow> ranking_key a = ranking_key b"
  by (auto simp: compare_hits_for_ranking_def ranking_key_def less_prod_def less_eq_prod_def)

lemma map_insort_key: "map g (insort_key (\<lambda>x. f (g x)) x ys) = insort_key f (g x) (map g ys)"
  by (induction ys) auto

lemma map_sort_key: "map g (sort_key (\<lambda>x. f (g x)) xs) = sort_key f (map g xs)"
  by (induction xs) (simp_all add: map_insort_key)

lemma sort_by_index: "map (\<lambda>i. xs ! i) (sort_key (\<lambda>i. f (xs ! i)) [0..<length xs]) = sort_key f xs"
  by (simp add: map_sort_key map_nth)

lemma rank_hits_plain: "rank_hits False hs bs = Some (sort_key ranking_key hs, [])"
  by (simp add: rank_hits_def)

lemma rank_hits_explain:
  assumes "list_all2 P hs bs"
  shows "\<exists>bs'. rank_hits True hs bs = Some (sort_key ranking_key hs, bs')
    \<and> list_all2 P (sort_key ranking_key hs) bs'"
proof -
  let ?idx = "sort_key (\<lambda>i. ranking_key (hs ! i)) [0..<length hs]"
  have len: "length bs = length hs" using assms by (simp add: list_all2_lengthD)
  have "list_all2 P (map (\<lambda>i. hs ! i) ?idx) (map (\<lambda>i. bs ! i) ?idx)"
    using assms by (auto simp: list.rel_map list_all2_same list_all2_nthD)
  then show ?thesis
    using len by (simp add: rank_hits_def Let_def list_all_iff sort_by_index)
qed

lemma attach_row_menu_simps [simp]:
  "hit_id (attach_row_menu reg h) = hit_id h" "hit_score (attach_row_menu reg h) = hit_score h"
  "hit_category (attach_row_menu reg h) = hit_category h" "hit_title (attach_row_menu reg h) = hit_title h"
  by (simp_all add: attach_row_menu_def split: option.split)

section \<open>Lemmas: the stages of a chunk\<close>

definition describes :: "hit \<Rightarrow> score_breakdown \<Rightarrow> bool" where
  "describes h b \<longleftrightarrow> bd_final_score b = hit_score h"

lemma describes_plugin [simp]: "describes h (plugin_breakdown h)"
  by (simp add: describes_def plugin_breakdown_def)

lemma describes_menu [simp]: "describes (attach_row_menu reg h) = describes h"
  by (simp add: describes_def fun_eq_iff)

text \<open>What stage 2 makes of one hit.\<close>

definition stage2_hit :: "(hit \<Rightarrow> (f32 \<times> f32) option) \<Rightarrow> f32 \<Rightarrow> hit \<Rightarrow> hit" where
  "stage2_hit mults cap h =
     (case mults h of None \<Rightarrow> h
      | Some (frec, lat) \<Rightarrow> h\<lparr>hit_score := f32_mul (hit_score h) (clamp_stage2_mult (f32_mul frec lat) cap)\<rparr>)"

lemma stage2_hit_id [simp]: "hit_id (stage2_hit m c h) = hit_id h"
  by (simp add: stage2_hit_def split: option.split prod.split)

lemma stage2_loop_None: "stage2_loop m c e hs bs = None \<longleftrightarrow> (\<exists>h\<in>set hs. m h = None)"
  by (induction m c e hs bs rule: stage2_loop.induct) (auto simp: Let_def split: option.splits list.splits)

lemma stage2_loop_hits: "stage2_loop m c e hs bs = Some (hs', bs') \<Longrightarrow> hs' = map (stage2_hit m c) hs"
  by (induction m c e hs bs arbitrary: hs' bs' rule: stage2_loop.induct)
     (auto simp: Let_def stage2_hit_def split: option.splits list.splits)

lemma stage2_loop_describes:
  "stage2_loop m c True hs bs = Some (hs', bs') \<Longrightarrow> length bs = length hs \<Longrightarrow> list_all2 describes hs' bs'"
  by (induction m c True hs bs arbitrary: hs' bs' rule: stage2_loop.induct)
     (auto simp: Let_def describes_def split: option.splits list.splits)

text \<open>The hits the fan-out adds.\<close>

fun fan_out_hits :: "doc_id list \<Rightarrow> rstring \<Rightarrow> f32 \<Rightarrow> (nat \<Rightarrow> bool) \<Rightarrow> nat \<Rightarrow> plugin list \<Rightarrow> hit list" where
  "fan_out_hits hidden q s cancelled i [] = []"
| "fan_out_hits hidden q s cancelled i (p # ps) =
     map (rescale_plugin_hit s) (filter (\<lambda>h. hit_id h \<notin> set hidden)
       (case run_plugin (cancelled i) p q of None \<Rightarrow> [] | Some hs \<Rightarrow> hs))
     @ fan_out_hits hidden q s cancelled (Suc i) ps"

lemma fan_out_fst: "fst (fan_out e hidden q s c i ps (hs, bs)) = hs @ fan_out_hits hidden q s c i ps"
  by (induction ps arbitrary: i hs bs) (auto simp: Let_def split: option.split)

lemma fan_out_describes:
  "list_all2 describes hs bs \<Longrightarrow>
   list_all2 describes (fst (fan_out True hidden q s c i ps (hs, bs))) (snd (fan_out True hidden q s c i ps (hs, bs)))"
proof (induction ps arbitrary: i hs bs)
  case (Cons p ps)
  have "list_all2 describes (hs @ map g xs) (bs @ map (plugin_breakdown \<circ> g) xs)" for g :: "hit \<Rightarrow> hit" and xs
    using Cons.prems by (intro list_all2_appendI) (auto simp: list.rel_map list_all2_same)
  then show ?case using Cons by (auto simp: Let_def split: option.split)
qed simp

lemma fan_out_hits_visible: "h \<in> set (fan_out_hits hidden q s c i ps) \<Longrightarrow> hit_id h \<notin> set hidden"
  by (induction ps arbitrary: i) (auto simp: rescale_plugin_hit_def)


lemma drop_hidden_plain: "fst (drop_hidden e hidden hs bs) = filter (\<lambda>h. hit_id h \<notin> set hidden) hs"
proof -
  have zipf: "map fst (filter (\<lambda>(h, _). P h) (zip hs bs)) = filter P hs" if "length bs = length hs" for P
    using that by (induction hs bs rule: list_induct2') auto
  show ?thesis by (auto simp: drop_hidden_def Let_def zipf)
qed

lemma drop_hidden_length:
  "length bs = length hs \<Longrightarrow> length (snd (drop_hidden True hidden hs bs)) = length (fst (drop_hidden True hidden hs bs))"
  by (auto simp: drop_hidden_def Let_def)


lemma unranked_hits_unclaimed:
  assumes "unranked_hits ctx ph e c q now hs bs = Some (hs', bs')" and "claiming_entry ctx ph q = None"
  shows "hs' = map (stage2_hit (stage2_mults ctx q now) (rc_total_multiplier_cap (sc_ranking ctx))) hs
    @ (if ph = Final
       then fan_out_hits (blocklist_list (sc_blocklist ctx)) q
              (max_lexical_score (map (stage2_hit (stage2_mults ctx q now) (rc_total_multiplier_cap (sc_ranking ctx))) hs))
              c 0 (sc_registry ctx)
       else [])"
proof -
  obtain hs1 bs1 where st: "stage2_loop (stage2_mults ctx q now) (rc_total_multiplier_cap (sc_ranking ctx)) e hs bs
      = Some (hs1, bs1)" using assms by (auto simp: unranked_hits_def split: option.splits)
  have out: "(hs', bs') = (if ph = Final then fan_out e (blocklist_list (sc_blocklist ctx)) q (max_lexical_score hs1)
                            c 0 (sc_registry ctx) (hs1, bs1) else (hs1, bs1))"
    using assms st by (auto simp: unranked_hits_def)
  have "hs' = fst (hs', bs')" by simp
  also note out
  finally show ?thesis by (simp add: fan_out_fst stage2_loop_hits [OF st])
qed

lemma unranked_hits_None:
  "unranked_hits ctx ph e c q now hs bs = None \<longleftrightarrow>
     claiming_entry ctx ph q = None \<and> (\<exists>h\<in>set hs. stage2_mults ctx q now h = None)"
  using stage2_loop_None [of "stage2_mults ctx q now" "rc_total_multiplier_cap (sc_ranking ctx)" e hs bs]
  by (auto simp: unranked_hits_def Let_def split: option.splits)

lemma unranked_hits_describes:
  assumes "unranked_hits ctx ph True c q now hs bs = Some (hs', bs')" and "length bs = length hs"
  shows "list_all2 describes hs' bs'"
proof (cases "claiming_entry ctx ph q")
  case (Some p)
  then show ?thesis using assms(1) by (auto simp: unranked_hits_def Let_def list.rel_map list_all2_same)
next
  case None
  obtain hs1 bs1 where st: "stage2_loop (stage2_mults ctx q now) (rc_total_multiplier_cap (sc_ranking ctx)) True hs bs
      = Some (hs1, bs1)" using assms(1) None by (auto simp: unranked_hits_def split: option.splits)
  have d: "list_all2 describes hs1 bs1" by (rule stage2_loop_describes [OF st assms(2)])
  have "(hs', bs') = (if ph = Final then fan_out True (blocklist_list (sc_blocklist ctx)) q (max_lexical_score hs1)
                            c 0 (sc_registry ctx) (hs1, bs1) else (hs1, bs1))"
    using assms(1) st None by (auto simp: unranked_hits_def)
  then show ?thesis
    using d fan_out_describes [OF d, of "blocklist_list (sc_blocklist ctx)" q "max_lexical_score hs1" c 0 "sc_registry ctx"]
    by (auto split: if_splits simp: prod_eq_iff)
qed

lemma unranked_hits_fst:
  "map_option fst (unranked_hits ctx ph e c q now hs bs) = map_option fst (unranked_hits ctx ph e' c q now hs bs')"
proof (cases "claiming_entry ctx ph q")
  case None
  show ?thesis
  proof (cases "unranked_hits ctx ph e c q now hs bs")
    case N1: None
    then have "unranked_hits ctx ph e' c q now hs bs' = None" unfolding unranked_hits_None .
    then show ?thesis by (simp add: N1)
  next
    case (Some r)
    then have "unranked_hits ctx ph e' c q now hs bs' \<noteq> None"
      using unranked_hits_None [of ctx ph e] unranked_hits_None [of ctx ph e'] by (metis option.distinct(1))
    then obtain r' where r': "unranked_hits ctx ph e' c q now hs bs' = Some r'" by blast
    obtain h b h' b' where p: "r = (h, b)" "r' = (h', b')" by fastforce
    show ?thesis
      using unranked_hits_unclaimed [OF Some [unfolded p] None] unranked_hits_unclaimed [OF r' [unfolded p] None]
      by (simp add: Some r' p)
  qed
qed (simp add: unranked_hits_def Let_def)


definition visible :: "search_ctx \<Rightarrow> hit list \<Rightarrow> hit list" where
  "visible ctx hs = filter (\<lambda>h. \<not> blocklist_contains (sc_blocklist ctx) (hit_id h)) hs"

definition merged_hits :: "search_ctx \<Rightarrow> phase \<Rightarrow> (nat \<Rightarrow> bool) \<Rightarrow> rstring \<Rightarrow> int \<Rightarrow> hit list \<Rightarrow> hit list option" where
  "merged_hits ctx ph c q now hs = map_option fst (unranked_hits ctx ph False c q now (visible ctx hs) [])"

definition result_of :: "search_ctx \<Rightarrow> phase \<Rightarrow> rstring \<Rightarrow> int \<Rightarrow> hit list \<Rightarrow> rstring list \<Rightarrow> search_result" where
  "result_of ctx ph q now hs1 expl =
     (let hits2 = sort_key ranking_key (map (attach_row_menu (sc_registry ctx)) hs1)
      in \<lparr>sr_hits = hits2, sr_calculation = None,
          sr_top_hit =
            (if ph = Final
             then th_id (select_top_hit (sc_unicode ctx) q hits2 (sc_frecency ctx) (sc_latch ctx) now
                    (rc_top_hit_min_confidence (sc_ranking ctx)) (rc_top_hit_min_margin (sc_ranking ctx))
                    (rc_strong_latch_threshold (sc_ranking ctx)))
             else None),
          sr_explanations = expl, sr_claimed = (claiming_entry ctx ph q \<noteq> None)\<rparr>)"

lemma drop_hidden_visible: "fst (drop_hidden e (blocklist_list (sc_blocklist ctx)) hs bs) = visible ctx hs"
  by (simp add: drop_hidden_plain visible_def blocklist_contains_def blocklist_list_def)

lemma process_plain:
  "process_search_chunk ctx hs bs ph False c q now
     = map_option (\<lambda>hs1. result_of ctx ph q now hs1 []) (merged_hits ctx ph c q now hs)"
proof -
  let ?d = "drop_hidden False (blocklist_list (sc_blocklist ctx)) hs bs"
  obtain bs1 where d: "?d = (visible ctx hs, bs1)" by (metis drop_hidden_visible prod.collapse)
  have m: "merged_hits ctx ph c q now hs = map_option fst (unranked_hits ctx ph False c q now (visible ctx hs) bs1)"
    unfolding merged_hits_def by (rule unranked_hits_fst)
  show ?thesis unfolding m process_search_chunk_def Let_def d
    by (cases "unranked_hits ctx ph False c q now (visible ctx hs) bs1")
       (auto simp: rank_hits_plain result_of_def Let_def)
qed

lemma process_explain:
  assumes "length bs = length hs"
  shows "case merged_hits ctx ph c q now hs of
      None \<Rightarrow> process_search_chunk ctx hs bs ph True c q now = None
    | Some hs1 \<Rightarrow> \<exists>bs'. process_search_chunk ctx hs bs ph True c q now = Some (result_of ctx ph q now hs1 (map (sc_fmt ctx) bs'))
        \<and> list_all2 describes (sort_key ranking_key (map (attach_row_menu (sc_registry ctx)) hs1)) bs'"
proof -
  let ?d = "drop_hidden True (blocklist_list (sc_blocklist ctx)) hs bs"
  obtain bs1 where d: "?d = (visible ctx hs, bs1)" by (metis drop_hidden_visible prod.collapse)
  have len: "length bs1 = length (visible ctx hs)"
    using drop_hidden_length [OF assms, of "blocklist_list (sc_blocklist ctx)"] d by simp
  have m: "merged_hits ctx ph c q now hs = map_option fst (unranked_hits ctx ph True c q now (visible ctx hs) bs1)"
    unfolding merged_hits_def by (rule unranked_hits_fst)
  show ?thesis
  proof (cases "unranked_hits ctx ph True c q now (visible ctx hs) bs1")
    case None
    then show ?thesis unfolding m by (simp add: process_search_chunk_def d)
  next
    case (Some r)
    obtain hs1 bs2 where r: "r = (hs1, bs2)" by fastforce
    have "list_all2 describes (map (attach_row_menu (sc_registry ctx)) hs1) bs2"
      using unranked_hits_describes [OF Some [unfolded r] len] by (simp add: list.rel_map)
    from rank_hits_explain [OF this] obtain bs' where
      rk: "rank_hits True (map (attach_row_menu (sc_registry ctx)) hs1) bs2
        = Some (sort_key ranking_key (map (attach_row_menu (sc_registry ctx)) hs1), bs')" and
      al: "list_all2 describes (sort_key ranking_key (map (attach_row_menu (sc_registry ctx)) hs1)) bs'" by blast
    have z: "map (\<lambda>(b, _). sc_fmt ctx b) (zip bs' (sort_key ranking_key (map (attach_row_menu (sc_registry ctx)) hs1)))
        = map (sc_fmt ctx) bs'"
      using list_all2_lengthD [OF al] by (simp add: case_prod_unfold map_fst_zip flip: map_map [of "sc_fmt ctx" fst, unfolded o_def])
    show ?thesis unfolding m Some r
      using rk al z by (auto simp: process_search_chunk_def d Some r result_of_def Let_def)
  qed
qed


lemma stage2_mults_cap: "1 \<le> rc_latch_cap (sc_ranking ctx) \<Longrightarrow> stage2_mults ctx q now h \<noteq> None"
  by (auto simp: stage2_mults_def Let_def latch_mult_entry f32_clamp_def split: option.split)

lemma merged_hits_total: "1 \<le> rc_latch_cap (sc_ranking ctx) \<Longrightarrow> merged_hits ctx ph c q now hs \<noteq> None"
  using stage2_mults_cap by (simp add: merged_hits_def unranked_hits_None)

lemma merged_hits_unclaimed:
  assumes "merged_hits ctx ph c q now hs = Some hs1" and "claiming_entry ctx ph q = None"
  shows "hs1 = map (stage2_hit (stage2_mults ctx q now) (rc_total_multiplier_cap (sc_ranking ctx))) (visible ctx hs)
    @ (if ph = Final
       then fan_out_hits (blocklist_list (sc_blocklist ctx)) q
              (max_lexical_score (map (stage2_hit (stage2_mults ctx q now) (rc_total_multiplier_cap (sc_ranking ctx))) (visible ctx hs)))
              c 0 (sc_registry ctx)
       else [])"
proof -
  obtain bs1 where "unranked_hits ctx ph False c q now (visible ctx hs) [] = Some (hs1, bs1)"
    using assms(1) by (auto simp: merged_hits_def)
  from unranked_hits_unclaimed [OF this assms(2)] show ?thesis .
qed

lemma merged_hits_visible:
  assumes "merged_hits ctx ph c q now hs = Some hs1" and "claiming_entry ctx ph q = None" and "h \<in> set hs1"
  shows "\<not> blocklist_contains (sc_blocklist ctx) (hit_id h)"
  using assms(3) fan_out_hits_visible
  unfolding merged_hits_unclaimed [OF assms(1,2)]
  by (fastforce simp: visible_def blocklist_contains_def blocklist_list_def split: if_splits)

lemma result_of_simps [simp]:
  "sr_hits (result_of ctx ph q now hs1 e) = sort_key ranking_key (map (attach_row_menu (sc_registry ctx)) hs1)"
  "sr_claimed (result_of ctx ph q now hs1 e) = (claiming_entry ctx ph q \<noteq> None)"
  "sr_explanations (result_of ctx ph q now hs1 e) = e"
  by (simp_all add: result_of_def Let_def)

lemma result_of_top_hit:
  "sr_top_hit (result_of ctx ph q now hs1 e) = Some d \<Longrightarrow> d \<in> hit_id ` set hs1"
proof -
  assume top: "sr_top_hit (result_of ctx ph q now hs1 e) = Some d"
  let ?hits = "sort_key ranking_key (map (attach_row_menu (sc_registry ctx)) hs1)"
  have "?hits \<noteq> []" "d = hit_id (hd ?hits)"
    using top select_top_hit_id by (auto simp: result_of_def Let_def split: if_splits)
  then have "d \<in> hit_id ` set ?hits" using hd_in_set by blast
  then show ?thesis by (simp add: image_image)
qed

text \<open>Every successful processing of a chunk with aligned breakdowns has this form.\<close>

lemma process_Some:
  assumes "process_search_chunk ctx hs bs ph e c q now = Some r" and "e \<longrightarrow> length bs = length hs"
  obtains hs1 expl where "merged_hits ctx ph c q now hs = Some hs1" "r = result_of ctx ph q now hs1 expl"
    "length expl = (if e then length hs1 else 0)"
proof (cases e)
  case False
  then show thesis using assms(1) that [of _ "[]"] by (auto simp: process_plain)
next
  case True
  then have pe: "length bs = length hs" using assms(2) by simp
  note p = process_explain [OF pe, of ctx ph c q now]
  show thesis
  proof (cases "merged_hits ctx ph c q now hs")
    case None
    then show thesis using p assms(1) True by simp
  next
    case (Some hs1)
    then obtain bs' where
      "process_search_chunk ctx hs bs ph True c q now = Some (result_of ctx ph q now hs1 (map (sc_fmt ctx) bs'))"
      "list_all2 describes (sort_key ranking_key (map (attach_row_menu (sc_registry ctx)) hs1)) bs'" using p by auto
    then show thesis
      using that [OF Some, of "map (sc_fmt ctx) bs'"] assms(1) True list_all2_lengthD by fastforce
  qed
qed

section \<open>Lemmas: scores\<close>









section \<open>Lemmas: frames\<close>

lemma effective_limit_bounds:
  "1 \<le> effective_limit m n \<and> effective_limit m n \<le> 1000 \<and> effective_limit m n \<le> max 1 (4 * m)"
  by (auto simp: effective_limit_def clamp_nat_def saturating_mul_u32_def ABSOLUTE_RESULT_CEILING_def)

lemma apply_category_claimed [simp]: "sr_claimed (apply_category cat n r) = sr_claimed r"
  by (simp add: apply_category_def Let_def case_prod_unfold split: option.split)

lemma map_fst_filter_zip:
  "length ys = length xs \<Longrightarrow> map fst (filter (\<lambda>(x, _). P x) (zip xs ys)) = filter P xs"
  by (induction xs ys rule: list_induct2') auto

lemma apply_category_hits:
  "sr_hits (apply_category cat n r) =
     (case cat of
        Some k \<Rightarrow> if sr_claimed r then sr_hits r else take n (filter (\<lambda>h. hit_category h = k) (sr_hits r))
      | None \<Rightarrow> sr_hits r)"
  by (simp add: apply_category_def Let_def map_fst_filter_zip split: option.split)

lemma apply_category_explanations:
  assumes "length (sr_explanations r) = length (sr_hits r)"
  shows "length (sr_explanations (apply_category cat n r)) = length (sr_hits (apply_category cat n r))"
  using assms by (simp add: apply_category_def Let_def split: option.split)

definition frame_of ::
  "search_ctx \<Rightarrow> rstring \<Rightarrow> nat \<Rightarrow> bool \<Rightarrow> category option \<Rightarrow> nat \<Rightarrow> fusion_chunk \<Rightarrow> search_chunk \<Rightarrow> bool" where
  "frame_of ctx q limit e cat epoch ck f \<longleftrightarrow> ck_epoch f = epoch \<and> (\<exists>r c now.
     process_search_chunk ctx (map fst (fc_hits ck)) (if e then map snd (fc_hits ck) else []) (ck_phase f) e c q now = Some r
     \<and> ck_result f = apply_category cat limit r)"

lemma search_loop_frames:
  assumes "search_loop ctx epoch q limit e cat obs i cs = (frames, fin)"
  shows "prefix (map ck_phase frames) (map fc_phase cs)
    \<and> (\<forall>f\<in>set frames. \<exists>ck\<in>set cs. frame_of ctx q limit e cat epoch ck f)"
  using assms
proof (induction ctx epoch q limit e cat obs i cs arbitrary: frames fin rule: search_loop.induct)
  case (2 ctx epoch q limit e cat obs i ck cs)
  show ?case
  proof (cases "frames = []")
    case False
    then obtain r frames' where
      nb: "\<not> ob_before (obs i)" and
      r: "process_search_chunk ctx (map fst (fc_hits ck)) (if e then map snd (fc_hits ck) else []) (fc_phase ck) e
        (ob_plugin (obs i)) q (ob_now (obs i)) = Some r" and
      na: "\<not> ob_after (obs i)" "ob_sent (obs i)" and
      rest: "search_loop ctx epoch q limit e cat obs (Suc i) cs = (frames', fin)" and
      fr: "frames = \<lparr>ck_epoch = epoch, ck_phase = fc_phase ck, ck_result = apply_category cat limit r\<rparr> # frames'"
      using "2.prems" by (auto simp: Let_def split: if_splits option.splits prod.splits)
    note IH = "2.IH" [OF nb refl refl r na(1) refl na(2) rest]
    have "frame_of ctx q limit e cat epoch ck
        \<lparr>ck_epoch = epoch, ck_phase = fc_phase ck, ck_result = apply_category cat limit r\<rparr>"
      unfolding frame_of_def using r
      by (intro conjI exI [of _ r] exI [of _ "ob_plugin (obs i)"] exI [of _ "ob_now (obs i)"]) simp_all
    then show ?thesis using IH fr by auto
  qed simp
qed simp

lemma streaming_phases:
  assumes "search_streaming hs q c = Some cs"
  shows "map fc_phase cs \<in> {[], [Initial], [Final], [Initial, Final]}"
proof (cases "hs_ann hs")
  case None
  then show ?thesis using assms by (auto simp: search_streaming_def)
next
  case (Some ann)
  then have cs: "cs = fused_search_streaming hs ann q c" using assms by (simp add: search_streaming_def)
  show ?thesis
  proof (cases "hs_lex hs q")
    case None
    then show ?thesis by (simp add: cs fused_search_streaming_def Let_def)
  next
    case (Some pairs)
    then show ?thesis by (cases rule: fused_search_streaming_cases [OF Some, of ann c]) (simp_all add: cs)
  qed
qed

lemma prefix_phases:
  "prefix xs ys \<Longrightarrow> ys \<in> {[], [Initial], [Final], [Initial, Final]} \<Longrightarrow> xs \<in> {[], [Initial], [Final], [Initial, Final]}"
  by (auto simp: prefix_Cons)

section \<open>Properties of a processed chunk\<close>

text \<open>A context for concrete examples: one plugin, one hidden document.\<close>

definition example_plugin :: plugin where
  "example_plugin = \<lparr>pl_instance_id = lit ''p'', pl_claims_query = (\<lambda>q. q = lit ''=1''),
     pl_on_query = (\<lambda>_. Some [hit_named (lit ''c'') (lit ''calc'') 2, hit_named (lit ''b'') (lit ''beta'') 1]),
     pl_excludes_from_query_log = (\<lambda>q. q = lit ''=1''), pl_claimed_prefix = Some (lit ''=''),
     pl_row_menu = row_menu_empty\<rparr>"

definition example_ctx :: search_ctx where
  "example_ctx = \<lparr>sc_unicode = ascii_unicode, sc_ln32 = (\<lambda>_. 1), sc_fmt = (\<lambda>_. []),
     sc_ranking = ranking_default\<lparr>rc_latch_cap := 3, rc_total_multiplier_cap := 6\<rparr>, sc_max_results = 9,
     sc_registry = [example_plugin], sc_frecency = frecency_default, sc_latch = latch_default,
     sc_blocklist = \<lparr>bl_docs = [lit ''b'']\<rparr>\<rparr>"

lemma example_cap: "1 \<le> rc_latch_cap (sc_ranking example_ctx)"
  by (simp add: example_ctx_def)

lemma example_process:
  "\<exists>r. process_search_chunk example_ctx hs [] ph False c q now = Some r"
  using merged_hits_total [OF example_cap] by (auto simp: process_plain)

text \<open>
  C4: Hidden documents never reach the user on the ordinary path. Whenever a chunk is processed and
  no plugin claimed the query, neither a returned hit - lexical, semantic or contributed by a
  plugin - nor the promoted top hit is on the blocklist; and the top hit is always one of the
  returned hits.
\<close>

theorem hidden_docs_never_shown:
  assumes "process_search_chunk ctx hs bs ph e c q now = Some r" and "e \<longrightarrow> length bs = length hs"
    and "\<not> sr_claimed r"
  shows "(\<forall>h\<in>set (sr_hits r). \<not> blocklist_contains (sc_blocklist ctx) (hit_id h))
    \<and> (\<forall>d. sr_top_hit r = Some d \<longrightarrow> d \<in> hit_id ` set (sr_hits r) \<and> \<not> blocklist_contains (sc_blocklist ctx) d)"
  using assms(1,2)
proof (cases rule: process_Some)
  case (1 hs1 expl)
  have un: "claiming_entry ctx ph q = None" using assms(3) 1(2) by simp
  note vis = merged_hits_visible [OF 1(1) un]
  have ids: "hit_id ` set (sr_hits r) = hit_id ` set hs1" by (simp add: 1(2) image_image)
  have "\<forall>h\<in>set (sr_hits r). \<not> blocklist_contains (sc_blocklist ctx) (hit_id h)" using vis by (auto simp: 1(2))
  moreover have "d \<in> hit_id ` set (sr_hits r) \<and> \<not> blocklist_contains (sc_blocklist ctx) d" if "sr_top_hit r = Some d" for d
    using result_of_top_hit [OF that [unfolded 1(2)]] vis unfolding ids by auto
  ultimately show ?thesis by blast
qed

theorem hidden_docs_never_shown_witness:
  "\<exists>r. process_search_chunk example_ctx [hit_named (lit ''a'') (lit ''alpha'') 1, hit_named (lit ''b'') (lit ''beta'') 2]
         [] Final False (\<lambda>_. False) (lit ''x'') 0 = Some r
     \<and> (\<forall>h\<in>set (sr_hits r). hit_id h \<noteq> lit ''b'')"
proof -
  let ?hs = "[hit_named (lit ''a'') (lit ''alpha'') 1, hit_named (lit ''b'') (lit ''beta'') 2]"
  obtain r where r: "process_search_chunk example_ctx ?hs [] Final False (\<lambda>_. False) (lit ''x'') 0 = Some r"
    using example_process by blast
  have "\<not> sr_claimed r"
    using r by (auto simp: process_plain claiming_entry_def example_ctx_def example_plugin_def lit_def)
  from hidden_docs_never_shown [OF r _ this] show ?thesis
    using r by (auto simp: example_ctx_def blocklist_contains_def)
qed

text \<open>
  Asking for explanations changes nothing but the explanations, and never fails where the plain
  search succeeds: with breakdowns aligned to the hits, the explained run returns the same hits,
  top hit and claim flag, its explanations are the printed breakdowns of the returned hits in
  their final order, each with the final score of its hit, and it panics only where the plain run
  does, which is never for a latch cap of at least one.
\<close>

theorem explain_changes_nothing:
  assumes "length bs = length hs"
  shows "(case process_search_chunk ctx hs bs ph True c q now of
       None \<Rightarrow> process_search_chunk ctx hs [] ph False c q now = None
     | Some r \<Rightarrow> process_search_chunk ctx hs [] ph False c q now = Some (r\<lparr>sr_explanations := []\<rparr>)
         \<and> (\<exists>bs'. sr_explanations r = map (sc_fmt ctx) bs' \<and> list_all2 describes (sr_hits r) bs'))
    \<and> (1 \<le> rc_latch_cap (sc_ranking ctx) \<longrightarrow> process_search_chunk ctx hs bs ph True c q now \<noteq> None)"
proof (cases "merged_hits ctx ph c q now hs")
  case None
  then show ?thesis
    using process_explain [OF assms, of ctx ph c q now] merged_hits_total [of ctx ph c q now hs]
    by (auto simp: process_plain)
next
  case (Some hs1)
  then obtain bs' where
    p: "process_search_chunk ctx hs bs ph True c q now = Some (result_of ctx ph q now hs1 (map (sc_fmt ctx) bs'))"
    and a: "list_all2 describes (sort_key ranking_key (map (attach_row_menu (sc_registry ctx)) hs1)) bs'"
    using process_explain [OF assms, of ctx ph c q now] by auto
  have "result_of ctx ph q now hs1 x\<lparr>sr_explanations := []\<rparr> = result_of ctx ph q now hs1 []" for x
    by (simp add: result_of_def Let_def)
  then show ?thesis using p a Some by (auto simp: process_plain)
qed

theorem explain_changes_nothing_witness:
  "\<exists>r. process_search_chunk example_ctx [hit_named (lit ''a'') [] 1] [breakdown_default] Final True (\<lambda>_. False) (lit ''x'') 0 = Some r
     \<and> process_search_chunk example_ctx [hit_named (lit ''a'') [] 1] [] Final False (\<lambda>_. False) (lit ''x'') 0
         = Some (r\<lparr>sr_explanations := []\<rparr>)"
  using explain_changes_nothing [of "[breakdown_default]" "[hit_named (lit ''a'') [] 1]" example_ctx Final "\<lambda>_. False"
      "lit ''x''" 0] example_cap
  by (auto split: option.splits)





section \<open>Properties of the search request\<close>

text \<open>
  C37: Everything a search request sends. At most an initial and a final frame, in that order, all
  with the epoch of the request; nothing at all when the request was already cancelled; the page
  size the client asked for is clamped between one and the smaller of 1000 and four times the
  configured maximum; unless a plugin claimed the query, a frame shows no hidden document, and
  under a category filter only hits of that category and no more than the page size, with the
  explanations still aligned.
\<close>

theorem search_frames_sound:
  assumes "handle_search ctx fusion cancelled epoch q limit e category obs = (frames, fin)"
  shows "map ck_phase frames \<in> {[], [Initial], [Final], [Initial, Final]}
    \<and> (ob_before (obs 0) \<longrightarrow> frames = [])
    \<and> 1 \<le> effective_limit (sc_max_results ctx) limit
    \<and> effective_limit (sc_max_results ctx) limit \<le> min 1000 (max 1 (4 * sc_max_results ctx))
    \<and> (\<forall>f\<in>set frames. ck_epoch f = epoch
        \<and> (e \<longrightarrow> length (sr_explanations (ck_result f)) = length (sr_hits (ck_result f)))
        \<and> (\<not> sr_claimed (ck_result f) \<longrightarrow>
             (\<forall>h\<in>set (sr_hits (ck_result f)). \<not> blocklist_contains (sc_blocklist ctx) (hit_id h))
             \<and> (\<forall>cat. category = Some cat \<longrightarrow>
                  length (sr_hits (ck_result f)) \<le> effective_limit (sc_max_results ctx) limit
                  \<and> (\<forall>h\<in>set (sr_hits (ck_result f)). hit_category h = cat))))"
proof (cases "search_streaming fusion
    \<lparr>q_text = q, q_limit = fetch_limit (effective_limit (sc_max_results ctx) limit) category\<rparr> cancelled")
  case None
  then show ?thesis using assms effective_limit_bounds by (auto simp: handle_search_def)
next
  case (Some cs)
  let ?lim = "effective_limit (sc_max_results ctx) limit"
  have loop: "search_loop ctx epoch q ?lim e category obs 0 cs = (frames, fin)"
    using assms Some by (simp add: handle_search_def Let_def)
  note fr = search_loop_frames [OF loop]
  have ph: "map ck_phase frames \<in> {[], [Initial], [Final], [Initial, Final]}"
    using prefix_phases [OF _ streaming_phases [OF Some]] fr by blast
  have quiet: "ob_before (obs 0) \<longrightarrow> frames = []" using loop by (cases cs) auto
  have frame: "ck_epoch f = epoch
      \<and> (e \<longrightarrow> length (sr_explanations (ck_result f)) = length (sr_hits (ck_result f)))
      \<and> (\<not> sr_claimed (ck_result f) \<longrightarrow>
           (\<forall>h\<in>set (sr_hits (ck_result f)). \<not> blocklist_contains (sc_blocklist ctx) (hit_id h))
           \<and> (\<forall>cat. category = Some cat \<longrightarrow> length (sr_hits (ck_result f)) \<le> ?lim
                \<and> (\<forall>h\<in>set (sr_hits (ck_result f)). hit_category h = cat)))" if f: "f \<in> set frames" for f
  proof -
    from fr f obtain ck where "frame_of ctx q ?lim e category epoch ck f" by blast
    then obtain r c now where ep: "ck_epoch f = epoch" and
      p: "process_search_chunk ctx (map fst (fc_hits ck)) (if e then map snd (fc_hits ck) else []) (ck_phase f) e c q now = Some r"
      and res: "ck_result f = apply_category category ?lim r" unfolding frame_of_def by blast
    have "e \<longrightarrow> length (if e then map snd (fc_hits ck) else []) = length (map fst (fc_hits ck))" by simp
    from p this show ?thesis
    proof (cases rule: process_Some)
      case (1 hs1 expl)
      have hits: "set (sr_hits (ck_result f)) \<subseteq> set (sr_hits r)"
        unfolding res apply_category_hits by (auto split: option.split dest: in_set_takeD)
      have hidden: "\<not> sr_claimed r \<longrightarrow> (\<forall>h\<in>set (sr_hits r). \<not> blocklist_contains (sc_blocklist ctx) (hit_id h))"
        using merged_hits_visible [OF 1(1)] by (auto simp: 1(2))
      have al: "e \<longrightarrow> length (sr_explanations r) = length (sr_hits r)" by (simp add: 1(2,3))
      have cat: "\<not> sr_claimed r \<longrightarrow> (\<forall>cat. category = Some cat \<longrightarrow> length (sr_hits (ck_result f)) \<le> ?lim
                \<and> (\<forall>h\<in>set (sr_hits (ck_result f)). hit_category h = cat))"
        unfolding res apply_category_hits by (auto dest: in_set_takeD)
      show ?thesis
        using ep hits hidden cat apply_category_explanations [of r category ?lim] al by (auto simp: res)
    qed
  qed
  have lim: "1 \<le> ?lim" "?lim \<le> min 1000 (max 1 (4 * sc_max_results ctx))"
    using effective_limit_bounds [of "sc_max_results ctx" limit] by linarith+
  show ?thesis
  proof (intro conjI)
    show "ob_before (obs 0) \<longrightarrow> frames = []" by (rule quiet)
  qed (use ph lim frame in blast)+
qed

theorem search_frames_sound_witness:
  "\<exists>frames fin. handle_search example_ctx example_search False 7 (lit ''al'') 5 False (Some App)
       (\<lambda>_. \<lparr>ob_before = False, ob_plugin = (\<lambda>_. False), ob_after = False, ob_sent = True, ob_now = 0\<rparr>) = (frames, fin)
     \<and> (\<forall>f\<in>set frames. ck_epoch f = 7)"
proof -
  let ?o = "\<lambda>_::nat. \<lparr>ob_before = False, ob_plugin = (\<lambda>_. False), ob_after = False, ob_sent = True, ob_now = 0\<rparr>"
  obtain frames fin where r: "handle_search example_ctx example_search False 7 (lit ''al'') 5 False (Some App) ?o = (frames, fin)"
    by fastforce
  show ?thesis using search_frames_sound [OF r] r by blast
qed


text \<open>
  In hybrid mode the index results are always shown first, also for a query that a plugin
  claims: when the index answers and the request is not cancelled, the first frame is an initial,
  unclaimed one whose hits are exactly the non-hidden documents the index returned.
\<close>

theorem initial_frame_shows_index_hits:
  assumes ann: "hs_ann fusion = Some ann"
    and index: "hs_lex fusion \<lparr>q_text = q, q_limit = fetch_limit (effective_limit (sc_max_results ctx) limit) None\<rparr> = Some pairs"
    and cap: "1 \<le> rc_latch_cap (sc_ranking ctx)"
    and live: "\<not> ob_before (obs 0)" "\<not> ob_after (obs 0)" "ob_sent (obs 0)"
  shows "\<exists>f rest fin. handle_search ctx fusion cancelled epoch q limit False None obs = (f # rest, fin)
    \<and> ck_phase f = Initial \<and> \<not> sr_claimed (ck_result f)
    \<and> mset (map hit_id (sr_hits (ck_result f)))
        = mset (filter (\<lambda>d. \<not> blocklist_contains (sc_blocklist ctx) d) (ids_of pairs))"
proof -
  let ?q = "\<lparr>q_text = q, q_limit = fetch_limit (effective_limit (sc_max_results ctx) limit) None\<rparr>"
  obtain rest where cs: "search_streaming fusion ?q cancelled = Some (\<lparr>fc_phase = Initial, fc_hits = pairs\<rparr> # rest)"
    by (cases rule: fused_search_streaming_cases [OF index, of ann cancelled]) (simp_all add: search_streaming_def ann)
  have un: "claiming_entry ctx Initial q = None" by (simp add: claiming_entry_def)
  obtain hs1 where m: "merged_hits ctx Initial (ob_plugin (obs 0)) q (ob_now (obs 0)) (map fst pairs) = Some hs1"
    using merged_hits_total [OF cap] by blast
  let ?r = "result_of ctx Initial q (ob_now (obs 0)) hs1 []"
  have p: "process_search_chunk ctx (map fst pairs) [] Initial False (ob_plugin (obs 0)) q (ob_now (obs 0)) = Some ?r"
    by (simp add: process_plain m)
  have "map hit_id hs1 = filter (\<lambda>d. \<not> blocklist_contains (sc_blocklist ctx) d) (ids_of pairs)"
    unfolding merged_hits_unclaimed [OF m un] by (simp add: visible_def filter_map o_def)
  then have ids: "mset (map hit_id (sr_hits ?r)) = mset (filter (\<lambda>d. \<not> blocklist_contains (sc_blocklist ctx) d) (ids_of pairs))"
    by (metis (no_types, lifting) attach_row_menu_simps(1) mset_map mset_sort list.map_cong map_map o_apply result_of_simps(1))
  obtain frames fin where loop: "search_loop ctx epoch q (effective_limit (sc_max_results ctx) limit) False None obs (Suc 0) rest
      = (frames, fin)" by fastforce
  have "handle_search ctx fusion cancelled epoch q limit False None obs =
      (\<lparr>ck_epoch = epoch, ck_phase = Initial, ck_result = ?r\<rparr> # frames, fin)"
    using live loop by (simp add: handle_search_def cs p apply_category_def)
  then show ?thesis using ids un
    by (intro exI [of _ "\<lparr>ck_epoch = epoch, ck_phase = Initial, ck_result = ?r\<rparr>"] exI [of _ frames] exI [of _ fin]) simp
qed

theorem initial_frame_shows_index_hits_witness:
  "\<exists>f rest fin. handle_search example_ctx example_search False 7 (lit ''=1'') 5 False None
       (\<lambda>_. \<lparr>ob_before = False, ob_plugin = (\<lambda>_. False), ob_after = False, ob_sent = True, ob_now = 0\<rparr>) = (f # rest, fin)
     \<and> ck_phase f = Initial \<and> \<not> sr_claimed (ck_result f)
     \<and> claiming_entry example_ctx Final (lit ''=1'') \<noteq> None"
proof -
  have "claiming_entry example_ctx Final (lit ''=1'') \<noteq> None"
    by (simp add: claiming_entry_def example_ctx_def example_plugin_def)
  moreover have "hs_ann example_search \<noteq> None" "hs_lex example_search qq = Some example_lexical" for qq
    by (simp_all add: example_search_def new_hybrid_def)
  ultimately show ?thesis
    using initial_frame_shows_index_hits [OF _ _ example_cap, of example_search _ "lit ''=1''" 5 example_lexical
        "\<lambda>_. \<lparr>ob_before = False, ob_plugin = (\<lambda>_. False), ob_after = False, ob_sent = True, ob_now = 0\<rparr>" False 7]
    by fastforce
qed


section \<open>Properties of the ranking requests\<close>

definition stores_inv :: "daemon_state \<Rightarrow> bool" where
  "stores_inv st \<longleftrightarrow> frecency_inv (ds_frecency st) \<and> latch_inv (ds_latch st) \<and> blocklist_inv (ds_blocklist st)
     \<and> distinct (ql_entries (ds_log st)) \<and> list_all (\<lambda>q. q \<noteq> [] \<and> trimmed q) (ql_entries (ds_log st))
     \<and> (ql_max (ds_log st) = 0 \<or> length (ql_entries (ds_log st)) \<le> ql_max (ds_log st))"

definition daemon_new :: "state_dir \<Rightarrow> daemon_state" where
  "daemon_new dir = \<lparr>ds_frecency = frecency_default, ds_latch = latch_default, ds_blocklist = blocklist_default,
     ds_log = query_log_default, ds_dir = dir\<rparr>"

text \<open>A session: requests with the time and the outcome of the two possible saves.\<close>

fun session ::
  "search_ctx \<Rightarrow> hybrid_search \<Rightarrow> store_codecs \<Rightarrow> daemon_state \<Rightarrow> (ranking_request \<times> int \<times> io_outcome \<times> io_outcome) list
     \<Rightarrow> daemon_state" where
  "session ctx fusion sj st [] = st"
| "session ctx fusion sj st ((req, now, io, io') # reqs) =
     session ctx fusion sj (fst (handle_request ctx fusion sj io io' now st req)) reqs"

lemma record_query_entries:
  assumes "distinct (ql_entries l)" and "list_all (\<lambda>q. q \<noteq> [] \<and> trimmed q) (ql_entries l)"
    and "ql_max l = 0 \<or> length (ql_entries l) \<le> ql_max l"
  shows "distinct (ql_entries (record_query l q)) \<and> list_all (\<lambda>q. q \<noteq> [] \<and> trimmed q) (ql_entries (record_query l q))
    \<and> (ql_max (record_query l q) = 0 \<or> length (ql_entries (record_query l q)) \<le> ql_max (record_query l q))"
proof (cases "trim q = []")
  case True
  then show ?thesis using assms by (simp add: record_query_def)
next
  case False
  let ?es = "trim q # filter (\<lambda>e. e \<noteq> trim q) (ql_entries l)"
  have es: "ql_entries (record_query l q) = take (ql_max l) ?es" "ql_max (record_query l q) = ql_max l"
    using False by (simp_all add: record_query_def Let_def pop_back_while_take)
  have "distinct (take (ql_max l) ?es)" by (rule distinct_take) (use assms(1) in simp)
  moreover have "list_all (\<lambda>q. q \<noteq> [] \<and> trimmed q) ?es" using False assms(2) by (simp add: list_all_iff)
  then have "list_all (\<lambda>q. q \<noteq> [] \<and> trimmed q) (take (ql_max l) ?es)"
    unfolding list_all_iff by (meson in_set_takeD)
  ultimately show ?thesis unfolding es by simp
qed

lemma handle_request_inv:
  assumes "stores_inv st"
  shows "stores_inv (fst (handle_request ctx fusion sj io io' now st req))"
proof -
  have log: "distinct (ql_entries (log_query reg q (ds_log st)))
      \<and> list_all (\<lambda>q. q \<noteq> [] \<and> trimmed q) (ql_entries (log_query reg q (ds_log st)))
      \<and> (ql_max (log_query reg q (ds_log st)) = 0
         \<or> length (ql_entries (log_query reg q (ds_log st))) \<le> ql_max (log_query reg q (ds_log st)))" for reg q
    using assms record_query_entries [of "ds_log st" q] by (auto simp: stores_inv_def log_query_def)
  show ?thesis
  proof (cases req)
    case (RecordClick d)
    then show ?thesis using assms by (simp add: handle_request_def stores_inv_def record_click_inv)
  next
    case (RecordQuery q)
    then show ?thesis using assms log [of "sc_registry ctx" q] by (simp add: handle_request_def stores_inv_def)
  next
    case (RecordQueryClick d q)
    then show ?thesis using assms log [of "sc_registry ctx" q]
      by (simp add: handle_request_def stores_inv_def latch_record_inv)
  next
    case (SetDocHidden d h)
    then show ?thesis using assms set_hidden_inv [of "ds_blocklist st" d h]
      by (simp add: handle_request_def stores_inv_def case_prod_unfold Let_def)
  next
    case (ResetDocRanking d)
    then show ?thesis using assms
      by (simp add: handle_request_def stores_inv_def case_prod_unfold Let_def remove_doc_inv latch_remove_inv)
  qed (use assms in \<open>simp_all add: handle_request_def\<close>)
qed

text \<open>
  The stores stay well-formed through any session: starting from fresh stores and whatever
  requests arrive in whatever order, with saves that succeed or fail, every document has at most
  one frecency record of at most ten visits, latch counts stay within their cap, the blocklist is
  sorted without duplicates, and the history holds at most its maximum of distinct, trimmed,
  non-empty queries. \<open>frecency_inv\<close>, \<open>latch_inv\<close> and \<open>blocklist_inv\<close> are the invariants of those stores.
\<close>

theorem session_keeps_stores_well_formed:
  "stores_inv (session ctx fusion sj (daemon_new dir) reqs)"
proof -
  have "stores_inv st \<Longrightarrow> stores_inv (session ctx fusion sj st reqs)" for st
    by (induction ctx fusion sj st reqs rule: session.induct) (simp_all add: handle_request_inv)
  moreover have "stores_inv (daemon_new dir)"
    by (simp add: stores_inv_def daemon_new_def frecency_inv_default latch_inv_default blocklist_inv_def
        blocklist_default_def query_log_default_def)
  ultimately show ?thesis by blast
qed

text \<open>
  Resetting a document's ranking makes both stage-2 multipliers of that document neutral for
  every query and every time, leaves those of all other documents as they were, touches neither
  the blocklist nor the history, and a second reset changes nothing any more.
\<close>

theorem reset_ranking_is_neutral:
  assumes "stores_inv st"
  shows "let st' = fst (handle_request ctx fusion sj io io' now st (ResetDocRanking d)) in
    stage2_mults (ctx_of ctx st') q t h
       = (if hit_id h = d then Some (1, 1) else stage2_mults (ctx_of ctx st) q t h)
    \<and> ds_blocklist st' = ds_blocklist st \<and> ds_log st' = ds_log st
    \<and> ds_dir (fst (handle_request ctx fusion sj io io' now st' (ResetDocRanking d))) = ds_dir st'"
proof -
  define st' where "st' = fst (handle_request ctx fusion sj io io' now st (ResetDocRanking d))"
  have fi: "frecency_inv (ds_frecency st)" and li: "latch_inv (ds_latch st)" using assms(1) by (auto simp: stores_inv_def)
  have st': "ds_frecency st' = fst (frecency_remove_doc (ds_frecency st) d)" "ds_latch st' = fst (latch_remove_doc (ds_latch st) d)"
    "ds_blocklist st' = ds_blocklist st" "ds_log st' = ds_log st"
    by (simp_all add: st'_def handle_request_def case_prod_unfold Let_def)
  have f: "frecency_mult (ds_frecency st') (hit_id h) t a
      = (if hit_id h = d then 1 else frecency_mult (ds_frecency st) (hit_id h) t a)" for a
    using frecency_signal.remove_signal [OF fi, of d "hit_id h"] unfolding st' by (metis (mono_tags, lifting))
  have l: "latch_mult u ln32 (ds_latch st') q (hit_id h) t w cp
      = (if hit_id h = d then Some 1 else latch_mult u ln32 (ds_latch st) q (hit_id h) t w cp)" for u ln32 w cp
    using latch_signal.remove_signal [OF li, of u ln32 d "hit_id h"] unfolding st' by (metis (mono_tags, lifting))
  have "\<not> snd (frecency_remove_doc (ds_frecency st') d)" "\<not> snd (latch_remove_doc (ds_latch st') d)"
    unfolding st' by (rule frecency_signal.second_remove_noop [OF fi], rule latch_signal.second_remove_noop [OF li])
  then have "ds_dir (fst (handle_request ctx fusion sj io io' now st' (ResetDocRanking d))) = ds_dir st'"
    by (simp add: handle_request_def case_prod_unfold Let_def)
  then show ?thesis unfolding Let_def st'_def [symmetric] using st' f l by (simp add: stage2_mults_def ctx_of_def Let_def)
qed

theorem reset_ranking_is_neutral_witness:
  "stage2_mults (ctx_of example_ctx (fst (handle_request example_ctx example_search
       \<lparr>sj_frecency = (\<lambda>_. None), sj_latch = (\<lambda>_. None), sj_blocklist = (\<lambda>_. None)\<rparr> io_success io_success 9
       (daemon_new (\<lambda>_. None)) (ResetDocRanking (lit ''a''))))) (lit ''x'') 5 (hit_named (lit ''a'') [] 1) = Some (1, 1)"
proof -
  have "stores_inv (daemon_new (\<lambda>_. None))"
    by (simp add: stores_inv_def daemon_new_def frecency_inv_default latch_inv_default blocklist_inv_def
        blocklist_default_def query_log_default_def)
  from reset_ranking_is_neutral [OF this, of example_ctx example_search
      "\<lparr>sj_frecency = (\<lambda>_. None), sj_latch = (\<lambda>_. None), sj_blocklist = (\<lambda>_. None)\<rparr>" io_success io_success 9
      "lit ''a''" "lit ''x''" 5 "hit_named (lit ''a'') [] 1"]
  show ?thesis by (simp add: Let_def hit_named_def)
qed


text \<open>What the document store promises of a batch hydration: it returns only requested documents.\<close>

definition hydrates_requested :: "hybrid_search \<Rightarrow> bool" where
  "hydrates_requested fusion \<longleftrightarrow>
     (\<forall>ids pairs. hs_hydrate fusion ids = Some pairs \<longrightarrow> set (ids_of pairs) \<subseteq> set ids)"

lemma recents_visible:
  assumes "hydrates_requested fusion" and "h \<in> set (recents ctx fusion st now n)"
  shows "\<not> blocklist_contains (ds_blocklist st) (hit_id h)"
proof -
  let ?ids0 = "top_docs (ds_frecency st) now (min (min n (sc_max_results ctx) * 2) (2 ^ 64 - 1))"
  let ?ids = "if blocklist_is_empty (ds_blocklist st) then ?ids0
    else filter (\<lambda>i. \<not> blocklist_contains (ds_blocklist st) i) ?ids0"
  obtain g pairs where g: "h = attach_row_menu (sc_registry ctx) g" "hs_hydrate fusion ?ids = Some pairs" "g \<in> fst ` set pairs"
    using assms(2) unfolding recents_def Let_def
    by (cases "hs_hydrate fusion ?ids") (auto dest!: in_set_takeD)
  have "set (ids_of pairs) \<subseteq> set ?ids" using assms(1) g(2) unfolding hydrates_requested_def by blast
  moreover have "hit_id g \<in> set (ids_of pairs)" using g(3) by auto
  ultimately have "hit_id g \<in> set ?ids" by (rule subsetD)
  then show ?thesis using g(1) by (auto simp: blocklist_contains_def blocklist_is_empty_def split: if_splits)
qed

lemma blocklist_save_load:
  assumes "codec_ok to_json from_json" and "to_json b = Some content"
  shows "blocklist_load from_json (snd (blocklist_save to_json io_success b d)) = b"
  using assms by (simp add: blocklist_save_def write_tmp_rename_def io_success_def blocklist_load_def
      read_or_default_def codec_ok_def lit_def)

text \<open>
  Hiding a document takes effect at once and survives a crash. After the request the document is
  on the blocklist, it is in no later list of recents (given that hydration returns only requested
  documents), and if the document was not hidden before and the save goes through, a daemon that
  starts from the state directory as it is on disk loads the same blocklist.
\<close>

theorem hide_request_takes_effect:
  assumes inv: "stores_inv st" and hyd: "hydrates_requested fusion"
    and codec: "codec_ok (sj_blocklist sj) from_json" "sj_blocklist sj (fst (set_hidden (ds_blocklist st) d True)) \<noteq> None"
  shows "let st' = fst (handle_request ctx fusion sj io_success io' now st (SetDocHidden d True)) in
    blocklist_contains (ds_blocklist st') d
    \<and> (\<forall>later n. d \<notin> hit_id ` set (recents ctx fusion st' later n))
    \<and> (\<not> blocklist_contains (ds_blocklist st) d \<longrightarrow> blocklist_load from_json (ds_dir st') = ds_blocklist st')"
proof -
  define bl where "bl = fst (set_hidden (ds_blocklist st) d True)"
  define st' where "st' = fst (handle_request ctx fusion sj io_success io' now st (SetDocHidden d True))"
  have binv: "blocklist_inv (ds_blocklist st)" using inv by (simp add: stores_inv_def)
  have b: "ds_blocklist st' = bl" by (simp add: st'_def bl_def handle_request_def case_prod_unfold Let_def)
  have dir: "\<not> blocklist_contains (ds_blocklist st) d \<longrightarrow> ds_dir st' = snd (blocklist_save (sj_blocklist sj) io_success bl (ds_dir st))"
    by (simp add: st'_def bl_def handle_request_def case_prod_unfold Let_def set_hidden_def blocklist_contains_def)
  have c: "blocklist_contains bl d" unfolding bl_def by (simp add: set_hidden_contains [OF binv])
  obtain content where "sj_blocklist sj bl = Some content" using codec(2) by (auto simp: bl_def)
  from blocklist_save_load [OF codec(1) this] have
    l: "blocklist_load from_json (snd (blocklist_save (sj_blocklist sj) io_success bl (ds_dir st))) = bl" .
  have "d \<notin> hit_id ` set (recents ctx fusion st' later n)" for later n
    using recents_visible [OF hyd, of _ ctx st' later n] b c by auto
  then show ?thesis unfolding Let_def st'_def [symmetric] b using c l dir by auto
qed

theorem hide_request_takes_effect_witness:
  "lit ''a'' \<notin> hit_id ` set (recents example_ctx example_search (fst (handle_request example_ctx example_search
       \<lparr>sj_frecency = (\<lambda>_. None), sj_latch = (\<lambda>_. None), sj_blocklist = one_store_enc \<lparr>bl_docs = [lit ''a'']\<rparr>\<rparr>
       io_success io_success 9 (daemon_new (\<lambda>_. None)) (SetDocHidden (lit ''a'') True))) 10 5)"
proof -
  let ?sj = "\<lparr>sj_frecency = (\<lambda>_. None), sj_latch = (\<lambda>_. None), sj_blocklist = one_store_enc \<lparr>bl_docs = [lit ''a'']\<rparr>\<rparr>"
  have inv: "stores_inv (daemon_new (\<lambda>_. None))"
    by (simp add: stores_inv_def daemon_new_def frecency_inv_default latch_inv_default blocklist_inv_def
        blocklist_default_def query_log_default_def)
  have hyd: "hydrates_requested example_search"
    by (auto simp: hydrates_requested_def example_search_def new_hybrid_def hit_named_def)
  have co: "codec_ok (sj_blocklist ?sj) (one_store_dec \<lparr>bl_docs = [lit ''a'']\<rparr>)" by (simp add: one_store_codec)
  have some: "sj_blocklist ?sj (fst (set_hidden (ds_blocklist (daemon_new (\<lambda>_. None))) (lit ''a'') True)) \<noteq> None"
    by (simp add: one_store_enc_def set_hidden_def daemon_new_def blocklist_default_def insort_insert_key_def)
  show ?thesis
    using hide_request_takes_effect [OF inv hyd co some, of example_ctx io_success 9] unfolding Let_def by blast
qed

section \<open>The slot: properties\<close>

definition conn_inv :: "conn \<Rightarrow> bool" where
  "conn_inv c \<longleftrightarrow>
     distinct (cn_running c) \<and> (\<forall>g\<in>set (cn_running c). g < cn_next c) \<and> (\<forall>g\<in>set (cn_cancelled c). g < cn_next c)
     \<and> distinct (cn_cancelled c)
     \<and> (\<forall>g e. cn_slot c = Some (g, e) \<longrightarrow> g < cn_next c \<and> g \<notin> set (cn_cancelled c))
     \<and> (\<forall>g\<in>set (cn_running c). g \<in> set (cn_cancelled c) \<or> (\<exists>e. cn_slot c = Some (g, e)))"

lemma conn_inv_new: "conn_inv conn_new"
  by (simp add: conn_inv_def conn_new_def)

lemma begin_search_fields:
  "cn_slot (begin_search e c) = Some (cn_next c, e)"
  "cn_next (begin_search e c) = (cn_next c + 1) mod 2 ^ 64"
  "cn_running (begin_search e c) = cn_next c # cn_running c"
  "cn_cancelled (begin_search e c) = (case cn_slot c of None \<Rightarrow> cn_cancelled c | Some (g, _) \<Rightarrow> g # cn_cancelled c)"
  "cn_out (begin_search e c) = (case cn_slot c of None \<Rightarrow> cn_out c | Some (_, e') \<Rightarrow> e' # cn_out c)"
  by (simp_all add: begin_search_def Let_def split: option.split prod.split)

lemma conn_inv_begin:
  assumes inv: "conn_inv c" and room: "cn_next c + 1 < 2 ^ 64"
  shows "conn_inv (begin_search e c)"
proof -
  have nx: "cn_next (begin_search e c) = Suc (cn_next c)" unfolding begin_search_fields using room by simp
  have fresh: "cn_next c \<notin> set (cn_running c)" "cn_next c \<notin> set (cn_cancelled c)" using inv by (auto simp: conn_inv_def)
  show ?thesis
  proof (cases "cn_slot c")
    case None
    then show ?thesis using inv fresh
      unfolding conn_inv_def nx begin_search_fields(1,3,4) by (auto intro: less_SucI)
  next
    case (Some p)
    obtain g e' where p: "p = (g, e')" by fastforce
    have g: "g < cn_next c" "g \<notin> set (cn_cancelled c)" using inv Some p by (auto simp: conn_inv_def)
    have "\<forall>x\<in>set (cn_running c). x \<in> set (cn_cancelled c) \<or> x = g" using inv Some p by (fastforce simp: conn_inv_def)
    then show ?thesis using inv fresh g Some p
      unfolding conn_inv_def nx begin_search_fields(1,3,4) by (auto intro: less_SucI)
  qed
qed

lemma conn_inv_finish:
  assumes "conn_inv c"
  shows "conn_inv ((finish_search g c)\<lparr>cn_running := remove1 g (cn_running c)\<rparr>)"
  using assms unfolding conn_inv_def finish_search_def
  by (auto split: option.split dest: notin_set_remove1 set_mp [OF set_remove1_subset])


lemma conn_inv_quit: "conn_inv c \<Longrightarrow> conn_inv (c\<lparr>cn_running := remove1 g (cn_running c)\<rparr>)"
  unfolding conn_inv_def by (auto dest: notin_set_remove1 set_mp [OF set_remove1_subset])

lemma conn_inv_disconnect: "conn_inv c \<Longrightarrow> conn_inv (disconnect c)"
  unfolding conn_inv_def disconnect_def by (auto split: option.split)

lemma begins_snoc: "begins (tr @ [ev]) = begins tr + (if \<exists>e. ev = Begin e then 1 else 0)"
  by (simp add: begins_def)

lemma conn_reach_inv:
  "conn_reach tr c \<Longrightarrow> begins tr < 2 ^ 64 \<Longrightarrow> conn_inv c \<and> cn_next c = begins tr"
proof (induction rule: conn_reach.induct)
  case reach_new
  show ?case by (simp add: conn_inv_new begins_def) (simp add: conn_new_def)
next
  case (reach_step tr c ev c')
  have small: "begins tr < 2 ^ 64" using reach_step.prems unfolding begins_snoc by linarith
  note IH = reach_step.IH [OF small]
  from reach_step.hyps(2) show ?case
  proof cases
    case (step_begin epoch)
    have nx: "cn_next c + 1 < 2 ^ 64" using reach_step.prems IH unfolding begins_snoc step_begin by simp
    then have "cn_next (begin_search epoch c) = cn_next c + 1" unfolding begin_search_fields by (rule mod_less)
    then show ?thesis using conn_inv_begin [OF conjunct1 [OF IH] nx] IH by (simp add: step_begin begins_snoc)
  next
    case (step_finish g)
    have "cn_next c' = cn_next c" by (simp add: step_finish finish_search_def split: option.split prod.split)
    then show ?thesis using conn_inv_finish [OF conjunct1 [OF IH]] IH by (simp add: step_finish begins_snoc)
  next
    case (step_quit g)
    then show ?thesis using conn_inv_quit [OF conjunct1 [OF IH]] IH by (simp add: begins_snoc)
  next
    case step_disconnect
    have "cn_next c' = cn_next c" by (simp add: step_disconnect disconnect_def split: option.split prod.split)
    then show ?thesis using conn_inv_disconnect [OF conjunct1 [OF IH]] IH by (simp add: step_disconnect begins_snoc)
  qed
qed

text \<open>
  Newer searches supersede older ones, in every interleaving of requests and task ends (fewer
  than \<open>2 ^ 64\<close> searches on a connection). A search that still runs is either cancelled or the one in
  the slot, so at most one live search remains; no token is cancelled twice; and the end of a
  superseded search never clears the slot of a newer one.
\<close>

theorem newer_search_supersedes:
  assumes "conn_reach tr c" and "begins tr < 2 ^ 64"
  shows "length (filter (\<lambda>g. g \<notin> set (cn_cancelled c)) (cn_running c)) \<le> 1
    \<and> distinct (cn_cancelled c)
    \<and> (\<forall>g e. cn_slot c = Some (g, e) \<longrightarrow> g \<notin> set (cn_cancelled c))
    \<and> (\<forall>g c'. conn_step c (Finish g) c' \<and> g \<in> set (cn_cancelled c) \<longrightarrow> cn_slot c' = cn_slot c)"
proof -
  have inv: "conn_inv c" using conn_reach_inv [OF assms] by simp
  have "set (filter (\<lambda>g. g \<notin> set (cn_cancelled c)) (cn_running c)) \<subseteq> (case cn_slot c of None \<Rightarrow> {} | Some (g, _) \<Rightarrow> {g})"
    using inv by (fastforce simp: conn_inv_def)
  then have "card (set (filter (\<lambda>g. g \<notin> set (cn_cancelled c)) (cn_running c))) \<le> 1"
    by (rule order_trans [OF card_mono, rotated]) (auto split: option.split)
  moreover have "distinct (filter (\<lambda>g. g \<notin> set (cn_cancelled c)) (cn_running c))" using inv by (simp add: conn_inv_def)
  ultimately have one: "length (filter (\<lambda>g. g \<notin> set (cn_cancelled c)) (cn_running c)) \<le> 1"
    using distinct_card by fastforce
  have keep: "cn_slot c' = cn_slot c" if "conn_step c (Finish g) c'" "g \<in> set (cn_cancelled c)" for g c'
  proof -
    have "c' = (finish_search g c)\<lparr>cn_running := remove1 g (cn_running c)\<rparr>"
      using that(1) by (rule conn_step_FinishE)
    moreover have "cn_slot c \<noteq> Some (g, e)" for e using that(2) inv by (auto simp: conn_inv_def)
    ultimately show ?thesis by (auto simp: finish_search_def split: option.split)
  qed
  show ?thesis using inv one keep by (auto simp: conn_inv_def)
qed

theorem newer_search_supersedes_witness:
  "conn_reach [Begin 1, Begin 2] (begin_search 2 (begin_search 1 conn_new))
   \<and> length (filter (\<lambda>g. g \<notin> set (cn_cancelled (begin_search 2 (begin_search 1 conn_new))))
       (cn_running (begin_search 2 (begin_search 1 conn_new)))) \<le> 1"
proof -
  have r: "conn_reach ([] @ [Begin 1] @ [Begin 2]) (begin_search 2 (begin_search 1 conn_new))"
    using reach_step [OF reach_step [OF reach_new step_begin [of _ 1]] step_begin [of _ 2]] by simp
  have b: "begins ([] @ [Begin 1] @ [Begin 2]) < 2 ^ 64" by (simp add: begins_def)
  show ?thesis using newer_search_supersedes [OF r b] r by simp
qed

end
