(* ===== verification/Index_Store.thy ===== *)
theory Index_Store
  imports Text_Match
begin

text \<open>
  The document store over Tantivy (\<^verbatim>\<open>crates/lixun-index/src/lib.rs\<close>): how a document is written
  (\<open>upsert\<close>: delete by id, then add), deleted, committed, made visible and read back.

  Tantivy itself is outside the repository: its writer and reader are the argument \<open>T\<close>, a record of
  the calls the code makes, over an engine state \<open>'t\<close>. What the code relies on is the locale
  \<open>tantivy_engine\<close>: a staged view (all calls on the writer, in order), a committed view and a
  visible view (the reader's snapshot). JSON coding of actions is an argument too.
\<close>

section \<open>Plugin fields and stored documents\<close>

datatype text_tokenizer = TokDefault | TokRaw | TokSpotlight

datatype plugin_field_type = FText text_tokenizer | FKeyword | FI64 | FU64 | FBool

record plugin_field_spec =
  pf_schema_name :: rstring
  pf_query_alias :: "rstring option"
  pf_type :: plugin_field_type
  pf_stored :: bool
  pf_default_search :: bool
  pf_boost :: f32

record tantivy_document =
  td_id :: doc_id
  td_category :: rstring
  td_title :: rstring
  td_title_exact :: rstring
  td_title_terms :: rstring
  td_title_initials :: rstring
  td_subtitle :: rstring
  td_icon_name :: rstring
  td_kind_label :: rstring
  td_body :: rstring
  td_path :: rstring
  td_mtime :: int
  td_size :: nat
  td_action :: rstring
  td_secondary_action :: rstring
  td_extract_fail :: bool
  td_sender :: rstring
  td_recipients :: rstring
  td_source_instance :: rstring
  td_mime :: rstring
  td_extras :: "(rstring \<times> plugin_value) list"

text \<open>A segment's term dictionary of the id field (term and postings) and its alive set.\<close>

record segment =
  sg_terms :: "(rstring \<times> nat list) list"
  sg_alive :: "(nat \<Rightarrow> bool) option"

record 't tantivy =
  tv_delete_id :: "doc_id \<Rightarrow> 't \<Rightarrow> 't"
  tv_delete_source :: "rstring \<Rightarrow> 't \<Rightarrow> 't"
  tv_add :: "tantivy_document \<Rightarrow> 't \<Rightarrow> 't \<times> bool"
  tv_commit :: "'t \<Rightarrow> 't \<times> bool"
  tv_reload :: "'t \<Rightarrow> 't \<times> bool"
  tv_find_id :: "'t \<Rightarrow> doc_id \<Rightarrow> tantivy_document option option"
  tv_segments :: "'t \<Rightarrow> segment list option"

record index_config =
  ic_unicode :: unicode
  ic_extras :: "(rstring \<times> plugin_field_spec) list"
  ic_action_json :: "action \<Rightarrow> rstring option"
  ic_action_parse :: "rstring \<Rightarrow> action option"

record 't lixun_index =
  lx_engine :: 't
  lx_reload_epoch :: nat

section \<open>Writing\<close>

definition category_as_str :: "category \<Rightarrow> rstring" where
  "category_as_str c =
     (case c of
        App \<Rightarrow> lit ''app''
      | File \<Rightarrow> lit ''file''
      | Mail \<Rightarrow> lit ''mail''
      | Attachment \<Rightarrow> lit ''attachment''
      | Calculator \<Rightarrow> lit ''calculator''
      | Shell \<Rightarrow> lit ''shell'')"

definition unwrap_or_empty :: "rstring option \<Rightarrow> rstring" where
  "unwrap_or_empty v = (case v of None \<Rightarrow> [] | Some s \<Rightarrow> s)"

definition extra_ok :: "plugin_field_type \<Rightarrow> plugin_value \<Rightarrow> bool" where
  "extra_ok ty v =
     (case (ty, v) of
        (FText _, PText _) \<Rightarrow> True
      | (FKeyword, PText _) \<Rightarrow> True
      | (FI64, PI64 _) \<Rightarrow> True
      | (FU64, PU64 _) \<Rightarrow> True
      | (FBool, PBool _) \<Rightarrow> True
      | _ \<Rightarrow> False)"

text \<open>The loop over the extra fields: an unregistered field or a type mismatch is an error.\<close>

fun add_extras ::
  "(rstring \<times> plugin_field_spec) list \<Rightarrow> (rstring \<times> plugin_value) list \<Rightarrow> tantivy_document \<Rightarrow> tantivy_document option" where
  "add_extras specs [] tdoc = Some tdoc"
| "add_extras specs ((field, v) # rest) tdoc =
     (case map_of specs field of
        None \<Rightarrow> None
      | Some spec \<Rightarrow>
          if extra_ok (pf_type spec) v
          then add_extras specs rest (tdoc\<lparr>td_extras := td_extras tdoc @ [(field, v)]\<rparr>)
          else None)"

definition build_tdoc :: "index_config \<Rightarrow> document \<Rightarrow> tantivy_document option" where
  "build_tdoc cfg d =
     (case ic_action_json cfg (doc_action d) of
        None \<Rightarrow> None
      | Some action_json \<Rightarrow>
          (case (case doc_secondary_action d of None \<Rightarrow> Some [] | Some a \<Rightarrow> ic_action_json cfg a) of
             None \<Rightarrow> None
           | Some secondary_json \<Rightarrow>
               add_extras (ic_extras cfg) (doc_extra d)
                 \<lparr>td_id = doc_id d, td_category = category_as_str (doc_category d), td_title = doc_title d,
                  td_title_exact = normalize_for_match (ic_unicode cfg) (doc_title d),
                  td_title_terms = split_identifiers (ic_unicode cfg) (doc_title d),
                  td_title_initials = acronym_initials_indexed (ic_unicode cfg) (doc_title d),
                  td_subtitle = doc_subtitle d, td_icon_name = unwrap_or_empty (doc_icon_name d),
                  td_kind_label = unwrap_or_empty (doc_kind_label d), td_body = unwrap_or_empty (doc_body d),
                  td_path = doc_path d, td_mtime = doc_mtime d, td_size = doc_size d, td_action = action_json,
                  td_secondary_action = secondary_json, td_extract_fail = doc_extract_fail d,
                  td_sender = unwrap_or_empty (doc_sender d), td_recipients = unwrap_or_empty (doc_recipients d),
                  td_source_instance = doc_source_instance d, td_mime = unwrap_or_empty (doc_mime d),
                  td_extras = []\<rparr>))"

text \<open>The deletion is issued before anything can fail.\<close>

definition upsert_doc :: "'t tantivy \<Rightarrow> index_config \<Rightarrow> document \<Rightarrow> 't lixun_index \<Rightarrow> 't lixun_index \<times> bool" where
  "upsert_doc T cfg d ix =
     (let e1 = tv_delete_id T (doc_id d) (lx_engine ix)
      in case build_tdoc cfg d of
           None \<Rightarrow> (ix\<lparr>lx_engine := e1\<rparr>, False)
         | Some tdoc \<Rightarrow> (case tv_add T tdoc e1 of (e2, ok) \<Rightarrow> (ix\<lparr>lx_engine := e2\<rparr>, ok)))"

definition delete_by_source_instance :: "'t tantivy \<Rightarrow> rstring \<Rightarrow> 't lixun_index \<Rightarrow> 't lixun_index \<times> bool" where
  "delete_by_source_instance T instance_id ix =
     (ix\<lparr>lx_engine := tv_delete_source T instance_id (lx_engine ix)\<rparr>, True)"

definition delete_by_id :: "'t tantivy \<Rightarrow> doc_id \<Rightarrow> 't lixun_index \<Rightarrow> 't lixun_index \<times> bool" where
  "delete_by_id T i ix = (ix\<lparr>lx_engine := tv_delete_id T i (lx_engine ix)\<rparr>, True)"

definition commit_index :: "'t tantivy \<Rightarrow> 't lixun_index \<Rightarrow> 't lixun_index \<times> bool" where
  "commit_index T ix = (case tv_commit T (lx_engine ix) of (e, ok) \<Rightarrow> (ix\<lparr>lx_engine := e\<rparr>, ok))"

definition reload_index :: "'t tantivy \<Rightarrow> 't lixun_index \<Rightarrow> 't lixun_index \<times> bool" where
  "reload_index T ix =
     (case tv_reload T (lx_engine ix) of
        (e, ok) \<Rightarrow>
          if ok then (ix\<lparr>lx_engine := e, lx_reload_epoch := (lx_reload_epoch ix + 1) mod 2 ^ 64\<rparr>, True)
          else (ix\<lparr>lx_engine := e\<rparr>, False))"

section \<open>Reading\<close>

definition segment_live_ids :: "segment \<Rightarrow> doc_id list" where
  "segment_live_ids sg =
     map fst (filter (\<lambda>(_, postings).
       list_ex (\<lambda>n. case sg_alive sg of None \<Rightarrow> True | Some alive \<Rightarrow> alive n) postings) (sg_terms sg))"

definition all_doc_ids :: "'t tantivy \<Rightarrow> 't lixun_index \<Rightarrow> doc_id list option" where
  "all_doc_ids T ix = map_option (\<lambda>sgs. remdups (concat (map segment_live_ids sgs))) (tv_segments T (lx_engine ix))"

definition stored_optional_text :: "rstring \<Rightarrow> rstring option" where
  "stored_optional_text text = (if text = [] then None else Some text)"

definition parse_category :: "rstring \<Rightarrow> category" where
  "parse_category s =
     (if s = lit ''app'' then App
      else if s = lit ''file'' then File
      else if s = lit ''mail'' then Mail
      else if s = lit ''attachment'' then Attachment
      else if s = lit ''calculator'' then Calculator
      else if s = lit ''shell'' then Shell
      else File)"

definition parse_action :: "index_config \<Rightarrow> rstring \<Rightarrow> action" where
  "parse_action cfg json = (case ic_action_parse cfg json of Some a \<Rightarrow> a | None \<Rightarrow> OpenFile [])"

definition parse_secondary_action :: "index_config \<Rightarrow> rstring \<Rightarrow> action option" where
  "parse_secondary_action cfg raw = (if raw = [] then None else ic_action_parse cfg raw)"

text \<open>One stored extra field per registered stored plugin field, the first value of each.\<close>

definition stored_extras :: "(rstring \<times> plugin_field_spec) list \<Rightarrow> (rstring \<times> plugin_value) list \<Rightarrow> (rstring \<times> plugin_value) list" where
  "stored_extras specs extras =
     List.map_filter (\<lambda>(name, spec).
       if \<not> pf_stored spec then None
       else (case map_of extras name of
               None \<Rightarrow> None
             | Some v \<Rightarrow> if extra_ok (pf_type spec) v then Some (name, v) else None)) specs"

definition doc_from_tantivy :: "index_config \<Rightarrow> tantivy_document \<Rightarrow> document" where
  "doc_from_tantivy cfg t = \<lparr>
     doc_id = td_id t, doc_category = parse_category (td_category t), doc_title = td_title t,
     doc_subtitle = td_subtitle t, doc_icon_name = stored_optional_text (td_icon_name t),
     doc_kind_label = stored_optional_text (td_kind_label t), doc_body = stored_optional_text (td_body t),
     doc_path = td_path t, doc_mtime = td_mtime t, doc_size = td_size t,
     doc_action = parse_action cfg (td_action t), doc_extract_fail = td_extract_fail t,
     doc_sender = stored_optional_text (td_sender t), doc_recipients = stored_optional_text (td_recipients t),
     doc_source_instance = td_source_instance t, doc_extra = stored_extras (ic_extras cfg) (td_extras t),
     doc_secondary_action = parse_secondary_action cfg (td_secondary_action t), doc_mime = None\<rparr>"

definition get_doc_by_id :: "'t tantivy \<Rightarrow> index_config \<Rightarrow> 't lixun_index \<Rightarrow> doc_id \<Rightarrow> document option option" where
  "get_doc_by_id T cfg ix i = map_option (map_option (doc_from_tantivy cfg)) (tv_find_id T (lx_engine ix) i)"

definition get_body_by_id :: "'t tantivy \<Rightarrow> 't lixun_index \<Rightarrow> doc_id \<Rightarrow> rstring option option" where
  "get_body_by_id T ix i =
     (case tv_find_id T (lx_engine ix) i of
        None \<Rightarrow> None
      | Some None \<Rightarrow> Some None
      | Some (Some tdoc) \<Rightarrow>
          Some (case stored_optional_text (td_body tdoc) of
                  Some text \<Rightarrow> if trim text \<noteq> [] then Some text else None
                | None \<Rightarrow> None))"

definition MAX_HIT_BODY_BYTES :: nat where
  "MAX_HIT_BODY_BYTES = 64 * 1024"

definition is_char_boundary :: "rstring \<Rightarrow> nat \<Rightarrow> bool" where
  "is_char_boundary s n = list_ex (\<lambda>k. utf8_len (take k s) = n) [0..<Suc (length s)]"

text \<open>The loop \<^verbatim>\<open>while !body.is_char_boundary(cut) \{ cut -= 1 \}\<close>; zero is always a boundary.\<close>

fun boundary_at_most :: "rstring \<Rightarrow> nat \<Rightarrow> nat" where
  "boundary_at_most s 0 = 0"
| "boundary_at_most s (Suc n) = (if is_char_boundary s (Suc n) then Suc n else boundary_at_most s n)"

text \<open>\<^verbatim>\<open>String::truncate\<close> to a byte length.\<close>

fun truncate_bytes :: "nat \<Rightarrow> rstring \<Rightarrow> rstring" where
  "truncate_bytes n [] = []"
| "truncate_bytes n (c # cs) = (if utf8_width c \<le> n then c # truncate_bytes (n - utf8_width c) cs else [])"

definition truncate_hit_body :: "nat \<Rightarrow> rstring \<Rightarrow> rstring" where
  "truncate_hit_body max_bytes body =
     (if utf8_len body \<le> max_bytes then body
      else truncate_bytes (boundary_at_most body max_bytes) body)"

definition hydration_category :: "rstring \<Rightarrow> category" where
  "hydration_category s =
     (if s = lit ''app'' then App
      else if s = lit ''file'' then File
      else if s = lit ''mail'' then Mail
      else if s = lit ''attachment'' then Attachment
      else File)"

definition hydrate_hit :: "index_config \<Rightarrow> tantivy_document \<Rightarrow> scored_hit" where
  "hydrate_hit cfg t =
     (\<lparr>hit_id = td_id t, hit_category = hydration_category (td_category t), hit_title = td_title t,
       hit_subtitle = td_subtitle t, hit_icon_name = stored_optional_text (td_icon_name t),
       hit_kind_label = stored_optional_text (td_kind_label t), hit_score = 0,
       hit_action = parse_action cfg (td_action t), hit_extract_fail = td_extract_fail t,
       hit_sender = stored_optional_text (td_sender t), hit_recipients = stored_optional_text (td_recipients t),
       hit_body = map_option (truncate_hit_body MAX_HIT_BODY_BYTES) (stored_optional_text (td_body t)),
       hit_secondary_action = parse_secondary_action cfg (td_secondary_action t),
       hit_source_instance = td_source_instance t, hit_row_menu = row_menu_empty,
       hit_mime = stored_optional_text (td_mime t),
       hit_timestamp = (if td_mtime t \<noteq> 0 then Some (td_mtime t) else None),
       hit_size = (if td_size t \<noteq> 0 then Some (td_size t) else None)\<rparr>,
      \<lparr>bd_tantivy = 0, bd_category_mult = 1, bd_exact_title_mult = 1, bd_prefix_mult = 1, bd_acronym_mult = 1,
       bd_recency_mult = 1, bd_coord_mult = 1, bd_frecency_mult = 1, bd_latch_mult = 1,
       bd_stage2_clamped = 1, bd_final_score = 0, bd_lexical_fallback = False\<rparr>)"

definition hydrate_doc_by_id :: "'t tantivy \<Rightarrow> index_config \<Rightarrow> 't lixun_index \<Rightarrow> doc_id \<Rightarrow> scored_hit option option" where
  "hydrate_doc_by_id T cfg ix i = map_option (map_option (hydrate_hit cfg)) (tv_find_id T (lx_engine ix) i)"

fun hydrate_docs_by_ids :: "'t tantivy \<Rightarrow> index_config \<Rightarrow> 't lixun_index \<Rightarrow> doc_id list \<Rightarrow> scored_hit list option" where
  "hydrate_docs_by_ids T cfg ix [] = Some []"
| "hydrate_docs_by_ids T cfg ix (i # ids) =
     (case hydrate_doc_by_id T cfg ix i of
        None \<Rightarrow> None
      | Some r \<Rightarrow>
          map_option (\<lambda>rest. (case r of None \<Rightarrow> rest | Some p \<Rightarrow> p # rest)) (hydrate_docs_by_ids T cfg ix ids))"

section \<open>What the code relies on of the engine\<close>

locale tantivy_engine =
  fixes T :: "'t tantivy"
    and staged :: "'t \<Rightarrow> tantivy_document list"
    and committed :: "'t \<Rightarrow> tantivy_document list"
    and visible :: "'t \<Rightarrow> tantivy_document list"
  assumes delete_id: "staged (tv_delete_id T i e) = filter (\<lambda>t. td_id t \<noteq> i) (staged e)"
      "committed (tv_delete_id T i e) = committed e" "visible (tv_delete_id T i e) = visible e"
    and delete_source: "staged (tv_delete_source T src e) = filter (\<lambda>t. td_source_instance t \<noteq> src) (staged e)"
      "committed (tv_delete_source T src e) = committed e" "visible (tv_delete_source T src e) = visible e"
    and add: "staged (fst (tv_add T t e)) = (if snd (tv_add T t e) then staged e @ [t] else staged e)"
      "committed (fst (tv_add T t e)) = committed e" "visible (fst (tv_add T t e)) = visible e"
    and commit: "committed (fst (tv_commit T e)) = (if snd (tv_commit T e) then staged e else committed e)"
      "staged (fst (tv_commit T e)) = staged e" "visible (fst (tv_commit T e)) = visible e"
    and reload: "visible (fst (tv_reload T e)) = (if snd (tv_reload T e) then committed e else visible e)"
      "staged (fst (tv_reload T e)) = staged e" "committed (fst (tv_reload T e)) = committed e"
    and find_hit: "tv_find_id T e i = Some (Some t) \<Longrightarrow> t \<in> set (visible e) \<and> td_id t = i"
    and find_none: "tv_find_id T e i = Some None \<Longrightarrow> i \<notin> td_id ` set (visible e)"
    and live_ids: "tv_segments T e = Some sgs \<Longrightarrow> (\<Union>sg\<in>set sgs. set (segment_live_ids sg)) = td_id ` set (visible e)"
begin

abbreviation S :: "'t lixun_index \<Rightarrow> tantivy_document list" where "S ix \<equiv> staged (lx_engine ix)"
abbreviation C :: "'t lixun_index \<Rightarrow> tantivy_document list" where "C ix \<equiv> committed (lx_engine ix)"
abbreviation V :: "'t lixun_index \<Rightarrow> tantivy_document list" where "V ix \<equiv> visible (lx_engine ix)"

lemma upsert_doc_views:
  "S (fst (upsert_doc T cfg d ix)) = filter (\<lambda>t. td_id t \<noteq> doc_id d) (S ix)
     @ (case build_tdoc cfg d of Some t \<Rightarrow> if snd (upsert_doc T cfg d ix) then [t] else [] | None \<Rightarrow> [])"
  "C (fst (upsert_doc T cfg d ix)) = C ix" "V (fst (upsert_doc T cfg d ix)) = V ix"
  "build_tdoc cfg d = None \<Longrightarrow> \<not> snd (upsert_doc T cfg d ix)"
  by (simp_all add: upsert_doc_def Let_def delete_id add case_prod_unfold split: option.split)

lemma delete_views:
  "S (fst (delete_by_id T i ix)) = filter (\<lambda>t. td_id t \<noteq> i) (S ix)" "C (fst (delete_by_id T i ix)) = C ix"
  "V (fst (delete_by_id T i ix)) = V ix" "snd (delete_by_id T i ix)"
  "S (fst (delete_by_source_instance T src ix)) = filter (\<lambda>t. td_source_instance t \<noteq> src) (S ix)"
  "C (fst (delete_by_source_instance T src ix)) = C ix" "V (fst (delete_by_source_instance T src ix)) = V ix"
  "snd (delete_by_source_instance T src ix)"
  by (simp_all add: delete_by_id_def delete_by_source_instance_def delete_id delete_source)

lemma commit_views:
  "C (fst (commit_index T ix)) = (if snd (commit_index T ix) then S ix else C ix)"
  "S (fst (commit_index T ix)) = S ix" "V (fst (commit_index T ix)) = V ix"
  by (simp_all add: commit_index_def case_prod_unfold commit)

lemma reload_views:
  "V (fst (reload_index T ix)) = (if snd (reload_index T ix) then C ix else V ix)"
  "S (fst (reload_index T ix)) = S ix" "C (fst (reload_index T ix)) = C ix"
  by (simp_all add: reload_index_def case_prod_unfold reload)

lemma all_doc_ids_visible: "all_doc_ids T ix = Some ids \<Longrightarrow> set ids = td_id ` set (V ix)"
  using live_ids by (auto simp: all_doc_ids_def)

lemma get_doc_visible:
  assumes "distinct (map td_id (V ix))" and "t \<in> set (V ix)" and "tv_find_id T (lx_engine ix) (td_id t) \<noteq> None"
  shows "get_doc_by_id T cfg ix (td_id t) = Some (Some (doc_from_tantivy cfg t))"
proof -
  obtain r where r: "tv_find_id T (lx_engine ix) (td_id t) = Some r" using assms(3) by blast
  have "r \<noteq> None" using find_none [of "lx_engine ix" "td_id t"] r assms(2) by auto
  then obtain t' where t': "r = Some t'" by blast
  have "t' \<in> set (V ix)" "td_id t' = td_id t" using find_hit r t' by blast+
  then have "t' = t" using assms(1,2) by (metis distinct_map inj_onD)
  then show ?thesis using r t' by (simp add: get_doc_by_id_def)
qed

lemma hydrate_docs_subseq:
  "hydrate_docs_by_ids T cfg ix ids = Some pairs \<Longrightarrow>
   map (\<lambda>p. hit_id (fst p)) pairs = filter (\<lambda>i. i \<in> td_id ` set (V ix)) ids"
proof (induction ids arbitrary: pairs)
  case (Cons i ids)
  obtain r rest where r: "tv_find_id T (lx_engine ix) i = Some r" and rest: "hydrate_docs_by_ids T cfg ix ids = Some rest"
    and p: "pairs = (case r of None \<Rightarrow> rest | Some t \<Rightarrow> hydrate_hit cfg t # rest)"
    using Cons.prems by (auto simp: hydrate_doc_by_id_def split: option.splits)
  note IH = Cons.IH [OF rest]
  show ?case
  proof (cases r)
    case None
    then show ?thesis using find_none r p IH by auto
  next
    case (Some t)
    then have "t \<in> set (V ix)" "td_id t = i" using find_hit r by blast+
    then show ?thesis using p IH Some by (auto simp: hydrate_hit_def)
  qed
qed simp

end

section \<open>An engine in memory\<close>

record memory_engine =
  me_staged :: "tantivy_document list"
  me_committed :: "tantivy_document list"
  me_visible :: "tantivy_document list"

definition memory_tantivy :: "memory_engine tantivy" where
  "memory_tantivy = \<lparr>
     tv_delete_id = (\<lambda>i e. e\<lparr>me_staged := filter (\<lambda>t. td_id t \<noteq> i) (me_staged e)\<rparr>),
     tv_delete_source = (\<lambda>src e. e\<lparr>me_staged := filter (\<lambda>t. td_source_instance t \<noteq> src) (me_staged e)\<rparr>),
     tv_add = (\<lambda>t e. (e\<lparr>me_staged := me_staged e @ [t]\<rparr>, True)),
     tv_commit = (\<lambda>e. (e\<lparr>me_committed := me_staged e\<rparr>, True)),
     tv_reload = (\<lambda>e. (e\<lparr>me_visible := me_committed e\<rparr>, True)),
     tv_find_id = (\<lambda>e i. Some (find (\<lambda>t. td_id t = i) (me_visible e))),
     tv_segments = (\<lambda>e. Some [\<lparr>sg_terms = map (\<lambda>t. (td_id t, [0])) (me_visible e), sg_alive = None\<rparr>])\<rparr>"

lemma find_Some_in: "find P xs = Some x \<Longrightarrow> x \<in> set xs \<and> P x"
  by (induction xs) (auto split: if_splits)

interpretation memory: tantivy_engine memory_tantivy me_staged me_committed me_visible
proof unfold_locales
  fix e i t assume "tv_find_id memory_tantivy e i = Some (Some t)"
  then show "t \<in> set (me_visible e) \<and> td_id t = i" by (auto simp: memory_tantivy_def dest: find_Some_in)
next
  fix e i assume "tv_find_id memory_tantivy e i = Some None"
  then show "i \<notin> td_id ` set (me_visible e)" by (auto simp: memory_tantivy_def find_None_iff)
next
  fix e sgs assume "tv_segments memory_tantivy e = Some sgs"
  then show "(\<Union>sg\<in>set sgs. set (segment_live_ids sg)) = td_id ` set (me_visible e)"
    by (force simp: memory_tantivy_def segment_live_ids_def)
qed (simp_all add: memory_tantivy_def)

section \<open>Lemmas: round trip\<close>

lemma add_extras_keeps:
  "add_extras specs xs t = Some t' \<Longrightarrow> t' = t\<lparr>td_extras := td_extras t @ xs\<rparr>"
  by (induction specs xs t rule: add_extras.induct) (auto split: option.splits if_splits)

lemma parse_category_as_str [simp]: "parse_category (category_as_str c) = c"
  by (cases c) (simp_all add: parse_category_def category_as_str_def lit_def)

lemma build_tdoc_id: "build_tdoc cfg d = Some t \<Longrightarrow> td_id t = doc_id d \<and> td_source_instance t = doc_source_instance d"
  by (auto simp: build_tdoc_def split: option.splits dest!: add_extras_keeps)

definition no_empty_texts :: "document \<Rightarrow> bool" where
  "no_empty_texts d \<longleftrightarrow> doc_icon_name d \<noteq> Some [] \<and> doc_kind_label d \<noteq> Some [] \<and> doc_body d \<noteq> Some []
     \<and> doc_sender d \<noteq> Some [] \<and> doc_recipients d \<noteq> Some []"

definition action_codec_ok :: "index_config \<Rightarrow> bool" where
  "action_codec_ok cfg \<longleftrightarrow> (\<forall>a json. ic_action_json cfg a = Some json \<longrightarrow> json \<noteq> [] \<and> ic_action_parse cfg json = Some a)"

lemma stored_unwrap: "v \<noteq> Some [] \<Longrightarrow> stored_optional_text (unwrap_or_empty v) = v"
  by (cases v) (auto simp: stored_optional_text_def unwrap_or_empty_def)

lemma doc_from_build:
  assumes b: "build_tdoc cfg d = Some t" and ok: "action_codec_ok cfg" and ne: "no_empty_texts d"
  shows "doc_from_tantivy cfg t = d\<lparr>doc_mime := None, doc_extra := stored_extras (ic_extras cfg) (doc_extra d)\<rparr>"
proof -
  obtain aj where aj: "ic_action_json cfg (doc_action d) = Some aj" using b by (auto simp: build_tdoc_def split: option.splits)
  obtain sj where sj: "(case doc_secondary_action d of None \<Rightarrow> Some [] | Some a \<Rightarrow> ic_action_json cfg a) = Some sj"
    using b aj by (auto simp: build_tdoc_def split: option.splits)
  have pa: "parse_action cfg aj = doc_action d" using ok aj by (auto simp: action_codec_ok_def parse_action_def)
  have ps: "parse_secondary_action cfg sj = doc_secondary_action d"
    using ok sj by (cases "doc_secondary_action d") (auto simp: action_codec_ok_def parse_secondary_action_def)
  note ne' = ne [unfolded no_empty_texts_def]
  from b aj sj have "add_extras (ic_extras cfg) (doc_extra d)
                 \<lparr>td_id = doc_id d, td_category = category_as_str (doc_category d), td_title = doc_title d,
                  td_title_exact = normalize_for_match (ic_unicode cfg) (doc_title d),
                  td_title_terms = split_identifiers (ic_unicode cfg) (doc_title d),
                  td_title_initials = acronym_initials_indexed (ic_unicode cfg) (doc_title d),
                  td_subtitle = doc_subtitle d, td_icon_name = unwrap_or_empty (doc_icon_name d),
                  td_kind_label = unwrap_or_empty (doc_kind_label d), td_body = unwrap_or_empty (doc_body d),
                  td_path = doc_path d, td_mtime = doc_mtime d, td_size = doc_size d, td_action = aj,
                  td_secondary_action = sj, td_extract_fail = doc_extract_fail d,
                  td_sender = unwrap_or_empty (doc_sender d), td_recipients = unwrap_or_empty (doc_recipients d),
                  td_source_instance = doc_source_instance d, td_mime = unwrap_or_empty (doc_mime d),
                  td_extras = []\<rparr> = Some t" by (simp add: build_tdoc_def)
  from add_extras_keeps [OF this] show ?thesis
    using ne' by (simp add: doc_from_tantivy_def pa ps stored_unwrap)
qed

lemma truncate_bytes_prefix: "prefix (truncate_bytes n s) s \<and> utf8_len (truncate_bytes n s) \<le> n"
proof (induction n s rule: truncate_bytes.induct)
  case (2 n c cs)
  then show ?case by (auto simp: utf8_len_def)
qed (simp add: utf8_len_def)

lemma boundary_at_most_le: "boundary_at_most s n \<le> n"
  by (induction s n rule: boundary_at_most.induct) (auto intro: le_SucI)

lemma boundary_at_most_boundary: "is_char_boundary s (boundary_at_most s n)"
proof (induction s n rule: boundary_at_most.induct)
  case (1 s)
  show ?case by (auto simp: is_char_boundary_def list_ex_iff utf8_len_def intro!: bexI [of _ 0])
qed auto

lemma boundary_at_most_max: "is_char_boundary s m \<Longrightarrow> m \<le> n \<Longrightarrow> m \<le> boundary_at_most s n"
  by (induction s n rule: boundary_at_most.induct) (auto simp: le_Suc_eq)

lemma truncate_bytes_boundary: "truncate_bytes (utf8_len (take k s)) s = take k s"
proof (induction s arbitrary: k)
  case (Cons c cs)
  show ?case
  proof (cases k)
    case 0
    have "0 < utf8_width c" by (simp add: utf8_width_def)
    then show ?thesis using 0 by (simp add: utf8_len_def)
  next
    case (Suc k')
    then show ?thesis using Cons.IH [of k'] by (simp add: utf8_len_def)
  qed
qed simp

section \<open>Properties\<close>

definition example_doc :: document where
  "example_doc = \<lparr>doc_id = lit ''fs:/a/b'', doc_category = File, doc_title = lit ''b'', doc_subtitle = [],
     doc_icon_name = None, doc_kind_label = None, doc_body = None, doc_path = lit ''/a/b'', doc_mtime = 5,
     doc_size = 1, doc_action = OpenFile (lit ''/a/b''), doc_extract_fail = False, doc_sender = None,
     doc_recipients = None, doc_source_instance = lit ''fs'', doc_extra = [], doc_secondary_action = None,
     doc_mime = Some (lit ''text/plain'')\<rparr>"

definition example_config :: index_config where
  "example_config = \<lparr>ic_unicode = ascii_unicode, ic_extras = [],
     ic_action_json = (\<lambda>a. case a of OpenFile p \<Rightarrow> Some (lit ''o'' @ p) | _ \<Rightarrow> None),
     ic_action_parse = (\<lambda>j. case j of [] \<Rightarrow> None | _ # p \<Rightarrow> Some (OpenFile p))\<rparr>"

definition empty_index :: "memory_engine lixun_index" where
  "empty_index = \<lparr>lx_engine = \<lparr>me_staged = [], me_committed = [], me_visible = []\<rparr>, lx_reload_epoch = 0\<rparr>"

lemma example_config_facts: "action_codec_ok example_config" "build_tdoc example_config example_doc \<noteq> None"
  "no_empty_texts example_doc"
  by (auto simp: action_codec_ok_def example_config_def lit_def build_tdoc_def example_doc_def no_empty_texts_def
      split: action.splits)

text \<open>
  C39: Writing a document and reading it back. After a successful upsert, commit and reload the store
  returns the document exactly as written, except that the MIME type is always lost and only the
  stored plugin fields come back. It needs an engine that meets its contract, a document the index
  accepts without empty optional texts, distinct ids in the writer, and action coding that reads
  back what it wrote.
\<close>

theorem upsert_roundtrip:
  assumes eng: "tantivy_engine T staged committed visible"
    and codec: "action_codec_ok cfg" "no_empty_texts d"
    and dist: "distinct (map td_id (staged (lx_engine ix)))"
    and up: "upsert_doc T cfg d ix = (ix1, True)" and co: "commit_index T ix1 = (ix2, True)"
    and re: "reload_index T ix2 = (ix3, True)" and rd: "tv_find_id T (lx_engine ix3) (doc_id d) \<noteq> None"
  shows "get_doc_by_id T cfg ix3 (doc_id d)
      = Some (Some (d\<lparr>doc_mime := None, doc_extra := stored_extras (ic_extras cfg) (doc_extra d)\<rparr>))"
proof -
  note views = tantivy_engine.upsert_doc_views [OF eng] and cv = tantivy_engine.commit_views [OF eng]
    and rv = tantivy_engine.reload_views [OF eng]
  have "build_tdoc cfg d \<noteq> None" using views(4) [of cfg d ix] up by auto
  then obtain t where t: "build_tdoc cfg d = Some t" by blast
  have s1: "staged (lx_engine ix1) = filter (\<lambda>t. td_id t \<noteq> doc_id d) (staged (lx_engine ix)) @ [t]"
    using views(1) [of cfg d ix] up t by simp
  have v3: "visible (lx_engine ix3) = staged (lx_engine ix1)" using cv [of ix1] rv [of ix2] co re by simp
  have id: "td_id t = doc_id d" using build_tdoc_id [OF t] by simp
  have dv: "distinct (map td_id (visible (lx_engine ix3)))"
    unfolding v3 s1 using dist id by (auto simp: distinct_map_filter)
  have mem: "t \<in> set (visible (lx_engine ix3))" by (simp add: v3 s1)
  have "get_doc_by_id T cfg ix3 (td_id t) = Some (Some (doc_from_tantivy cfg t))"
    by (rule tantivy_engine.get_doc_visible [OF eng dv mem]) (use rd id in simp)
  then show ?thesis using doc_from_build [OF t codec] id by simp
qed

theorem upsert_roundtrip_witness:
  "\<exists>ix1 ix2 ix3. upsert_doc memory_tantivy example_config example_doc empty_index = (ix1, True)
     \<and> commit_index memory_tantivy ix1 = (ix2, True) \<and> reload_index memory_tantivy ix2 = (ix3, True)
     \<and> get_doc_by_id memory_tantivy example_config ix3 (lit ''fs:/a/b'') = Some (Some (example_doc\<lparr>doc_mime := None\<rparr>))"
proof -
  obtain t where t: "build_tdoc example_config example_doc = Some t" using example_config_facts(2) by blast
  obtain ix1 where 1: "upsert_doc memory_tantivy example_config example_doc empty_index = (ix1, True)"
    by (simp add: upsert_doc_def Let_def t memory_tantivy_def)
  obtain ix2 where 2: "commit_index memory_tantivy ix1 = (ix2, True)" by (simp add: commit_index_def memory_tantivy_def)
  obtain ix3 where 3: "reload_index memory_tantivy ix2 = (ix3, True)" by (simp add: reload_index_def memory_tantivy_def)
  have rd: "tv_find_id memory_tantivy (lx_engine ix3) (doc_id example_doc) \<noteq> None" by (simp add: memory_tantivy_def)
  have dist: "distinct (map td_id (me_staged (lx_engine empty_index)))" by (simp add: empty_index_def)
  have x: "stored_extras (ic_extras example_config) (doc_extra example_doc) = []"
    by (simp add: example_config_def stored_extras_def map_filter_simps)
  note r = upsert_roundtrip [OF memory.tantivy_engine_axioms example_config_facts(1,3) dist 1 2 3 rd]
  have "get_doc_by_id memory_tantivy example_config ix3 (lit ''fs:/a/b'') = Some (Some (example_doc\<lparr>doc_mime := None\<rparr>))"
    using r unfolding x by (simp add: example_doc_def)
  then show ?thesis using 1 2 3 by blast
qed

text \<open>
  A rejected upsert is not a no-op. When the index refuses a document (an extra field no enabled
  plugin registered, a value of the wrong type, an action that cannot be coded) the call reports
  failure, but the deletion it issued first stands: the writer no longer holds any document of
  that id, and the next commit and reload make the earlier version disappear.
\<close>

theorem rejected_upsert_deletes:
  assumes eng: "tantivy_engine T staged committed visible" and rej: "build_tdoc cfg d = None"
    and up: "upsert_doc T cfg d ix = (ix1, ok)" and co: "commit_index T ix1 = (ix2, True)"
    and re: "reload_index T ix2 = (ix3, True)"
  shows "\<not> ok \<and> doc_id d \<notin> td_id ` set (staged (lx_engine ix1)) \<and> doc_id d \<notin> td_id ` set (visible (lx_engine ix3))"
proof -
  note views = tantivy_engine.upsert_doc_views [OF eng, of cfg d ix]
  have "\<not> ok" using views(4) rej up by simp
  moreover have "staged (lx_engine ix1) = filter (\<lambda>t. td_id t \<noteq> doc_id d) (staged (lx_engine ix))"
    using views(1) rej up by simp
  moreover have "visible (lx_engine ix3) = staged (lx_engine ix1)"
    using tantivy_engine.commit_views [OF eng, of ix1] tantivy_engine.reload_views [OF eng, of ix2] co re by simp
  ultimately show ?thesis by auto
qed

theorem rejected_upsert_deletes_witness:
  "\<exists>ix1 ok ix2 ix3. upsert_doc memory_tantivy example_config (example_doc\<lparr>doc_extra := [(lit ''x'', PBool True)]\<rparr>) empty_index = (ix1, ok)
     \<and> commit_index memory_tantivy ix1 = (ix2, True) \<and> reload_index memory_tantivy ix2 = (ix3, True) \<and> \<not> ok"
proof -
  let ?d = "example_doc\<lparr>doc_extra := [(lit ''x'', PBool True)]\<rparr>"
  have rej: "build_tdoc example_config ?d = None"
    by (simp add: build_tdoc_def example_config_def example_doc_def)
  obtain ix1 ok where 1: "upsert_doc memory_tantivy example_config ?d empty_index = (ix1, ok)" by fastforce
  obtain ix2 where 2: "commit_index memory_tantivy ix1 = (ix2, True)" by (simp add: commit_index_def memory_tantivy_def)
  obtain ix3 where 3: "reload_index memory_tantivy ix2 = (ix3, True)" by (simp add: reload_index_def memory_tantivy_def)
  from rejected_upsert_deletes [OF memory.tantivy_engine_axioms rej 1 2 3] 1 2 3 show ?thesis by blast
qed

text \<open>
  The body sent with a hit is a prefix of the stored body of at most the byte limit, cut only at
  a character boundary, and never more than three bytes short of the limit; a body within the
  limit is sent whole.
\<close>

theorem truncate_hit_body_bounds:
  "prefix (truncate_hit_body n body) body \<and> utf8_len (truncate_hit_body n body) \<le> n
   \<and> (truncate_hit_body n body = body \<or> n < utf8_len (truncate_hit_body n body) + 4)"
proof (cases "utf8_len body \<le> n")
  case False
  let ?b = "boundary_at_most body n"
  have "\<exists>k\<in>set [0..<Suc (length body)]. utf8_len (take k body) = ?b"
    using boundary_at_most_boundary [of body n] unfolding is_char_boundary_def list_ex_iff .
  then obtain k where k: "utf8_len (take k body) = ?b" "k \<le> length body" by (metis atLeastLessThan_iff less_Suc_eq_le set_upt)
  have out: "truncate_hit_body n body = take k body"
    using False truncate_bytes_boundary [of k body] k(1) by (simp add: truncate_hit_body_def)
  have klt: "k < length body"
    using k False boundary_at_most_le [of body n] by (cases "k = length body") auto
  have step: "utf8_len (take (Suc k) body) = ?b + utf8_width (body ! k)"
    using klt k(1) by (simp add: take_Suc_conv_app_nth utf8_len_def)
  have w: "1 \<le> utf8_width (body ! k)" "utf8_width (body ! k) \<le> 4" by (simp_all add: utf8_width_def)
  have bd: "is_char_boundary body (?b + utf8_width (body ! k))"
    unfolding is_char_boundary_def list_ex_iff using klt step by (intro bexI [of _ "Suc k"]) auto
  have "n < ?b + 4"
  proof (rule ccontr)
    assume "\<not> n < ?b + 4"
    then have "?b + utf8_width (body ! k) \<le> n" using w by linarith
    from boundary_at_most_max [OF bd this] show False using w by linarith
  qed
  then show ?thesis unfolding out using k boundary_at_most_le [of body n] take_is_prefix by auto
qed (simp add: truncate_hit_body_def)

end
