(* ===== verification/Index_Search.thy ===== *)
theory Index_Search
  imports Index_Store Fusion
begin

text \<open>
  Searching the lexical index (\<^verbatim>\<open>crates/lixun-index/src/lib.rs\<close>: \<^verbatim>\<open>search_with_breakdown\<close>,
  \<^verbatim>\<open>build_search_query\<close>, \<^verbatim>\<open>query_uses_operators\<close>) and the plugin schema it consults
  (\<^verbatim>\<open>crates/lixun-index/src/plugin_schema.rs\<close>).

  Tantivy's query objects are the data type \<open>tquery\<close>, built exactly as the code builds them; what
  the query parser makes of a text is left symbolic (\<open>QParsed\<close>). A searcher is a record of the
  calls the code makes on one reader snapshot, over document addresses \<open>'a\<close>; the locale
  \<open>lexical_engine\<close> states what the code relies on: a search returns at most the requested number of
  distinct live documents that match the query, all of them if there are fewer, and boolean, boost
  and term queries mean what Tantivy documents. \<open>exp\<close> and \<open>powf\<close> on binary32 are arguments.
\<close>

section \<open>UTF-8\<close>

definition utf8_bytes :: "rchar \<Rightarrow> int list" where
  "utf8_bytes c =
     (if c < 128 then [c]
      else if c < 2048 then [192 + c div 64, 128 + c mod 64]
      else if c < 65536 then [224 + c div 4096, 128 + c div 64 mod 64, 128 + c mod 64]
      else [240 + c div 262144, 128 + c div 4096 mod 64, 128 + c div 64 mod 64, 128 + c mod 64])"

definition utf8_encode :: "rstring \<Rightarrow> int list" where
  "utf8_encode s = concat (map utf8_bytes s)"

section \<open>Plugin schema\<close>

datatype tfield =
    FldTitle | FldTitleTerms | FldTitleInitials | FldBody | FldPath | FldSender | FldRecipients
  | FldTitleExact | FldPlugin rstring

record compiled_plugins =
  cp_extras :: "(rstring \<times> plugin_field_spec) list"
  cp_query_aliases :: "(rstring \<times> rstring) list"
  cp_default_query_fields :: "(tfield \<times> f32) list"

datatype schema_error =
    NameCollision rstring rstring rstring
  | AliasCollision rstring rstring rstring

text \<open>
  The checking loop over the plugin kinds (a \<^verbatim>\<open>BTreeMap\<close>, so in key order) and their fields:
  \<open>names\<close> and \<open>aliases\<close> are the hash maps of what was declared so far and by whom.
\<close>

fun collect_fields ::
  "(rstring \<times> rstring) list \<Rightarrow> (rstring \<times> rstring) list \<Rightarrow> (rstring \<times> plugin_field_spec) list
     \<Rightarrow> schema_error + plugin_field_spec list" where
  "collect_fields names aliases [] = Inr []"
| "collect_fields names aliases ((kind, spec) # rest) =
     (case map_of names (pf_schema_name spec) of
        Some prev \<Rightarrow> Inl (NameCollision (pf_schema_name spec) prev kind)
      | None \<Rightarrow>
          (case pf_query_alias spec of
             None \<Rightarrow> map_sum id ((#) spec)
                       (collect_fields ((pf_schema_name spec, kind) # names) aliases rest)
           | Some al \<Rightarrow>
               (case map_of aliases al of
                  Some prev \<Rightarrow> Inl (AliasCollision al prev kind)
                | None \<Rightarrow> map_sum id ((#) spec)
                            (collect_fields ((pf_schema_name spec, kind) # names) ((al, kind) # aliases) rest))))"

definition add_plugin_fields_to_schema ::
  "(rstring \<times> plugin_field_spec list) list \<Rightarrow> schema_error + compiled_plugins" where
  "add_plugin_fields_to_schema by_kind =
     (case collect_fields [] [] (concat (map (\<lambda>(kind, specs). map (Pair kind) specs) by_kind)) of
        Inl e \<Rightarrow> Inl e
      | Inr specs \<Rightarrow>
          (let flat = sort_key pf_schema_name specs
           in Inr \<lparr>cp_extras = map (\<lambda>s. (pf_schema_name s, s)) flat,
                   cp_query_aliases =
                     List.map_filter (\<lambda>s. map_option (\<lambda>al. (al, pf_schema_name s)) (pf_query_alias s)) flat,
                   cp_default_query_fields =
                     List.map_filter (\<lambda>s. if pf_default_search s then Some (FldPlugin (pf_schema_name s), pf_boost s)
                                          else None) flat\<rparr>))"

text \<open>
  The alias rewriting loop walks the bytes of the text. \<open>prev\<close> is the byte before the current
  one; a byte outside an identifier is pushed as the character with that code.
\<close>

definition is_id_byte :: "int \<Rightarrow> bool" where
  "is_id_byte b \<longleftrightarrow> is_ascii_alphabetic b \<or> is_ascii_digit b \<or> b = ch CHR ''_''"

lemma length_dropWhile_Cons: "d # rest = dropWhile P cs \<Longrightarrow> length rest < Suc (length cs)"
  using length_dropWhile_le [of P cs] by (metis Suc_le_lessD le_SucI length_Cons)

function alias_loop :: "(rstring \<times> rstring) list \<Rightarrow> int option \<Rightarrow> int list \<Rightarrow> rstring" where
  "alias_loop aliases prev [] = []"
| "alias_loop aliases prev (c # cs) =
     (let is_id_start = is_ascii_alphabetic c \<or> c = ch CHR ''_'';
          at_boundary = (case prev of None \<Rightarrow> True | Some p \<Rightarrow> \<not> is_id_byte p)
      in if is_id_start \<and> at_boundary then
           (let ident = c # takeWhile is_id_byte cs;
                rest = dropWhile is_id_byte cs
            in case rest of
                 [] \<Rightarrow> ident
               | d # rest' \<Rightarrow>
                   (case (if d = 58 then map_of aliases ident else None) of
                      Some real_name \<Rightarrow> real_name @ [58] @ alias_loop aliases (Some d) rest'
                    | None \<Rightarrow> ident @ alias_loop aliases (Some (last ident)) rest))
         else c # alias_loop aliases (Some c) cs)"
  by pat_completeness auto

termination
  by (relation "measure (\<lambda>(_, _, bs). length bs)") (auto dest: length_dropWhile_Cons simp: length_dropWhile_le le_imp_less_Suc)

declare alias_loop.simps(2) [simp del]

definition rewrite_query_aliases :: "rstring \<Rightarrow> (rstring \<times> rstring) list \<Rightarrow> rstring" where
  "rewrite_query_aliases text aliases =
     (if aliases = [] then text else alias_loop aliases None (utf8_encode text))"

section \<open>Building the query\<close>

datatype occur = Must | Should

record parser_config =
  pc_fields :: "tfield list"
  pc_conjunctive :: bool
  pc_boosts :: "(tfield \<times> f32) list"
  pc_fuzzy :: "tfield list"

datatype tquery =
    QParsed parser_config rstring
  | QTerm tfield rstring
  | QPrefix tfield rstring
  | QPhrase tfield "rstring list" nat
  | QBoost tquery f32
  | QBoolean "(occur \<times> tquery) list"

record 'a searcher =
  se_search :: "tquery \<Rightarrow> nat \<Rightarrow> (f32 \<times> 'a) list option"
  se_doc :: "'a \<Rightarrow> tantivy_document option"
  se_tokens :: "rstring \<Rightarrow> rstring list option"

definition MIN_QUERY_PREFIX_LEN :: nat where
  "MIN_QUERY_PREFIX_LEN = 2"

definition query_uses_operators :: "rstring \<Rightarrow> bool" where
  "query_uses_operators text \<longleftrightarrow>
     34 \<in> set text \<or> 58 \<in> set text \<or> 124 \<in> set text
     \<or> list_ex (\<lambda>w. (1 < utf8_len w \<and> (starts_with w (lit ''-'') \<or> starts_with w (lit ''+'')))
                  \<or> w = lit ''OR'' \<or> w = lit ''AND'') (split_whitespace text)"

definition replace_pipe :: "rstring \<Rightarrow> rstring" where
  "replace_pipe s = concat (map (\<lambda>c. if c = 124 then lit '' OR '' else [c]) s)"

definition parser_for :: "compiled_plugins \<Rightarrow> bool \<Rightarrow> parser_config" where
  "parser_for plugins conjunctive = \<lparr>
     pc_fields = [FldTitle, FldTitleTerms, FldTitleInitials, FldBody, FldPath, FldSender, FldRecipients]
       @ map fst (cp_default_query_fields plugins),
     pc_conjunctive = conjunctive,
     pc_boosts = [(FldTitle, 5), (FldTitleTerms, 4), (FldTitleInitials, 3), (FldSender, 3),
       (FldRecipients, rnd32 (25 / 10)), (FldPath, rnd32 (15 / 10)), (FldBody, 1)]
       @ cp_default_query_fields plugins,
     pc_fuzzy = [FldTitle, FldTitleTerms]\<rparr>"

text \<open>The text handed to the parser and the parsed query.\<close>

definition normalized_query_text :: "compiled_plugins \<Rightarrow> rstring \<Rightarrow> rstring" where
  "normalized_query_text plugins text =
     replace_pipe (rewrite_query_aliases (trim text) (cp_query_aliases plugins))"

definition parsed_query :: "compiled_plugins \<Rightarrow> rstring \<Rightarrow> bool \<Rightarrow> tquery" where
  "parsed_query plugins text conjunctive =
     QParsed (parser_for plugins conjunctive) (normalized_query_text plugins text)"

definition incremental_clause :: "ranking_config \<Rightarrow> rstring list \<Rightarrow> tquery" where
  "incremental_clause ranking tokens =
     (let title_fields = [FldTitle, FldTitleTerms]
      in QBoost (QBoolean
           (map (\<lambda>tok. (Must, QBoolean (map (\<lambda>f. (Should, QTerm f tok)) title_fields))) (butlast tokens)
            @ [(Must, QBoolean (map (\<lambda>f. (Should, QPrefix f (last tokens))) title_fields))]))
           (rc_query_prefix_boost ranking))"

definition make_phrase :: "ranking_config \<Rightarrow> rstring list \<Rightarrow> tfield \<Rightarrow> tquery" where
  "make_phrase ranking tokens field =
     QBoost (QPhrase field tokens (rc_proximity_slop ranking)) (rc_proximity_boost ranking)"

definition build_search_query ::
  "'a searcher \<Rightarrow> compiled_plugins \<Rightarrow> ranking_config \<Rightarrow> rstring \<Rightarrow> bool \<Rightarrow> tquery" where
  "build_search_query E plugins ranking text0 conjunctive =
     (let text = trim text0;
          parsed = parsed_query plugins text0 conjunctive
      in if text = [] then QBoolean []
         else
           case se_tokens E (normalized_query_text plugins text0) of
             None \<Rightarrow> parsed
           | Some tokens \<Rightarrow>
               if tokens = [] then parsed
               else
                 (let operators = query_uses_operators text;
                      clauses =
                        [(if operators then Must else Should, parsed)]
                        @ (if \<not> operators \<and> MIN_QUERY_PREFIX_LEN \<le> length (last tokens)
                           then [(Should, incremental_clause ranking tokens)] else [])
                        @ (if 2 \<le> length tokens
                           then [(Should, make_phrase ranking tokens FldTitle),
                                 (Should, make_phrase ranking tokens FldTitleTerms)] else [])
                  in if length clauses = 1 then snd (last clauses) else QBoolean clauses))"

section \<open>Searching\<close>

text \<open>
  Appending the addresses not seen yet; the second component lists the ones pushed. The set
  \<^verbatim>\<open>seen_addrs\<close> of the source always holds the addresses of \<^verbatim>\<open>merged\<close>.
\<close>

fun push_unseen :: "(f32 \<times> 'a) list \<Rightarrow> (f32 \<times> 'a) list \<Rightarrow> (f32 \<times> 'a) list \<times> 'a list" where
  "push_unseen merged [] = (merged, [])"
| "push_unseen merged ((score, addr) # rest) =
     (if addr \<in> snd ` set merged then push_unseen merged rest
      else (case push_unseen (merged @ [(score, addr)]) rest of (m, pushed) \<Rightarrow> (m, addr # pushed)))"

definition coord_mult ::
  "(f32 \<Rightarrow> f32 \<Rightarrow> f32) \<Rightarrow> ranking_config \<Rightarrow> rstring list \<Rightarrow> rstring list \<Rightarrow> f32" where
  "coord_mult powf ranking q_tokens title_tokens =
     (if 2 \<le> length q_tokens \<and> length q_tokens \<le> 3 then
        (if list_all (\<lambda>t. t \<in> set title_tokens) q_tokens
         then f32_add 1 (f32_div (rc_coordination_boost ranking)
                (powf (rnd32 (of_nat (length q_tokens))) (rc_coordination_delta ranking)))
         else 1)
      else 1)"

definition unwrap_or_default :: "rstring list option \<Rightarrow> rstring list" where
  "unwrap_or_default r = (case r of None \<Rightarrow> [] | Some ts \<Rightarrow> ts)"

record search_env =
  en_config :: index_config
  en_plugins :: compiled_plugins
  en_ranking :: ranking_config
  en_exp32 :: "real \<Rightarrow> f32"
  en_powf32 :: "f32 \<Rightarrow> f32 \<Rightarrow> f32"
  en_now :: int

text \<open>One candidate: the hit with its score and the breakdown; \<open>None\<close> is the panic in \<open>recency_mult\<close>.\<close>

definition score_candidate ::
  "search_env \<Rightarrow> 'a searcher \<Rightarrow> rstring \<Rightarrow> rstring list \<Rightarrow> bool \<Rightarrow> f32 \<Rightarrow> tantivy_document \<Rightarrow> scored_hit option" where
  "score_candidate en E q_norm q_tokens is_fallback score t =
     (let ranking = en_ranking en;
          u = ic_unicode (en_config en);
          category = hydration_category (td_category t);
          title = td_title t;
          title_norm = normalize_for_match u title;
          coord = coord_mult (en_powf32 en) ranking q_tokens (unwrap_or_default (se_tokens E title));
          cat_m = multiplier_for ranking category;
          exact_m = exact_title_mult title_norm q_norm (rc_exact_title_boost ranking);
          prefix_m = prefix_mult title_norm q_norm (rc_prefix_boost ranking);
          acronym_m = acronym_mult u title q_norm (rc_acronym_boost ranking)
      in case recency_mult (en_exp32 en) category (td_mtime t) (en_now en)
                (rc_recency_weight ranking) (rc_recency_tau_days ranking) of
           None \<Rightarrow> None
         | Some recency_m \<Rightarrow>
             (let doc_mult = f32_mul (f32_mul (f32_mul (f32_mul (f32_mul cat_m exact_m) prefix_m) acronym_m)
                               recency_m) coord;
                  final_score = f32_mul score doc_mult
              in Some ((fst (hydrate_hit (en_config en) t))\<lparr>hit_score := final_score\<rparr>,
                   \<lparr>bd_tantivy = score, bd_category_mult = cat_m, bd_exact_title_mult = exact_m,
                    bd_prefix_mult = prefix_m, bd_acronym_mult = acronym_m, bd_recency_mult = recency_m,
                    bd_coord_mult = coord, bd_frecency_mult = 1, bd_latch_mult = 1,
                    bd_stage2_clamped = 1, bd_final_score = final_score,
                    bd_lexical_fallback = is_fallback\<rparr>)))"

fun score_all ::
  "search_env \<Rightarrow> 'a searcher \<Rightarrow> rstring \<Rightarrow> rstring list \<Rightarrow> 'a list \<Rightarrow> (f32 \<times> 'a) list \<Rightarrow> scored_hit list option" where
  "score_all en E q_norm q_tokens fallback [] = Some []"
| "score_all en E q_norm q_tokens fallback ((score, addr) # rest) =
     (case se_doc E addr of
        None \<Rightarrow> None
      | Some t \<Rightarrow>
          (case score_candidate en E q_norm q_tokens (addr \<in> set fallback) score t of
             None \<Rightarrow> None
           | Some p \<Rightarrow> map_option ((#) p) (score_all en E q_norm q_tokens fallback rest)))"

definition tier_key :: "scored_hit \<Rightarrow> nat \<times> f32" where
  "tier_key p = ((if bd_lexical_fallback (snd p) then 1 else 0), - hit_score (fst p))"

definition max_top_score :: "(f32 \<times> 'a) list \<Rightarrow> f32" where
  "max_top_score top_docs = max (foldl max 0 (map fst top_docs)) 1"

text \<open>The full-match candidates: the conjunctive query, then the exact-title probe.\<close>

definition full_candidates ::
  "search_env \<Rightarrow> 'a searcher \<Rightarrow> query \<Rightarrow> (f32 \<times> 'a) list option" where
  "full_candidates en E q =
     (let limit = q_limit q;
          q_norm = normalize_for_match (ic_unicode (en_config en)) (q_text q)
      in case se_search E (build_search_query E (en_plugins en) (en_ranking en) (q_text q) True) limit of
           None \<Rightarrow> None
         | Some top_docs \<Rightarrow>
             (case (if q_norm \<noteq> [] then se_search E (QTerm FldTitleExact q_norm) limit else Some []) of
                None \<Rightarrow> None
              | Some exact \<Rightarrow>
                  Some (fst (push_unseen top_docs (map (\<lambda>(_, addr). (max_top_score top_docs, addr)) exact)))))"

text \<open>The disjunctive refill when the page is not full.\<close>

definition refill ::
  "search_env \<Rightarrow> 'a searcher \<Rightarrow> query \<Rightarrow> rstring list \<Rightarrow> (f32 \<times> 'a) list \<Rightarrow> ((f32 \<times> 'a) list \<times> 'a list) option" where
  "refill en E q q_tokens merged =
     (if length merged < q_limit q \<and> 2 \<le> length q_tokens \<and> \<not> query_uses_operators (q_text q)
      then map_option (push_unseen merged)
             (se_search E (build_search_query E (en_plugins en) (en_ranking en) (q_text q) False) (q_limit q))
      else Some (merged, []))"

definition index_search :: "search_env \<Rightarrow> 'a searcher \<Rightarrow> query \<Rightarrow> scored_hit list option" where
  "index_search en E q =
     (let q_norm = normalize_for_match (ic_unicode (en_config en)) (q_text q);
          q_tokens = unwrap_or_default (se_tokens E (q_text q))
      in case full_candidates en E q of
           None \<Rightarrow> None
         | Some merged \<Rightarrow>
             (case refill en E q q_tokens merged of
                None \<Rightarrow> None
              | Some (merged', fallback) \<Rightarrow>
                  map_option (\<lambda>results. take (q_limit q) (sort_key tier_key results))
                    (score_all en E q_norm q_tokens fallback merged')))"

section \<open>Lemmas: aliases\<close>

lemma alias_loop_no_colon: "58 \<notin> set bs \<Longrightarrow> alias_loop aliases prev bs = bs"
proof (induction aliases prev bs rule: alias_loop.induct)
  case (2 aliases prev c cs)
  show ?case
  proof (cases "(is_ascii_alphabetic c \<or> c = ch CHR ''_'') \<and> (case prev of None \<Rightarrow> True | Some p \<Rightarrow> \<not> is_id_byte p)")
    case False
    then have "alias_loop aliases prev (c # cs) = c # alias_loop aliases (Some c) cs"
      by (simp only: alias_loop.simps Let_def False if_False)
    then show ?thesis using "2.IH"(3) [OF refl refl] False "2.prems" by simp
  next
    case True
    show ?thesis
    proof (cases "dropWhile is_id_byte cs")
      case Nil
      then have "takeWhile is_id_byte cs = cs" by (metis append_Nil2 takeWhile_dropWhile_id)
      then show ?thesis using Nil by (simp only: alias_loop.simps Let_def True if_True) simp
    next
      case (Cons d rest')
      have d: "d \<noteq> 58" "58 \<notin> set (dropWhile is_id_byte cs)"
        using Cons "2.prems" set_dropWhileD [of 58 is_id_byte cs] by (auto simp del: set_dropWhileD)
      have nomatch: "(if d = 58 then map_of aliases (c # takeWhile is_id_byte cs) else None) = None" using d(1) by simp
      have ih: "alias_loop aliases (Some (last (c # takeWhile is_id_byte cs))) (dropWhile is_id_byte cs)
          = dropWhile is_id_byte cs"
        using "2.IH"(1) "2.IH"(2) "2.IH"(3) True Cons d(2) nomatch by metis
      have "alias_loop aliases prev (c # cs)
          = (c # takeWhile is_id_byte cs)
            @ alias_loop aliases (Some (last (c # takeWhile is_id_byte cs))) (dropWhile is_id_byte cs)"
        using Cons d(1) by (simp only: alias_loop.simps Let_def True if_True) simp
      also have "\<dots> = c # cs"
        unfolding ih by simp
      finally show ?thesis .
    qed
  qed
qed simp

lemma alias_loop_scoped:
  assumes f: "map_of aliases f = Some real_name" "f \<noteq> []" "is_ascii_alphabetic (hd f) \<or> hd f = ch CHR ''_''"
    and ids: "\<forall>c\<in>set f. is_id_byte c"
  shows "alias_loop aliases None (f @ 58 # rest) = real_name @ 58 # alias_loop aliases (Some 58) rest"
proof -
  obtain c cs where c: "f = c # cs" using f(2) by (cases f) auto
  have "\<not> is_id_byte 58" by (simp add: is_id_byte_def is_ascii_alphabetic_def is_ascii_digit_def ch_def)
  then have "takeWhile is_id_byte (cs @ 58 # rest) = cs" "dropWhile is_id_byte (cs @ 58 # rest) = 58 # rest"
    using ids c by (simp_all add: takeWhile_append dropWhile_append)
  then show ?thesis using f c by (simp add: alias_loop.simps(2) Let_def)
qed

lemma utf8_bytes_high: "128 \<le> c \<Longrightarrow> \<forall>b\<in>set (utf8_bytes c). 128 \<le> b"
  by (auto simp: utf8_bytes_def pos_imp_zdiv_nonneg_iff intro: order_trans [OF _ add_increasing2])

lemma utf8_encode_Cons [simp]: "utf8_encode (c # s) = utf8_bytes c @ utf8_encode s" "utf8_encode [] = []"
  by (simp_all add: utf8_encode_def)

lemma utf8_encode_append: "utf8_encode (s @ t) = utf8_encode s @ utf8_encode t"
  by (simp add: utf8_encode_def)

lemma utf8_encode_low: "b < 128 \<Longrightarrow> b \<in> set (utf8_encode s) \<longleftrightarrow> b \<in> set s"
proof (induction s)
  case (Cons c s)
  show ?case
  proof (cases "c < 128")
    case True
    then show ?thesis using Cons by (simp add: utf8_bytes_def)
  next
    case False
    then show ?thesis using Cons utf8_bytes_high [of c] by auto
  qed
qed simp

lemma utf8_encode_ascii: "(\<forall>c\<in>set s. c < 128) \<Longrightarrow> utf8_encode s = s"
  by (induction s) (auto simp: utf8_bytes_def)

lemma length_utf8_bytes: "1 \<le> length (utf8_bytes c)" "length (utf8_bytes c) = 1 \<longleftrightarrow> c < 128"
  by (auto simp: utf8_bytes_def)

lemma length_utf8_encode: "length s \<le> length (utf8_encode s) \<and>
    (length (utf8_encode s) = length s \<longleftrightarrow> (\<forall>c\<in>set s. c < 128))"
proof (induction s)
  case (Cons c s)
  then show ?case using length_utf8_bytes [of c] by auto
qed simp

lemma utf8_encode_same_iff: "utf8_encode s = s \<longleftrightarrow> (\<forall>c\<in>set s. c < 128)"
  using length_utf8_encode [of s] utf8_encode_ascii [of s] by metis

section \<open>Lemmas: plugin schema\<close>

abbreviation declared_aliases :: "plugin_field_spec list \<Rightarrow> rstring list" where
  "declared_aliases specs \<equiv> List.map_filter pf_query_alias specs"

lemma map_filter_Cons: "List.map_filter f (x # xs) = (case f x of None \<Rightarrow> List.map_filter f xs | Some y \<Rightarrow> y # List.map_filter f xs)"
  by (auto simp: List.map_filter_def split: option.split)

lemma collect_fields_Inr:
  "collect_fields names aliases xs = Inr specs \<longleftrightarrow>
     specs = map snd xs \<and> distinct (map (\<lambda>p. pf_schema_name (snd p)) xs)
     \<and> set (map (\<lambda>p. pf_schema_name (snd p)) xs) \<inter> fst ` set names = {}
     \<and> distinct (declared_aliases (map snd xs)) \<and> set (declared_aliases (map snd xs)) \<inter> fst ` set aliases = {}"
proof (induction names aliases xs arbitrary: specs rule: collect_fields.induct)
  case (1 names aliases)
  show ?case by (auto simp: List.map_filter_def)
next
  case (2 names aliases kind spec rest)
  have hd: "map_of xs k = None \<longleftrightarrow> k \<notin> fst ` set xs" for xs :: "(rstring \<times> rstring) list" and k
    by (rule map_of_eq_None_iff)
  have inr: "map_sum id ((#) spec) r = Inr specs \<longleftrightarrow> (\<exists>s. r = Inr s \<and> specs = spec # s)"
    for r :: "schema_error + plugin_field_spec list" by (cases r) auto
  show ?case
  proof (cases "map_of names (pf_schema_name spec)")
    case (Some prev)
    then have "pf_schema_name spec \<in> fst ` set names" using map_of_SomeD by (metis fst_conv image_eqI)
    then show ?thesis using Some by auto
  next
    case None
    note nn = None
    have n: "pf_schema_name spec \<notin> fst ` set names" using nn hd by blast
    show ?thesis
    proof (cases "pf_query_alias spec")
      case None
      then show ?thesis using nn n "2.IH"(1) [OF nn None] by (auto simp: inr map_filter_Cons simp del: set_map)
    next
      case (Some al)
      show ?thesis
      proof (cases "map_of aliases al")
        case None
        then have "al \<notin> fst ` set aliases" using hd by blast
        then show ?thesis using nn n Some None "2.IH"(2) [OF nn Some None] by (auto simp: inr map_filter_Cons simp del: set_map)
      next
        case (Some prev)
        then have "al \<in> fst ` set aliases" using map_of_SomeD by (metis fst_conv image_eqI)
        then show ?thesis using nn \<open>pf_query_alias spec = Some al\<close> Some by (auto simp: map_filter_Cons)
      qed
    qed
  qed
qed

lemma set_map_filter: "set (List.map_filter f xs) = {y. \<exists>x\<in>set xs. f x = Some y}"
  by (induction xs) (auto simp: map_filter_Cons List.map_filter_def split: option.splits)

section \<open>Lemmas: operators\<close>

lemma split_ws_dropWhile: "split_ws [] (dropWhile is_whitespace s) = split_ws [] s"
  by (induction s) auto

lemma split_ws_append_ws: "\<forall>c\<in>set t. is_whitespace c \<Longrightarrow> split_ws acc (s @ t) = split_ws acc s"
proof (induction acc s rule: split_ws.induct)
  case (1 acc)
  then show ?case by (induction t arbitrary: acc) auto
qed auto

lemma trim_end_split:
  obtains t where "s = trim_end s @ t" "\<forall>c\<in>set t. is_whitespace c"
proof
  show "s = trim_end s @ rev (takeWhile is_whitespace (rev s))"
    by (metis rev_append rev_rev_ident takeWhile_dropWhile_id trim_end_def trim_end_matches_def)
qed (auto dest: set_takeWhileD)

lemma split_whitespace_trim: "split_whitespace (trim s) = split_whitespace s"
proof -
  obtain t where t: "trim_start s = trim_end (trim_start s) @ t" "\<forall>c\<in>set t. is_whitespace c"
    by (rule trim_end_split)
  have "split_ws [] (trim_end (trim_start s)) = split_ws [] (trim_start s)"
    by (subst (2) t(1)) (simp add: split_ws_append_ws t(2))
  then show ?thesis
    by (simp add: split_whitespace_def trim_def trim_start_def trim_start_matches_def split_ws_dropWhile)
qed

lemma set_trim_non_ws: "\<not> is_whitespace c \<Longrightarrow> c \<in> set (trim s) \<longleftrightarrow> c \<in> set s"
proof -
  assume c: "\<not> is_whitespace c"
  have "filter (\<lambda>c. \<not> is_whitespace c) (trim s) = filter (\<lambda>c. \<not> is_whitespace c) s"
    by (simp only: split_whitespace_concat [symmetric] split_whitespace_trim)
  then have "c \<in> set (filter (\<lambda>c. \<not> is_whitespace c) (trim s)) \<longleftrightarrow> c \<in> set (filter (\<lambda>c. \<not> is_whitespace c) s)" by simp
  then show ?thesis using c by simp
qed

lemma query_uses_operators_trim: "query_uses_operators (trim text) = query_uses_operators text"
  by (simp add: query_uses_operators_def split_whitespace_trim set_trim_non_ws is_whitespace_def)

section \<open>Lemmas: candidates\<close>

lemma push_unseen_spec:
  assumes "push_unseen merged xs = (m, pushed)" and "distinct (map snd merged)"
  shows "distinct (map snd m) \<and> (\<exists>ys. m = merged @ ys \<and> set ys \<subseteq> set xs \<and> map snd ys = pushed)
    \<and> snd ` set m = snd ` set merged \<union> snd ` set xs"
  using assms
proof (induction merged xs arbitrary: pushed rule: push_unseen.induct)
  case (2 merged score addr rest)
  show ?case
  proof (cases "addr \<in> snd ` set merged")
    case True
    then show ?thesis using 2 by auto
  next
    case False
    obtain p where p: "push_unseen (merged @ [(score, addr)]) rest = (m, p)" "pushed = addr # p"
      using "2.prems"(1) False by (auto split: prod.splits)
    have d: "distinct (map snd (merged @ [(score, addr)]))" using "2.prems"(2) False by auto
    from "2.IH"(2) [OF False p(1) d] obtain ys where
      "distinct (map snd m)" "m = (merged @ [(score, addr)]) @ ys" "set ys \<subseteq> set rest" "map snd ys = p"
      "snd ` set m = snd ` set (merged @ [(score, addr)]) \<union> snd ` set rest" by blast
    then show ?thesis using p(2) by (intro conjI exI [of _ "(score, addr) # ys"]) auto
  qed
qed auto

lemma list_all2_set2: "list_all2 P xs ys \<Longrightarrow> y \<in> set ys \<Longrightarrow> \<exists>x\<in>set xs. P x y"
  by (induction rule: list_all2_induct) auto

lemma list_all2_set1: "list_all2 P xs ys \<Longrightarrow> x \<in> set xs \<Longrightarrow> \<exists>y\<in>set ys. P x y"
  by (induction rule: list_all2_induct) auto

lemma score_all_Some:
  "score_all en E q_norm q_tokens fallback m = Some rs \<Longrightarrow>
   list_all2 (\<lambda>c p. \<exists>t. se_doc E (snd c) = Some t
     \<and> score_candidate en E q_norm q_tokens (snd c \<in> set fallback) (fst c) t = Some p) m rs"
  by (induction m arbitrary: rs) (auto split: option.splits prod.splits)

lemma score_candidate_Some:
  assumes "score_candidate en E q_norm q_tokens fb score t = Some p"
  shows "hit_id (fst p) = td_id t" "bd_lexical_fallback (snd p) = fb" "hit_score (fst p) = bd_final_score (snd p)"
    "bd_tantivy (snd p) = score"
  using assms by (auto simp: score_candidate_def hydrate_hit_def Let_def split: option.splits)

section \<open>What the search relies on\<close>

text \<open>
  The engine: \<open>live\<close> are the addresses of one reader snapshot, \<open>matches q a\<close> says that the document
  at \<open>a\<close> satisfies the query.
\<close>

locale lexical_engine =
  fixes E :: "'a searcher" and matches :: "tquery \<Rightarrow> 'a \<Rightarrow> bool" and live :: "'a set"
  assumes search_hits: "se_search E q n = Some hits \<Longrightarrow>
      length hits \<le> n \<and> distinct (map snd hits) \<and> snd ` set hits \<subseteq> {a \<in> live. matches q a}"
    and search_scores: "se_search E q n = Some hits \<Longrightarrow> s \<in> fst ` set hits \<Longrightarrow> is_f32 s \<and> 0 \<le> s"
    and search_all: "se_search E q n = Some hits \<Longrightarrow> a \<in> live \<Longrightarrow> matches q a \<Longrightarrow> a \<notin> snd ` set hits \<Longrightarrow> length hits = n"
    and matches_boolean: "matches (QBoolean cs) a \<longleftrightarrow>
      (\<forall>p\<in>set cs. fst p = Must \<longrightarrow> matches (snd p) a)
      \<and> ((\<exists>p\<in>set cs. fst p = Must) \<or> (\<exists>p\<in>set cs. matches (snd p) a))"
    and matches_exact: "matches (QTerm FldTitleExact w) a \<longleftrightarrow> (\<exists>t. se_doc E a = Some t \<and> td_title_exact t = w)"
    and one_per_id: "a \<in> live \<Longrightarrow> b \<in> live \<Longrightarrow> se_doc E a = Some t \<Longrightarrow> se_doc E b = Some t' \<Longrightarrow> td_id t = td_id t' \<Longrightarrow> a = b"
begin

lemma full_candidates_spec:
  assumes "full_candidates en E q = Some m"
  defines "w \<equiv> normalize_for_match (ic_unicode (en_config en)) (q_text q)"
    and "fq \<equiv> build_search_query E (en_plugins en) (en_ranking en) (q_text q) True"
  shows "distinct (map snd m)" "snd ` set m \<subseteq> live"
    "\<And>a. a \<in> snd ` set m \<Longrightarrow> matches fq a \<or> (w \<noteq> [] \<and> matches (QTerm FldTitleExact w) a)"
    "\<And>s. s \<in> fst ` set m \<Longrightarrow> is_f32 s \<and> 0 \<le> s"
    "\<And>a. w \<noteq> [] \<Longrightarrow> a \<in> live \<Longrightarrow> matches (QTerm FldTitleExact w) a \<Longrightarrow> a \<in> snd ` set m \<or> q_limit q \<le> length m"
proof -
  obtain top where top: "se_search E fq (q_limit q) = Some top"
    using assms by (auto simp: full_candidates_def Let_def split: option.splits)
  obtain exact where exact: "(if w \<noteq> [] then se_search E (QTerm FldTitleExact w) (q_limit q) else Some []) = Some exact"
    and m: "m = fst (push_unseen top (map (\<lambda>(_, addr). (max_top_score top, addr)) exact))"
    using assms top by (auto simp: full_candidates_def Let_def split: option.splits if_splits)
  let ?ex = "map (\<lambda>(_, addr). (max_top_score top, addr)) exact"
  obtain pushed where p: "push_unseen top ?ex = (m, pushed)" using m by (metis prod.collapse)
  have dtop: "distinct (map snd top)" using search_hits [OF top] by blast
  note ps = push_unseen_spec [OF p dtop]
  have exs: "snd ` set ?ex = snd ` set exact" by force
  have exd: "w \<noteq> [] \<Longrightarrow> snd ` set exact \<subseteq> {a \<in> live. matches (QTerm FldTitleExact w) a} \<and> distinct (map snd exact)"
    and exn: "w = [] \<Longrightarrow> exact = []" using search_hits exact by (auto split: if_splits)
  show "distinct (map snd m)" using ps by blast
  show "snd ` set m \<subseteq> live" using ps exs exd exn search_hits [OF top] by (cases "w = []") auto
  show "matches fq a \<or> (w \<noteq> [] \<and> matches (QTerm FldTitleExact w) a)" if "a \<in> snd ` set m" for a
    using that ps exs exd exn search_hits [OF top] by (cases "w = []") auto
  have mts: "is_f32 (max_top_score top) \<and> 0 \<le> max_top_score top"
  proof -
    have "is_f32 (foldl max x ys) \<and> 0 \<le> foldl max x ys" if "is_f32 x" "0 \<le> x" "\<forall>y\<in>set ys. is_f32 y" for x and ys :: "f32 list"
      using that by (induction ys arbitrary: x) (auto simp: max_def)
    from this [of 0 "map fst top"] show ?thesis
      using search_scores [OF top] is_f32_of_int [of 0] is_f32_of_int [of 1] by (auto simp: max_top_score_def max_def)
  qed
  show "is_f32 s \<and> 0 \<le> s" if s: "s \<in> fst ` set m" for s
  proof -
    obtain ys where "m = top @ ys" "set ys \<subseteq> set ?ex" using ps by blast
    then have "fst ` set m \<subseteq> fst ` set top \<union> fst ` set ?ex" by (simp add: image_Un image_mono le_supI2)
    then have "s \<in> fst ` set top \<or> s \<in> fst ` set ?ex" using s by blast
    then show ?thesis using mts search_scores [OF top] by auto
  qed
  show "a \<in> snd ` set m \<or> q_limit q \<le> length m"
    if w: "w \<noteq> []" and a: "a \<in> live" "matches (QTerm FldTitleExact w) a" for a
  proof (cases "a \<in> snd ` set exact")
    case True
    then show ?thesis using ps exs by auto
  next
    case False
    have ex: "se_search E (QTerm FldTitleExact w) (q_limit q) = Some exact" using exact w by simp
    have len: "length exact = q_limit q" using search_all [OF ex a False] .
    have "length exact = card (snd ` set exact)" using exd w by (metis distinct_card length_map list.set_map)
    also have "\<dots> \<le> card (snd ` set m)" using ps exs by (intro card_mono) auto
    also have "\<dots> = length m" using ps by (metis distinct_card length_map list.set_map)
    finally show ?thesis using len by simp
  qed
qed

text \<open>
  Everything the rest needs about a successful search: the scored candidates \<open>m\<close>, the ones among
  them that come from the disjunctive refill, and the scored results.
\<close>

lemma index_search_cases:
  assumes "index_search en E q = Some page"
  obtains m full fallback results where
    "full_candidates en E q = Some full" "\<exists>ys. m = full @ ys \<and> map snd ys = fallback" "distinct (map snd m)" "snd ` set m \<subseteq> live"
    "\<And>a. a \<in> set fallback \<Longrightarrow> matches (build_search_query E (en_plugins en) (en_ranking en) (q_text q) False) a"
    "fallback \<noteq> [] \<Longrightarrow> length full < q_limit q \<and> \<not> query_uses_operators (q_text q)"
    "\<And>s. s \<in> fst ` set m \<Longrightarrow> is_f32 s \<and> 0 \<le> s"
    "list_all2 (\<lambda>c p. \<exists>t. se_doc E (snd c) = Some t
       \<and> score_candidate en E (normalize_for_match (ic_unicode (en_config en)) (q_text q))
            (unwrap_or_default (se_tokens E (q_text q))) (snd c \<in> set fallback) (fst c) t = Some p) m results"
    "page = take (q_limit q) (sort_key tier_key results)"
proof -
  let ?w = "normalize_for_match (ic_unicode (en_config en)) (q_text q)" and ?ts = "unwrap_or_default (se_tokens E (q_text q))"
  let ?or = "build_search_query E (en_plugins en) (en_ranking en) (q_text q) False"
  obtain full m fb results where full: "full_candidates en E q = Some full"
    and r: "refill en E q ?ts full = Some (m, fb)" and sc: "score_all en E ?w ?ts fb m = Some results"
    and page: "page = take (q_limit q) (sort_key tier_key results)"
    using assms by (auto simp: index_search_def Let_def split: option.splits)
  note fs = full_candidates_spec [OF full]
  have parts: "(\<exists>ys. m = full @ ys \<and> map snd ys = fb) \<and> distinct (map snd m) \<and> snd ` set m \<subseteq> live
    \<and> (\<forall>a\<in>set fb. matches ?or a) \<and> (fb \<noteq> [] \<longrightarrow> length full < q_limit q \<and> \<not> query_uses_operators (q_text q))
    \<and> (\<forall>s\<in>fst ` set m. is_f32 s \<and> 0 \<le> s)"
  proof (cases "length full < q_limit q \<and> 2 \<le> length ?ts \<and> \<not> query_uses_operators (q_text q)")
    case False
    then have "m = full" "fb = []" using r by (auto simp: refill_def)
    then show ?thesis using fs by auto
  next
    case True
    then obtain extra where extra: "se_search E ?or (q_limit q) = Some extra" and pu: "push_unseen full extra = (m, fb)"
      using r by (auto simp: refill_def)
    obtain ys where ys: "m = full @ ys" "set ys \<subseteq> set extra" "map snd ys = fb" and d: "distinct (map snd m)"
      using push_unseen_spec [OF pu fs(1)] by blast
    have "set fb \<subseteq> snd ` set extra" using ys(2) unfolding ys(3) [symmetric] list.set_map by (rule image_mono)
    then have fb: "set fb \<subseteq> {a \<in> live. matches ?or a}" using search_hits [OF extra] by blast
    have "snd ` set m \<subseteq> live"
      using fs(2) fb unfolding ys(1) ys(3) [symmetric] list.set_map set_append image_Un by blast
    moreover have "is_f32 s \<and> 0 \<le> s" if "s \<in> fst ` set m" for s
      using that image_mono [OF ys(2), of fst] fs(4) search_scores [OF extra] unfolding ys(1) set_append image_Un by blast
    ultimately show ?thesis using True ys d fb by auto
  qed
  show thesis by (rule that [OF full _ _ _ _ _ _ score_all_Some [OF sc] page]) (use parts in auto)
qed

text \<open>An operator query only matches what the parsed query matches.\<close>

lemma operator_gate:
  assumes op: "query_uses_operators text" and a: "matches (build_search_query E pl rk text cj) a"
  shows "matches (parsed_query pl text cj) a"
proof -
  have op': "query_uses_operators (trim text)" using op by (simp add: query_uses_operators_trim)
  then have ne: "trim text \<noteq> []" by (auto simp: query_uses_operators_def split_whitespace_def)
  show ?thesis
    using a ne op' by (auto simp: build_search_query_def Let_def matches_boolean split: option.splits if_splits)
qed

lemma results_ids_distinct:
  assumes m: "distinct (map snd m)" "snd ` set m \<subseteq> live"
    and res: "list_all2 (\<lambda>c p. \<exists>t. se_doc E (snd c) = Some t \<and> score_candidate en E w ts (F (snd c)) (fst c) t = Some p) m results"
  shows "distinct (ids_of results)"
proof (subst distinct_conv_nth, intro allI impI)
  fix i j assume ij: "i < length (ids_of results)" "j < length (ids_of results)" "i \<noteq> j"
  have len: "length m = length results" using res by (rule list_all2_lengthD)
  have doc: "\<exists>t. se_doc E (snd (m ! k)) = Some t \<and> hit_id (fst (results ! k)) = td_id t" "snd (m ! k) \<in> live"
    if "k < length results" for k
    using list_all2_nthD [OF res, of k] that len m(2) nth_mem [of k m] by (auto dest: score_candidate_Some(1))
  have "snd (m ! i) \<noteq> snd (m ! j)" using ij m(1) len by (simp add: distinct_conv_nth)
  then show "ids_of results ! i \<noteq> ids_of results ! j" using doc [of i] doc [of j] ij one_per_id by fastforce
qed

lemma length_filter_list_all2:
  "list_all2 (\<lambda>x y. P x = Q y) xs ys \<Longrightarrow> length (filter P xs) = length (filter Q ys)"
  by (induction rule: list_all2_induct) auto

lemma sorted_two_tiers: "sorted_wrt (\<lambda>a b. P a \<longrightarrow> P b) xs \<Longrightarrow> xs = filter (\<lambda>x. \<not> P x) xs @ filter P xs"
  by (induction xs) (auto simp: filter_empty_conv filter_id_conv)

lemma sorted_tiers: "sorted_wrt (\<lambda>a b. bd_lexical_fallback (snd a) \<le> bd_lexical_fallback (snd b)
      \<and> (bd_lexical_fallback (snd a) = bd_lexical_fallback (snd b) \<longrightarrow> hit_score (fst b) \<le> hit_score (fst a)))
    (take n (sort_key tier_key results))"
proof -
  have "sorted_wrt (\<lambda>a b. tier_key a \<le> tier_key b) (sort_key tier_key results)"
    using sorted_sort_key [of tier_key results] by (simp add: sorted_map)
  then have "sorted_wrt (\<lambda>a b. tier_key a \<le> tier_key b) (take n (sort_key tier_key results))" by (rule sorted_wrt_take)
  then show ?thesis by (rule sorted_wrt_mono_rel [rotated]) (auto simp: tier_key_def less_eq_prod_def split: if_splits)
qed

lemma exact_title_on_page:
  assumes page: "index_search en E q = Some page" and a: "a \<in> live" "se_doc E a = Some t"
    and w: "td_title_exact t = normalize_for_match (ic_unicode (en_config en)) (q_text q)" "td_title_exact t \<noteq> []"
  shows "(\<exists>p\<in>set page. hit_id (fst p) = td_id t \<and> \<not> bd_lexical_fallback (snd p))
    \<or> (length page = q_limit q \<and> (\<forall>p\<in>set page. \<not> bd_lexical_fallback (snd p)))"
  using page
proof (cases rule: index_search_cases)
  case (1 m full fb results)
  let ?S = "sort_key tier_key results" and ?P = "\<lambda>p::scored_hit. bd_lexical_fallback (snd p)"
  obtain ys where ys: "m = full @ ys" "map snd ys = fb" using 1(2) by blast
  have disj: "snd ` set full \<inter> set fb = {}" using 1(3) ys by auto
  have tiers: "?S = filter (\<lambda>p. \<not> ?P p) ?S @ filter ?P ?S"
    by (rule sorted_two_tiers, rule sorted_wrt_mono_rel [OF _ sorted_tiers [of "length ?S" results, simplified]]) auto
  have "list_all2 (\<lambda>c p. snd c \<notin> set fb \<longleftrightarrow> \<not> ?P p) m results"
    by (rule list_all2_mono [OF 1(8)]) (auto dest: score_candidate_Some(2))
  then have "length (filter (\<lambda>c. snd c \<notin> set fb) m) = length (filter (\<lambda>p. \<not> ?P p) results)" by (rule length_filter_list_all2)
  moreover have "filter (\<lambda>c. snd c \<notin> set fb) m = full"
  proof -
    have "filter (\<lambda>c. snd c \<notin> set fb) full = full" using disj by (intro filter_True) auto
    moreover have "filter (\<lambda>c. snd c \<notin> set fb) ys = []" by (simp add: filter_empty_conv ys(2) [symmetric])
    ultimately show ?thesis by (simp add: ys(1))
  qed
  moreover have "length (filter (\<lambda>p. \<not> ?P p) ?S) = length (filter (\<lambda>p. \<not> ?P p) results)"
    by (metis mset_filter mset_sort size_mset)
  ultimately have n: "length (filter (\<lambda>p. \<not> ?P p) ?S) = length full" by simp
  have top: "take (q_limit q) ?S = take (q_limit q) (filter (\<lambda>p. \<not> ?P p) ?S)
      @ take (q_limit q - length full) (filter ?P ?S)" by (subst tiers) (simp add: n)
  show ?thesis
  proof (cases "q_limit q \<le> length full")
    case True
    then have "page = take (q_limit q) (filter (\<lambda>p. \<not> ?P p) ?S)" using 1(9) top by simp
    then have "length page = q_limit q" "\<forall>p\<in>set page. \<not> ?P p" using True n by (simp, auto dest: in_set_takeD)
    then show ?thesis by blast
  next
    case False
    then have "a \<in> snd ` set full"
      using full_candidates_spec(5) [OF 1(1) _ a(1)] w a(2) unfolding matches_exact by metis
    then obtain c where c: "c \<in> set full" "snd c = a" by auto
    then obtain p where p: "p \<in> set results" "\<exists>t'. se_doc E (snd c) = Some t' \<and> score_candidate en E
        (normalize_for_match (ic_unicode (en_config en)) (q_text q)) (unwrap_or_default (se_tokens E (q_text q)))
        (snd c \<in> set fb) (fst c) t' = Some p"
      using list_all2_set1 [OF 1(8), of c] ys(1) by auto
    have nf: "\<not> ?P p" "hit_id (fst p) = td_id t"
      using p(2) c a(2) disj by (auto dest: score_candidate_Some(1,2))
    then have "p \<in> set (filter (\<lambda>p. \<not> ?P p) ?S)" using p(1) by simp
    then have "p \<in> set page" unfolding 1(9) top using False n by simp
    then show ?thesis using nf by blast
  qed
qed

lemma page_hit:
  assumes page: "index_search en E q = Some page" and p: "p \<in> set page"
  shows "\<exists>a\<in>live. \<exists>t. se_doc E a = Some t \<and> hit_id (fst p) = td_id t
    \<and> (if bd_lexical_fallback (snd p)
       then \<not> query_uses_operators (q_text q)
         \<and> matches (build_search_query E (en_plugins en) (en_ranking en) (q_text q) False) a
       else (matches (build_search_query E (en_plugins en) (en_ranking en) (q_text q) True) a
           \<and> (query_uses_operators (q_text q) \<longrightarrow> matches (parsed_query (en_plugins en) (q_text q) True) a))
         \<or> td_title_exact t = normalize_for_match (ic_unicode (en_config en)) (q_text q))"
  using page
proof (cases rule: index_search_cases)
  case (1 m full fb results)
  obtain ys where ys: "m = full @ ys" "map snd ys = fb" using 1(2) by blast
  have "p \<in> set results" using p unfolding 1(9) by (auto dest: in_set_takeD)
  then obtain c t where c: "c \<in> set m" "se_doc E (snd c) = Some t" and sc: "score_candidate en E
        (normalize_for_match (ic_unicode (en_config en)) (q_text q)) (unwrap_or_default (se_tokens E (q_text q)))
        (snd c \<in> set fb) (fst c) t = Some p"
    using list_all2_set2 [OF 1(8)] by blast
  note pc = score_candidate_Some [OF sc]
  have live: "snd c \<in> live" using c(1) 1(4) by auto
  show ?thesis
  proof (intro bexI [OF _ live] exI [of _ t] conjI)
    show "if bd_lexical_fallback (snd p)
       then \<not> query_uses_operators (q_text q)
         \<and> matches (build_search_query E (en_plugins en) (en_ranking en) (q_text q) False) (snd c)
       else (matches (build_search_query E (en_plugins en) (en_ranking en) (q_text q) True) (snd c)
           \<and> (query_uses_operators (q_text q) \<longrightarrow> matches (parsed_query (en_plugins en) (q_text q) True) (snd c)))
         \<or> td_title_exact t = normalize_for_match (ic_unicode (en_config en)) (q_text q)"
    proof (cases "snd c \<in> set fb")
      case True
      then have "fb \<noteq> []" by auto
      then show ?thesis using True pc(2) 1(5) [OF True] 1(6) by simp
    next
      case False
      then have "snd c \<in> snd ` set full" using c(1) ys by auto
      from full_candidates_spec(3) [OF 1(1) this] show ?thesis
        using False pc(2) c(2) operator_gate by (auto simp: matches_exact)
    qed
  qed (use c(2) pc(1) in simp_all)
qed

text \<open>The search answers whenever the engine does: the only panic is a recency time constant that is not positive.\<close>

lemma index_search_total:
  assumes "\<And>q n. se_search E q n \<noteq> None" and "\<And>a. a \<in> live \<Longrightarrow> se_doc E a \<noteq> None"
    and tau: "0 < rc_recency_tau_days (en_ranking en)"
  shows "\<exists>page. index_search en E q = Some page"
proof -
  let ?w = "normalize_for_match (ic_unicode (en_config en)) (q_text q)" and ?ts = "unwrap_or_default (se_tokens E (q_text q))"
  have "full_candidates en E q \<noteq> None"
    using assms(1) by (auto simp: full_candidates_def Let_def split: option.splits) (metis option.distinct(1))
  then obtain full where full: "full_candidates en E q = Some full" by blast
  obtain m fb where r: "refill en E q ?ts full = Some (m, fb)" and live: "snd ` set m \<subseteq> live"
  proof (cases "length full < q_limit q \<and> 2 \<le> length ?ts \<and> \<not> query_uses_operators (q_text q)")
    case True
    let ?or = "build_search_query E (en_plugins en) (en_ranking en) (q_text q) False"
    obtain extra where extra: "se_search E ?or (q_limit q) = Some extra" using assms(1) by blast
    obtain m fb where pu: "push_unseen full extra = (m, fb)" by fastforce
    have "snd ` set m \<subseteq> live"
      using push_unseen_spec [OF pu full_candidates_spec(1) [OF full]] full_candidates_spec(2) [OF full] search_hits [OF extra] by auto
    then show ?thesis using that [of m fb] True extra pu by (simp add: refill_def)
  next
    case False
    then show ?thesis using that [of full "[]"] full_candidates_spec(2) [OF full] by (auto simp: refill_def)
  qed
  have cand: "score_candidate en E ?w ?ts f s t \<noteq> None" for f s t
    using tau by (auto simp: score_candidate_def Let_def recency_mult_def)
  have "score_all en E ?w ?ts fb m \<noteq> None" using live
  proof (induction m)
    case (Cons c m)
    obtain s a where c: "c = (s, a)" by fastforce
    obtain t where t: "se_doc E a = Some t" using assms(2) [of a] Cons.prems c by auto
    obtain p where "score_candidate en E ?w ?ts (a \<in> set fb) s t = Some p" using cand by blast
    then show ?case using Cons c t by auto
  qed simp
  then show ?thesis using full r by (auto simp: index_search_def Let_def)
qed

end

text \<open>A ranking configuration whose multipliers are not negative, and the float functions it needs.\<close>

definition env_ok :: "search_env \<Rightarrow> bool" where
  "env_ok en \<longleftrightarrow>
     (\<forall>c. 0 \<le> multiplier_for (en_ranking en) c) \<and> 0 \<le> rc_exact_title_boost (en_ranking en)
     \<and> 0 \<le> rc_prefix_boost (en_ranking en) \<and> 0 \<le> rc_acronym_boost (en_ranking en)
     \<and> 0 \<le> rc_recency_weight (en_ranking en) \<and> 0 \<le> rc_coordination_boost (en_ranking en)
     \<and> (\<forall>x. 0 \<le> en_exp32 en x) \<and> (\<forall>x y. 0 \<le> en_powf32 en x y)"

lemma recency_mult_nonneg:
  "recency_mult exp32 c m n w tau = Some r \<Longrightarrow> 0 \<le> w \<Longrightarrow> (\<And>x. 0 \<le> exp32 x) \<Longrightarrow> 0 \<le> r"
  by (auto simp: recency_mult_def Let_def split: if_splits intro!: f32_add_nonneg f32_mul_nonneg)

lemma score_candidate_nonneg:
  assumes ok: "env_ok en" and s: "0 \<le> score" and p: "score_candidate en E w ts fb score t = Some p"
  shows "is_f32 (bd_final_score (snd p)) \<and> 0 \<le> bd_final_score (snd p)"
proof -
  obtain r where r: "recency_mult (en_exp32 en) (hydration_category (td_category t)) (td_mtime t) (en_now en)
      (rc_recency_weight (en_ranking en)) (rc_recency_tau_days (en_ranking en)) = Some r"
    using p by (auto simp: score_candidate_def Let_def split: option.splits)
  have r0: "0 \<le> r" using recency_mult_nonneg [OF r] ok by (auto simp: env_ok_def)
  have c0: "0 \<le> coord_mult (en_powf32 en) (en_ranking en) ts x" for x
    using ok by (auto simp: coord_mult_def env_ok_def intro!: f32_add_nonneg f32_div_nonneg)
  show ?thesis
    using p r ok s c0 r0
    by (auto simp: score_candidate_def Let_def env_ok_def exact_title_mult_def prefix_mult_def acronym_mult_def
        f32_mul_def [of score] intro!: rnd32_nonneg mult_nonneg_nonneg f32_mul_nonneg)
qed

text \<open>The index search over an engine that keeps its contract is a lexical provider for the fusion layer.\<close>

locale lexical_index = lexical_engine E matches live
  for E :: "'a searcher" and matches :: "tquery \<Rightarrow> 'a \<Rightarrow> bool" and live :: "'a set" +
  fixes en :: search_env
  assumes sane: "env_ok en"

sublocale lexical_index \<subseteq> provider: lexical_provider "index_search en E"
proof unfold_locales
  fix q lp assume "index_search en E q = Some lp"
  then show "distinct (ids_of lp)"
  proof (cases rule: index_search_cases)
    case (1 m full fallback results)
    have "distinct (ids_of results)" by (rule results_ids_distinct [OF 1(3,4,8)])
    moreover have "mset (ids_of (sort_key tier_key results)) = mset (ids_of results)" by (simp add: mset_map)
    ultimately have "distinct (ids_of (sort_key tier_key results))" using mset_eq_imp_distinct_iff by blast
    then show ?thesis unfolding 1(9) take_map [symmetric] by (rule distinct_take)
  qed
next
  fix q lp p assume "index_search en E q = Some lp" "p \<in> set lp"
  then show "is_f32 (bd_final_score (snd p)) \<and> 0 \<le> bd_final_score (snd p) \<and> hit_score (fst p) = bd_final_score (snd p)"
  proof (cases rule: index_search_cases)
    case (1 m full fallback results)
    have "p \<in> set results" using \<open>p \<in> set lp\<close> unfolding 1(9) by (auto dest: in_set_takeD)
    then obtain c t where c: "c \<in> set m" "score_candidate en E (normalize_for_match (ic_unicode (en_config en)) (q_text q))
            (unwrap_or_default (se_tokens E (q_text q))) (snd c \<in> set fallback) (fst c) t = Some p"
      using list_all2_set2 [OF 1(8)] by blast
    then show ?thesis using score_candidate_nonneg [OF sane _ c(2)] 1(7) [of "fst c"] score_candidate_Some(3) [OF c(2)] by auto
  qed
next
  fix q lp assume "index_search en E q = Some lp"
  then show "sorted_wrt (\<lambda>a b. bd_lexical_fallback (snd a) \<le> bd_lexical_fallback (snd b)
      \<and> (bd_lexical_fallback (snd a) = bd_lexical_fallback (snd b) \<longrightarrow> hit_score (fst b) \<le> hit_score (fst a))) lp"
    by (cases rule: index_search_cases) (simp only: sorted_tiers)
next
  fix q lp assume "index_search en E q = Some lp"
  then show "length lp \<le> q_limit q" by (cases rule: index_search_cases) simp
qed

context lexical_index
begin

lemma index_provides: "lexical_provider (index_search en E)"
  by (rule provider.lexical_provider_axioms)

end

section \<open>A searcher in memory\<close>

text \<open>An engine over a list of stored documents, addressed by position, that meets the contract.\<close>

definition word_tokens :: "rstring \<Rightarrow> rstring list" where
  "word_tokens s = split_whitespace (to_ascii_lowercase s)"

fun memory_matches :: "tantivy_document list \<Rightarrow> tquery \<Rightarrow> nat \<Rightarrow> bool" where
  "memory_matches ds (QParsed pc text) i =
     (let tt = word_tokens (td_title (ds ! i)); ts = word_tokens text
      in if pc_conjunctive pc then list_all (\<lambda>t. t \<in> set tt) ts else list_ex (\<lambda>t. t \<in> set tt) ts)"
| "memory_matches ds (QTerm f w) i =
     (if f = FldTitleExact then i < length ds \<and> td_title_exact (ds ! i) = w else w \<in> set (word_tokens (td_title (ds ! i))))"
| "memory_matches ds (QPrefix f w) i = list_ex (\<lambda>t. starts_with t w) (word_tokens (td_title (ds ! i)))"
| "memory_matches ds (QPhrase f ws n) i = sublist ws (word_tokens (td_title (ds ! i)))"
| "memory_matches ds (QBoost q b) i = memory_matches ds q i"
| "memory_matches ds (QBoolean cs) i \<longleftrightarrow>
     (\<forall>p\<in>set cs. fst p = Must \<longrightarrow> memory_matches ds (snd p) i)
     \<and> ((\<exists>p\<in>set cs. fst p = Must) \<or> (\<exists>p\<in>set cs. memory_matches ds (snd p) i))"

definition memory_searcher :: "tantivy_document list \<Rightarrow> nat searcher" where
  "memory_searcher ds = \<lparr>
     se_search = (\<lambda>q n. Some (map (Pair 1) (take n (filter (memory_matches ds q) [0..<length ds])))),
     se_doc = (\<lambda>i. if i < length ds then Some (ds ! i) else None),
     se_tokens = (\<lambda>s. Some (word_tokens s))\<rparr>"

definition example_stored :: "rstring \<Rightarrow> rstring \<Rightarrow> tantivy_document" where
  "example_stored i title = \<lparr>td_id = i, td_category = lit ''app'', td_title = title, td_title_exact = title,
     td_title_terms = title, td_title_initials = [], td_subtitle = [], td_icon_name = [], td_kind_label = [],
     td_body = [], td_path = [], td_mtime = 0, td_size = 0, td_action = [], td_secondary_action = [],
     td_extract_fail = False, td_sender = [], td_recipients = [], td_source_instance = [], td_mime = [], td_extras = []\<rparr>"

definition example_stored_docs :: "tantivy_document list" where
  "example_stored_docs = [example_stored (lit ''1'') (lit ''fire fox''), example_stored (lit ''2'') (lit ''fire'')]"

definition example_env :: search_env where
  "example_env = \<lparr>en_config = example_config,
     en_plugins = \<lparr>cp_extras = [], cp_query_aliases = [(lit ''folder'', lit ''maildir_folder'')], cp_default_query_fields = []\<rparr>,
     en_ranking = ranking_default, en_exp32 = (\<lambda>_. 1), en_powf32 = (\<lambda>_ _. 1), en_now = 0\<rparr>"

lemma memory_search_hits:
  assumes h: "se_search (memory_searcher ds) q n = Some hits"
  shows "hits = map (Pair 1) (take n (filter (memory_matches ds q) [0..<length ds]))"
  using h by (simp add: memory_searcher_def)

interpretation example_index: lexical_index "memory_searcher example_stored_docs" "memory_matches example_stored_docs"
  "{..<length example_stored_docs}" example_env
proof unfold_locales
  let ?ds = "example_stored_docs"
  fix q n hits assume h: "se_search (memory_searcher ?ds) q n = Some hits"
  note hits = memory_search_hits [OF h]
  show "length hits \<le> n \<and> distinct (map snd hits) \<and> snd ` set hits \<subseteq> {a \<in> {..<length ?ds}. memory_matches ?ds q a}"
    unfolding hits by (auto simp: distinct_map inj_on_def dest: in_set_takeD)
  show "length hits = n" if "a \<in> {..<length ?ds}" "memory_matches ?ds q a" "a \<notin> snd ` set hits" for a
  proof -
    let ?all = "filter (memory_matches ?ds q) [0..<length ?ds]"
    have snds: "snd ` set hits = set (take n ?all)" unfolding hits by force
    have "a \<in> set ?all" using that by simp
    then have "take n ?all \<noteq> ?all" using that(3) snds by metis
    then have "n < length ?all" by (metis not_less take_all)
    then show ?thesis unfolding hits by simp
  qed
  show "is_f32 s \<and> 0 \<le> s" if "s \<in> fst ` set hits" for s
    using that is_f32_of_int [of 1] unfolding hits by auto
next
  show "env_ok example_env"
    by (auto simp: env_ok_def example_env_def ranking_default_def multiplier_for_def rnd32_nonneg split: category.split)
next
  fix a b t t' assume "a \<in> {..<length example_stored_docs}" "b \<in> {..<length example_stored_docs}"
    "se_doc (memory_searcher example_stored_docs) a = Some t" "se_doc (memory_searcher example_stored_docs) b = Some t'"
    "td_id t = td_id t'"
  then show "a = b"
    by (auto simp: memory_searcher_def example_stored_docs_def example_stored_def lit_def less_Suc_eq nth_Cons')
qed (auto simp: memory_searcher_def)

lemma example_index_total: "\<exists>page. index_search example_env (memory_searcher example_stored_docs) q = Some page"
  by (rule example_index.index_search_total) (auto simp: memory_searcher_def example_env_def ranking_default_def)

section \<open>Properties\<close>

text \<open>
  C6: A page of lexical results. At most as many hits as asked for, no document twice, every full
  match above every partial match and best first in each tier. A full match satisfies the
  conjunctive query or has the query as its exact title; a partial match satisfies the disjunctive
  query and never appears for a query with operators; and for a query with operators everything on
  the page satisfies what the parser made of it - the prefix and phrase clauses add nothing -
  except for an exact title, which is let in past the operators.
\<close>

theorem lexical_page_sound:
  assumes eng: "lexical_index E matches live en" and page: "index_search en E q = Some page"
  shows "length page \<le> q_limit q \<and> distinct (ids_of page)
    \<and> sorted_wrt (\<lambda>a b. bd_lexical_fallback (snd a) \<le> bd_lexical_fallback (snd b)
        \<and> (bd_lexical_fallback (snd a) = bd_lexical_fallback (snd b) \<longrightarrow> hit_score (fst b) \<le> hit_score (fst a))) page
    \<and> (\<forall>p\<in>set page. \<exists>a\<in>live. \<exists>t. se_doc E a = Some t \<and> hit_id (fst p) = td_id t
        \<and> (if bd_lexical_fallback (snd p)
           then \<not> query_uses_operators (q_text q)
             \<and> matches (build_search_query E (en_plugins en) (en_ranking en) (q_text q) False) a
           else (matches (build_search_query E (en_plugins en) (en_ranking en) (q_text q) True) a
               \<and> (query_uses_operators (q_text q) \<longrightarrow> matches (parsed_query (en_plugins en) (q_text q) True) a))
             \<or> td_title_exact t = normalize_for_match (ic_unicode (en_config en)) (q_text q)))"
proof -
  note L = lexical_index.axioms(1) [OF eng] and P = lexical_index.index_provides [OF eng]
  show ?thesis
    using lexical_provider.lex_limit [OF P page] lexical_provider.lex_distinct [OF P page]
      lexical_provider.lex_tiers [OF P page] lexical_engine.page_hit [OF L page] by blast
qed

theorem lexical_page_sound_witness:
  "\<exists>page. index_search example_env (memory_searcher example_stored_docs) \<lparr>q_text = lit ''fire'', q_limit = 1\<rparr> = Some page
     \<and> length page \<le> 1"
proof -
  obtain page where p: "index_search example_env (memory_searcher example_stored_docs) \<lparr>q_text = lit ''fire'', q_limit = 1\<rparr> = Some page"
    using example_index_total by blast
  show ?thesis using lexical_page_sound [OF example_index.lexical_index_axioms p] p by auto
qed

text \<open>
  C7: An exact title is never crowded out by partial matches. If a live document's indexed title
  equals the normalised query, the page shows it as a full match, unless the page is filled to the
  limit with full matches - however low its relevance score ranks it.
\<close>

theorem exact_title_reachable:
  assumes eng: "lexical_index E matches live en" and page: "index_search en E q = Some page"
    and a: "a \<in> live" "se_doc E a = Some t"
    and w: "td_title_exact t = normalize_for_match (ic_unicode (en_config en)) (q_text q)" "td_title_exact t \<noteq> []"
  shows "(\<exists>p\<in>set page. hit_id (fst p) = td_id t \<and> \<not> bd_lexical_fallback (snd p))
    \<or> (length page = q_limit q \<and> (\<forall>p\<in>set page. \<not> bd_lexical_fallback (snd p)))"
  by (rule lexical_engine.exact_title_on_page [OF lexical_index.axioms(1) [OF eng] page a w])

theorem exact_title_reachable_witness:
  "\<exists>page. index_search example_env (memory_searcher example_stored_docs) \<lparr>q_text = lit ''fire'', q_limit = 5\<rparr> = Some page
     \<and> ((\<exists>p\<in>set page. hit_id (fst p) = lit ''2'' \<and> \<not> bd_lexical_fallback (snd p))
       \<or> (length page = 5 \<and> (\<forall>p\<in>set page. \<not> bd_lexical_fallback (snd p))))"
proof -
  let ?q = "\<lparr>q_text = lit ''fire'', q_limit = 5\<rparr>"
  obtain page where p: "index_search example_env (memory_searcher example_stored_docs) ?q = Some page"
    using example_index_total by blast
  have a: "1 \<in> {..<length example_stored_docs}"
    "se_doc (memory_searcher example_stored_docs) 1 = Some (example_stored (lit ''2'') (lit ''fire''))"
    by (simp_all add: example_stored_docs_def memory_searcher_def)
  have "normalize_for_match (ic_unicode (en_config example_env)) (lit ''fire'') = lit ''fire''" by code_simp
  then have w: "td_title_exact (example_stored (lit ''2'') (lit ''fire'')) = normalize_for_match (ic_unicode (en_config example_env)) (q_text ?q)"
    "td_title_exact (example_stored (lit ''2'') (lit ''fire'')) \<noteq> []" by (simp_all add: example_stored_def lit_def)
  show ?thesis using exact_title_reachable [OF example_index.lexical_index_axioms p a w] p by (auto simp: example_stored_def)
qed

text \<open>
  Rewriting of field aliases in a query. A leading \<open>alias:\<close> becomes the field name and the rest
  of an ASCII query without further colons is kept. But the loop works on bytes: as soon as any
  alias is registered, a query without a colon comes back as its UTF-8 bytes, each read as a
  character of its own, so it is unchanged exactly if it is ASCII - every other query is garbled
  before it reaches the parser.
\<close>

theorem alias_rewriting:
  assumes al: "aliases \<noteq> []" and nc: "58 \<notin> set text"
  shows "rewrite_query_aliases text aliases = utf8_encode text
    \<and> (rewrite_query_aliases text aliases = text \<longleftrightarrow> (\<forall>c\<in>set text. c < 128))
    \<and> (\<forall>f real_name. map_of aliases f = Some real_name \<longrightarrow> f \<noteq> [] \<longrightarrow> is_ascii_alphabetic (hd f) \<longrightarrow>
         (\<forall>c\<in>set f. is_id_byte c \<and> c < 128) \<longrightarrow>
         rewrite_query_aliases (f @ 58 # text) aliases = real_name @ 58 # utf8_encode text)"
proof -
  have "58 \<notin> set (utf8_encode text)" using nc by (simp add: utf8_encode_low)
  then have enc: "alias_loop aliases p (utf8_encode text) = utf8_encode text" for p by (rule alias_loop_no_colon)
  have scoped: "rewrite_query_aliases (f @ 58 # text) aliases = real_name @ 58 # utf8_encode text"
    if "map_of aliases f = Some real_name" "f \<noteq> []" "is_ascii_alphabetic (hd f)" "\<forall>c\<in>set f. is_id_byte c \<and> c < 128"
    for f real_name
  proof -
    have "utf8_encode f = f" using that by (intro utf8_encode_ascii) auto
    then have "utf8_encode (f @ 58 # text) = f @ 58 # utf8_encode text" by (simp add: utf8_encode_append utf8_bytes_def)
    then show ?thesis
      using alias_loop_scoped [OF that(1,2), of "utf8_encode text"] that al enc by (simp add: rewrite_query_aliases_def)
  qed
  show ?thesis using scoped al enc by (auto simp: rewrite_query_aliases_def utf8_encode_same_iff)
qed

theorem alias_rewriting_witness:
  "rewrite_query_aliases [252] [(lit ''folder'', lit ''maildir_folder'')] = [195, 188]
   \<and> rewrite_query_aliases (lit ''folder'' @ 58 # lit ''x'') [(lit ''folder'', lit ''maildir_folder'')]
       = lit ''maildir_folder'' @ 58 # lit ''x''"
proof -
  let ?al = "[(lit ''folder'', lit ''maildir_folder'')]"
  have "rewrite_query_aliases [252] ?al = utf8_encode [252]" using alias_rewriting [of ?al "[252]"] by simp
  moreover have "rewrite_query_aliases (lit ''folder'' @ 58 # lit ''x'') ?al = lit ''maildir_folder'' @ 58 # utf8_encode (lit ''x'')"
    by (rule alias_rewriting [THEN conjunct2, THEN conjunct2, THEN spec, THEN spec, THEN mp, THEN mp, THEN mp, THEN mp])
       (simp_all add: lit_def is_id_byte_def is_ascii_alphabetic_def)
  ultimately show ?thesis by (simp add: utf8_bytes_def lit_def)
qed

text \<open>
  The plugin schema. It compiles exactly if no two fields share a schema name and no two share
  a query alias, across all plugins; then the compiled map has every declared field under its own
  name, in name order whatever the order of declaration, and every alias leads to the field that
  declared it.
\<close>

lemma plugin_schema_compiles:
  fixes by_kind :: "(rstring \<times> plugin_field_spec list) list"
  shows "let fields = concat (map snd by_kind) in
    (\<exists>cp. add_plugin_fields_to_schema by_kind = Inr cp) \<longleftrightarrow>
      distinct (map pf_schema_name fields) \<and> distinct (declared_aliases fields)"
    and "add_plugin_fields_to_schema by_kind = Inr cp \<Longrightarrow>
      sorted (map fst (cp_extras cp)) \<and> set (cp_extras cp) = (\<lambda>s. (pf_schema_name s, s)) ` set (concat (map snd by_kind))
      \<and> (\<forall>s\<in>set (concat (map snd by_kind)). map_of (cp_extras cp) (pf_schema_name s) = Some s
          \<and> (\<forall>al. pf_query_alias s = Some al \<longrightarrow> (al, pf_schema_name s) \<in> set (cp_query_aliases cp)))"
proof -
  let ?xs = "concat (map (\<lambda>(kind, specs). map (Pair kind) specs) by_kind)" and ?fields = "concat (map snd by_kind)"
  have snds: "map snd ?xs = ?fields" by (induction by_kind) (auto simp: comp_def)
  have names: "map (\<lambda>p. pf_schema_name (snd p)) ?xs = map pf_schema_name ?fields"
    unfolding snds [symmetric] by simp
  note cf = collect_fields_Inr [of "[]" "[]" ?xs, unfolded snds names]
  have ok: "(\<exists>cp. add_plugin_fields_to_schema by_kind = Inr cp) \<longleftrightarrow> (\<exists>specs. collect_fields [] [] ?xs = Inr specs)"
    by (simp add: add_plugin_fields_to_schema_def Let_def split: sum.splits)
  show "let fields = ?fields in (\<exists>cp. add_plugin_fields_to_schema by_kind = Inr cp) \<longleftrightarrow>
      distinct (map pf_schema_name fields) \<and> distinct (declared_aliases fields)"
    unfolding Let_def ok cf by simp
  assume cp: "add_plugin_fields_to_schema by_kind = Inr cp"
  then obtain specs where specs: "collect_fields [] [] ?xs = Inr specs" using ok by blast
  then have s: "specs = ?fields" and d: "distinct (map pf_schema_name ?fields)" using cf by auto
  have ex: "cp_extras cp = map (\<lambda>s. (pf_schema_name s, s)) (sort_key pf_schema_name ?fields)"
    and al: "cp_query_aliases cp = List.map_filter (\<lambda>s. map_option (\<lambda>al. (al, pf_schema_name s)) (pf_query_alias s))
        (sort_key pf_schema_name ?fields)"
    using cp specs s by (auto simp: add_plugin_fields_to_schema_def Let_def)
  have fsts: "map fst (cp_extras cp) = map pf_schema_name (sort_key pf_schema_name ?fields)" unfolding ex by simp
  have "mset (map pf_schema_name (sort_key pf_schema_name ?fields)) = mset (map pf_schema_name ?fields)" by (simp add: mset_map)
  then have dd: "distinct (map fst (cp_extras cp))" unfolding fsts using d mset_eq_imp_distinct_iff by blast
  have "map_of (cp_extras cp) (pf_schema_name x) = Some x" if "x \<in> set ?fields" for x
    using that by (intro map_of_is_SomeI [OF dd]) (auto simp: ex)
  moreover have "(a, pf_schema_name x) \<in> set (cp_query_aliases cp)" if "x \<in> set ?fields" "pf_query_alias x = Some a" for x a
    using that unfolding al set_map_filter by force
  moreover have "sorted (map fst (cp_extras cp))" unfolding fsts by (rule sorted_sort_key)
  moreover have "set (cp_extras cp) = (\<lambda>s. (pf_schema_name s, s)) ` set ?fields" unfolding ex by simp
  ultimately show "sorted (map fst (cp_extras cp)) \<and> set (cp_extras cp) = (\<lambda>s. (pf_schema_name s, s)) ` set ?fields
      \<and> (\<forall>s\<in>set ?fields. map_of (cp_extras cp) (pf_schema_name s) = Some s
          \<and> (\<forall>al. pf_query_alias s = Some al \<longrightarrow> (al, pf_schema_name s) \<in> set (cp_query_aliases cp)))"
    by blast
qed

end
