(* ===== verification/Index_Writer.thy ===== *)
theory Index_Writer
  imports Index_Store
begin

text \<open>
  The index writer service (\<^verbatim>\<open>crates/lixun-indexer/src/index_service.rs\<close>): one task owns the writer,
  applies mutations from a channel in order, commits on a timer or on request, acknowledges
  barriers, remembers subtree deletions until the next commit, and hands every committed batch to
  the broadcaster; on shutdown it drains the channel and commits once more. Also the bounded
  result cache of the search handle.

  One-shot reply channels are numbered; \<open>ws_replies\<close> and \<open>ws_applied\<close> record what was sent on them,
  \<open>ws_broadcasts\<close> the batches handed to the broadcaster, \<open>ws_failed\<close> the documents whose write was
  refused (logged as a warning). Whether the minimum commit interval has passed at a tick is part of the event.
\<close>

section \<open>Mutations and the state of the writer\<close>

datatype mutation =
    Upsert document
  | Delete doc_id
  | UpsertMany "document list"
  | DeleteMany "doc_id list"
  | DeleteSubtree rstring
  | DeleteSourceInstance rstring
  | UpsertBody doc_id rstring "int option"
  | Barrier nat
  | Applied nat
  | Shutdown
  | CommitNow nat

record upserted_doc =
  ud_doc_id :: doc_id
  ud_source_instance :: rstring
  ud_mtime :: int
  ud_mime :: "rstring option"
  ud_body :: "rstring option"

record mutation_batch =
  mb_upserts :: "upserted_doc list"
  mb_deletes :: "doc_id list"
  mb_generation :: nat

definition batch_default :: mutation_batch where
  "batch_default = \<lparr>mb_upserts = [], mb_deletes = [], mb_generation = 0\<rparr>"

definition batch_is_empty :: "mutation_batch \<Rightarrow> bool" where
  "batch_is_empty b \<longleftrightarrow> mb_upserts b = [] \<and> mb_deletes b = []"

record 't writer_state =
  ws_index :: "'t lixun_index"
  ws_dirty :: bool
  ws_generation :: nat
  ws_barriers :: "nat list"
  ws_batch :: mutation_batch
  ws_tombstones :: "rstring list"
  ws_replies :: "(nat \<times> nat) list"
  ws_applied :: "nat list"
  ws_broadcasts :: "mutation_batch list"
  ws_failed :: "doc_id list"

definition writer_start :: "'t lixun_index \<Rightarrow> 't writer_state" where
  "writer_start ix = \<lparr>ws_index = ix, ws_dirty = False, ws_generation = 0, ws_barriers = [],
     ws_batch = batch_default, ws_tombstones = [], ws_replies = [], ws_applied = [],
     ws_broadcasts = [], ws_failed = []\<rparr>"

section \<open>Helpers\<close>

definition id_in_subtree :: "rstring \<Rightarrow> rstring \<Rightarrow> bool" where
  "id_in_subtree i p =
     (if i = p then True
      else case strip_prefix i p of
             Some rest \<Rightarrow> starts_with rest [ch CHR ''/'']
           | None \<Rightarrow> False)"

definition id_tombstoned :: "rstring \<Rightarrow> rstring list \<Rightarrow> bool" where
  "id_tombstoned i tombstones = list_ex (id_in_subtree i) tombstones"

definition collect_subtree_ids :: "'t tantivy \<Rightarrow> 't lixun_index \<Rightarrow> mutation_batch \<Rightarrow> rstring \<Rightarrow> doc_id list" where
  "collect_subtree_ids T ix batch p =
     remdups_adj (sort
       ((case all_doc_ids T ix of Some ids \<Rightarrow> filter (\<lambda>i. id_in_subtree i p) ids | None \<Rightarrow> [])
        @ map ud_doc_id (filter (\<lambda>u. id_in_subtree (ud_doc_id u) p) (mb_upserts batch))))"

definition upserted_doc_from :: "document \<Rightarrow> upserted_doc" where
  "upserted_doc_from d = \<lparr>ud_doc_id = doc_id d, ud_source_instance = doc_source_instance d,
     ud_mtime = doc_mtime d, ud_mime = doc_mime d, ud_body = doc_body d\<rparr>"

definition push_upsert :: "document \<Rightarrow> 't writer_state \<Rightarrow> 't writer_state" where
  "push_upsert d ws = ws\<lparr>ws_batch := (ws_batch ws)\<lparr>mb_upserts := mb_upserts (ws_batch ws) @ [upserted_doc_from d]\<rparr>\<rparr>"

definition push_delete :: "doc_id \<Rightarrow> 't writer_state \<Rightarrow> 't writer_state" where
  "push_delete i ws = ws\<lparr>ws_batch := (ws_batch ws)\<lparr>mb_deletes := mb_deletes (ws_batch ws) @ [i]\<rparr>\<rparr>"

text \<open>The result: an error, a skip, or the document written.\<close>

definition apply_upsert_body ::
  "'t tantivy \<Rightarrow> index_config \<Rightarrow> mutation_batch \<Rightarrow> doc_id \<Rightarrow> rstring \<Rightarrow> int option \<Rightarrow> 't lixun_index
     \<Rightarrow> 't lixun_index \<times> document option option" where
  "apply_upsert_body T cfg batch i body expected_mtime ix =
     (case get_doc_by_id T cfg ix i of
        None \<Rightarrow> (ix, None)
      | Some None \<Rightarrow> (ix, Some None)
      | Some (Some d) \<Rightarrow>
          if (case expected_mtime of
                None \<Rightarrow> False
              | Some expected \<Rightarrow>
                  expected < doc_mtime d
                  \<or> list_ex (\<lambda>u. ud_doc_id u = i \<and> expected < ud_mtime u) (mb_upserts batch))
          then (ix, Some None)
          else
            (let d' = d\<lparr>doc_body := Some body\<rparr>
             in case upsert_doc T cfg d' ix of
                  (ix', ok) \<Rightarrow> (ix', if ok then Some (Some d') else None)))"

text \<open>Commit, reload, then the acknowledgements; an error leaves everything after it undone.\<close>

definition do_commit :: "'t tantivy \<Rightarrow> 't writer_state \<Rightarrow> 't writer_state \<times> bool" where
  "do_commit T ws =
     (case commit_index T (ws_index ws) of
        (ix1, False) \<Rightarrow> (ws\<lparr>ws_index := ix1\<rparr>, False)
      | (ix1, True) \<Rightarrow>
          (case reload_index T ix1 of
             (ix2, False) \<Rightarrow> (ws\<lparr>ws_index := ix2\<rparr>, False)
           | (ix2, True) \<Rightarrow>
               (let generation = (ws_generation ws + 1) mod 2 ^ 64
                in (ws\<lparr>ws_index := ix2, ws_generation := generation, ws_dirty := False, ws_tombstones := [],
                       ws_replies := ws_replies ws @ map (\<lambda>r. (r, generation)) (ws_barriers ws),
                       ws_barriers := []\<rparr>, True))))"

definition flush_post_commit :: "'t writer_state \<Rightarrow> 't writer_state" where
  "flush_post_commit ws =
     (if batch_is_empty (ws_batch ws) then ws
      else ws\<lparr>ws_broadcasts := ws_broadcasts ws @ [(ws_batch ws)\<lparr>mb_generation := ws_generation ws\<rparr>],
              ws_batch := batch_default\<rparr>)"

definition commit_and_flush :: "'t tantivy \<Rightarrow> 't writer_state \<Rightarrow> 't writer_state" where
  "commit_and_flush T ws = (case do_commit T ws of (ws', ok) \<Rightarrow> if ok then flush_post_commit ws' else ws')"

section \<open>The loop\<close>

definition upsert_one :: "'t tantivy \<Rightarrow> index_config \<Rightarrow> document \<Rightarrow> 't writer_state \<Rightarrow> 't writer_state" where
  "upsert_one T cfg d ws =
     (if id_tombstoned (doc_id d) (ws_tombstones ws) then ws
      else case upsert_doc T cfg d (ws_index ws) of
             (ix, False) \<Rightarrow> ws\<lparr>ws_index := ix, ws_failed := doc_id d # ws_failed ws\<rparr>
           | (ix, True) \<Rightarrow> push_upsert d (ws\<lparr>ws_index := ix, ws_dirty := True\<rparr>))"

definition delete_one :: "'t tantivy \<Rightarrow> doc_id \<Rightarrow> 't writer_state \<Rightarrow> 't writer_state" where
  "delete_one T i ws =
     (case delete_by_id T i (ws_index ws) of
        (ix, False) \<Rightarrow> ws\<lparr>ws_index := ix\<rparr>
      | (ix, True) \<Rightarrow> push_delete i (ws\<lparr>ws_index := ix, ws_dirty := True\<rparr>))"

definition delete_subtree :: "'t tantivy \<Rightarrow> rstring \<Rightarrow> 't writer_state \<Rightarrow> 't writer_state" where
  "delete_subtree T p ws =
     (let matched = collect_subtree_ids T (ws_index ws) (ws_batch ws) p;
          ws1 = ws\<lparr>ws_batch := (ws_batch ws)\<lparr>mb_upserts :=
                     filter (\<lambda>u. \<not> id_in_subtree (ud_doc_id u) p) (mb_upserts (ws_batch ws))\<rparr>\<rparr>;
          ws2 = fold (delete_one T) matched ws1
      in if p \<in> set (ws_tombstones ws2) then ws2 else ws2\<lparr>ws_tombstones := ws_tombstones ws2 @ [p]\<rparr>)"

definition upsert_body :: "'t tantivy \<Rightarrow> index_config \<Rightarrow> doc_id \<Rightarrow> rstring \<Rightarrow> int option \<Rightarrow> 't writer_state \<Rightarrow> 't writer_state" where
  "upsert_body T cfg i body m ws =
     (if id_tombstoned i (ws_tombstones ws) then ws
      else case apply_upsert_body T cfg (ws_batch ws) i body m (ws_index ws) of
             (ix, Some (Some updated)) \<Rightarrow> push_upsert updated (ws\<lparr>ws_index := ix, ws_dirty := True\<rparr>)
           | (ix, Some None) \<Rightarrow> ws\<lparr>ws_index := ix\<rparr>
           | (ix, None) \<Rightarrow> ws\<lparr>ws_index := ix, ws_failed := i # ws_failed ws\<rparr>)"

text \<open>One arm of the \<^verbatim>\<open>match\<close> in the loop (\<open>Shutdown\<close> leaves it, see \<open>writer_loop\<close>).\<close>

definition handle_mutation :: "'t tantivy \<Rightarrow> index_config \<Rightarrow> mutation \<Rightarrow> 't writer_state \<Rightarrow> 't writer_state" where
  "handle_mutation T cfg m ws =
     (case m of
        Shutdown \<Rightarrow> ws
      | Barrier r \<Rightarrow>
          if \<not> ws_dirty ws then ws\<lparr>ws_replies := ws_replies ws @ [(r, ws_generation ws)]\<rparr>
          else ws\<lparr>ws_barriers := ws_barriers ws @ [r]\<rparr>
      | Applied r \<Rightarrow> ws\<lparr>ws_applied := ws_applied ws @ [r]\<rparr>
      | CommitNow r \<Rightarrow> commit_and_flush T (ws\<lparr>ws_barriers := ws_barriers ws @ [r]\<rparr>)
      | Upsert d \<Rightarrow> upsert_one T cfg d ws
      | UpsertMany ds \<Rightarrow> fold (upsert_one T cfg) ds ws
      | Delete i \<Rightarrow> delete_one T i ws
      | DeleteMany ids \<Rightarrow> fold (delete_one T) ids ws
      | DeleteSubtree p \<Rightarrow> delete_subtree T p ws
      | DeleteSourceInstance src \<Rightarrow>
          (case delete_by_source_instance T src (ws_index ws) of
             (ix, False) \<Rightarrow> ws\<lparr>ws_index := ix\<rparr>
           | (ix, True) \<Rightarrow> ws\<lparr>ws_index := ix, ws_dirty := True\<rparr>)
      | UpsertBody i body mt \<Rightarrow> upsert_body T cfg i body mt ws)"

definition commit_tick :: "'t tantivy \<Rightarrow> bool \<Rightarrow> 't writer_state \<Rightarrow> 't writer_state" where
  "commit_tick T interval_passed ws = (if ws_dirty ws \<and> interval_passed then commit_and_flush T ws else ws)"

section \<open>Shutdown\<close>

text \<open>The drain loop differs from the main loop: most arms set the dirty flag also when nothing was applied.\<close>

definition drain_upsert :: "'t tantivy \<Rightarrow> index_config \<Rightarrow> document \<Rightarrow> 't writer_state \<Rightarrow> 't writer_state" where
  "drain_upsert T cfg d ws =
     (if id_tombstoned (doc_id d) (ws_tombstones ws) then ws\<lparr>ws_dirty := True\<rparr>
      else case upsert_doc T cfg d (ws_index ws) of
             (ix, ok) \<Rightarrow>
               (let ws1 = ws\<lparr>ws_index := ix, ws_dirty := True\<rparr>
                in if ok then push_upsert d ws1 else ws1))"

definition drain_delete :: "'t tantivy \<Rightarrow> doc_id \<Rightarrow> 't writer_state \<Rightarrow> 't writer_state" where
  "drain_delete T i ws =
     (case delete_by_id T i (ws_index ws) of
        (ix, ok) \<Rightarrow>
          (let ws1 = ws\<lparr>ws_index := ix, ws_dirty := True\<rparr>
           in if ok then push_delete i ws1 else ws1))"

definition drain_mutation :: "'t tantivy \<Rightarrow> index_config \<Rightarrow> mutation \<Rightarrow> 't writer_state \<Rightarrow> 't writer_state" where
  "drain_mutation T cfg m ws =
     (case m of
        Upsert d \<Rightarrow> drain_upsert T cfg d ws
      | UpsertMany ds \<Rightarrow> fold (drain_upsert T cfg) ds ws
      | Delete i \<Rightarrow> drain_delete T i ws
      | DeleteMany ids \<Rightarrow> fold (drain_delete T) ids ws
      | DeleteSubtree p \<Rightarrow>
          (let matched = collect_subtree_ids T (ws_index ws) (ws_batch ws) p;
               ws1 = ws\<lparr>ws_batch := (ws_batch ws)\<lparr>mb_upserts :=
                          filter (\<lambda>u. \<not> id_in_subtree (ud_doc_id u) p) (mb_upserts (ws_batch ws))\<rparr>\<rparr>;
               ws2 = fold (drain_delete T) matched ws1
           in if p \<in> set (ws_tombstones ws2) then ws2 else ws2\<lparr>ws_tombstones := ws_tombstones ws2 @ [p]\<rparr>)
      | DeleteSourceInstance src \<Rightarrow>
          ws\<lparr>ws_index := fst (delete_by_source_instance T src (ws_index ws)), ws_dirty := True\<rparr>
      | UpsertBody i body mt \<Rightarrow>
          if id_tombstoned i (ws_tombstones ws) then ws
          else (case apply_upsert_body T cfg (ws_batch ws) i body mt (ws_index ws) of
                  (ix, Some (Some updated)) \<Rightarrow> push_upsert updated (ws\<lparr>ws_index := ix, ws_dirty := True\<rparr>)
                | (ix, _) \<Rightarrow> ws\<lparr>ws_index := ix\<rparr>)
      | Barrier r \<Rightarrow> ws\<lparr>ws_barriers := ws_barriers ws @ [r]\<rparr>
      | Applied r \<Rightarrow> ws\<lparr>ws_applied := ws_applied ws @ [r]\<rparr>
      | CommitNow r \<Rightarrow> ws\<lparr>ws_barriers := ws_barriers ws @ [r]\<rparr>
      | Shutdown \<Rightarrow> ws)"

text \<open>The last commit: its outcome is ignored, the batch is broadcast and every waiter answered.\<close>

definition final_commit :: "'t tantivy \<Rightarrow> 't writer_state \<Rightarrow> 't writer_state" where
  "final_commit T ws =
     (let ws1 = (if ws_dirty ws then flush_post_commit (fst (do_commit T ws)) else ws)
      in ws1\<lparr>ws_replies := ws_replies ws1 @ map (\<lambda>r. (r, ws_generation ws1)) (ws_barriers ws1), ws_barriers := []\<rparr>)"

definition shutdown_writer :: "'t tantivy \<Rightarrow> index_config \<Rightarrow> mutation list \<Rightarrow> 't writer_state \<Rightarrow> 't writer_state" where
  "shutdown_writer T cfg queue ws = final_commit T (fold (drain_mutation T cfg) queue ws)"

datatype writer_event = Recv mutation | Tick bool

definition writer_step :: "'t tantivy \<Rightarrow> index_config \<Rightarrow> writer_event \<Rightarrow> 't writer_state \<Rightarrow> 't writer_state" where
  "writer_step T cfg ev ws = (case ev of Recv m \<Rightarrow> handle_mutation T cfg m ws | Tick b \<Rightarrow> commit_tick T b ws)"

fun queued :: "writer_event list \<Rightarrow> mutation list" where
  "queued [] = []"
| "queued (Recv m # evs) = m # queued evs"
| "queued (Tick b # evs) = queued evs"

text \<open>The task: events in the order the loop takes them, until a shutdown or the closed channel.\<close>

fun writer_loop :: "'t tantivy \<Rightarrow> index_config \<Rightarrow> writer_event list \<Rightarrow> 't writer_state \<Rightarrow> 't writer_state" where
  "writer_loop T cfg [] ws = shutdown_writer T cfg [] ws"
| "writer_loop T cfg (Recv Shutdown # evs) ws = shutdown_writer T cfg (queued evs) ws"
| "writer_loop T cfg (ev # evs) ws = writer_loop T cfg evs (writer_step T cfg ev ws)"

section \<open>The result cache\<close>






section \<open>Lemmas: helpers\<close>

lemma set_collect_subtree_ids:
  "set (collect_subtree_ids T ix b p) =
     {i. id_in_subtree i p \<and> ((\<exists>ids. all_doc_ids T ix = Some ids \<and> i \<in> set ids) \<or> i \<in> ud_doc_id ` set (mb_upserts b))}"
  by (auto simp: collect_subtree_ids_def split: option.splits)

lemma push_simps [simp]:
  "ws_index (push_upsert d ws) = ws_index ws" "ws_dirty (push_upsert d ws) = ws_dirty ws"
  "ws_tombstones (push_upsert d ws) = ws_tombstones ws" "ws_failed (push_upsert d ws) = ws_failed ws"
  "ws_generation (push_upsert d ws) = ws_generation ws" "ws_replies (push_upsert d ws) = ws_replies ws"
  "ws_barriers (push_upsert d ws) = ws_barriers ws"
  "mb_upserts (ws_batch (push_upsert d ws)) = mb_upserts (ws_batch ws) @ [upserted_doc_from d]"
  "ws_index (push_delete i ws) = ws_index ws" "ws_dirty (push_delete i ws) = ws_dirty ws"
  "ws_tombstones (push_delete i ws) = ws_tombstones ws" "ws_failed (push_delete i ws) = ws_failed ws"
  "ws_generation (push_delete i ws) = ws_generation ws" "ws_replies (push_delete i ws) = ws_replies ws"
  "ws_barriers (push_delete i ws) = ws_barriers ws"
  "mb_upserts (ws_batch (push_delete i ws)) = mb_upserts (ws_batch ws)"
  by (simp_all add: push_upsert_def push_delete_def)

lemma upserted_doc_from_id [simp]: "ud_doc_id (upserted_doc_from d) = doc_id d"
  by (simp add: upserted_doc_from_def)

lemma flush_simps [simp]:
  "ws_index (flush_post_commit ws) = ws_index ws" "ws_dirty (flush_post_commit ws) = ws_dirty ws"
  "ws_tombstones (flush_post_commit ws) = ws_tombstones ws" "ws_failed (flush_post_commit ws) = ws_failed ws"
  "ws_generation (flush_post_commit ws) = ws_generation ws" "ws_replies (flush_post_commit ws) = ws_replies ws"
  "ws_barriers (flush_post_commit ws) = ws_barriers ws" "mb_upserts (ws_batch (flush_post_commit ws)) = []"
  by (simp_all add: flush_post_commit_def batch_is_empty_def batch_default_def)

text \<open>
  The invariant of the writer, over the engine's views: what is staged but not visible is in the
  pending batch; nothing staged or pending lies under a tombstone; and while no write has failed,
  a clean writer has nothing staged that is not visible.
\<close>

definition writer_inv ::
  "('t \<Rightarrow> tantivy_document list) \<Rightarrow> ('t \<Rightarrow> tantivy_document list) \<Rightarrow> 't writer_state \<Rightarrow> bool" where
  "writer_inv staged visible ws \<longleftrightarrow>
     td_id ` set (staged (lx_engine (ws_index ws)))
       \<subseteq> td_id ` set (visible (lx_engine (ws_index ws))) \<union> ud_doc_id ` set (mb_upserts (ws_batch ws))
     \<and> (\<forall>p\<in>set (ws_tombstones ws).
          (\<forall>t\<in>set (staged (lx_engine (ws_index ws))). \<not> id_in_subtree (td_id t) p)
          \<and> (\<forall>u\<in>set (mb_upserts (ws_batch ws)). \<not> id_in_subtree (ud_doc_id u) p))
     \<and> (ws_failed ws = [] \<and> \<not> ws_dirty ws \<longrightarrow>
          visible (lx_engine (ws_index ws)) = staged (lx_engine (ws_index ws)))"

lemma writer_inv_fewer_tombstones:
  assumes "writer_inv staged visible (ws\<lparr>ws_tombstones := ts\<rparr>)" and "set (ws_tombstones ws) \<subseteq> set ts"
  shows "writer_inv staged visible ws"
  using assms unfolding writer_inv_def by (simp add: subset_iff)

lemma delete_one_eq:
  "delete_one T i ws = push_delete i (ws\<lparr>ws_index := fst (delete_by_id T i (ws_index ws)), ws_dirty := True\<rparr>)"
  by (simp add: delete_one_def delete_by_id_def)

lemma not_tombstonedD: "\<not> id_tombstoned i ps \<Longrightarrow> p \<in> set ps \<Longrightarrow> \<not> id_in_subtree i p"
  by (auto simp: id_tombstoned_def list_ex_iff)

context tantivy_engine
begin

lemma delete_one_fields:
  "S (ws_index (delete_one T i ws)) = filter (\<lambda>t. td_id t \<noteq> i) (S (ws_index ws))"
  "V (ws_index (delete_one T i ws)) = V (ws_index ws)" "ws_dirty (delete_one T i ws)"
  "ws_tombstones (delete_one T i ws) = ws_tombstones ws" "ws_failed (delete_one T i ws) = ws_failed ws"
  "mb_upserts (ws_batch (delete_one T i ws)) = mb_upserts (ws_batch ws)"
  "ws_replies (delete_one T i ws) = ws_replies ws"
  by (simp_all add: delete_one_eq delete_views)

lemma fold_delete_fields:
  "S (ws_index (fold (delete_one T) ids ws)) = filter (\<lambda>t. td_id t \<notin> set ids) (S (ws_index ws))"
  "V (ws_index (fold (delete_one T) ids ws)) = V (ws_index ws)"
  "ws_dirty (fold (delete_one T) ids ws) \<longleftrightarrow> ws_dirty ws \<or> ids \<noteq> []"
  "ws_tombstones (fold (delete_one T) ids ws) = ws_tombstones ws"
  "ws_failed (fold (delete_one T) ids ws) = ws_failed ws"
  "mb_upserts (ws_batch (fold (delete_one T) ids ws)) = mb_upserts (ws_batch ws)"
  "ws_replies (fold (delete_one T) ids ws) = ws_replies ws"
  by (induction ids arbitrary: ws) (simp_all add: delete_one_fields conj_commute)

lemma delete_one_inv: "writer_inv staged visible ws \<Longrightarrow> writer_inv staged visible (delete_one T i ws)"
  unfolding writer_inv_def using delete_one_fields(3) [of i ws] by (auto simp: delete_one_fields(1,2,4,5,6))

lemma upsert_doc_cases:
  obtains (refused) "snd (upsert_doc T cfg d ix) = False"
      "S (fst (upsert_doc T cfg d ix)) = filter (\<lambda>t. td_id t \<noteq> doc_id d) (S ix)"
  | (written) t where "snd (upsert_doc T cfg d ix) = True" "build_tdoc cfg d = Some t" "td_id t = doc_id d"
      "S (fst (upsert_doc T cfg d ix)) = filter (\<lambda>t. td_id t \<noteq> doc_id d) (S ix) @ [t]"
proof (cases "snd (upsert_doc T cfg d ix)")
  case True
  then obtain t where t: "build_tdoc cfg d = Some t" using upsert_doc_views(4) [of cfg d ix] by (cases "build_tdoc cfg d") auto
  then show thesis using written [of t] True build_tdoc_id [OF t] upsert_doc_views(1) [of cfg d ix] by simp
next
  case False
  then show thesis using refused upsert_doc_views(1) [of cfg d ix] by (simp split: option.splits)
qed

lemma upsert_one_inv:
  assumes inv: "writer_inv staged visible ws"
  shows "writer_inv staged visible (upsert_one T cfg d ws)"
proof (cases "id_tombstoned (doc_id d) (ws_tombstones ws)")
  case True
  then show ?thesis using inv by (simp add: upsert_one_def)
next
  case False
  note nt = not_tombstonedD [OF False]
  obtain ix ok where up: "upsert_doc T cfg d (ws_index ws) = (ix, ok)" by fastforce
  have v: "V ix = V (ws_index ws)" using upsert_doc_views(3) [of cfg d "ws_index ws"] up by simp
  show ?thesis
  proof (cases rule: upsert_doc_cases [of cfg d "ws_index ws"])
    case refused
    then have "upsert_one T cfg d ws = ws\<lparr>ws_index := ix, ws_failed := doc_id d # ws_failed ws\<rparr>"
      using False up by (simp add: upsert_one_def)
    then show ?thesis using inv refused v up unfolding writer_inv_def by auto
  next
    case (written t)
    then have "upsert_one T cfg d ws = push_upsert d (ws\<lparr>ws_index := ix, ws_dirty := True\<rparr>)"
      using False up by (simp add: upsert_one_def)
    then show ?thesis using inv written v up nt unfolding writer_inv_def by auto
  qed
qed

lemma delete_subtree_inv:
  assumes inv: "writer_inv staged visible ws" and lst: "all_doc_ids T (ws_index ws) \<noteq> None"
  shows "writer_inv staged visible (delete_subtree T p ws) \<and> p \<in> set (ws_tombstones (delete_subtree T p ws))"
proof -
  let ?m = "collect_subtree_ids T (ws_index ws) (ws_batch ws) p"
  let ?ws1 = "ws\<lparr>ws_batch := (ws_batch ws)\<lparr>mb_upserts :=
      filter (\<lambda>u. \<not> id_in_subtree (ud_doc_id u) p) (mb_upserts (ws_batch ws))\<rparr>\<rparr>"
  let ?ws2 = "fold (delete_one T) ?m ?ws1"
  obtain ids where ids: "all_doc_ids T (ws_index ws) = Some ids" using lst by blast
  note vis = all_doc_ids_visible [OF ids]
  note f = fold_delete_fields [of ?m ?ws1]
  have sub: "td_id ` set (S (ws_index ws)) \<subseteq> td_id ` set (V (ws_index ws)) \<union> ud_doc_id ` set (mb_upserts (ws_batch ws))"
    using inv by (simp add: writer_inv_def)
  have m: "set ?m = {i. id_in_subtree i p \<and> (i \<in> td_id ` set (V (ws_index ws)) \<or> i \<in> ud_doc_id ` set (mb_upserts (ws_batch ws)))}"
    unfolding set_collect_subtree_ids ids using vis by auto
  have gone: "\<not> id_in_subtree (td_id t) p" if "t \<in> set (S (ws_index ?ws2))" for t
    using that sub unfolding f m by auto
  have clean: "visible (lx_engine (ws_index ?ws2)) = staged (lx_engine (ws_index ?ws2))"
    if "ws_failed ws = []" "\<not> ws_dirty ws" "?m = []"
    using inv that unfolding f by (simp add: writer_inv_def)
  have "writer_inv staged visible (?ws2\<lparr>ws_tombstones := ws_tombstones ws @ [p]\<rparr>)"
    unfolding writer_inv_def
  proof (intro conjI)
    show "td_id ` set (S (ws_index (?ws2\<lparr>ws_tombstones := ws_tombstones ws @ [p]\<rparr>)))
        \<subseteq> td_id ` set (V (ws_index (?ws2\<lparr>ws_tombstones := ws_tombstones ws @ [p]\<rparr>)))
          \<union> ud_doc_id ` set (mb_upserts (ws_batch (?ws2\<lparr>ws_tombstones := ws_tombstones ws @ [p]\<rparr>)))"
      using sub by (auto simp: f m)
    show "\<forall>p'\<in>set (ws_tombstones (?ws2\<lparr>ws_tombstones := ws_tombstones ws @ [p]\<rparr>)).
        (\<forall>t\<in>set (S (ws_index (?ws2\<lparr>ws_tombstones := ws_tombstones ws @ [p]\<rparr>))). \<not> id_in_subtree (td_id t) p')
        \<and> (\<forall>u\<in>set (mb_upserts (ws_batch (?ws2\<lparr>ws_tombstones := ws_tombstones ws @ [p]\<rparr>))). \<not> id_in_subtree (ud_doc_id u) p')"
    proof
      fix p' assume p': "p' \<in> set (ws_tombstones (?ws2\<lparr>ws_tombstones := ws_tombstones ws @ [p]\<rparr>))"
      show "(\<forall>t\<in>set (S (ws_index (?ws2\<lparr>ws_tombstones := ws_tombstones ws @ [p]\<rparr>))). \<not> id_in_subtree (td_id t) p')
        \<and> (\<forall>u\<in>set (mb_upserts (ws_batch (?ws2\<lparr>ws_tombstones := ws_tombstones ws @ [p]\<rparr>))). \<not> id_in_subtree (ud_doc_id u) p')"
      proof (cases "p' = p")
        case True
        then show ?thesis using gone by (simp add: f(6))
      next
        case False
        then have "p' \<in> set (ws_tombstones ws)" using p' by simp
        then show ?thesis using inv by (simp add: f(1,6) writer_inv_def)
      qed
    qed
    show "ws_failed (?ws2\<lparr>ws_tombstones := ws_tombstones ws @ [p]\<rparr>) = [] \<and> \<not> ws_dirty (?ws2\<lparr>ws_tombstones := ws_tombstones ws @ [p]\<rparr>) \<longrightarrow>
        V (ws_index (?ws2\<lparr>ws_tombstones := ws_tombstones ws @ [p]\<rparr>)) = S (ws_index (?ws2\<lparr>ws_tombstones := ws_tombstones ws @ [p]\<rparr>))"
      using clean by (auto simp: f(3,5))
  qed
  moreover have "delete_subtree T p ws = (if p \<in> set (ws_tombstones ws) then ?ws2 else ?ws2\<lparr>ws_tombstones := ws_tombstones ws @ [p]\<rparr>)"
    by (simp add: delete_subtree_def Let_def f(4))
  moreover have "writer_inv staged visible ?ws2" if "p \<in> set (ws_tombstones ws)"
    by (rule writer_inv_fewer_tombstones [OF \<open>writer_inv staged visible (?ws2\<lparr>ws_tombstones := ws_tombstones ws @ [p]\<rparr>)\<close>])
       (auto simp: f(4))
  ultimately show ?thesis using f(4) by (simp split: if_split)
qed

lemma get_doc_found:
  assumes "get_doc_by_id T cfg ix i = Some (Some d)"
  shows "doc_id d = i \<and> (\<exists>t\<in>set (V ix). td_id t = i \<and> d = doc_from_tantivy cfg t)"
proof -
  obtain t where t: "tv_find_id T (lx_engine ix) i = Some (Some t)" "d = doc_from_tantivy cfg t"
    using assms by (auto simp: get_doc_by_id_def)
  then show ?thesis using find_hit [OF t(1)] by (auto simp: doc_from_tantivy_def)
qed

text \<open>What a body write-back does: nothing, or a refused or a completed write of the fetched document.\<close>

lemma apply_upsert_body_cases:
  obtains (skipped) r where "apply_upsert_body T cfg b i body m ix = (ix, r)" "r = None \<or> r = Some None"
  | (applied) d where "get_doc_by_id T cfg ix i = Some (Some d)"
      "\<And>e. m = Some e \<Longrightarrow> doc_mtime d \<le> e \<and> (\<forall>u\<in>set (mb_upserts b). ud_doc_id u = i \<longrightarrow> ud_mtime u \<le> e)"
      "apply_upsert_body T cfg b i body m ix =
         (fst (upsert_doc T cfg (d\<lparr>doc_body := Some body\<rparr>) ix),
          if snd (upsert_doc T cfg (d\<lparr>doc_body := Some body\<rparr>) ix) then Some (Some (d\<lparr>doc_body := Some body\<rparr>)) else None)"
proof (cases "get_doc_by_id T cfg ix i")
  case None
  then show thesis using skipped by (simp add: apply_upsert_body_def)
next
  case (Some r)
  show thesis
  proof (cases r)
    case None
    then show thesis using skipped Some by (simp add: apply_upsert_body_def)
  next
    case d: (Some d)
    let ?stale = "case m of None \<Rightarrow> False | Some expected \<Rightarrow>
        expected < doc_mtime d \<or> list_ex (\<lambda>u. ud_doc_id u = i \<and> expected < ud_mtime u) (mb_upserts b)"
    show thesis
    proof (cases ?stale)
      case True
      then show thesis using skipped Some d by (simp add: apply_upsert_body_def)
    next
      case False
      have "apply_upsert_body T cfg b i body m ix =
         (fst (upsert_doc T cfg (d\<lparr>doc_body := Some body\<rparr>) ix),
          if snd (upsert_doc T cfg (d\<lparr>doc_body := Some body\<rparr>) ix) then Some (Some (d\<lparr>doc_body := Some body\<rparr>)) else None)"
        using False Some d by (simp add: apply_upsert_body_def Let_def case_prod_unfold)
      moreover have "doc_mtime d \<le> e \<and> (\<forall>u\<in>set (mb_upserts b). ud_doc_id u = i \<longrightarrow> ud_mtime u \<le> e)" if "m = Some e" for e
        using False that by (auto simp: list_ex_iff not_less)
      ultimately show thesis using applied [of d] Some d by blast
    qed
  qed
qed

lemma upsert_body_inv:
  assumes inv: "writer_inv staged visible ws"
  shows "writer_inv staged visible (upsert_body T cfg i body m ws)"
proof (cases "id_tombstoned i (ws_tombstones ws)")
  case True
  then show ?thesis using inv by (simp add: upsert_body_def)
next
  case False
  note nt = not_tombstonedD [OF False]
  show ?thesis
  proof (cases rule: apply_upsert_body_cases [of cfg "ws_batch ws" i body m "ws_index ws"])
    case (skipped r)
    have "upsert_body T cfg i body m ws = (if r = None then ws\<lparr>ws_failed := i # ws_failed ws\<rparr> else ws)"
      using skipped(2)
    proof
      assume "r = None" then show ?thesis using False skipped(1) by (simp add: upsert_body_def)
    next
      assume "r = Some None" then show ?thesis using False skipped(1) by (simp add: upsert_body_def)
    qed
    then show ?thesis using inv by (simp add: writer_inv_def)
  next
    case (applied d)
    let ?d = "d\<lparr>doc_body := Some body\<rparr>"
    have id: "doc_id ?d = i" using get_doc_found [OF applied(1)] by simp
    have v: "V (fst (upsert_doc T cfg ?d (ws_index ws))) = V (ws_index ws)" by (rule upsert_doc_views(3))
    show ?thesis
    proof (cases rule: upsert_doc_cases [of cfg ?d "ws_index ws"])
      case refused
      then have "upsert_body T cfg i body m ws = ws\<lparr>ws_index := fst (upsert_doc T cfg ?d (ws_index ws)), ws_failed := i # ws_failed ws\<rparr>"
        using False applied(3) by (simp add: upsert_body_def)
      then show ?thesis using inv refused(2) v unfolding writer_inv_def by auto
    next
      case (written t)
      then have "upsert_body T cfg i body m ws = push_upsert ?d (ws\<lparr>ws_index := fst (upsert_doc T cfg ?d (ws_index ws)), ws_dirty := True\<rparr>)"
        using False applied(3) by (simp add: upsert_body_def)
      then show ?thesis using inv written(3,4) v nt id unfolding writer_inv_def by auto
    qed
  qed
qed

lemma do_commit_cases:
  obtains (failed) ws' where "do_commit T ws = (ws\<lparr>ws_index := ws'\<rparr>, False)" "S ws' = S (ws_index ws)" "V ws' = V (ws_index ws)"
  | (committed_ok) ix g where "do_commit T ws = (ws\<lparr>ws_index := ix, ws_generation := g, ws_dirty := False, ws_tombstones := [],
        ws_replies := ws_replies ws @ map (\<lambda>r. (r, g)) (ws_barriers ws), ws_barriers := []\<rparr>, True)"
      "S ix = S (ws_index ws)" "V ix = S (ws_index ws)" "g = (ws_generation ws + 1) mod 2 ^ 64"
proof -
  obtain ix1 ok1 where c: "commit_index T (ws_index ws) = (ix1, ok1)" by fastforce
  obtain ix2 ok2 where r: "reload_index T ix1 = (ix2, ok2)" by fastforce
  note cv = commit_views [of "ws_index ws"] and rv = reload_views [of ix1]
  show thesis
  proof (cases ok1)
    case False
    then show thesis using failed [of ix1] c cv by (simp add: do_commit_def)
  next
    case ok1: True
    show thesis
    proof (cases ok2)
      case False
      then show thesis using failed [of ix2] ok1 c r cv rv by (simp add: do_commit_def)
    next
      case True
      then show thesis using committed_ok [where ix = ix2 and g = "(ws_generation ws + 1) mod 2 ^ 64"] ok1 c r cv rv
        by (simp add: do_commit_def Let_def)
    qed
  qed
qed

lemma commit_and_flush_inv:
  assumes inv: "writer_inv staged visible ws"
  shows "writer_inv staged visible (commit_and_flush T ws)"
proof (cases rule: do_commit_cases [of ws])
  case (failed ws')
  then show ?thesis using inv unfolding writer_inv_def commit_and_flush_def by simp
next
  case (committed_ok ix g)
  then show ?thesis unfolding writer_inv_def commit_and_flush_def by simp
qed

lemma fold_inv: "(\<And>x ws. P ws \<Longrightarrow> P (f x ws)) \<Longrightarrow> P ws \<Longrightarrow> P (fold f xs ws)"
  by (induction xs arbitrary: ws) simp_all

lemma handle_mutation_inv:
  assumes inv: "writer_inv staged visible ws" and lst: "\<And>ix. all_doc_ids T ix \<noteq> None"
  shows "writer_inv staged visible (handle_mutation T cfg m ws)"
proof (cases m)
  case (UpsertMany ds)
  then show ?thesis using fold_inv [of "writer_inv staged visible" "upsert_one T cfg"] upsert_one_inv inv
    by (simp add: handle_mutation_def)
next
  case (DeleteMany ids)
  then show ?thesis using fold_inv [of "writer_inv staged visible" "delete_one T"] delete_one_inv inv
    by (simp add: handle_mutation_def)
next
  case (DeleteSubtree p)
  then show ?thesis using delete_subtree_inv [OF inv lst] by (simp add: handle_mutation_def)
next
  case (DeleteSourceInstance src)
  then show ?thesis using inv delete_views(5,7,8) [of src "ws_index ws"]
    by (auto simp: handle_mutation_def delete_by_source_instance_def writer_inv_def)
next
  case (CommitNow r)
  have "writer_inv staged visible (ws\<lparr>ws_barriers := ws_barriers ws @ [r]\<rparr>)" using inv by (simp add: writer_inv_def)
  then show ?thesis using CommitNow commit_and_flush_inv by (simp add: handle_mutation_def)
next
  case (Barrier r)
  then show ?thesis using inv by (simp add: handle_mutation_def writer_inv_def)
next
  case (Applied r)
  then show ?thesis using inv by (simp add: handle_mutation_def writer_inv_def)
qed (use inv in \<open>simp_all add: handle_mutation_def upsert_one_inv delete_one_inv upsert_body_inv\<close>)

lemma writer_step_inv:
  assumes "writer_inv staged visible ws" and "\<And>ix. all_doc_ids T ix \<noteq> None"
  shows "writer_inv staged visible (writer_step T cfg ev ws)"
  using assms handle_mutation_inv commit_and_flush_inv
  by (cases ev) (auto simp: writer_step_def commit_tick_def)

lemma writer_run_inv:
  assumes "V ix = S ix" and "\<And>ix. all_doc_ids T ix \<noteq> None"
  shows "writer_inv staged visible (fold (writer_step T cfg) evs (writer_start ix))"
proof -
  have "writer_inv staged visible (writer_start ix)"
    using assms(1) by (simp add: writer_inv_def writer_start_def batch_default_def)
  then show ?thesis using fold_inv [of "writer_inv staged visible" "writer_step T cfg"] writer_step_inv assms(2) by blast
qed

lemma commit_and_flush_acks:
  "(ws_replies (commit_and_flush T ws) = ws_replies ws)
   \<or> (V (ws_index (commit_and_flush T ws)) = S (ws_index (commit_and_flush T ws)) \<and> \<not> ws_dirty (commit_and_flush T ws)
      \<and> ws_replies (commit_and_flush T ws) = ws_replies ws @ map (\<lambda>r. (r, ws_generation (commit_and_flush T ws))) (ws_barriers ws))"
proof (cases rule: do_commit_cases [of ws])
  case (failed ws')
  then show ?thesis by (simp add: commit_and_flush_def)
next
  case (committed_ok ix g)
  then show ?thesis by (simp add: commit_and_flush_def)
qed

lemma upsert_one_quiet: "ws_replies (upsert_one T cfg d ws) = ws_replies ws \<and> ws_tombstones (upsert_one T cfg d ws) = ws_tombstones ws"
  by (simp add: upsert_one_def split: prod.split bool.split)

lemma fold_upsert_quiet:
  "ws_replies (fold (upsert_one T cfg) ds ws) = ws_replies ws \<and> ws_tombstones (fold (upsert_one T cfg) ds ws) = ws_tombstones ws"
  by (induction ds arbitrary: ws) (simp_all add: upsert_one_quiet)

lemma upsert_body_quiet:
  "ws_replies (upsert_body T cfg i body m ws) = ws_replies ws \<and> ws_tombstones (upsert_body T cfg i body m ws) = ws_tombstones ws"
  by (simp add: upsert_body_def split: prod.split option.split)

lemma delete_subtree_quiet:
  "ws_replies (delete_subtree T p ws) = ws_replies ws \<and> set (ws_tombstones (delete_subtree T p ws)) = insert p (set (ws_tombstones ws))"
  by (auto simp: delete_subtree_def Let_def fold_delete_fields)

lemma handle_mutation_tombstones:
  "\<forall>r. m \<noteq> CommitNow r \<Longrightarrow> set (ws_tombstones ws) \<subseteq> set (ws_tombstones (handle_mutation T cfg m ws))"
  by (cases m) (auto simp: handle_mutation_def fold_delete_fields delete_one_fields upsert_one_quiet fold_upsert_quiet
      upsert_body_quiet delete_subtree_quiet delete_by_source_instance_def)

lemma ack_step:
  assumes "writer_inv staged visible ws" and "(r, g) \<in> set (drop (length (ws_replies ws)) (ws_replies (writer_step T cfg ev ws)))"
    and "ws_failed (writer_step T cfg ev ws) = []"
  shows "V (ws_index (writer_step T cfg ev ws)) = S (ws_index (writer_step T cfg ev ws))
    \<and> g = ws_generation (writer_step T cfg ev ws) \<and> \<not> ws_dirty (writer_step T cfg ev ws)"
proof -
  have commit: ?thesis if "writer_step T cfg ev ws = commit_and_flush T ws1" "ws_replies ws1 = ws_replies ws" for ws1
    using commit_and_flush_acks [of ws1] assms(2) that by auto
  show ?thesis
  proof (cases ev)
    case (Tick b)
    then show ?thesis using commit [of ws] assms(2) by (cases "ws_dirty ws \<and> b") (auto simp: writer_step_def commit_tick_def)
  next
    case (Recv m)
    show ?thesis
    proof (cases m)
      case (CommitNow x)
      then show ?thesis using commit [of "ws\<lparr>ws_barriers := ws_barriers ws @ [x]\<rparr>"] Recv
        by (simp add: writer_step_def handle_mutation_def)
    next
      case (Barrier x)
      then show ?thesis using assms Recv by (auto simp: writer_step_def handle_mutation_def writer_inv_def split: if_splits)
    qed (use assms(2) Recv in \<open>simp_all add: writer_step_def handle_mutation_def upsert_one_quiet fold_upsert_quiet
         delete_one_fields fold_delete_fields upsert_body_quiet delete_subtree_quiet delete_by_source_instance_def\<close>)
  qed
qed

end

section \<open>Properties\<close>

lemma memory_lists: "all_doc_ids memory_tantivy ix \<noteq> None"
  by (simp add: all_doc_ids_def memory_tantivy_def)

text \<open>
  C2: An acknowledged barrier means the writes are visible. In any run of the writer, whenever a step
  answers a barrier or a commit request, the reader's snapshot equals everything staged so far,
  the writer is clean and the answer is the current generation - provided no document write was
  refused up to then. The engine must meet its contract, list its ids, and start with nothing
  staged.
\<close>

theorem barrier_ack_means_visible:
  assumes eng: "tantivy_engine T staged committed visible"
    and start: "visible (lx_engine ix) = staged (lx_engine ix)" and lists: "\<And>ix. all_doc_ids T ix \<noteq> None"
    and run: "ws = fold (writer_step T cfg) evs (writer_start ix)" and step: "ws' = writer_step T cfg ev ws"
    and ack: "(r, g) \<in> set (drop (length (ws_replies ws)) (ws_replies ws'))" and ok: "ws_failed ws' = []"
  shows "visible (lx_engine (ws_index ws')) = staged (lx_engine (ws_index ws'))
    \<and> g = ws_generation ws' \<and> \<not> ws_dirty ws'"
proof -
  have inv: "writer_inv staged visible ws" unfolding run by (rule tantivy_engine.writer_run_inv [OF eng start lists])
  show ?thesis
    unfolding step by (rule tantivy_engine.ack_step [OF eng inv]) (use ack ok in \<open>simp_all add: step\<close>)
qed

theorem barrier_ack_means_visible_witness:
  "ws_replies (writer_step memory_tantivy example_config (Recv (CommitNow 7))
       (fold (writer_step memory_tantivy example_config) [Recv (Upsert example_doc)] (writer_start empty_index))) = [(7, 1)]
   \<and> \<not> ws_dirty (writer_step memory_tantivy example_config (Recv (CommitNow 7))
       (fold (writer_step memory_tantivy example_config) [Recv (Upsert example_doc)] (writer_start empty_index)))"
proof -
  obtain t where t: "build_tdoc example_config example_doc = Some t" using example_config_facts(2) by blast
  let ?ws = "fold (writer_step memory_tantivy example_config) [Recv (Upsert example_doc)] (writer_start empty_index)"
  let ?ws' = "writer_step memory_tantivy example_config (Recv (CommitNow 7)) ?ws"
  have r: "ws_replies ?ws = []" "ws_replies ?ws' = [(7, 1)]" "ws_failed ?ws' = []"
    by (simp_all add: writer_step_def handle_mutation_def upsert_one_def writer_start_def id_tombstoned_def upsert_doc_def t
        memory_tantivy_def Let_def push_upsert_def commit_and_flush_def do_commit_def commit_index_def reload_index_def
        flush_post_commit_def)
  have visible_start: "me_visible (lx_engine empty_index) = me_staged (lx_engine empty_index)" by (simp add: empty_index_def)
  have ack: "(7, 1) \<in> set (drop (length (ws_replies ?ws)) (ws_replies ?ws'))" using r by simp
  from barrier_ack_means_visible [OF memory.tantivy_engine_axioms visible_start memory_lists refl refl ack r(3)] r show ?thesis
    by blast
qed



lemma build_tdoc_body: "build_tdoc cfg d = Some t \<Longrightarrow> td_body t = unwrap_or_empty (doc_body d) \<and> td_mime t = unwrap_or_empty (doc_mime d)"
  by (auto simp: build_tdoc_def split: option.splits dest!: add_extras_keeps)

text \<open>
  The guarded body write-back of the OCR worker. If the visible document or an upsert still in the
  batch is newer than the snapshot the text was made from, nothing changes at all. Otherwise, and
  when the write goes through, the writer holds the fetched document with the new body - and with
  its MIME type erased, because the document read back from the index carries none.
\<close>

theorem ocr_write_back_guarded:
  assumes eng: "tantivy_engine T staged committed visible"
    and found: "get_doc_by_id T cfg (ws_index ws) i = Some (Some d)" and nt: "\<not> id_tombstoned i (ws_tombstones ws)"
  shows "let ws' = handle_mutation T cfg (UpsertBody i body (Some m)) ws;
             newer = (m < doc_mtime d \<or> (\<exists>u\<in>set (mb_upserts (ws_batch ws)). ud_doc_id u = i \<and> m < ud_mtime u))
         in (newer \<longrightarrow> ws' = ws)
          \<and> (\<not> newer \<and> ws_failed ws' = ws_failed ws \<longrightarrow>
               (\<exists>t. staged (lx_engine (ws_index ws')) = filter (\<lambda>t. td_id t \<noteq> i) (staged (lx_engine (ws_index ws))) @ [t]
                  \<and> td_id t = i \<and> td_body t = body \<and> td_mime t = []))"
proof -
  let ?newer = "m < doc_mtime d \<or> (\<exists>u\<in>set (mb_upserts (ws_batch ws)). ud_doc_id u = i \<and> m < ud_mtime u)"
  let ?d = "d\<lparr>doc_body := Some body\<rparr>" and ?ws' = "handle_mutation T cfg (UpsertBody i body (Some m)) ws"
  have id: "doc_id ?d = i" "doc_mime ?d = None"
    using tantivy_engine.get_doc_found [OF eng found] by (auto simp: doc_from_tantivy_def)
  have skip: "?ws' = ws" if ?newer
    using that nt found by (auto simp: handle_mutation_def upsert_body_def apply_upsert_body_def list_ex_iff)
  have written_back: "\<exists>t. staged (lx_engine (ws_index ?ws')) = filter (\<lambda>t. td_id t \<noteq> i) (staged (lx_engine (ws_index ws))) @ [t]
      \<and> td_id t = i \<and> td_body t = body \<and> td_mime t = []" if n: "\<not> ?newer" and ok: "ws_failed ?ws' = ws_failed ws"
  proof -
    have ap: "apply_upsert_body T cfg (ws_batch ws) i body (Some m) (ws_index ws) =
        (fst (upsert_doc T cfg ?d (ws_index ws)), if snd (upsert_doc T cfg ?d (ws_index ws)) then Some (Some ?d) else None)"
      using n found by (auto simp: apply_upsert_body_def list_ex_iff Let_def case_prod_unfold)
    show ?thesis
    proof (cases rule: tantivy_engine.upsert_doc_cases [OF eng, of cfg ?d "ws_index ws", case_names refused written])
      case refused
      then have "ws_failed ?ws' = i # ws_failed ws" using ap nt by (simp add: handle_mutation_def upsert_body_def)
      then show ?thesis using ok by simp
    next
      case (written t)
      then have "ws_index ?ws' = fst (upsert_doc T cfg ?d (ws_index ws))"
        using ap nt by (simp add: handle_mutation_def upsert_body_def)
      then show ?thesis using written build_tdoc_body [OF written(2)] id by (auto simp: unwrap_or_empty_def)
    qed
  qed
  show ?thesis unfolding Let_def using skip written_back by blast
qed

text \<open>The example document, committed and visible.\<close>

definition example_written :: "memory_engine writer_state" where
  "example_written = fold (writer_step memory_tantivy example_config) [Recv (Upsert example_doc), Recv (CommitNow 7)]
     (writer_start empty_index)"

lemma example_written_found:
  "get_doc_by_id memory_tantivy example_config (ws_index example_written) (lit ''fs:/a/b'')
     = Some (Some (example_doc\<lparr>doc_mime := None\<rparr>))"
  "ws_tombstones example_written = []" "mb_upserts (ws_batch example_written) = []" "ws_failed example_written = []"
proof -
  obtain t where t: "build_tdoc example_config example_doc = Some t" using example_config_facts(2) by blast
  have ti: "td_id t = lit ''fs:/a/b''" using build_tdoc_id [OF t] by (simp add: example_doc_def)
  have d: "doc_from_tantivy example_config t = example_doc\<lparr>doc_mime := None\<rparr>"
    unfolding doc_from_build [OF t example_config_facts(1,3)]
    by (simp add: example_config_def example_doc_def stored_extras_def map_filter_simps)
  have ix: "me_visible (lx_engine (ws_index example_written)) = [t]" "ws_tombstones example_written = []"
    "mb_upserts (ws_batch example_written) = []" "ws_failed example_written = []"
    by (simp_all add: example_written_def writer_step_def handle_mutation_def upsert_one_def writer_start_def id_tombstoned_def
        upsert_doc_def t memory_tantivy_def Let_def push_upsert_def commit_and_flush_def do_commit_def commit_index_def
        reload_index_def flush_post_commit_def empty_index_def batch_default_def batch_is_empty_def)
  show "get_doc_by_id memory_tantivy example_config (ws_index example_written) (lit ''fs:/a/b'')
      = Some (Some (example_doc\<lparr>doc_mime := None\<rparr>))"
    using ix ti d by (simp add: get_doc_by_id_def memory_tantivy_def)
  show "ws_tombstones example_written = []" "mb_upserts (ws_batch example_written) = []" "ws_failed example_written = []"
    using ix by simp_all
qed

theorem ocr_write_back_guarded_witness:
  "handle_mutation memory_tantivy example_config (UpsertBody (lit ''fs:/a/b'') (lit ''text'') (Some 4)) example_written = example_written"
proof -
  have "\<not> id_tombstoned (lit ''fs:/a/b'') (ws_tombstones example_written)" by (simp add: example_written_found id_tombstoned_def)
  from ocr_write_back_guarded [OF memory.tantivy_engine_axioms example_written_found(1) this, of "lit ''text''" 4] show ?thesis
    by (simp add: Let_def example_doc_def)
qed

text \<open>
  A deletion that is not committed yet can be undone by a body write-back. If a document is deleted
  and, before the next commit, the OCR worker writes its body back, the writer holds the document
  again - the write-back reads the snapshot in which the document still exists - and the pending
  batch announces it as upserted after announcing it as deleted.
\<close>

theorem ocr_resurrects_deleted:
  assumes eng: "tantivy_engine T staged committed visible"
    and del: "ws1 = handle_mutation T cfg (Delete i) ws"
    and found: "get_doc_by_id T cfg (ws_index ws1) i = Some (Some d)" and nt: "\<not> id_tombstoned i (ws_tombstones ws)"
    and old: "doc_mtime d \<le> m" "\<forall>u\<in>set (mb_upserts (ws_batch ws)). ud_doc_id u = i \<longrightarrow> ud_mtime u \<le> m"
    and ws2: "ws2 = handle_mutation T cfg (UpsertBody i body (Some m)) ws1" and ok: "ws_failed ws2 = ws_failed ws1"
  shows "i \<notin> td_id ` set (staged (lx_engine (ws_index ws1))) \<and> i \<in> td_id ` set (staged (lx_engine (ws_index ws2)))"
proof -
  have f: "staged (lx_engine (ws_index ws1)) = filter (\<lambda>t. td_id t \<noteq> i) (staged (lx_engine (ws_index ws)))"
    "ws_tombstones ws1 = ws_tombstones ws" "mb_upserts (ws_batch ws1) = mb_upserts (ws_batch ws)"
    using tantivy_engine.delete_one_fields [OF eng, of i ws] by (simp_all add: del handle_mutation_def)
  let ?d = "d\<lparr>doc_body := Some body\<rparr>"
  have id: "doc_id ?d = i" using tantivy_engine.get_doc_found [OF eng found] by simp
  have ap: "apply_upsert_body T cfg (ws_batch ws1) i body (Some m) (ws_index ws1) =
      (fst (upsert_doc T cfg ?d (ws_index ws1)), if snd (upsert_doc T cfg ?d (ws_index ws1)) then Some (Some ?d) else None)"
    using old found f(3) by (auto simp: apply_upsert_body_def list_ex_iff Let_def case_prod_unfold)
  show ?thesis
  proof (cases rule: tantivy_engine.upsert_doc_cases [OF eng, of cfg ?d "ws_index ws1", case_names refused written])
    case refused
    then have "ws_failed ws2 = i # ws_failed ws1" using ap nt f(2) by (simp add: ws2 handle_mutation_def upsert_body_def)
    then show ?thesis using ok by simp
  next
    case (written t)
    then have "ws_index ws2 = fst (upsert_doc T cfg ?d (ws_index ws1))"
      using ap nt f(2) by (simp add: ws2 handle_mutation_def upsert_body_def)
    then show ?thesis using written id f(1) by auto
  qed
qed

lemma upsert_body_accepted:
  assumes "get_doc_by_id T cfg (ws_index ws) i = Some (Some d)" and "\<not> id_tombstoned i (ws_tombstones ws)"
    and "mb_upserts (ws_batch ws) = []" and "doc_mtime d \<le> m"
    and "snd (upsert_doc T cfg (d\<lparr>doc_body := Some body\<rparr>) (ws_index ws))"
  shows "ws_failed (handle_mutation T cfg (UpsertBody i body (Some m)) ws) = ws_failed ws"
  using assms by (simp add: handle_mutation_def upsert_body_def apply_upsert_body_def Let_def case_prod_unfold)

theorem ocr_resurrects_deleted_witness:
  "lit ''fs:/a/b'' \<in> td_id ` set (me_staged (lx_engine (ws_index
     (fold (handle_mutation memory_tantivy example_config)
        [Delete (lit ''fs:/a/b''), UpsertBody (lit ''fs:/a/b'') (lit ''text'') (Some 5)] example_written))))"
proof -
  let ?ws1 = "handle_mutation memory_tantivy example_config (Delete (lit ''fs:/a/b'')) example_written"
  let ?d = "example_doc\<lparr>doc_mime := None\<rparr>"
  let ?ws2 = "handle_mutation memory_tantivy example_config (UpsertBody (lit ''fs:/a/b'') (lit ''text'') (Some 5)) ?ws1"
  have f: "ws_tombstones ?ws1 = []" "mb_upserts (ws_batch ?ws1) = []"
    using memory.delete_one_fields [of "lit ''fs:/a/b''" example_written] example_written_found by (simp_all add: handle_mutation_def)
  have found: "get_doc_by_id memory_tantivy example_config (ws_index ?ws1) (lit ''fs:/a/b'') = Some (Some ?d)"
    using example_written_found(1)
    by (simp add: handle_mutation_def delete_one_eq delete_by_id_def get_doc_by_id_def memory_tantivy_def)
  have nt: "\<not> id_tombstoned (lit ''fs:/a/b'') (ws_tombstones example_written)" by (simp add: example_written_found id_tombstoned_def)
  have old: "doc_mtime ?d \<le> 5" "\<forall>u\<in>set (mb_upserts (ws_batch example_written)). ud_doc_id u = lit ''fs:/a/b'' \<longrightarrow> ud_mtime u \<le> 5"
    by (simp_all add: example_doc_def example_written_found)
  obtain t where t: "build_tdoc example_config (?d\<lparr>doc_body := Some (lit ''text'')\<rparr>) = Some t"
    by (auto simp: build_tdoc_def example_config_def example_doc_def)
  have ok: "ws_failed ?ws2 = ws_failed ?ws1"
  proof (rule upsert_body_accepted [OF found _ f(2) old(1)])
    show "\<not> id_tombstoned (lit ''fs:/a/b'') (ws_tombstones ?ws1)" by (simp add: f id_tombstoned_def)
    have "snd (tv_add memory_tantivy x y)" for x y by (simp add: memory_tantivy_def)
    then show "snd (upsert_doc memory_tantivy example_config (?d\<lparr>doc_body := Some (lit ''text'')\<rparr>) (ws_index ?ws1))"
      unfolding upsert_doc_def Let_def t by (simp add: case_prod_unfold)
  qed
  from ocr_resurrects_deleted [OF memory.tantivy_engine_axioms refl found nt old refl ok] show ?thesis by simp
qed

lemma drain_delete_barriers: "ws_barriers (fold (drain_delete T) ids ws) = ws_barriers ws"
  by (induction ids arbitrary: ws) (simp_all add: drain_delete_def delete_by_id_def)

lemma drain_upsert_barriers: "ws_barriers (fold (drain_upsert T cfg) ds ws) = ws_barriers ws"
proof (induction ds arbitrary: ws)
  case (Cons d ds)
  have "ws_barriers (drain_upsert T cfg d ws) = ws_barriers ws"
    by (simp add: drain_upsert_def Let_def split: prod.split)
  then show ?case using Cons by simp
qed simp

lemma drain_barriers:
  "ws_barriers (drain_mutation T cfg m ws) = ws_barriers ws @ (case m of Barrier r \<Rightarrow> [r] | CommitNow r \<Rightarrow> [r] | _ \<Rightarrow> [])"
  using drain_delete_barriers [of T "[_]" ws] drain_upsert_barriers [of T cfg "[_]" ws]
  by (cases m) (simp_all add: drain_mutation_def drain_delete_barriers drain_upsert_barriers Let_def
      split: prod.split option.split)

definition waiters :: "mutation list \<Rightarrow> nat list" where
  "waiters queue = concat (map (\<lambda>m. case m of Barrier r \<Rightarrow> [r] | CommitNow r \<Rightarrow> [r] | _ \<Rightarrow> []) queue)"

lemma fold_drain_barriers: "ws_barriers (fold (drain_mutation T cfg) queue ws) = ws_barriers ws @ waiters queue"
  by (induction queue arbitrary: ws) (simp_all add: drain_barriers waiters_def)

lemma final_commit_answers:
  assumes eng: "tantivy_engine T staged committed visible"
  shows "ws_barriers (final_commit T ws) = [] \<and> set (ws_barriers ws) \<subseteq> fst ` set (ws_replies (final_commit T ws))"
proof (cases "ws_dirty ws")
  case False
  then show ?thesis by (force simp: final_commit_def Let_def)
next
  case True
  then show ?thesis
    by (cases rule: tantivy_engine.do_commit_cases [OF eng, of ws]) (force simp: final_commit_def Let_def)+
qed

text \<open>
  Shutdown leaves nobody waiting. Everything still queued is applied in order; every barrier and
  commit request pending or queued is answered; and when the last commit succeeds the snapshot
  holds everything staged. When it fails, the waiters are answered all the same, with the old
  generation, and the batch that did not become durable is still handed to the broadcaster.
\<close>

theorem shutdown_answers_everyone:
  assumes eng: "tantivy_engine T staged committed visible"
  shows "let ws1 = fold (drain_mutation T cfg) queue ws; ws' = shutdown_writer T cfg queue ws in
    ws_barriers ws' = [] \<and> set (ws_barriers ws) \<union> set (waiters queue) \<subseteq> fst ` set (ws_replies ws')
    \<and> (ws_dirty ws1 \<and> snd (do_commit T ws1) \<longrightarrow>
         visible (lx_engine (ws_index ws')) = staged (lx_engine (ws_index ws')))
    \<and> (ws_dirty ws1 \<and> \<not> snd (do_commit T ws1) \<longrightarrow>
         ws_generation ws' = ws_generation ws1
         \<and> (\<not> batch_is_empty (ws_batch ws1) \<longrightarrow>
              last (ws_broadcasts ws') = (ws_batch ws1)\<lparr>mb_generation := ws_generation ws1\<rparr>))"
proof -
  let ?ws1 = "fold (drain_mutation T cfg) queue ws" and ?ws' = "shutdown_writer T cfg queue ws"
  have a: "ws_barriers ?ws' = [] \<and> set (ws_barriers ws) \<union> set (waiters queue) \<subseteq> fst ` set (ws_replies ?ws')"
    using final_commit_answers [OF eng, of ?ws1] by (simp add: shutdown_writer_def fold_drain_barriers)
  have b: "visible (lx_engine (ws_index ?ws')) = staged (lx_engine (ws_index ?ws'))" if "ws_dirty ?ws1" "snd (do_commit T ?ws1)"
    by (cases rule: tantivy_engine.do_commit_cases [OF eng, of ?ws1])
       (use that in \<open>simp_all add: shutdown_writer_def final_commit_def Let_def\<close>)
  have c: "ws_generation ?ws' = ws_generation ?ws1
      \<and> (\<not> batch_is_empty (ws_batch ?ws1) \<longrightarrow> last (ws_broadcasts ?ws') = (ws_batch ?ws1)\<lparr>mb_generation := ws_generation ?ws1\<rparr>)"
    if "ws_dirty ?ws1" "\<not> snd (do_commit T ?ws1)"
    by (cases rule: tantivy_engine.do_commit_cases [OF eng, of ?ws1])
       (use that in \<open>simp_all add: shutdown_writer_def final_commit_def Let_def flush_post_commit_def\<close>)
  show ?thesis unfolding Let_def using a b c by blast
qed

theorem shutdown_answers_everyone_witness:
  "ws_barriers (shutdown_writer memory_tantivy example_config [Upsert example_doc, Barrier 3] example_written) = []
   \<and> 3 \<in> fst ` set (ws_replies (shutdown_writer memory_tantivy example_config [Upsert example_doc, Barrier 3] example_written))"
proof -
  have "3 \<in> set (waiters [Upsert example_doc, Barrier 3])" by (simp add: waiters_def)
  then show ?thesis
    using shutdown_answers_everyone [OF memory.tantivy_engine_axioms, of example_config "[Upsert example_doc, Barrier 3]" example_written]
    unfolding Let_def by blast
qed

section \<open>The result cache: properties\<close>






end
