(* ===== verification/File_Paths.thy ===== *)
theory File_Paths
  imports State_Files
begin

text \<open>
  Paths, the \<^verbatim>\<open>fs:\<close> document ids built from them, exclusion rules, and the two stores
  keyed by path: the crawl manifest (\<^verbatim>\<open>lixun-sources/src/manifest.rs\<close>) and the symlink alias
  map (\<^verbatim>\<open>lixun-daemon/src/symlink_alias.rs\<close>).

  An absolute \<^verbatim>\<open>PathBuf\<close> is the list of its components (\<open>fpath\<close>), because Rust compares,
  hashes and prefixes paths by component; \<open>path_str\<close> is its text. \<^verbatim>\<open>std::fs::canonicalize\<close>
  is an argument \<open>canon\<close> of the definitions, on path texts, with \<open>None\<close> for an error; so is
  the regex matcher of the exclusion rules.
\<close>

section \<open>Paths\<close>

type_synonym fpath = "rstring list"

definition slash :: rchar where
  "slash = ch CHR ''/''"

definition path_str :: "fpath \<Rightarrow> rstring" where
  "path_str p = (if p = [] then [slash] else concat (map (\<lambda>c. slash # c) p))"

text \<open>The components a path can have: not empty, no separator in them.\<close>

definition wf_path :: "fpath \<Rightarrow> bool" where
  "wf_path p \<longleftrightarrow> (\<forall>c\<in>set p. c \<noteq> [] \<and> slash \<notin> set c)"

definition file_name :: "fpath \<Rightarrow> rstring option" where
  "file_name p = (if p = [] then None else Some (last p))"

text \<open>\<^verbatim>\<open>Path::extension\<close>: what follows the last dot, when something precedes that dot.\<close>

definition dot :: rchar where
  "dot = ch CHR ''.''"

definition extension :: "fpath \<Rightarrow> rstring option" where
  "extension p =
     (case file_name p of
        None \<Rightarrow> None
      | Some n \<Rightarrow>
          (let ext = rev (takeWhile (\<lambda>c. c \<noteq> dot) (rev n));
               stem = rev (drop 1 (dropWhile (\<lambda>c. c \<noteq> dot) (rev n)))
           in if dot \<notin> set n \<or> stem = [] then None else Some ext))"

definition path_starts_with :: "fpath \<Rightarrow> fpath \<Rightarrow> bool" where
  "path_starts_with child parent \<longleftrightarrow> prefix parent child"

section \<open>Document ids\<close>

definition canonical_fs_path_str :: "(rstring \<Rightarrow> rstring option) \<Rightarrow> rstring \<Rightarrow> rstring" where
  "canonical_fs_path_str canon p = (case canon p of Some c \<Rightarrow> c | None \<Rightarrow> p)"

definition canonical_fs_doc_id_from_str :: "rstring \<Rightarrow> doc_id" where
  "canonical_fs_doc_id_from_str s = lit ''fs:'' @ s"

definition canonical_fs_doc_id :: "(rstring \<Rightarrow> rstring option) \<Rightarrow> rstring \<Rightarrow> doc_id" where
  "canonical_fs_doc_id canon p = lit ''fs:'' @ canonical_fs_path_str canon p"

section \<open>Exclusion\<close>

definition path_excluded :: "(rstring \<Rightarrow> 'r \<Rightarrow> bool) \<Rightarrow> rstring \<Rightarrow> rstring list \<Rightarrow> 'r list \<Rightarrow> bool" where
  "path_excluded is_match s substrings regexes \<longleftrightarrow>
     list_ex (\<lambda>p. contains_str s p) substrings \<or> list_ex (is_match s) regexes"

text \<open>
  \<^verbatim>\<open>lixun_self_excludes\<close>: the directories the program itself writes to. The environment is
  the argument: the XDG directories as the \<^verbatim>\<open>dirs\<close> crate returns them, \<^verbatim>\<open>HOME\<close> and
  \<^verbatim>\<open>LIXUN_SEMANTIC_DATA_DIR\<close>.
\<close>

record xdg_env =
  xdg_data :: "rstring option"
  xdg_state :: "rstring option"
  xdg_cache :: "rstring option"
  xdg_config :: "rstring option"
  env_home :: "rstring option"
  env_semantic_dir :: "rstring option"

definition path_join :: "rstring \<Rightarrow> rstring \<Rightarrow> rstring" where
  "path_join a b =
     (if starts_with b [slash] then b
      else if a = [] \<or> last a = slash then a @ b else a @ [slash] @ b)"

definition push_nonempty :: "rstring \<Rightarrow> rstring list" where
  "push_nonempty s = (if s = [] then [] else [s])"

definition lixun_self_excludes :: "xdg_env \<Rightarrow> rstring list" where
  "lixun_self_excludes e =
     (case xdg_data e of Some p \<Rightarrow> push_nonempty (path_join p (lit ''lixun'')) | None \<Rightarrow> [])
     @ (case xdg_state e of
          Some p \<Rightarrow> push_nonempty (path_join p (lit ''lixun''))
        | None \<Rightarrow>
            (let home = (case env_home e of Some h \<Rightarrow> h | None \<Rightarrow> [])
             in if home = [] then [] else push_nonempty (path_join home (lit ''.local/state/lixun''))))
     @ (case xdg_cache e of Some p \<Rightarrow> push_nonempty (path_join p (lit ''lixun'')) | None \<Rightarrow> [])
     @ (case xdg_config e of Some p \<Rightarrow> push_nonempty (path_join p (lit ''lixun'')) | None \<Rightarrow> [])
     @ (case env_semantic_dir e of Some c \<Rightarrow> (if c = [] then [] else push_nonempty c) | None \<Rightarrow> [])"

section \<open>The crawl manifest\<close>

record manifest =
  mf_files :: "(rstring \<times> int) list"

definition manifest_default :: manifest where
  "manifest_default = \<lparr>mf_files = []\<rparr>"

text \<open>
  One round of the loop of \<^verbatim>\<open>canonicalize_keys\<close>: \<^verbatim>\<open>entry(canon).and_modify(max).or_insert\<close>.
\<close>

definition merge_key :: "(rstring \<Rightarrow> rstring option) \<Rightarrow> rstring \<times> int \<Rightarrow> (rstring \<times> int) list \<Rightarrow> (rstring \<times> int) list" where
  "merge_key canon kv migrated =
     (let c = canonical_fs_path_str canon (fst kv)
      in case map_of migrated c of
           Some existing \<Rightarrow> if existing < snd kv then AList.update c (snd kv) migrated else migrated
         | None \<Rightarrow> AList.update c (snd kv) migrated)"

definition canonicalize_keys :: "(rstring \<Rightarrow> rstring option) \<Rightarrow> manifest \<Rightarrow> manifest" where
  "canonicalize_keys canon raw = \<lparr>mf_files = fold (merge_key canon) (mf_files raw) []\<rparr>"

definition manifest_load ::
  "(rstring \<Rightarrow> manifest option) \<Rightarrow> (rstring \<Rightarrow> rstring option) \<Rightarrow> state_dir \<Rightarrow> manifest" where
  "manifest_load from_json canon d =
     (case d (lit ''manifest.json'') of
        Some (Readable content) \<Rightarrow>
          canonicalize_keys canon (case from_json content of Some m \<Rightarrow> m | None \<Rightarrow> manifest_default)
      | _ \<Rightarrow> manifest_default)"

text \<open>
  \<^verbatim>\<open>save\<close> writes the file in place; a failed write is ignored and may leave anything there.
\<close>

definition manifest_save ::
  "(manifest \<Rightarrow> rstring option) \<Rightarrow> io_outcome \<Rightarrow> manifest \<Rightarrow> state_dir \<Rightarrow> state_dir" where
  "manifest_save to_json io m d =
     (case to_json m of
        None \<Rightarrow> d
      | Some content \<Rightarrow>
          if write_ok io then d(lit ''manifest.json'' := Some (Readable content))
          else d(lit ''manifest.json'' := partial_write io))"

definition is_unchanged :: "manifest \<Rightarrow> rstring \<Rightarrow> int \<Rightarrow> bool" where
  "is_unchanged m p mtime \<longleftrightarrow> map_of (mf_files m) p = Some mtime"

definition manifest_update :: "rstring \<Rightarrow> int \<Rightarrow> manifest \<Rightarrow> manifest" where
  "manifest_update p mtime m = m\<lparr>mf_files := AList.update p mtime (mf_files m)\<rparr>"

definition manifest_remove :: "rstring \<Rightarrow> manifest \<Rightarrow> manifest" where
  "manifest_remove p m = m\<lparr>mf_files := AList.delete p (mf_files m)\<rparr>"

definition known_paths :: "manifest \<Rightarrow> rstring list" where
  "known_paths m = map fst (mf_files m)"

definition manifest_len :: "manifest \<Rightarrow> nat" where
  "manifest_len m = length (mf_files m)"

section \<open>Symlink aliases\<close>

record symlink_aliases =
  sa_map :: "(rstring \<times> doc_id) list"

definition aliases_default :: symlink_aliases where
  "aliases_default = \<lparr>sa_map = []\<rparr>"

definition aliases_load :: "(rstring \<Rightarrow> symlink_aliases option) \<Rightarrow> state_dir \<Rightarrow> symlink_aliases" where
  "aliases_load from_json d =
     (case d (lit ''symlink_aliases.json'') of
        Some f \<Rightarrow> read_or_default from_json aliases_default f
      | None \<Rightarrow> aliases_default)"

definition aliases_save ::
  "(symlink_aliases \<Rightarrow> rstring option) \<Rightarrow> io_outcome \<Rightarrow> symlink_aliases \<Rightarrow> state_dir \<Rightarrow> bool \<times> state_dir" where
  "aliases_save to_json =
     write_tmp_rename to_json (lit ''symlink_aliases.json'') (lit ''symlink_aliases.json.tmp'')"

definition alias_note :: "rstring \<Rightarrow> doc_id \<Rightarrow> symlink_aliases \<Rightarrow> symlink_aliases" where
  "alias_note observed canonical_id a = a\<lparr>sa_map := AList.update observed canonical_id (sa_map a)\<rparr>"

definition alias_resolve :: "symlink_aliases \<Rightarrow> rstring \<Rightarrow> doc_id option" where
  "alias_resolve a observed = map_of (sa_map a) observed"

definition alias_forget :: "doc_id \<Rightarrow> symlink_aliases \<Rightarrow> symlink_aliases" where
  "alias_forget canonical_id a = a\<lparr>sa_map := filter (\<lambda>(_, v). v \<noteq> canonical_id) (sa_map a)\<rparr>"

section \<open>Path texts determine paths\<close>

lemma path_str_Cons [simp]: "path_str (c # p) = slash # c @ (if p = [] then [] else path_str p)"
  by (simp add: path_str_def)

lemma path_str_Nil [simp]: "path_str [] = [slash]"
  by (simp add: path_str_def)

lemma wf_path_Cons [simp]: "wf_path (c # p) \<longleftrightarrow> c \<noteq> [] \<and> slash \<notin> set c \<and> wf_path p"
  by (auto simp: wf_path_def)

lemma wf_path_Nil [simp]: "wf_path []"
  by (simp add: wf_path_def)

lemma wf_path_append [simp]: "wf_path (p @ q) \<longleftrightarrow> wf_path p \<and> wf_path q"
  by (auto simp: wf_path_def)

lemma path_str_append: "p \<noteq> [] \<Longrightarrow> path_str (p @ q) = path_str p @ (if q = [] then [] else path_str q)"
  by (simp add: path_str_def)

lemma hd_path_str [simp]: "hd (path_str p) = slash" and path_str_ne [simp]: "path_str p \<noteq> []"
  by (cases p; simp)+

text \<open>
  The text of a component list is uniquely readable: the first component ends at the next
  separator.
\<close>

lemma component_unique:
  assumes "slash \<notin> set c" and "slash \<notin> set d"
    and "c @ xs = d @ ys" and "xs = [] \<or> hd xs = slash" and "ys = [] \<or> hd ys = slash"
  shows "c = d \<and> xs = ys"
  using assms
proof (induction c arbitrary: d)
  case Nil
  then show ?case by (cases d) auto
next
  case (Cons a c)
  then show ?case by (cases d) auto
qed

lemma path_rest_hd: "(if p = [] then [] else path_str p) = [] \<or> hd (if p = [] then [] else path_str p) = slash"
  by simp

lemma path_str_prefix_iff:
  assumes "wf_path p" and "wf_path q" and "p \<noteq> []"
  shows "path_str q = path_str p @ r \<and> (r = [] \<or> hd r = slash) \<and> q \<noteq> []
          \<longleftrightarrow> (\<exists>s. q = p @ s \<and> r = (if s = [] then [] else path_str s))"
  using assms
proof (induction p arbitrary: q)
  case (Cons c p)
  show ?case
  proof (cases q)
    case Nil
    then show ?thesis by simp
  next
    case q: (Cons d q')
    have sl: "slash \<notin> set c" "slash \<notin> set d" using Cons.prems q by simp_all
    have "path_str q = path_str (c # p) @ r \<and> (r = [] \<or> hd r = slash)
        \<longleftrightarrow> d = c \<and> (if q' = [] then [] else path_str q') = (if p = [] then [] else path_str p) @ r
            \<and> (r = [] \<or> hd r = slash)"
    proof
      assume a: "path_str q = path_str (c # p) @ r \<and> (r = [] \<or> hd r = slash)"
      then have e: "d @ (if q' = [] then [] else path_str q') = c @ ((if p = [] then [] else path_str p) @ r)"
        using q by simp
      have "d = c \<and> (if q' = [] then [] else path_str q') = (if p = [] then [] else path_str p) @ r"
        by (rule component_unique [OF sl(2,1) e path_rest_hd]) (use a in \<open>auto simp: hd_append\<close>)
      then show "d = c \<and> (if q' = [] then [] else path_str q') = (if p = [] then [] else path_str p) @ r
            \<and> (r = [] \<or> hd r = slash)" using a by blast
    qed (simp add: q)
    moreover have "(if q' = [] then [] else path_str q') = (if p = [] then [] else path_str p) @ r
            \<and> (r = [] \<or> hd r = slash)
        \<longleftrightarrow> (\<exists>s. q' = p @ s \<and> r = (if s = [] then [] else path_str s))"
    proof (cases "p = []")
      case True
      then show ?thesis by auto
    next
      case False
      have IH: "path_str q' = path_str p @ r \<and> (r = [] \<or> hd r = slash) \<and> q' \<noteq> []
          \<longleftrightarrow> (\<exists>s. q' = p @ s \<and> r = (if s = [] then [] else path_str s))"
        by (rule Cons.IH) (use Cons.prems q False in simp_all)
      show ?thesis using IH False by (cases "q' = []") auto
    qed
    ultimately show ?thesis using q by auto
  qed
qed simp

lemma path_str_inj:
  assumes "wf_path p" and "wf_path q" and "path_str p = path_str q"
  shows "p = q"
proof (cases "p = []")
  case True
  then have "length (path_str q) = 1" using arg_cong [OF assms(3), of length] by simp
  then show ?thesis using True assms(2) by (cases q) auto
next
  case False
  then have "q \<noteq> []" using assms(1,3) by (cases p) (auto simp: path_str_def)
  then have "\<exists>s. q = p @ s \<and> [] = (if s = [] then [] else path_str s)"
    using path_str_prefix_iff [OF assms(1,2) False, of "[]"] assms(3) by simp
  then show ?thesis using path_str_ne by (metis append_Nil2)
qed

section \<open>The manifest after a load\<close>

text \<open>The merge of the keys that name the same file keeps the newest time, in any order.\<close>

definition newest :: "int list \<Rightarrow> int option" where
  "newest ts = (if ts = [] then None else Some (Max (set ts)))"

definition merged_mtime :: "(rstring \<Rightarrow> rstring option) \<Rightarrow> (rstring \<times> int) list \<Rightarrow> rstring \<Rightarrow> int option" where
  "merged_mtime canon kvs c = newest (map snd (filter (\<lambda>kv. canonical_fs_path_str canon (fst kv) = c) kvs))"

lemma newest_snoc: "newest (ts @ [t]) = Some (case newest ts of Some u \<Rightarrow> max u t | None \<Rightarrow> t)"
  by (simp add: newest_def max.commute)

lemma map_of_merge_key:
  "map_of (merge_key canon kv m) =
     (map_of m)(canonical_fs_path_str canon (fst kv) \<mapsto>
        (case map_of m (canonical_fs_path_str canon (fst kv)) of Some t \<Rightarrow> max t (snd kv) | None \<Rightarrow> snd kv))"
  by (auto simp: merge_key_def Let_def map_of_update fun_eq_iff split: option.splits)

lemma merged_mtime_snoc:
  "merged_mtime canon (kvs @ [kv]) =
     (merged_mtime canon kvs)(canonical_fs_path_str canon (fst kv) \<mapsto>
        (case merged_mtime canon kvs (canonical_fs_path_str canon (fst kv)) of
           Some t \<Rightarrow> max t (snd kv) | None \<Rightarrow> snd kv))"
  by (rule ext) (simp add: merged_mtime_def newest_snoc del: set_map)

lemma map_of_fold_merge: "map_of (fold (merge_key canon) kvs []) = merged_mtime canon kvs"
proof (induction kvs rule: rev_induct)
  case Nil
  then show ?case by (simp add: merged_mtime_def newest_def fun_eq_iff)
next
  case (snoc kv kvs)
  then show ?case by (simp add: map_of_merge_key merged_mtime_snoc)
qed

lemma distinct_merge_key:
  "distinct (map fst m) \<Longrightarrow> distinct (map fst (merge_key canon kv m))"
  by (simp add: merge_key_def Let_def distinct_update split: option.splits)

lemma distinct_fold_merge: "distinct (map fst m) \<Longrightarrow> distinct (map fst (fold (merge_key canon) kvs m))"
  by (induction kvs arbitrary: m) (simp_all add: distinct_merge_key)

lemma map_of_newest:
  "distinct (map fst kvs) \<Longrightarrow> map_of kvs p = newest (map snd (filter (\<lambda>kv. fst kv = p) kvs))"
proof (induction kvs)
  case (Cons a kvs)
  show ?case
  proof (cases "fst a = p")
    case True
    then have "filter (\<lambda>kv. fst kv = p) kvs = []" using Cons.prems by (auto simp: filter_empty_conv image_iff)
    then show ?thesis using True by (simp add: newest_def)
  qed (use Cons in simp)
qed (simp add: newest_def)

definition manifest_inv :: "manifest \<Rightarrow> bool" where
  "manifest_inv m \<longleftrightarrow> distinct (map fst (mf_files m))"

lemma manifest_inv_ops [simp]:
  "manifest_inv manifest_default"
  "manifest_inv m \<Longrightarrow> manifest_inv (manifest_update p t m)"
  "manifest_inv m \<Longrightarrow> manifest_inv (manifest_remove p m)"
  "manifest_inv (canonicalize_keys canon m)"
  "manifest_inv (manifest_load from_json canon d)"
  by (auto simp: manifest_inv_def manifest_default_def manifest_update_def manifest_remove_def
      canonicalize_keys_def manifest_load_def distinct_update distinct_delete distinct_fold_merge
      split: option.splits file_state.splits)

lemma is_unchanged_update [simp]:
  "is_unchanged (manifest_update p t m) q u \<longleftrightarrow> (if q = p then u = t else is_unchanged m q u)"
  by (auto simp: is_unchanged_def manifest_update_def map_of_update)

lemma is_unchanged_remove [simp]:
  "is_unchanged (manifest_remove p m) q u \<longleftrightarrow> q \<noteq> p \<and> is_unchanged m q u"
  by (auto simp: is_unchanged_def manifest_remove_def AList.delete_conv')

lemma known_paths_update [simp]: "set (known_paths (manifest_update p t m)) = insert p (set (known_paths m))"
  using arg_cong [OF AList.update_conv' [of p t "mf_files m"], of dom]
  by (simp add: known_paths_def manifest_update_def dom_map_of_conv_image_fst)

lemma known_paths_remove [simp]: "set (known_paths (manifest_remove p m)) = set (known_paths m) - {p}"
  by (auto simp: known_paths_def manifest_remove_def AList.delete_eq)

text \<open>
  Loading the manifest rewrites every key to its canonical path; a canonical path is
  unchanged at exactly one time, the newest of the times recorded under any path that leads to it,
  whatever order the hash map is walked in, and no key occurs twice. A manifest whose keys are
  canonical already is loaded as it was saved.
\<close>

theorem manifest_load_merges:
  fixes m :: manifest and canon :: "rstring \<Rightarrow> rstring option"
  assumes codec: "codec_ok to_json from_json"
    and saved: "to_json m = Some content" and io: "write_ok io"
  shows "(let m' = manifest_load from_json canon (manifest_save to_json io m d)
          in (\<forall>p t. is_unchanged m' p t \<longleftrightarrow>
                 (\<exists>k\<in>set (known_paths m). canonical_fs_path_str canon k = p)
                 \<and> t = Max {u. \<exists>k. (k, u) \<in> set (mf_files m) \<and> canonical_fs_path_str canon k = p})
             \<and> distinct (known_paths m')
             \<and> ((\<forall>k\<in>set (known_paths m). canonical_fs_path_str canon k = k) \<and> distinct (known_paths m)
                  \<longrightarrow> (\<forall>p t. is_unchanged m' p t \<longleftrightarrow> is_unchanged m p t)))"
proof -
  define m' where "m' = manifest_load from_json canon (manifest_save to_json io m d)"
  have m': "m' = canonicalize_keys canon m"
    using codec saved io by (simp add: m'_def manifest_load_def manifest_save_def codec_ok_def)
  have look: "is_unchanged m' p t \<longleftrightarrow> merged_mtime canon (mf_files m) p = Some t" for p t
    by (simp add: m' is_unchanged_def canonicalize_keys_def map_of_fold_merge)
  have ts: "set (map snd (filter (\<lambda>kv. canonical_fs_path_str canon (fst kv) = p) (mf_files m)))
      = {u. \<exists>k. (k, u) \<in> set (mf_files m) \<and> canonical_fs_path_str canon k = p}" for p
    by force
  have ne: "map snd (filter (\<lambda>kv. canonical_fs_path_str canon (fst kv) = p) (mf_files m)) = []
      \<longleftrightarrow> \<not> (\<exists>k\<in>set (known_paths m). canonical_fs_path_str canon k = p)" for p
    by (auto simp: filter_empty_conv known_paths_def)
  have "is_unchanged m' p t \<longleftrightarrow>
        (\<exists>k\<in>set (known_paths m). canonical_fs_path_str canon k = p)
        \<and> t = Max {u. \<exists>k. (k, u) \<in> set (mf_files m) \<and> canonical_fs_path_str canon k = p}" for p t
    unfolding look merged_mtime_def newest_def ne ts by auto
  moreover have "distinct (known_paths m')"
    using manifest_inv_ops(4) by (simp add: m' manifest_inv_def known_paths_def)
  moreover have "is_unchanged m' p t \<longleftrightarrow> is_unchanged m p t"
    if "\<forall>k\<in>set (known_paths m). canonical_fs_path_str canon k = k" and "distinct (known_paths m)" for p t
  proof -
    have "filter (\<lambda>kv. canonical_fs_path_str canon (fst kv) = p) (mf_files m)
        = filter (\<lambda>kv. fst kv = p) (mf_files m)"
      using that(1) by (intro filter_cong) (auto simp: known_paths_def)
    then show ?thesis
      using that(2) unfolding look by (simp add: is_unchanged_def merged_mtime_def known_paths_def map_of_newest)
  qed
  ultimately show ?thesis unfolding m'_def [symmetric] Let_def by blast
qed

theorem manifest_load_merges_witness:
  "(let canon = (\<lambda>p. if p = lit ''/l/a'' then Some (lit ''/r/a'') else None);
        m = \<lparr>mf_files = [(lit ''/l/a'', 7), (lit ''/r/a'', 5)]\<rparr>;
        m' = manifest_load (one_store_dec m) canon (manifest_save (one_store_enc m) io_success m Map.empty)
    in is_unchanged m' (lit ''/r/a'') 7 \<and> \<not> is_unchanged m' (lit ''/r/a'') 5 \<and> \<not> is_unchanged m' (lit ''/l/a'') 7)"
proof -
  define canon where "canon = (\<lambda>p. if p = lit ''/l/a'' then Some (lit ''/r/a'') else None)"
  define m where "m = \<lparr>mf_files = [(lit ''/l/a'', 7), (lit ''/r/a'', 5)]\<rparr>"
  have codec: "codec_ok (one_store_enc m) (one_store_dec m)"
    by (rule one_store_codec)
  have saved: "one_store_enc m m = Some (lit ''{}'')" by (simp add: one_store_enc_def)
  have c: "canonical_fs_path_str canon (lit ''/l/a'') = lit ''/r/a''" "canonical_fs_path_str canon (lit ''/r/a'') = lit ''/r/a''"
    by (simp_all add: canonical_fs_path_str_def canon_def lit_def)
  have T: "{u. \<exists>k. (k, u) \<in> set (mf_files m) \<and> canonical_fs_path_str canon k = lit ''/r/a''} = {7, 5}"
    using c by (auto simp: m_def)
  have K: "set (known_paths m) = {lit ''/l/a'', lit ''/r/a''}" by (simp add: known_paths_def m_def)
  have ne: "lit ''/r/a'' \<noteq> lit ''/l/a''" by (simp add: lit_def)
  note R = manifest_load_merges [OF codec saved, of io_success canon Map.empty]
  show ?thesis
    using R unfolding Let_def canon_def [symmetric] m_def [symmetric]
    by (simp add: io_success_def K c T ne not_sym [OF ne])
qed

end
