(* ===== verification/Ocr_Queue.thy ===== *)
theory Ocr_Queue
  imports Index_Writer File_Paths
begin

text \<open>
  The queue of deferred OCR jobs (\<^verbatim>\<open>lixun-extract/src/ocr_queue.rs\<close>) and the worker that
  drains it (\<^verbatim>\<open>lixun-indexer/src/ocr_tick.rs\<close>).

  The SQLite table is the list of its rows; the statements of the source are the definitions
  below, on that list. SQL leaves the order among rows with equal sort keys open; the model takes
  them in table order, and no theorem depends on it. What is outside the queue comes in through
  a record per tick (\<open>tick_env\<close>): the idle gate before and after the job, whether each statement
  succeeds, the file's metadata, the image filter and the OCR engine (external programs).
\<close>

section \<open>Rows and statements\<close>

record ocr_row =
  or_doc_id :: doc_id
  or_path :: rstring
  or_mtime :: int
  or_size :: int
  or_ext :: rstring
  or_enqueued_at :: int
  or_attempts :: int
  or_last_error :: "rstring option"

record ocr_queue_stats =
  qs_total :: nat
  qs_pending :: nat
  qs_failed :: nat

definition ocr_row_new :: "int \<Rightarrow> doc_id \<Rightarrow> rstring \<Rightarrow> int \<Rightarrow> int \<Rightarrow> rstring \<Rightarrow> ocr_row" where
  "ocr_row_new now i p mtime sz ext =
     \<lparr>or_doc_id = i, or_path = p, or_mtime = mtime, or_size = sz, or_ext = ext,
      or_enqueued_at = now, or_attempts = 0, or_last_error = None\<rparr>"

text \<open>\<^verbatim>\<open>size as i64\<close> on the way in; \<^verbatim>\<open>max(0) as u64\<close> and \<^verbatim>\<open>max(0) as u32\<close> on the way out.\<close>

definition row_to_sql :: "ocr_row \<Rightarrow> ocr_row" where
  "row_to_sql r = r\<lparr>or_size := wrap_i64 (or_size r)\<rparr>"

definition row_from_sql :: "ocr_row \<Rightarrow> ocr_row" where
  "row_from_sql r = r\<lparr>or_size := max 0 (or_size r), or_attempts := max 0 (or_attempts r) mod 2 ^ 32\<rparr>"

definition ocr_enqueue :: "ocr_row \<Rightarrow> ocr_row list \<Rightarrow> ocr_row list" where
  "ocr_enqueue r q = (if list_ex (\<lambda>r'. or_doc_id r' = or_doc_id r) q then q else q @ [row_to_sql r])"

definition peek_key :: "int \<Rightarrow> ocr_row \<Rightarrow> int \<times> int \<times> int" where
  "peek_key now r =
     (or_attempts r,
      if now - or_enqueued_at r < 86400 then 0 else 1,
      if now - or_enqueued_at r < 86400 then or_enqueued_at r else - or_mtime r)"

definition peek_next :: "int \<Rightarrow> int \<Rightarrow> ocr_row list \<Rightarrow> ocr_row option" where
  "peek_next now max_attempts q =
     (case sort_key (peek_key now) (filter (\<lambda>r. or_attempts r < max_attempts) q) of
        [] \<Rightarrow> None
      | r # _ \<Rightarrow> Some (row_from_sql r))"

definition ocr_remove :: "doc_id \<Rightarrow> ocr_row list \<Rightarrow> ocr_row list" where
  "ocr_remove i q = filter (\<lambda>r. or_doc_id r \<noteq> i) q"

definition mark_failure :: "doc_id \<Rightarrow> rstring \<Rightarrow> ocr_row list \<Rightarrow> ocr_row list" where
  "mark_failure i err q =
     map (\<lambda>r. if or_doc_id r = i then r\<lparr>or_attempts := or_attempts r + 1, or_last_error := Some err\<rparr> else r) q"

definition reap_zombies :: "int \<Rightarrow> int \<Rightarrow> ocr_row list \<Rightarrow> ocr_row list \<times> nat" where
  "reap_zombies max_attempts older_than_secs q =
     (let zombie = (\<lambda>r. max_attempts \<le> or_attempts r \<and> or_enqueued_at r < older_than_secs)
      in (filter (\<lambda>r. \<not> zombie r) q, length (filter zombie q)))"

definition ocr_len :: "ocr_row list \<Rightarrow> nat" where
  "ocr_len q = length q"

definition ocr_is_empty :: "ocr_row list \<Rightarrow> bool" where
  "ocr_is_empty q \<longleftrightarrow> ocr_len q = 0"

definition ocr_stats :: "int \<Rightarrow> ocr_row list \<Rightarrow> ocr_queue_stats" where
  "ocr_stats max_attempts q =
     \<lparr>qs_total = length q,
      qs_pending = sum_list (map (\<lambda>r. if or_attempts r < max_attempts then 1 else 0) q),
      qs_failed = sum_list (map (\<lambda>r. if max_attempts \<le> or_attempts r then 1 else 0) q)\<rparr>"

text \<open>
  \<^verbatim>\<open>with_busy_retry\<close>: ten tries, \<open>f k\<close> being the result of the \<open>k\<close>-th. The sleeps between them
  are not modelled.
\<close>

datatype sql_error = SqlBusy | SqlLocked | SqlOther

definition is_busy :: "sql_error \<Rightarrow> bool" where
  "is_busy e \<longleftrightarrow> e = SqlBusy \<or> e = SqlLocked"

fun busy_loop :: "(nat \<Rightarrow> sql_error + 'a) \<Rightarrow> nat \<Rightarrow> nat \<Rightarrow> sql_error \<Rightarrow> sql_error + 'a" where
  "busy_loop f k 0 last_err = Inl last_err"
| "busy_loop f k (Suc n) last_err =
     (case f k of
        Inr v \<Rightarrow> Inr v
      | Inl e \<Rightarrow> if \<not> is_busy e then Inl e else busy_loop f (Suc k) n e)"

definition with_busy_retry :: "(nat \<Rightarrow> sql_error + 'a) \<Rightarrow> sql_error + 'a" where
  "with_busy_retry f = busy_loop f 0 10 SqlOther"

section \<open>Enqueueing\<close>

definition OCR_CANDIDATES :: "rstring list" where
  "OCR_CANDIDATES = [lit ''pdf'', lit ''png'', lit ''jpg'', lit ''jpeg'', lit ''gif'', lit ''bmp'',
     lit ''webp'', lit ''tif'', lit ''tiff'']"

definition is_ocr_candidate :: "rstring \<Rightarrow> bool" where
  "is_ocr_candidate ext \<longleftrightarrow> ext \<in> set OCR_CANDIDATES"

section \<open>One tick\<close>

record ocr_cfg =
  oc_interval :: nat
  oc_langs :: "rstring list"
  oc_min_image_side_px :: nat
  oc_max_pages_per_pdf :: "nat option"
  oc_max_attempts :: int
  oc_jobs_per_tick :: nat
  oc_throttle :: "(int \<times> bool) option"
  oc_content_filter_enabled :: bool
  oc_min_text_components :: nat

record tick_env =
  te_idle :: bool
  te_idle_after :: bool
  te_now :: int
  te_peek_ok :: bool
  te_mark_ok :: bool
  te_remove_ok :: bool
  te_send_err :: "rstring option"
  te_filter :: "rstring \<Rightarrow> nat \<Rightarrow> bool option"
  te_run_ocr :: "rstring \<Rightarrow> rstring \<Rightarrow> rstring list \<Rightarrow> nat \<Rightarrow> nat option \<Rightarrow> rstring + rstring option"
  te_stat :: "rstring \<Rightarrow> (int \<times> int) option"

datatype tick_outcome =
    NoIdle
  | TickEmpty
  | Drained doc_id
  | StaleSkipped doc_id
  | TickFailed doc_id rstring
  | PermanentSkip doc_id

definition try_remove :: "tick_env \<Rightarrow> doc_id \<Rightarrow> ocr_row list \<Rightarrow> ocr_row list" where
  "try_remove e i q = (if te_remove_ok e then ocr_remove i q else q)"

definition try_mark :: "tick_env \<Rightarrow> doc_id \<Rightarrow> rstring \<Rightarrow> ocr_row list \<Rightarrow> ocr_row list" where
  "try_mark e i err q = (if te_mark_ok e then mark_failure i err q else q)"

text \<open>The part after the content filter: run the engine, check the file again, write back.\<close>

definition run_job :: "ocr_cfg \<Rightarrow> tick_env \<Rightarrow> ocr_row \<Rightarrow> ocr_row list \<Rightarrow> ocr_row list \<times> mutation list \<times> tick_outcome" where
  "run_job cfg e row q =
     (let i = or_doc_id row
      in case te_run_ocr e (or_path row) (or_ext row) (oc_langs cfg) (oc_min_image_side_px cfg) (oc_max_pages_per_pdf cfg) of
           Inr (Some body) \<Rightarrow>
             if \<not> te_idle_after e then (q, [], NoIdle)
             else (case te_stat e (or_path row) of
                     Some (cur_mtime, cur_size) \<Rightarrow>
                       if cur_mtime = or_mtime row \<and> cur_size = or_size row then
                         (case te_send_err e of
                            None \<Rightarrow> (try_remove e i q, [UpsertBody i body (Some (or_mtime row))], Drained i)
                          | Some err \<Rightarrow> (q, [], TickFailed i (lit ''upsert_body: '' @ err)))
                       else (try_remove e i q, [], StaleSkipped i)
                   | None \<Rightarrow> (try_remove e i q, [], StaleSkipped i))
         | Inr None \<Rightarrow> (try_mark e i (lit ''ocr returned empty (e.g. below min_side_px)'') q, [], PermanentSkip i)
         | Inl err \<Rightarrow> (try_mark e i err q, [], TickFailed i err))"

definition tick_once :: "ocr_cfg \<Rightarrow> tick_env \<Rightarrow> ocr_row list \<Rightarrow> ocr_row list \<times> mutation list \<times> tick_outcome" where
  "tick_once cfg e q =
     (if \<not> te_idle e then (q, [], NoIdle)
      else if \<not> te_peek_ok e then (q, [], TickEmpty)
      else case peek_next (te_now e) (oc_max_attempts cfg) q of
             None \<Rightarrow> (q, [], TickEmpty)
           | Some row \<Rightarrow>
               if oc_content_filter_enabled cfg
                  \<and> te_filter e (or_path row) (oc_min_text_components cfg) = Some False
               then (try_mark e (or_doc_id row) (lit ''content_filter: low-complexity image'') q, [],
                     PermanentSkip (or_doc_id row))
               else run_job cfg e row q)"

section \<open>The worker\<close>

record ocr_cfg_update =
  cu_interval :: nat
  cu_jobs_per_tick :: nat
  cu_throttle :: "(int \<times> bool) option"

definition apply_update :: "ocr_cfg_update option \<Rightarrow> ocr_cfg \<Rightarrow> ocr_cfg" where
  "apply_update u cfg =
     (case u of
        None \<Rightarrow> cfg
      | Some upd \<Rightarrow> cfg\<lparr>oc_interval := cu_interval upd, oc_jobs_per_tick := cu_jobs_per_tick upd,
                       oc_throttle := cu_throttle upd\<rparr>)"

record ocr_worker_stats =
  wk_drained_total :: nat
  wk_last_drain_at :: int

text \<open>The batch of one wake-up; \<open>env k\<close> is what the \<open>k\<close>-th tick meets.\<close>

fun ocr_batch ::
  "ocr_cfg \<Rightarrow> (nat \<Rightarrow> tick_env) \<Rightarrow> nat \<Rightarrow> nat \<Rightarrow> ocr_row list \<times> ocr_worker_stats
     \<Rightarrow> (ocr_row list \<times> ocr_worker_stats) \<times> mutation list" where
  "ocr_batch cfg env k 0 st = (st, [])"
| "ocr_batch cfg env k (Suc n) (q, ws) =
     (case tick_once cfg (env k) q of
        (q', sent, Drained i) \<Rightarrow>
          (let ws' = ws\<lparr>wk_last_drain_at := te_now (env k), wk_drained_total := wk_drained_total ws + 1\<rparr>
           in case ocr_batch cfg env (Suc k) n (q', ws') of (st, later) \<Rightarrow> (st, sent @ later))
      | (q', sent, _) \<Rightarrow> ((q', ws), sent))"

definition ocr_wake ::
  "ocr_cfg_update option \<Rightarrow> (nat \<Rightarrow> tick_env) \<Rightarrow> ocr_cfg \<times> ocr_row list \<times> ocr_worker_stats
     \<Rightarrow> (ocr_cfg \<times> ocr_row list \<times> ocr_worker_stats) \<times> mutation list" where
  "ocr_wake refresh env s =
     (case s of (cfg0, q, ws) \<Rightarrow>
        (let cfg = apply_update refresh cfg0
         in case ocr_batch cfg env 0 (max 1 (oc_jobs_per_tick cfg)) (q, ws) of
              (st, sent) \<Rightarrow> ((cfg, st), sent)))"

section \<open>The table\<close>

lemma ids_enqueue: "or_doc_id ` set (ocr_enqueue r q) = insert (or_doc_id r) (or_doc_id ` set q)"
  by (auto simp: ocr_enqueue_def row_to_sql_def list_ex_iff intro: rev_image_eqI)

lemma distinct_ids_ops:
  assumes "distinct (map or_doc_id q)"
  shows "distinct (map or_doc_id (ocr_enqueue r q))"
    and "distinct (map or_doc_id (ocr_remove i q))"
    and "distinct (map or_doc_id (mark_failure i err q))"
    and "distinct (map or_doc_id (fst (reap_zombies n t q)))"
proof -
  show "distinct (map or_doc_id (ocr_enqueue r q))"
    using assms by (auto simp: ocr_enqueue_def row_to_sql_def list_ex_iff)
  show "distinct (map or_doc_id (ocr_remove i q))"
    using assms by (simp add: ocr_remove_def distinct_map_filter)
  have "map or_doc_id (mark_failure i err q) = map or_doc_id q"
    by (simp add: mark_failure_def)
  then show "distinct (map or_doc_id (mark_failure i err q))" using assms by simp
  show "distinct (map or_doc_id (fst (reap_zombies n t q)))"
    using assms by (simp add: reap_zombies_def Let_def distinct_map_filter)
qed

lemma stats_partition: "qs_total (ocr_stats n q) = qs_pending (ocr_stats n q) + qs_failed (ocr_stats n q)"
  by (induction q) (simp_all add: ocr_stats_def)

text \<open>The retry loop returns the first result that is not a lock conflict, within ten tries.\<close>

lemma busy_loop_result:
  assumes "m < n" and "\<And>j. j < m \<Longrightarrow> \<exists>e. f (k + j) = Inl e \<and> is_busy e"
    and "\<And>e. f (k + m) = Inl e \<Longrightarrow> \<not> is_busy e"
  shows "busy_loop f k n e0 = f (k + m)"
  using assms
proof (induction n arbitrary: k m e0)
  case (Suc n)
  show ?case
  proof (cases m)
    case 0
    then show ?thesis using Suc.prems(3) by (simp split: sum.split)
  next
    case (Suc m')
    obtain e where e: "f k = Inl e" "is_busy e" using Suc.prems(2) [of 0] Suc by auto
    have later: "\<exists>e. f (Suc k + j) = Inl e \<and> is_busy e" if "j < m'" for j
      using Suc.prems(2) [of "Suc j"] Suc that by simp
    have "busy_loop f (Suc k) n e = f (Suc k + m')"
      by (rule Suc.IH) (use Suc.prems Suc later in auto)
    then show ?thesis using e Suc by simp
  qed
qed simp

section \<open>What is picked\<close>

lemma peek_next_None: "peek_next now n q = None \<longleftrightarrow> (\<forall>r\<in>set q. n \<le> or_attempts r)"
proof -
  have "peek_next now n q = None \<longleftrightarrow> set (sort_key (peek_key now) (filter (\<lambda>r. or_attempts r < n) q)) = {}"
    by (simp only: peek_next_def set_empty) (auto split: list.split)
  then show ?thesis by (auto simp: not_less)
qed

lemma peek_next_Some:
  assumes "peek_next now n q = Some row"
  obtains r where "r \<in> set q" and "row = row_from_sql r" and "or_attempts r < n"
    and "\<And>r'. r' \<in> set q \<Longrightarrow> or_attempts r' < n \<Longrightarrow> peek_key now r \<le> peek_key now r'"
proof -
  define el where "el = sort_key (peek_key now) (filter (\<lambda>r. or_attempts r < n) q)"
  obtain r rest where el: "el = r # rest" and row: "row = row_from_sql r"
    using assms by (auto simp: peek_next_def el_def split: list.splits)
  have s: "set el = {r \<in> set q. or_attempts r < n}" by (auto simp: el_def)
  have "sorted (map (peek_key now) el)" by (simp add: el_def)
  then have "\<forall>r'\<in>set el. peek_key now r \<le> peek_key now r'" using el by auto
  moreover have "r \<in> set el" using el by simp
  ultimately show ?thesis using that row s by blast
qed

text \<open>Reading a row back keeps everything that fits its column.\<close>

lemma row_from_sql_fields [simp]:
  "or_doc_id (row_from_sql r) = or_doc_id r" "or_path (row_from_sql r) = or_path r"
  "or_mtime (row_from_sql r) = or_mtime r" "or_ext (row_from_sql r) = or_ext r"
  by (simp_all add: row_from_sql_def)

lemma row_sql_roundtrip:
  assumes "0 \<le> or_size r" and "or_size r < 2 ^ 63" and "0 \<le> or_attempts r" and "or_attempts r < 2 ^ 32"
  shows "row_from_sql (row_to_sql r) = r"
proof -
  have "wrap_i64 (or_size r) = or_size r" using assms by (intro wrap_i64_id) (simp add: is_i64_def)
  then show ?thesis using assms by (simp add: row_from_sql_def row_to_sql_def)
qed

section \<open>What a tick does\<close>

text \<open>The rows a tick may touch: only the picked one.\<close>

lemma tick_once_cases:
  assumes "tick_once cfg e q = (q', sent, out)"
  obtains (idle) "q' = q" "sent = []" "out = NoIdle" "\<not> te_idle e \<or> \<not> te_idle_after e"
  | (blank) "q' = q" "sent = []" "out = TickEmpty" "te_idle e"
      "\<not> te_peek_ok e \<or> peek_next (te_now e) (oc_max_attempts cfg) q = None"
  | (drained) row body where "peek_next (te_now e) (oc_max_attempts cfg) q = Some row"
      "te_idle e" "te_idle_after e" "te_stat e (or_path row) = Some (or_mtime row, or_size row)"
      "te_run_ocr e (or_path row) (or_ext row) (oc_langs cfg) (oc_min_image_side_px cfg) (oc_max_pages_per_pdf cfg) = Inr (Some body)"
      "te_send_err e = None"
      "q' = try_remove e (or_doc_id row) q" "sent = [UpsertBody (or_doc_id row) body (Some (or_mtime row))]"
      "out = Drained (or_doc_id row)"
  | (stale) row where "peek_next (te_now e) (oc_max_attempts cfg) q = Some row"
      "te_idle e" "te_stat e (or_path row) \<noteq> Some (or_mtime row, or_size row)"
      "q' = try_remove e (or_doc_id row) q" "sent = []" "out = StaleSkipped (or_doc_id row)"
  | (unsent) row err where "peek_next (te_now e) (oc_max_attempts cfg) q = Some row"
      "te_idle e" "te_send_err e = Some err" "q' = q" "sent = []" "out = TickFailed (or_doc_id row) (lit ''upsert_body: '' @ err)"
  | (failed) row err where "peek_next (te_now e) (oc_max_attempts cfg) q = Some row"
      "te_idle e" "q' = try_mark e (or_doc_id row) err q" "sent = []"
      "out = TickFailed (or_doc_id row) err \<or> out = PermanentSkip (or_doc_id row)"
proof (cases "te_idle e \<and> te_peek_ok e")
  case False
  then show ?thesis using assms idle blank by (auto simp: tick_once_def split: if_splits)
next
  case go: True
  show ?thesis
  proof (cases "peek_next (te_now e) (oc_max_attempts cfg) q")
    case None
    then show ?thesis using assms go blank by (simp add: tick_once_def)
  next
    case row: (Some row)
    show ?thesis
    proof (cases "oc_content_filter_enabled cfg \<and> te_filter e (or_path row) (oc_min_text_components cfg) = Some False")
      case True
      then show ?thesis using assms go row failed [OF row] by (auto simp: tick_once_def)
    next
      case False
      then have job: "run_job cfg e row q = (q', sent, out)" using assms go row by (auto simp: tick_once_def)
      note run = job [unfolded run_job_def Let_def]
      show ?thesis
      proof (cases "te_run_ocr e (or_path row) (or_ext row) (oc_langs cfg) (oc_min_image_side_px cfg) (oc_max_pages_per_pdf cfg)")
        case (Inl err)
        then show ?thesis using run go failed [OF row] by auto
      next
        case res: (Inr res)
        show ?thesis
        proof (cases res)
          case None
          then show ?thesis using run res go failed [OF row] by auto
        next
          case body: (Some body)
          show ?thesis
          proof (cases "te_stat e (or_path row) = Some (or_mtime row, or_size row)")
            case True
            then show ?thesis using run res body go row idle drained [OF row] unsent [OF row]
              by (auto split: if_splits option.splits)
          next
            case False
            then show ?thesis using run res body go row idle stale [OF row]
              by (auto split: if_splits option.splits prod.splits)
          qed
        qed
      qed
    qed
  qed
qed

section \<open>Properties\<close>

text \<open>The order in which jobs are taken, in words: fewest failures first, then the last day's jobs
  in order of arrival, then the backlog, newest file first.\<close>

definition fresh :: "int \<Rightarrow> ocr_row \<Rightarrow> bool" where
  "fresh now r \<longleftrightarrow> now - or_enqueued_at r < 86400"

definition no_later :: "int \<Rightarrow> ocr_row \<Rightarrow> ocr_row \<Rightarrow> bool" where
  "no_later now r r' \<longleftrightarrow>
     or_attempts r \<le> or_attempts r'
     \<and> (or_attempts r = or_attempts r' \<longrightarrow>
          (fresh now r' \<longrightarrow> fresh now r \<and> or_enqueued_at r \<le> or_enqueued_at r')
          \<and> (\<not> fresh now r \<longrightarrow> or_mtime r' \<le> or_mtime r))"

lemma peek_key_no_later: "peek_key now r \<le> peek_key now r' \<Longrightarrow> no_later now r r'"
  by (auto simp: peek_key_def no_later_def fresh_def less_eq_prod_def less_prod_def split: if_splits)

lemma try_remove_frame: "filter (\<lambda>r. or_doc_id r \<noteq> i) (try_remove e i q) = filter (\<lambda>r. or_doc_id r \<noteq> i) q"
  by (simp add: try_remove_def ocr_remove_def)

lemma try_mark_frame:
  "filter (\<lambda>r. or_doc_id r \<noteq> i) (try_mark e i err q) = filter (\<lambda>r. or_doc_id r \<noteq> i) q"
  by (induction q) (auto simp: try_mark_def mark_failure_def)

lemma distinct_try_ops:
  "distinct (map or_doc_id q) \<Longrightarrow> distinct (map or_doc_id (try_remove e i q))"
  "distinct (map or_doc_id q) \<Longrightarrow> distinct (map or_doc_id (try_mark e i err q))"
  by (simp_all add: try_remove_def try_mark_def distinct_ids_ops)

text \<open>
  C33: A tick of the OCR worker touches at most one row and sends at most one write. It sends
  recognised text only when the machine was idle before and after the job, the row still had
  attempts left and no other such row came before it (fewest failures, then the last day's jobs in
  order of arrival, then the backlog by newest file), the text is what the engine returned for
  the row's file, and that file's time and size are still those recorded with the row; the time
  travels with the write. Ids stay unique in the queue, and the row leaves it once its text is sent.
\<close>

theorem ocr_tick_sound:
  assumes ids: "distinct (map or_doc_id q)" and tick: "tick_once cfg e q = (q', sent, out)"
  shows "distinct (map or_doc_id q')
    \<and> (\<exists>i. filter (\<lambda>r. or_doc_id r \<noteq> i) q' = filter (\<lambda>r. or_doc_id r \<noteq> i) q)
    \<and> (sent = [] \<or> (\<exists>r\<in>set q. \<exists>body.
          sent = [UpsertBody (or_doc_id r) body (Some (or_mtime r))]
          \<and> te_idle e \<and> te_idle_after e
          \<and> or_attempts r < oc_max_attempts cfg
          \<and> (\<forall>r'\<in>set q. or_attempts r' < oc_max_attempts cfg \<longrightarrow> no_later (te_now e) r r')
          \<and> te_run_ocr e (or_path r) (or_ext r) (oc_langs cfg) (oc_min_image_side_px cfg) (oc_max_pages_per_pdf cfg)
              = Inr (Some body)
          \<and> te_stat e (or_path r) = Some (or_mtime r, max 0 (or_size r))
          \<and> out = Drained (or_doc_id r)
          \<and> (te_remove_ok e \<longrightarrow> or_doc_id r \<notin> or_doc_id ` set q')))"
  using tick
proof (cases rule: tick_once_cases)
  case (drained row body)
  from drained(1) obtain r where r: "r \<in> set q" "row = row_from_sql r" "or_attempts r < oc_max_attempts cfg"
    "\<And>r'. r' \<in> set q \<Longrightarrow> or_attempts r' < oc_max_attempts cfg \<Longrightarrow> peek_key (te_now e) r \<le> peek_key (te_now e) r'"
    by (rule peek_next_Some) blast
  have "or_size row = max 0 (or_size r)" by (simp add: r(2) row_from_sql_def)
  moreover have "te_remove_ok e \<longrightarrow> or_doc_id r \<notin> or_doc_id ` set q'"
    using drained r(2) by (auto simp: try_remove_def ocr_remove_def)
  moreover have "filter (\<lambda>x. or_doc_id x \<noteq> or_doc_id r) q' = filter (\<lambda>x. or_doc_id x \<noteq> or_doc_id r) q"
    using drained r(2) by (simp add: try_remove_frame)
  moreover have "distinct (map or_doc_id q')" using drained ids by (simp add: distinct_try_ops)
  moreover have "\<forall>r'\<in>set q. or_attempts r' < oc_max_attempts cfg \<longrightarrow> no_later (te_now e) r r'"
    using r(4) peek_key_no_later by blast
  ultimately show ?thesis using drained r(1-3) by auto
qed (use ids try_remove_frame try_mark_frame distinct_try_ops in blast)+

subsection \<open>The queue drains\<close>

definition healthy :: "tick_env \<Rightarrow> bool" where
  "healthy e \<longleftrightarrow> te_idle e \<and> te_idle_after e \<and> te_peek_ok e \<and> te_mark_ok e \<and> te_remove_ok e \<and> te_send_err e = None"

primrec ocr_run :: "ocr_cfg \<Rightarrow> (nat \<Rightarrow> tick_env) \<Rightarrow> nat \<Rightarrow> ocr_row list \<Rightarrow> ocr_row list" where
  "ocr_run cfg env 0 q = q"
| "ocr_run cfg env (Suc n) q = fst (tick_once cfg (env n) (ocr_run cfg env n q))"

definition ocr_budget :: "int \<Rightarrow> ocr_row list \<Rightarrow> nat" where
  "ocr_budget n q = sum_list (map (\<lambda>r. nat (n - or_attempts r)) q)"

lemma budget_mark_le: "ocr_budget n (mark_failure i err q) \<le> ocr_budget n q"
  by (induction q) (auto simp: ocr_budget_def mark_failure_def)

lemma budget_mark:
  "r \<in> set q \<Longrightarrow> or_attempts r < n \<Longrightarrow> ocr_budget n (mark_failure (or_doc_id r) err q) < ocr_budget n q"
proof (induction q)
  case (Cons a q)
  show ?case
  proof (cases "a = r")
    case True
    then show ?thesis using Cons.prems budget_mark_le [of n "or_doc_id r" err q]
      by (auto simp: ocr_budget_def mark_failure_def)
  next
    case False
    then have "ocr_budget n (mark_failure (or_doc_id r) err q) < ocr_budget n q" using Cons by simp
    then show ?thesis by (auto simp: ocr_budget_def mark_failure_def)
  qed
qed simp

lemma budget_remove_le: "ocr_budget n (ocr_remove i q) \<le> ocr_budget n q"
  by (induction q) (auto simp: ocr_budget_def ocr_remove_def)

lemma budget_remove:
  "r \<in> set q \<Longrightarrow> or_attempts r < n \<Longrightarrow> ocr_budget n (ocr_remove (or_doc_id r) q) < ocr_budget n q"
proof (induction q)
  case (Cons a q)
  show ?case
  proof (cases "a = r")
    case True
    then show ?thesis using Cons.prems budget_remove_le [of n "or_doc_id r" q]
      by (simp add: ocr_budget_def ocr_remove_def)
  next
    case False
    then have "ocr_budget n (ocr_remove (or_doc_id r) q) < ocr_budget n q" using Cons by simp
    then show ?thesis by (simp add: ocr_budget_def ocr_remove_def)
  qed
qed simp

lemma healthy_tick_progress:
  assumes "healthy e" and "tick_once cfg e q = (q', sent, out)"
  shows "out = TickEmpty \<and> (\<forall>r\<in>set q. oc_max_attempts cfg \<le> or_attempts r)
    \<or> ocr_budget (oc_max_attempts cfg) q' < ocr_budget (oc_max_attempts cfg) q"
proof -
  have picked: "ocr_budget (oc_max_attempts cfg) (try_remove e (or_doc_id row) q) < ocr_budget (oc_max_attempts cfg) q"
    "ocr_budget (oc_max_attempts cfg) (try_mark e (or_doc_id row) err q) < ocr_budget (oc_max_attempts cfg) q"
    if "peek_next (te_now e) (oc_max_attempts cfg) q = Some row" for row err
  proof -
    from that obtain r where r: "r \<in> set q" "row = row_from_sql r" "or_attempts r < oc_max_attempts cfg"
      by (rule peek_next_Some)
    show "ocr_budget (oc_max_attempts cfg) (try_remove e (or_doc_id row) q) < ocr_budget (oc_max_attempts cfg) q"
      "ocr_budget (oc_max_attempts cfg) (try_mark e (or_doc_id row) err q) < ocr_budget (oc_max_attempts cfg) q"
      using assms(1) r budget_remove [OF r(1,3)] budget_mark [OF r(1,3)]
      by (simp_all add: healthy_def try_remove_def try_mark_def)
  qed
  show ?thesis
    using assms(2)
  proof (cases rule: tick_once_cases)
    case blank
    then show ?thesis using assms(1) by (auto simp: healthy_def peek_next_None)
  qed (use assms(1) picked in \<open>auto simp: healthy_def\<close>)
qed

lemma run_until_empty:
  assumes "\<And>k. healthy (env k)"
  shows "\<exists>n \<le> ocr_budget (oc_max_attempts cfg) q.
     snd (snd (tick_once cfg (env n) (ocr_run cfg env n q))) = TickEmpty
     \<and> (\<forall>r\<in>set (ocr_run cfg env n q). oc_max_attempts cfg \<le> or_attempts r)"
proof (rule ccontr)
  let ?b = "\<lambda>n. ocr_budget (oc_max_attempts cfg) (ocr_run cfg env n q)"
  assume "\<not> ?thesis"
  then have busy: "\<not> (snd (snd (tick_once cfg (env n) (ocr_run cfg env n q))) = TickEmpty
     \<and> (\<forall>r\<in>set (ocr_run cfg env n q). oc_max_attempts cfg \<le> or_attempts r))"
    if "n \<le> ?b 0" for n using that by auto
  have down: "?b (Suc n) < ?b n" if "n \<le> ?b 0" for n
    using busy [OF that] healthy_tick_progress [OF assms [of n], of cfg "ocr_run cfg env n q"]
    by (metis fst_conv ocr_run.simps(2) snd_conv surj_pair)
  have "?b n + n \<le> ?b 0" if "n \<le> Suc (?b 0)" for n
    using that
  proof (induction n)
    case (Suc n)
    then have "?b n + n \<le> ?b 0" "?b (Suc n) < ?b n" using down by simp_all
    then show ?case by simp
  qed simp
  from this [of "Suc (?b 0)"] show False by simp
qed

text \<open>
  C34: The queue drains. As long as the machine is idle and the database and the writer accept the
  calls, whatever the OCR engine, the image filter and the files do, the worker reaches a tick
  that finds nothing to do after at most as many ticks as there are attempts left in the queue, and the
  rows that remain have used up their attempts.
\<close>

theorem ocr_queue_drains:
  assumes "\<And>k. healthy (env k)"
  shows "\<exists>n \<le> ocr_budget (oc_max_attempts cfg) q.
     snd (snd (tick_once cfg (env n) (ocr_run cfg env n q))) = TickEmpty
     \<and> (\<forall>r\<in>set (ocr_run cfg env n q). oc_max_attempts cfg \<le> or_attempts r)"
  using assms by (rule run_until_empty)

text \<open>
  A file that changes while its job is queued loses its OCR. The enqueue of the new version is ignored
  (the row of the old version stays), and when the worker comes to that row it finds the file changed,
  sends nothing and deletes the row: no job for the file is left.
\<close>

theorem changed_file_drops_out_of_ocr:
  assumes old: "r \<in> set q" and new: "or_doc_id r' = or_doc_id r"
    and picked: "peek_next (te_now e) (oc_max_attempts cfg) q = Some (row_from_sql r)"
    and healthy: "healthy e" and nofilter: "\<not> oc_content_filter_enabled cfg"
    and read: "te_run_ocr e (or_path r) (or_ext r) (oc_langs cfg) (oc_min_image_side_px cfg) (oc_max_pages_per_pdf cfg)
         = Inr (Some body)"
    and changed: "te_stat e (or_path r) = Some (or_mtime r', or_size r')" "or_mtime r' \<noteq> or_mtime r"
  shows "tick_once cfg e (ocr_enqueue r' q) = (ocr_remove (or_doc_id r') q, [], StaleSkipped (or_doc_id r'))
    \<and> (\<forall>x\<in>set (ocr_remove (or_doc_id r') q). or_doc_id x \<noteq> or_doc_id r')"
proof -
  have "ocr_enqueue r' q = q" using old new by (auto simp: ocr_enqueue_def list_ex_iff)
  then show ?thesis
    using healthy nofilter picked read changed new
    by (simp add: tick_once_def run_job_def healthy_def try_remove_def ocr_remove_def Let_def)
qed

section \<open>Witnesses\<close>

definition example_row :: "rstring \<Rightarrow> int \<Rightarrow> ocr_row" where
  "example_row i mtime = ocr_row_new 100 i (lit ''/a.png'') mtime 4096 (lit ''png'')"

definition example_ocr_cfg :: ocr_cfg where
  "example_ocr_cfg = \<lparr>oc_interval = 60, oc_langs = [lit ''eng''], oc_min_image_side_px = 0,
     oc_max_pages_per_pdf = None, oc_max_attempts = 3, oc_jobs_per_tick = 1, oc_throttle = None,
     oc_content_filter_enabled = False, oc_min_text_components = 0\<rparr>"

definition example_tick :: "int \<Rightarrow> (rstring + rstring option) \<Rightarrow> tick_env" where
  "example_tick mtime result = \<lparr>te_idle = True, te_idle_after = True, te_now = 200, te_peek_ok = True,
     te_mark_ok = True, te_remove_ok = True, te_send_err = None, te_filter = (\<lambda>_ _. None),
     te_run_ocr = (\<lambda>_ _ _ _ _. result), te_stat = (\<lambda>_. Some (mtime, 4096))\<rparr>"

lemmas ocr_example_simps = example_row_def example_ocr_cfg_def example_tick_def ocr_row_new_def
  row_to_sql_def row_from_sql_def healthy_def

theorem ocr_tick_sound_witness:
  "tick_once example_ocr_cfg (example_tick 7 (Inr (Some (lit ''x'')))) [example_row (lit ''fs:/a.png'') 7]
     = ([], [UpsertBody (lit ''fs:/a.png'') (lit ''x'') (Some 7)], Drained (lit ''fs:/a.png''))
   \<and> distinct (map or_doc_id ([] :: ocr_row list))"
proof -
  have t: "tick_once example_ocr_cfg (example_tick 7 (Inr (Some (lit ''x'')))) [example_row (lit ''fs:/a.png'') 7]
     = ([], [UpsertBody (lit ''fs:/a.png'') (lit ''x'') (Some 7)], Drained (lit ''fs:/a.png''))"
    by (simp add: tick_once_def run_job_def peek_next_def try_remove_def ocr_remove_def ocr_example_simps Let_def)
  then show ?thesis using ocr_tick_sound [OF _ t] by simp
qed

theorem ocr_queue_drains_witness:
  "\<exists>n \<le> 3. snd (snd (tick_once example_ocr_cfg (example_tick 7 (Inl (lit ''boom'')))
      (ocr_run example_ocr_cfg (\<lambda>_. example_tick 7 (Inl (lit ''boom''))) n [example_row (lit ''fs:/a.png'') 7]))) = TickEmpty"
proof -
  have h: "healthy (example_tick 7 (Inl (lit ''boom'')))" by (simp add: ocr_example_simps)
  have b: "ocr_budget (oc_max_attempts example_ocr_cfg) [example_row (lit ''fs:/a.png'') 7] = 3"
    by (simp add: ocr_budget_def ocr_example_simps)
  show ?thesis
    using ocr_queue_drains [of "\<lambda>_. example_tick 7 (Inl (lit ''boom''))" example_ocr_cfg "[example_row (lit ''fs:/a.png'') 7]", OF h]
    unfolding b by blast
qed

theorem changed_file_drops_out_of_ocr_witness:
  "tick_once example_ocr_cfg (example_tick 9 (Inr (Some (lit ''x''))))
     (ocr_enqueue (example_row (lit ''fs:/a.png'') 9) [example_row (lit ''fs:/a.png'') 7])
   = (ocr_remove (lit ''fs:/a.png'') [example_row (lit ''fs:/a.png'') 7], [], StaleSkipped (lit ''fs:/a.png''))"
  using changed_file_drops_out_of_ocr [of "example_row (lit ''fs:/a.png'') 7" "[example_row (lit ''fs:/a.png'') 7]"
      "example_row (lit ''fs:/a.png'') 9" "example_tick 9 (Inr (Some (lit ''x'')))" example_ocr_cfg "lit ''x''"]
  by (simp add: peek_next_def ocr_example_simps)

end
