(* ===== verification/Crawler.thy ===== *)
theory Crawler
  imports Ocr_Queue
begin

text \<open>
  The file-system source (\<^verbatim>\<open>lixun-sources/src/fs.rs\<close>), the single-file indexer
  (\<^verbatim>\<open>index_file\<close> of \<^verbatim>\<open>lixun-indexer/src/index_service.rs\<close>), and the crawls built from them
  (\<^verbatim>\<open>lixun-indexer/src/indexer.rs\<close>, \<^verbatim>\<open>lixun-daemon/src/sources_glue.rs\<close>).

  The disk a crawl sees is a record \<open>fs_world\<close>: the tree below a root as \<^verbatim>\<open>walkdir\<close> would
  read it, the metadata of a path, \<^verbatim>\<open>canonicalize\<close>, and what the text extractors and the MIME
  guesser (external programs and a library) return for it. The content pass runs on a thread pool and
  keeps the order of its input; the model runs it in that order. Log output is not modelled.
\<close>

section \<open>The disk\<close>

datatype fnode = FFile | FOther | FUnreadable | FDir "(rstring \<times> fnode) list"

datatype fkind = KFile | KDir | KOther

record fmeta =
  fm_modified :: "int option"
  fm_len :: nat
  fm_is_file :: bool
  fm_is_dir :: bool

record fs_world =
  fw_tree :: "fpath \<Rightarrow> fnode option"
  fw_meta :: "fpath \<Rightarrow> fmeta option"
  fw_canon :: "rstring \<Rightarrow> rstring option"
  fw_extract :: "fpath \<Rightarrow> unit + rstring option"
  fw_guess :: "fpath \<Rightarrow> rstring \<times> rstring"
  fw_too_small :: "fpath \<Rightarrow> nat \<Rightarrow> bool option"
  fw_lower :: "rstring \<Rightarrow> rstring"
  fw_now :: int

record walk_entry =
  we_path :: fpath
  we_depth :: nat
  we_kind :: fkind

text \<open>
  \<^verbatim>\<open>WalkDir::new(root)\<close> without following links, with \<^verbatim>\<open>filter_entry\<close> (an entry the
  predicate refuses is left out with everything below it) and the errors filtered out.
\<close>

fun walk_node :: "(fpath \<Rightarrow> bool) \<Rightarrow> fpath \<Rightarrow> nat \<Rightarrow> fnode \<Rightarrow> walk_entry list"
  and walk_children :: "(fpath \<Rightarrow> bool) \<Rightarrow> fpath \<Rightarrow> nat \<Rightarrow> (rstring \<times> fnode) list \<Rightarrow> walk_entry list" where
  "walk_node keep p depth FUnreadable = []"
| "walk_node keep p depth FFile = (if keep p then [\<lparr>we_path = p, we_depth = depth, we_kind = KFile\<rparr>] else [])"
| "walk_node keep p depth FOther = (if keep p then [\<lparr>we_path = p, we_depth = depth, we_kind = KOther\<rparr>] else [])"
| "walk_node keep p depth (FDir cs) =
     (if keep p then \<lparr>we_path = p, we_depth = depth, we_kind = KDir\<rparr> # walk_children keep p (Suc depth) cs else [])"
| "walk_children keep p depth [] = []"
| "walk_children keep p depth ((n, c) # cs) = walk_node keep (p @ [n]) depth c @ walk_children keep p depth cs"

definition walk_root :: "fs_world \<Rightarrow> (fpath \<Rightarrow> bool) \<Rightarrow> fpath \<Rightarrow> walk_entry list" where
  "walk_root W keep r = (case fw_tree W r of None \<Rightarrow> [] | Some t \<Rightarrow> walk_node keep r 0 t)"

section \<open>Icons and kinds\<close>

definition is_ascii_alphanumeric :: "rchar \<Rightarrow> bool" where
  "is_ascii_alphanumeric c \<longleftrightarrow> is_ascii_alphabetic c \<or> is_ascii_digit c"

definition capitalize :: "rstring \<Rightarrow> rstring" where
  "capitalize w = (case w of [] \<Rightarrow> [] | c # cs \<Rightarrow> (if 97 \<le> c \<and> c \<le> 122 then c - 32 else c) # cs)"

fun titleize_words :: "rstring \<Rightarrow> rstring \<Rightarrow> rstring list" where
  "titleize_words cur [] = (if cur = [] then [] else [capitalize cur])"
| "titleize_words cur (c # cs) =
     (if is_ascii_alphanumeric c then titleize_words (cur @ [c]) cs
      else if cur \<noteq> [] then capitalize cur # titleize_words [] cs
      else titleize_words [] cs)"

definition titleize_subtype :: "rstring \<Rightarrow> rstring" where
  "titleize_subtype s =
     (let words = titleize_words [] s
      in if words = [] then lit ''Unknown'' else join [32] words)"

definition essence :: "rstring \<times> rstring \<Rightarrow> rstring" where
  "essence m = fst m @ [slash] @ snd m"

definition mime_to_icon_name :: "rstring \<times> rstring \<Rightarrow> rstring" where
  "mime_to_icon_name m =
     (let e = essence m
      in if e = lit ''application/pdf'' then lit ''application-pdf''
         else if e = lit ''text/plain'' then lit ''text-plain''
         else if e = lit ''text/markdown'' \<or> e = lit ''text/x-markdown'' then lit ''text-x-markdown''
         else if e = lit ''application/zip'' \<or> e = lit ''application/x-tar'' \<or> e = lit ''application/x-gzip''
           then lit ''package-x-generic''
         else if e = lit ''inode/directory'' then lit ''folder''
         else if fst m = lit ''image'' then lit ''image-x-generic''
         else if fst m = lit ''video'' then lit ''video-x-generic''
         else if fst m = lit ''audio'' then lit ''audio-x-generic''
         else lit ''text-x-generic'')"

definition human_kind :: "rstring \<times> rstring \<Rightarrow> rstring" where
  "human_kind m =
     (let e = essence m
      in if e = lit ''application/pdf'' then lit ''PDF Document''
         else if e = lit ''text/plain'' then lit ''Text''
         else if e = lit ''text/markdown'' \<or> e = lit ''text/x-markdown'' then lit ''Markdown''
         else if e = lit ''application/json'' then lit ''JSON''
         else if e = lit ''application/zip'' \<or> e = lit ''application/x-tar'' \<or> e = lit ''application/x-gzip''
           then lit ''Archive''
         else if e = lit ''inode/directory'' then lit ''Folder''
         else if fst m = lit ''image'' then lit ''Image''
         else if fst m = lit ''video'' then lit ''Video''
         else if fst m = lit ''audio'' then lit ''Audio''
         else titleize_subtype (snd m))"

definition metadata_for_path :: "fs_world \<Rightarrow> fpath \<Rightarrow> rstring \<times> rstring \<times> rstring" where
  "metadata_for_path W p = (let m = fw_guess W p in (mime_to_icon_name m, human_kind m, essence m))"

section \<open>The source and its content pass\<close>

record body_checker =
  bc_has_body :: "doc_id \<Rightarrow> bool option"
  bc_get_body :: "doc_id \<Rightarrow> rstring option option"

record extractor_caps =
  has_tesseract :: bool
  ocr_enabled :: bool

record 'r fs_source =
  src_roots :: "fpath list"
  src_exclude :: "rstring list"
  src_exclude_regex :: "'r list"
  src_max_file_size_mb :: nat
  src_caps :: extractor_caps
  src_ocr_enqueue :: bool
  src_body_checker :: "body_checker option"
  src_min_image_side_px :: nat

definition MIN_IMAGE_BYTES_FOR_PROBE :: nat where
  "MIN_IMAGE_BYTES_FOR_PROBE = 64"

definition mtime_secs :: "fmeta \<Rightarrow> int" where
  "mtime_secs m = (case fm_modified m of Some t \<Rightarrow> t | None \<Rightarrow> 0)"

text \<open>The row handed to the queue, if any.\<close>

definition maybe_enqueue_ocr ::
  "fs_world \<Rightarrow> extractor_caps \<Rightarrow> bool \<Rightarrow> body_checker option \<Rightarrow> nat \<Rightarrow> fpath \<Rightarrow> ocr_row option" where
  "maybe_enqueue_ocr W caps enqueue checker min_side p =
     (if \<not> enqueue then None
      else if \<not> has_tesseract caps \<or> \<not> ocr_enabled caps then None
      else
        (let ext = (case extension p of Some e \<Rightarrow> fw_lower W e | None \<Rightarrow> [])
         in if \<not> is_ocr_candidate ext then None
            else
              (let i = canonical_fs_doc_id (fw_canon W) (path_str p)
               in if (case checker of Some c \<Rightarrow> bc_has_body c i = Some True | None \<Rightarrow> False) then None
                  else (case fw_meta W p of
                          None \<Rightarrow> None
                        | Some m \<Rightarrow>
                            if 0 < min_side \<and> ext \<noteq> lit ''pdf''
                               \<and> (fm_len m < MIN_IMAGE_BYTES_FOR_PROBE \<or> fw_too_small W p min_side = Some True)
                            then None
                            else Some (ocr_row_new (fw_now W) i (path_str p) (mtime_secs m) (int (fm_len m)) ext)))))"

definition extract_content ::
  "fs_world \<Rightarrow> extractor_caps \<Rightarrow> bool \<Rightarrow> body_checker option \<Rightarrow> nat \<Rightarrow> fpath
     \<Rightarrow> (unit + rstring option) \<times> ocr_row option" where
  "extract_content W caps enqueue checker min_side p =
     (case fw_extract W p of
        Inl _ \<Rightarrow> (Inl (), None)
      | Inr (Some body) \<Rightarrow> (Inr (Some body), None)
      | Inr None \<Rightarrow> (Inr None, maybe_enqueue_ocr W caps enqueue checker min_side p))"

record file_meta =
  me_path :: fpath
  me_path_str :: rstring
  me_filename :: rstring
  me_mtime :: int
  me_size :: nat
  me_is_dir :: bool

definition build_document :: "fs_world \<Rightarrow> file_meta \<Rightarrow> rstring option \<Rightarrow> bool \<Rightarrow> document" where
  "build_document W m body extract_fail =
     (case (if me_is_dir m then (lit ''folder'', lit ''Folder'', None)
            else (case metadata_for_path W (me_path m) of (icon, kind, mime) \<Rightarrow> (icon, kind, Some mime)))
      of (icon, kind, mime) \<Rightarrow>
        \<lparr>doc_id = canonical_fs_doc_id_from_str (me_path_str m),
         doc_category = File,
         doc_title = me_filename m,
         doc_subtitle = me_path_str m,
         doc_icon_name = Some icon,
         doc_kind_label = Some kind,
         doc_body = body,
         doc_path = me_path_str m,
         doc_mtime = me_mtime m,
         doc_size = me_size m,
         doc_action = OpenFile (path_str (me_path m)),
         doc_extract_fail = extract_fail,
         doc_sender = None,
         doc_recipients = None,
         doc_source_instance = lit ''builtin:fs'',
         doc_extra = [],
         doc_secondary_action = Some (ShowInFileManager (path_str (me_path m))),
         doc_mime = mime\<rparr>)"

text \<open>The closure of the content pass: the document, and the OCR job it asks for.\<close>

definition content_pass :: "fs_world \<Rightarrow> 'r fs_source \<Rightarrow> file_meta \<Rightarrow> document \<times> ocr_row option" where
  "content_pass W src m =
     (if me_is_dir m then (build_document W m None False, None)
      else if me_size m \<le> src_max_file_size_mb src * 1024 * 1024 then
        (case extract_content W (src_caps src) (src_ocr_enqueue src) (src_body_checker src)
                (src_min_image_side_px src) (me_path m) of
           (Inr (Some body), job) \<Rightarrow> (build_document W m (Some body) False, job)
         | (Inr None, job) \<Rightarrow> (build_document W m None False, job)
         | (Inl _, job) \<Rightarrow> (build_document W m None True, job))
      else (build_document W m None False, None))"

section \<open>The metadata pass\<close>

definition is_excluded :: "(rstring \<Rightarrow> 'r \<Rightarrow> bool) \<Rightarrow> 'r fs_source \<Rightarrow> fpath \<Rightarrow> bool" where
  "is_excluded is_match src p = path_excluded is_match (path_str p) (src_exclude src) (src_exclude_regex src)"

definition entry_meta :: "fs_world \<Rightarrow> walk_entry \<Rightarrow> file_meta option" where
  "entry_meta W e =
     (if we_kind e = KOther then None
      else if we_depth e = 0 then None
      else (case fw_meta W (we_path e) of
              None \<Rightarrow> None
            | Some m \<Rightarrow>
                Some \<lparr>me_path = we_path e,
                      me_path_str = canonical_fs_path_str (fw_canon W) (path_str (we_path e)),
                      me_filename = (case file_name (we_path e) of Some n \<Rightarrow> n | None \<Rightarrow> []),
                      me_mtime = mtime_secs m, me_size = fm_len m, me_is_dir = (we_kind e = KDir)\<rparr>))"

definition scan :: "(rstring \<Rightarrow> 'r \<Rightarrow> bool) \<Rightarrow> fs_world \<Rightarrow> 'r fs_source \<Rightarrow> file_meta list" where
  "scan is_match W src =
     List.map_filter (entry_meta W)
       (concat (map (walk_root W (\<lambda>p. \<not> is_excluded is_match src p)) (src_roots src)))"

definition needs_index :: "manifest \<Rightarrow> doc_id set \<Rightarrow> file_meta \<Rightarrow> bool" where
  "needs_index man indexed m \<longleftrightarrow>
     \<not> (is_unchanged man (me_path_str m) (me_mtime m) \<and> canonical_fs_doc_id_from_str (me_path_str m) \<in> indexed)"

section \<open>The crawls\<close>

definition BATCH_SIZE :: nat where
  "BATCH_SIZE = 2000"

text \<open>
  The batch loop: \<open>ok k\<close> says whether the consumer accepts the \<open>k\<close>-th batch. The result: the batches
  handed over, the OCR jobs, and the manifest (\<open>None\<close> when a batch was refused).
\<close>

function batch_loop ::
  "fs_world \<Rightarrow> 'r fs_source \<Rightarrow> (nat \<Rightarrow> bool) \<Rightarrow> nat \<Rightarrow> file_meta list \<Rightarrow> manifest
     \<Rightarrow> document list list \<times> ocr_row list \<times> manifest option" where
  "batch_loop W src ok k metas man =
     (if metas = [] then ([], [], Some man)
      else
        (let out = map (content_pass W src) (take BATCH_SIZE metas);
             docs = map fst out;
             jobs = List.map_filter snd out;
             man' = fold (\<lambda>d. manifest_update (doc_path d) (doc_mtime d)) docs man
         in if \<not> ok k then ([], jobs, None)
            else (case batch_loop W src ok (Suc k) (drop BATCH_SIZE metas) man' of
                    (batches, later_jobs, res) \<Rightarrow> (docs # batches, jobs @ later_jobs, res))))"
  by pat_completeness auto

termination
  by (relation "measure (\<lambda>(W, src, ok, k, metas, man). length metas)") (simp_all add: BATCH_SIZE_def)

declare batch_loop.simps [simp del]

record crawl_result =
  cr_batches :: "document list list"
  cr_jobs :: "ocr_row list"
  cr_deleted :: "doc_id list"
  cr_manifest :: "manifest option"

definition index_incremental_batched ::
  "(rstring \<Rightarrow> 'r \<Rightarrow> bool) \<Rightarrow> fs_world \<Rightarrow> 'r fs_source \<Rightarrow> manifest \<Rightarrow> doc_id set \<Rightarrow> (nat \<Rightarrow> bool) \<Rightarrow> crawl_result" where
  "index_incremental_batched is_match W src man indexed ok =
     (let metas = scan is_match W src;
          current = set (map me_path_str metas);
          gone = filter (\<lambda>p. p \<notin> current) (known_paths man);
          man1 = fold manifest_remove gone man
      in case batch_loop W src ok 0 (filter (needs_index man indexed) metas) man1 of
           (batches, jobs, res) \<Rightarrow>
             \<lparr>cr_batches = batches, cr_jobs = jobs, cr_deleted = map canonical_fs_doc_id_from_str gone,
              cr_manifest = res\<rparr>)"

definition index_all :: "(rstring \<Rightarrow> 'r \<Rightarrow> bool) \<Rightarrow> fs_world \<Rightarrow> 'r fs_source \<Rightarrow> document list \<times> ocr_row list" where
  "index_all is_match W src =
     (let out = map (content_pass W src) (scan is_match W src)
      in (map fst out, List.map_filter snd out))"

text \<open>\<^verbatim>\<open>index_file\<close>, used by the watcher and for single files; \<open>None\<close> is a failed \<^verbatim>\<open>stat\<close>.\<close>

definition index_file ::
  "fs_world \<Rightarrow> nat \<Rightarrow> extractor_caps \<Rightarrow> bool \<Rightarrow> body_checker option \<Rightarrow> nat \<Rightarrow> fpath
     \<Rightarrow> (document \<times> ocr_row option) option" where
  "index_file W max_mb caps enqueue checker min_side p =
     (case fw_meta W p of
        None \<Rightarrow> None
      | Some md \<Rightarrow>
          (let i = canonical_fs_doc_id (fw_canon W) (path_str p);
               (body, fail, job) =
                 (if fm_is_dir md then (None, False, None)
                  else if fm_len md \<le> max_mb * 1024 * 1024 then
                    (case extract_content W caps enqueue checker min_side p of
                       (Inr (Some body), job) \<Rightarrow> (Some body, False, job)
                     | (Inr None, job) \<Rightarrow>
                         ((case checker of
                             None \<Rightarrow> None
                           | Some c \<Rightarrow> (case bc_get_body c i of Some (Some b) \<Rightarrow> Some b | _ \<Rightarrow> None)), False, job)
                     | (Inl _, job) \<Rightarrow> (None, True, job))
                  else (None, False, None));
               (icon, kind, mime) =
                 (if fm_is_dir md then (lit ''folder'', lit ''Folder'', None)
                  else (case metadata_for_path W p of (icon, kind, mime) \<Rightarrow> (icon, kind, Some mime)))
           in Some (\<lparr>doc_id = i,
               doc_category = File,
               doc_title = (case file_name p of Some n \<Rightarrow> n | None \<Rightarrow> []),
               doc_subtitle = path_str p,
               doc_icon_name = Some icon,
               doc_kind_label = Some kind,
               doc_body = body,
               doc_path = path_str p,
               doc_mtime = mtime_secs md,
               doc_size = fm_len md,
               doc_action = OpenFile (path_str p),
               doc_extract_fail = fail,
               doc_sender = None,
               doc_recipients = None,
               doc_source_instance = lit ''builtin:fs'',
               doc_extra = [],
               doc_secondary_action = Some (ShowInFileManager (path_str p)),
               doc_mime = mime\<rparr>, job)))"

section \<open>The indexer's entry points\<close>

text \<open>What a source emits, and how the writer's sink turns it into index mutations.\<close>

datatype src_mutation =
    SrcUpsert document
  | SrcUpsertMany "document list"
  | SrcDelete doc_id
  | SrcDeleteSourceInstance rstring

definition sink_emit :: "src_mutation \<Rightarrow> mutation list" where
  "sink_emit m =
     (case m of
        SrcUpsert d \<Rightarrow> [UpsertMany [d]]
      | SrcUpsertMany ds \<Rightarrow> if ds \<noteq> [] then [UpsertMany ds] else []
      | SrcDelete i \<Rightarrow> [DeleteMany [i]]
      | SrcDeleteSourceInstance inst \<Rightarrow> [DeleteSourceInstance inst])"

definition sink_count :: "src_mutation \<Rightarrow> nat" where
  "sink_count m = (case m of SrcUpsert _ \<Rightarrow> 1 | SrcUpsertMany ds \<Rightarrow> length ds | _ \<Rightarrow> 0)"

text \<open>\<^verbatim>\<open>FsSource::reindex_full\<close>: what the file-system source emits when it is run as a plugin.\<close>

definition fs_reindex_full ::
  "(rstring \<Rightarrow> 'r \<Rightarrow> bool) \<Rightarrow> fs_world \<Rightarrow> 'r fs_source \<Rightarrow> rstring \<Rightarrow> (nat \<Rightarrow> bool)
     \<Rightarrow> src_mutation list \<times> manifest option" where
  "fs_reindex_full is_match W src instance_id ok =
     (let r = index_incremental_batched is_match W src manifest_default {} ok;
          ups = map (\<lambda>d. SrcUpsert (d\<lparr>doc_source_instance := instance_id\<rparr>)) (concat (cr_batches r))
      in case cr_manifest r of
           None \<Rightarrow> (ups, None)
         | Some man \<Rightarrow> (ups @ map SrcDelete (cr_deleted r), Some man))"

record source_instance =
  si_kind :: rstring
  si_reindex_on_schema_wipe :: bool
  si_emits :: "src_mutation list"
  si_ok :: bool

datatype indexer_action = SendMutation mutation | SaveManifest manifest | RemoveManifest

fun reindex_non_fs :: "nat \<Rightarrow> source_instance list \<Rightarrow> indexer_action list \<times> nat option" where
  "reindex_non_fs n [] = ([], Some n)"
| "reindex_non_fs n (inst # rest) =
     (if si_kind inst = lit ''fs'' \<or> \<not> si_reindex_on_schema_wipe inst then reindex_non_fs n rest
      else
        (let sent = map SendMutation (concat (map sink_emit (si_emits inst)))
         in if \<not> si_ok inst then (sent, None)
            else (case reindex_non_fs (n + sum_list (map sink_count (si_emits inst))) rest of
                    (acts, res) \<Rightarrow> (sent @ [SendMutation (Applied 0)] @ acts, res))))"

definition send_batches :: "document list list \<Rightarrow> indexer_action list" where
  "send_batches bs = concat (map (\<lambda>b. [SendMutation (UpsertMany b), SendMutation (Applied 0)]) bs)"

text \<open>
  Both entry points return the actions performed and the counts of documents (\<open>None\<close> on an error).
  The reindex starts from an empty manifest and an empty set of ids and saves the manifest when the
  walk ends; the incremental run saves it last.
\<close>

definition reindex_full ::
  "(rstring \<Rightarrow> 'r \<Rightarrow> bool) \<Rightarrow> fs_world \<Rightarrow> 'r fs_source \<Rightarrow> source_instance list \<Rightarrow> (nat \<Rightarrow> bool)
     \<Rightarrow> indexer_action list \<times> (nat \<times> nat) option" where
  "reindex_full is_match W src insts ok =
     (let r = index_incremental_batched is_match W src manifest_default {} ok;
          fs = RemoveManifest # send_batches (cr_batches r)
      in case cr_manifest r of
           None \<Rightarrow> (fs, None)
         | Some man \<Rightarrow>
             (case reindex_non_fs 0 insts of
                (acts, None) \<Rightarrow> (fs @ [SaveManifest man] @ acts, None)
              | (acts, Some n) \<Rightarrow>
                  (fs @ [SaveManifest man] @ acts @ [SendMutation (CommitNow 0)],
                   Some (length (concat (cr_batches r)), n))))"

definition run_incremental ::
  "(rstring \<Rightarrow> 'r \<Rightarrow> bool) \<Rightarrow> fs_world \<Rightarrow> 'r fs_source \<Rightarrow> manifest \<Rightarrow> doc_id set option \<Rightarrow> bool
     \<Rightarrow> source_instance list \<Rightarrow> (nat \<Rightarrow> bool) \<Rightarrow> indexer_action list \<times> (nat \<times> nat) option" where
  "run_incremental is_match W src man all_ids rebuilt_from_scratch insts ok =
     (let indexed = (case all_ids of Some s \<Rightarrow> s | None \<Rightarrow> {});
          r = index_incremental_batched is_match W src man indexed ok;
          fs_count = length (concat (cr_batches r));
          fs = send_batches (cr_batches r)
      in case cr_manifest r of
           None \<Rightarrow> (fs, None)
         | Some man' \<Rightarrow>
             (let dels = (if cr_deleted r \<noteq> [] then [SendMutation (DeleteMany (cr_deleted r))] else []);
                  commit = (if 0 < fs_count \<or> cr_deleted r \<noteq> [] then [SendMutation (CommitNow 0)] else [])
              in if rebuilt_from_scratch then
                   (case reindex_non_fs 0 insts of
                      (acts, None) \<Rightarrow> (fs @ dels @ commit @ acts, None)
                    | (acts, Some n) \<Rightarrow> (fs @ dels @ commit @ acts @ [SaveManifest man'], Some (fs_count, n)))
                 else (fs @ dels @ commit @ [SaveManifest man'], Some (fs_count, 0))))"

text \<open>\<^verbatim>\<open>SourcesGlue\<close>: the configured source, and the fields \<^verbatim>\<open>reindex_paths\<close> reads from it.\<close>

record 'r sources_config =
  sc_roots :: "fpath list"
  sc_exclude :: "rstring list"
  sc_exclude_regex :: "'r list"
  sc_max_file_size_mb :: nat
  sc_caps :: extractor_caps
  sc_ocr_enqueue :: bool
  sc_body_checker :: "body_checker option"
  sc_min_image_side_px :: nat

definition build_fs_source :: "xdg_env \<Rightarrow> rstring list \<Rightarrow> 'r sources_config \<Rightarrow> 'r fs_source" where
  "build_fs_source env plugin_fs_excludes c =
     \<lparr>src_roots = sc_roots c,
      src_exclude = lixun_self_excludes env @ plugin_fs_excludes @ sc_exclude c,
      src_exclude_regex = sc_exclude_regex c,
      src_max_file_size_mb = sc_max_file_size_mb c, src_caps = sc_caps c,
      src_ocr_enqueue = sc_ocr_enqueue c, src_body_checker = sc_body_checker c,
      src_min_image_side_px = sc_min_image_side_px c\<rparr>"

definition paths_source :: "'r sources_config \<Rightarrow> fpath \<Rightarrow> 'r fs_source" where
  "paths_source c p =
     \<lparr>src_roots = [p], src_exclude = sc_exclude c, src_exclude_regex = [],
      src_max_file_size_mb = sc_max_file_size_mb c, src_caps = sc_caps c,
      src_ocr_enqueue = sc_ocr_enqueue c, src_body_checker = sc_body_checker c,
      src_min_image_side_px = 0\<rparr>"

definition reindex_one_path ::
  "(rstring \<Rightarrow> 'r \<Rightarrow> bool) \<Rightarrow> fs_world \<Rightarrow> 'r sources_config \<Rightarrow> fpath \<Rightarrow> document list" where
  "reindex_one_path is_match W c p =
     (case fw_meta W p of
        None \<Rightarrow> []
      | Some md \<Rightarrow>
          if fm_is_file md then
            (case index_file W (sc_max_file_size_mb c) (sc_caps c) (sc_ocr_enqueue c) (sc_body_checker c)
                    (sc_min_image_side_px c) p of
               Some (d, _) \<Rightarrow> [d]
             | None \<Rightarrow> [])
          else if fm_is_dir md then fst (index_all is_match W (paths_source c p))
          else [])"

definition reindex_paths ::
  "(rstring \<Rightarrow> 'r \<Rightarrow> bool) \<Rightarrow> fs_world \<Rightarrow> 'r sources_config \<Rightarrow> fpath list \<Rightarrow> indexer_action list \<times> nat" where
  "reindex_paths is_match W c paths =
     (let docs = concat (map (reindex_one_path is_match W c) paths)
      in ([SendMutation (UpsertMany docs), SendMutation (CommitNow 0)], length docs))"

section \<open>The batches\<close>

lemma map_filter_append: "List.map_filter f (xs @ ys) = List.map_filter f xs @ List.map_filter f ys"
  by (simp add: List.map_filter_def)

lemma doc_id_build [simp]: "doc_id (build_document W m b f) = canonical_fs_doc_id_from_str (me_path_str m)"
  and doc_path_build [simp]: "doc_path (build_document W m b f) = me_path_str m"
  and doc_mtime_build [simp]: "doc_mtime (build_document W m b f) = me_mtime m"
  by (simp_all add: build_document_def split: prod.split)

lemma content_pass_fields [simp]:
  "doc_id (fst (content_pass W src m)) = canonical_fs_doc_id_from_str (me_path_str m)"
  "doc_path (fst (content_pass W src m)) = me_path_str m"
  "doc_mtime (fst (content_pass W src m)) = me_mtime m"
  by (simp_all add: content_pass_def split: prod.split sum.split option.split)

definition record_metas :: "file_meta list \<Rightarrow> manifest \<Rightarrow> manifest" where
  "record_metas ms man = fold (\<lambda>m. manifest_update (me_path_str m) (me_mtime m)) ms man"

lemma fold_docs_record:
  "fold (\<lambda>d. manifest_update (doc_path d) (doc_mtime d)) (map fst (map (content_pass W src) ms)) man
     = record_metas ms man"
  by (induction ms arbitrary: man) (simp_all add: record_metas_def)

lemma batch_loop_all:
  assumes "ok = (\<lambda>_. True)"
  shows "\<exists>bs. batch_loop W src ok k ms man
      = (bs, List.map_filter snd (map (content_pass W src) ms), Some (record_metas ms man))
    \<and> concat bs = map (\<lambda>m. fst (content_pass W src m)) ms
    \<and> (\<forall>b\<in>set bs. b \<noteq> [] \<and> length b \<le> BATCH_SIZE)"
  using assms
proof (induction W src ok k ms man rule: batch_loop.induct)
  case (1 W src ok k ms man)
  show ?case
  proof (cases "ms = []")
    case True
    then show ?thesis by (simp add: batch_loop.simps record_metas_def map_filter_simps)
  next
    case False
    let ?man = "record_metas (take BATCH_SIZE ms) man"
    have "\<exists>bs. batch_loop W src ok (Suc k) (drop BATCH_SIZE ms) ?man
        = (bs, List.map_filter snd (map (content_pass W src) (drop BATCH_SIZE ms)),
           Some (record_metas (drop BATCH_SIZE ms) ?man))
      \<and> concat bs = map (\<lambda>m. fst (content_pass W src m)) (drop BATCH_SIZE ms)
      \<and> (\<forall>b\<in>set bs. b \<noteq> [] \<and> length b \<le> BATCH_SIZE)"
      using "1.IH" [OF False refl refl refl refl] "1.prems" by (simp add: fold_docs_record del: map_map)
    then obtain bs where bs: "batch_loop W src ok (Suc k) (drop BATCH_SIZE ms) ?man
        = (bs, List.map_filter snd (map (content_pass W src) (drop BATCH_SIZE ms)),
           Some (record_metas (drop BATCH_SIZE ms) ?man))"
      "concat bs = map (\<lambda>m. fst (content_pass W src m)) (drop BATCH_SIZE ms)"
      "\<forall>b\<in>set bs. b \<noteq> [] \<and> length b \<le> BATCH_SIZE" by blast
    let ?docs = "map fst (map (content_pass W src) (take BATCH_SIZE ms))"
    have "batch_loop W src ok k ms man
        = (?docs # bs, List.map_filter snd (map (content_pass W src) (take BATCH_SIZE ms))
              @ List.map_filter snd (map (content_pass W src) (drop BATCH_SIZE ms)),
           Some (record_metas (drop BATCH_SIZE ms) ?man))"
      using False bs(1) "1.prems" by (subst batch_loop.simps) (simp add: Let_def fold_docs_record del: map_map)
    moreover have "record_metas (drop BATCH_SIZE ms) ?man = record_metas ms man"
      by (metis append_take_drop_id comp_apply fold_append record_metas_def)
    moreover have "List.map_filter snd (map (content_pass W src) (take BATCH_SIZE ms))
        @ List.map_filter snd (map (content_pass W src) (drop BATCH_SIZE ms))
        = List.map_filter snd (map (content_pass W src) ms)"
      by (metis append_take_drop_id map_append map_filter_append)
    moreover have "concat (?docs # bs) = map (\<lambda>m. fst (content_pass W src m)) ms"
      using bs(2) by (simp add: o_def) (metis append_take_drop_id map_append)
    moreover have "\<forall>b\<in>set (?docs # bs). b \<noteq> [] \<and> length b \<le> BATCH_SIZE"
      using bs(3) False by (simp add: BATCH_SIZE_def)
    ultimately show ?thesis by auto
  qed
qed

section \<open>The manifest after a crawl\<close>

definition times_agree :: "file_meta list \<Rightarrow> bool" where
  "times_agree ms \<longleftrightarrow> (\<forall>m\<in>set ms. \<forall>m'\<in>set ms. me_path_str m = me_path_str m' \<longrightarrow> me_mtime m = me_mtime m')"

lemma times_agreeD:
  "times_agree ms \<Longrightarrow> m \<in> set ms \<Longrightarrow> m' \<in> set ms \<Longrightarrow> me_path_str m = me_path_str m' \<Longrightarrow> me_mtime m = me_mtime m'"
  unfolding times_agree_def by blast

lemma times_agree_subset: "times_agree ms \<Longrightarrow> set ms' \<subseteq> set ms \<Longrightarrow> times_agree ms'"
  unfolding times_agree_def by blast

lemma is_unchanged_record:
  assumes "times_agree ms"
  shows "is_unchanged (record_metas ms man) p t \<longleftrightarrow>
     (if p \<in> me_path_str ` set ms then \<exists>m\<in>set ms. me_path_str m = p \<and> me_mtime m = t else is_unchanged man p t)"
  using assms
proof (induction ms arbitrary: man)
  case (Cons m ms)
  have "times_agree ms" by (rule times_agree_subset [OF Cons.prems]) auto
  note IH = Cons.IH [OF this, of "manifest_update (me_path_str m) (me_mtime m) man"]
  show ?case
  proof (cases "p \<in> me_path_str ` set ms")
    case True
    then obtain m' where "m' \<in> set ms" "me_path_str m' = p" by blast
    moreover have "me_mtime m = me_mtime m'" if "me_path_str m = p"
      using times_agreeD [OF Cons.prems, of m m'] calculation that by simp
    ultimately have "(\<exists>x\<in>set (m # ms). me_path_str x = p \<and> me_mtime x = t) \<longleftrightarrow> (\<exists>x\<in>set ms. me_path_str x = p \<and> me_mtime x = t)"
      by (metis list.set_intros(2) set_ConsD)
    then show ?thesis using IH True by (simp add: record_metas_def)
  next
    case False
    then have "x \<in> set ms \<Longrightarrow> me_path_str x \<noteq> p" for x by (metis imageI)
    then show ?thesis using IH False by (auto simp: record_metas_def)
  qed
qed (simp add: record_metas_def)

lemma is_unchanged_removed:
  "is_unchanged (fold manifest_remove ps man) p t \<longleftrightarrow> p \<notin> set ps \<and> is_unchanged man p t"
  by (induction ps arbitrary: man) auto

lemma is_unchanged_known: "is_unchanged man p t \<Longrightarrow> p \<in> set (known_paths man)"
  by (auto simp: is_unchanged_def known_paths_def dest: map_of_SomeD intro: rev_image_eqI)

lemma known_is_unchanged: "p \<in> set (known_paths man) \<Longrightarrow> \<exists>t. is_unchanged man p t"
  by (auto simp: is_unchanged_def known_paths_def) (metis map_of_eq_None_iff image_iff fst_conv not_None_eq)

lemma from_str_inj [simp]: "canonical_fs_doc_id_from_str a = canonical_fs_doc_id_from_str b \<longleftrightarrow> a = b"
  by (simp add: canonical_fs_doc_id_from_str_def)

text \<open>A crawl whose batches are all accepted, in closed form.\<close>

lemma crawl_unfold:
  fixes src :: "'r fs_source" and W :: fs_world and is_match :: "rstring \<Rightarrow> 'r \<Rightarrow> bool"
    and man :: manifest and indexed :: "doc_id set"
  defines "metas \<equiv> scan is_match W src"
  defines "changed \<equiv> filter (needs_index man indexed) metas"
  defines "gone \<equiv> filter (\<lambda>p. p \<notin> me_path_str ` set metas) (known_paths man)"
  obtains bs where
    "index_incremental_batched is_match W src man indexed (\<lambda>_. True) =
       \<lparr>cr_batches = bs, cr_jobs = List.map_filter snd (map (content_pass W src) changed),
        cr_deleted = map canonical_fs_doc_id_from_str gone,
        cr_manifest = Some (record_metas changed (fold manifest_remove gone man))\<rparr>"
    and "concat bs = map (\<lambda>m. fst (content_pass W src m)) changed"
    and "\<forall>b\<in>set bs. b \<noteq> [] \<and> length b \<le> BATCH_SIZE"
proof -
  obtain bs where "batch_loop W src (\<lambda>_. True) 0 changed (fold manifest_remove gone man)
      = (bs, List.map_filter snd (map (content_pass W src) changed), Some (record_metas changed (fold manifest_remove gone man)))"
    "concat bs = map (\<lambda>m. fst (content_pass W src m)) changed"
    "\<forall>b\<in>set bs. b \<noteq> [] \<and> length b \<le> BATCH_SIZE"
    using batch_loop_all [of "\<lambda>_. True"] by blast
  then show ?thesis
    by (intro that) (simp_all add: index_incremental_batched_def Let_def metas_def changed_def gone_def)
qed

lemma manifest_after_crawl:
  fixes metas :: "file_meta list" and man :: manifest
  assumes "times_agree metas"
  shows "is_unchanged (record_metas (filter (needs_index man indexed) metas)
            (fold manifest_remove (filter (\<lambda>p. p \<notin> me_path_str ` set metas) (known_paths man)) man)) p t
      \<longleftrightarrow> (\<exists>m\<in>set metas. me_path_str m = p \<and> me_mtime m = t)" (is "is_unchanged ?man p t \<longleftrightarrow> ?disk")
proof -
  let ?ch = "filter (needs_index man indexed) metas"
  have ag: "times_agree ?ch" by (rule times_agree_subset [OF assms]) auto
  show ?thesis
  proof (cases "p \<in> me_path_str ` set ?ch")
    case True
    then have "is_unchanged ?man p t \<longleftrightarrow> (\<exists>m\<in>set ?ch. me_path_str m = p \<and> me_mtime m = t)"
      using is_unchanged_record [OF ag] by simp
    also have "\<dots> \<longleftrightarrow> ?disk"
    proof
      assume ?disk
      then obtain m where m: "m \<in> set metas" "me_path_str m = p" "me_mtime m = t" by blast
      obtain m' where "m' \<in> set ?ch" "me_path_str m' = p" using True by blast
      moreover from this have "me_mtime m' = me_mtime m" using times_agreeD [OF assms, of m' m] m by simp
      ultimately show "\<exists>m\<in>set ?ch. me_path_str m = p \<and> me_mtime m = t" using m by blast
    qed auto
    finally show ?thesis .
  next
    case False
    then have "is_unchanged ?man p t \<longleftrightarrow> p \<in> me_path_str ` set metas \<and> is_unchanged man p t"
      using is_unchanged_record [OF ag] by (auto simp: is_unchanged_removed dest: is_unchanged_known)
    also have "\<dots> \<longleftrightarrow> ?disk"
    proof
      assume a: "p \<in> me_path_str ` set metas \<and> is_unchanged man p t"
      then obtain m where m: "m \<in> set metas" "me_path_str m = p" by blast
      then have "is_unchanged man p (me_mtime m)" using False by (auto simp: needs_index_def)
      then show ?disk using a m by (auto simp: is_unchanged_def)
    next
      assume ?disk
      then show "p \<in> me_path_str ` set metas \<and> is_unchanged man p t"
        using False by (auto simp: needs_index_def)
    qed
    finally show ?thesis .
  qed
qed

text \<open>
  C8: An incremental crawl mirrors the disk. Every file or folder the walk reaches is either
  recorded with its current time and present in the index, or sent as a document with its id and
  current time, in batches of at most 2000; nothing else is sent, the deletions are exactly the recorded paths the walk
  did not reach, and afterwards a path counts as unchanged at a time exactly if the walk saw it with that time.
  Crawling again, with the documents indexed, sends and deletes nothing.
\<close>

theorem crawl_mirrors_disk:
  fixes src :: "'r fs_source"
  assumes agree: "times_agree (scan is_match W src)"
    and r: "r = index_incremental_batched is_match W src man indexed (\<lambda>_. True)"
  shows "\<exists>man'. cr_manifest r = Some man'
    \<and> (\<forall>p t. is_unchanged man' p t \<longleftrightarrow> (\<exists>m\<in>set (scan is_match W src). me_path_str m = p \<and> me_mtime m = t))
    \<and> (\<forall>m\<in>set (scan is_match W src).
         is_unchanged man (me_path_str m) (me_mtime m) \<and> canonical_fs_doc_id_from_str (me_path_str m) \<in> indexed
         \<or> (\<exists>d\<in>set (concat (cr_batches r)). doc_id d = canonical_fs_doc_id_from_str (me_path_str m) \<and> doc_mtime d = me_mtime m))
    \<and> (\<forall>d\<in>set (concat (cr_batches r)). \<exists>m\<in>set (scan is_match W src). d = fst (content_pass W src m))
    \<and> (\<forall>b\<in>set (cr_batches r). length b \<le> 2000)
    \<and> set (cr_deleted r) = canonical_fs_doc_id_from_str ` (set (known_paths man) - me_path_str ` set (scan is_match W src))
    \<and> (\<forall>indexed'. canonical_fs_doc_id_from_str ` me_path_str ` set (scan is_match W src) \<subseteq> indexed' \<longrightarrow>
         cr_batches (index_incremental_batched is_match W src man' indexed' (\<lambda>_. True)) = []
         \<and> cr_deleted (index_incremental_batched is_match W src man' indexed' (\<lambda>_. True)) = [])"
proof -
  let ?ms = "scan is_match W src"
  let ?ch = "filter (needs_index man indexed) ?ms"
  let ?gone = "filter (\<lambda>p. p \<notin> me_path_str ` set ?ms) (known_paths man)"
  define man' where "man' = record_metas ?ch (fold manifest_remove ?gone man)"
  obtain bs where bs: "r = \<lparr>cr_batches = bs, cr_jobs = List.map_filter snd (map (content_pass W src) ?ch),
        cr_deleted = map canonical_fs_doc_id_from_str ?gone, cr_manifest = Some man'\<rparr>"
    "concat bs = map (\<lambda>m. fst (content_pass W src m)) ?ch"
    "\<forall>b\<in>set bs. b \<noteq> [] \<and> length b \<le> BATCH_SIZE"
    unfolding r man'_def by (rule crawl_unfold)
  have mirror: "is_unchanged man' p t \<longleftrightarrow> (\<exists>m\<in>set ?ms. me_path_str m = p \<and> me_mtime m = t)" for p t
    unfolding man'_def by (rule manifest_after_crawl [OF agree])
  have again: "cr_batches (index_incremental_batched is_match W src man' ids (\<lambda>_. True)) = []
      \<and> cr_deleted (index_incremental_batched is_match W src man' ids (\<lambda>_. True)) = []"
    if "canonical_fs_doc_id_from_str ` me_path_str ` set ?ms \<subseteq> ids" for ids
  proof -
    have "filter (needs_index man' ids) ?ms = []"
      using that mirror by (auto simp: filter_empty_conv needs_index_def)
    moreover have "filter (\<lambda>p. p \<notin> me_path_str ` set ?ms) (known_paths man') = []"
      using mirror by (auto simp: filter_empty_conv dest!: known_is_unchanged)
    ultimately show ?thesis
      by (simp add: index_incremental_batched_def Let_def batch_loop.simps)
  qed
  have seen: "is_unchanged man (me_path_str m) (me_mtime m) \<and> canonical_fs_doc_id_from_str (me_path_str m) \<in> indexed
      \<or> (\<exists>d\<in>set (concat (cr_batches r)). doc_id d = canonical_fs_doc_id_from_str (me_path_str m) \<and> doc_mtime d = me_mtime m)"
    if "m \<in> set ?ms" for m
    using that bs(1,2) by (cases "needs_index man indexed m") (force simp: needs_index_def)+
  have only: "\<exists>m\<in>set ?ms. d = fst (content_pass W src m)" if "d \<in> set (concat (cr_batches r))" for d
    using that bs(1,2) by auto
  have "set (cr_deleted r) = canonical_fs_doc_id_from_str ` (set (known_paths man) - me_path_str ` set ?ms)"
    using bs(1) by auto
  then show ?thesis
    using bs(1,3) mirror again seen only by (intro exI [of _ man']) (simp add: BATCH_SIZE_def)
qed

section \<open>The watcher's documents and the crawler's\<close>

definition old_body :: "body_checker option \<Rightarrow> doc_id \<Rightarrow> rstring option" where
  "old_body checker i =
     (case checker of
        None \<Rightarrow> None
      | Some c \<Rightarrow> (case bc_get_body c i of Some (Some b) \<Rightarrow> Some b | _ \<Rightarrow> None))"

text \<open>
  For a path that is its own canonical path, the watcher's single-file indexer and the crawler build the same
  document and ask for the same OCR job, except when the extractor finds no text: then the
  single-file indexer keeps the body the index already has (text recovered by OCR) while the crawler
  writes an empty body; and if the index does have a body, the crawler does not ask for OCR either.
\<close>

theorem single_file_and_crawl_agree:
  fixes src :: "'r fs_source"
  assumes m: "entry_meta W e = Some m" and md: "fw_meta W (we_path e) = Some md"
    and kind: "fm_is_dir md \<longleftrightarrow> we_kind e = KDir"
    and canon: "canonical_fs_path_str (fw_canon W) (path_str (we_path e)) = path_str (we_path e)"
  shows "index_file W (src_max_file_size_mb src) (src_caps src) (src_ocr_enqueue src) (src_body_checker src)
            (src_min_image_side_px src) (we_path e)
       = Some ((if \<not> me_is_dir m \<and> me_size m \<le> src_max_file_size_mb src * 1024 * 1024
                   \<and> fw_extract W (we_path e) = Inr None
                then (fst (content_pass W src m))\<lparr>doc_body := old_body (src_body_checker src) (doc_id (fst (content_pass W src m)))\<rparr>
                else fst (content_pass W src m)),
               snd (content_pass W src m))
    \<and> (\<not> me_is_dir m \<and> fw_extract W (we_path e) = Inr None \<longrightarrow>
         doc_body (fst (content_pass W src m)) = None
         \<and> (\<forall>c. src_body_checker src = Some c \<and> bc_has_body c (doc_id (fst (content_pass W src m))) = Some True
               \<longrightarrow> snd (content_pass W src m) = None))"
proof -
  have m_eq: "m = \<lparr>me_path = we_path e, me_path_str = path_str (we_path e),
      me_filename = (case file_name (we_path e) of Some n \<Rightarrow> n | None \<Rightarrow> []),
      me_mtime = mtime_secs md, me_size = fm_len md, me_is_dir = (we_kind e = KDir)\<rparr>"
    using m md canon by (simp add: entry_meta_def split: if_splits)
  have i: "canonical_fs_doc_id (fw_canon W) (path_str (we_path e)) = canonical_fs_doc_id_from_str (path_str (we_path e))"
    using canon by (simp add: canonical_fs_doc_id_def canonical_fs_doc_id_from_str_def)
  have "index_file W (src_max_file_size_mb src) (src_caps src) (src_ocr_enqueue src) (src_body_checker src)
            (src_min_image_side_px src) (we_path e)
       = Some ((if \<not> me_is_dir m \<and> me_size m \<le> src_max_file_size_mb src * 1024 * 1024
                   \<and> fw_extract W (we_path e) = Inr None
                then (fst (content_pass W src m))\<lparr>doc_body := old_body (src_body_checker src) (doc_id (fst (content_pass W src m)))\<rparr>
                else fst (content_pass W src m)),
               snd (content_pass W src m))"
  proof -
    obtain icon kd mime where mp: "metadata_for_path W (we_path e) = (icon, kd, mime)" by (metis surj_pair)
    note defs = index_file_def content_pass_def extract_content_def build_document_def m_eq i old_body_def mp md
    consider (dir) "fm_is_dir md" "we_kind e = KDir"
      | (big) "\<not> fm_is_dir md" "we_kind e \<noteq> KDir" "\<not> fm_len md \<le> src_max_file_size_mb src * 1024 * 1024"
      | (err) u where "\<not> fm_is_dir md" "we_kind e \<noteq> KDir" "fm_len md \<le> src_max_file_size_mb src * 1024 * 1024" "fw_extract W (we_path e) = Inl u"
      | (blank) "\<not> fm_is_dir md" "we_kind e \<noteq> KDir" "fm_len md \<le> src_max_file_size_mb src * 1024 * 1024" "fw_extract W (we_path e) = Inr None"
      | (body) b where "\<not> fm_is_dir md" "we_kind e \<noteq> KDir" "fm_len md \<le> src_max_file_size_mb src * 1024 * 1024" "fw_extract W (we_path e) = Inr (Some b)"
      using kind by (cases "fw_extract W (we_path e)") (metis option.exhaust)+
    then show ?thesis by cases (simp_all add: defs Let_def)
  qed
  moreover have "doc_body (fst (content_pass W src m)) = None"
    if "fw_extract W (we_path e) = Inr None"
    using that by (simp add: content_pass_def extract_content_def m_eq build_document_def split: prod.split)
  moreover have "snd (content_pass W src m) = None"
    if "fw_extract W (we_path e) = Inr None" "src_body_checker src = Some c"
      "bc_has_body c (doc_id (fst (content_pass W src m))) = Some True" for c
  proof -
    have "bc_has_body c (canonical_fs_doc_id_from_str (path_str (we_path e))) = Some True"
      using that(3) unfolding content_pass_fields by (simp add: m_eq)
    then show ?thesis
      using that(1,2) by (simp add: content_pass_def extract_content_def m_eq maybe_enqueue_ocr_def Let_def i)
  qed
  ultimately show ?thesis by blast
qed

text \<open>An explicit reindex of a directory looks at none of the exclusions but the configured substrings.\<close>

theorem explicit_reindex_ignores_regexes:
  "reindex_one_path is_match W (c\<lparr>sc_exclude_regex := rs\<rparr>) p = reindex_one_path is_match W c p
   \<and> (\<forall>m\<in>set (scan is_match W (paths_source c p)). \<forall>md.
        fw_meta W p = Some md \<and> \<not> fm_is_file md \<and> fm_is_dir md \<longrightarrow>
        canonical_fs_doc_id_from_str (me_path_str m) \<in> doc_id ` set (reindex_one_path is_match W c p))"
proof -
  have "paths_source (c\<lparr>sc_exclude_regex := rs\<rparr>) p = paths_source c p" by (simp add: paths_source_def)
  then have "reindex_one_path is_match W (c\<lparr>sc_exclude_regex := rs\<rparr>) p = reindex_one_path is_match W c p"
    by (simp add: reindex_one_path_def split: option.split)
  moreover have "canonical_fs_doc_id_from_str (me_path_str m) \<in> doc_id ` set (reindex_one_path is_match W c p)"
    if "m \<in> set (scan is_match W (paths_source c p))" "fw_meta W p = Some md" "\<not> fm_is_file md" "fm_is_dir md" for m md
    using that by (simp add: reindex_one_path_def index_all_def Let_def image_image)
  ultimately show ?thesis by blast
qed

section \<open>Witnesses\<close>

definition example_world :: fs_world where
  "example_world =
     \<lparr>fw_tree = (\<lambda>p. if p = [lit ''h''] then Some (FDir [(lit ''a.png'', FFile)]) else None),
      fw_meta = (\<lambda>p. if p = [lit ''h'', lit ''a.png''] then Some \<lparr>fm_modified = Some 5, fm_len = 100, fm_is_file = True, fm_is_dir = False\<rparr>
                    else None),
      fw_canon = (\<lambda>_. None), fw_extract = (\<lambda>_. Inr None), fw_guess = (\<lambda>_. (lit ''image'', lit ''png'')),
      fw_too_small = (\<lambda>_ _. None), fw_lower = to_ascii_lowercase, fw_now = 0\<rparr>"

definition example_source :: "unit fs_source" where
  "example_source = \<lparr>src_roots = [[lit ''h'']], src_exclude = [], src_exclude_regex = [], src_max_file_size_mb = 1,
     src_caps = \<lparr>has_tesseract = True, ocr_enabled = True\<rparr>, src_ocr_enqueue = True,
     src_body_checker = Some \<lparr>bc_has_body = (\<lambda>_. Some True), bc_get_body = (\<lambda>_. Some (Some (lit ''scanned'')))\<rparr>,
     src_min_image_side_px = 0\<rparr>"

definition example_meta :: file_meta where
  "example_meta = \<lparr>me_path = [lit ''h'', lit ''a.png''], me_path_str = path_str [lit ''h'', lit ''a.png''],
     me_filename = lit ''a.png'', me_mtime = 5, me_size = 100, me_is_dir = False\<rparr>"

lemma example_scan: "scan (\<lambda>_ _. False) example_world example_source = [example_meta]"
  by (simp add: scan_def walk_root_def example_world_def example_source_def example_meta_def is_excluded_def
      path_excluded_def entry_meta_def file_name_def mtime_secs_def canonical_fs_path_str_def map_filter_simps)

theorem crawl_mirrors_disk_witness:
  "\<exists>man'. cr_manifest (index_incremental_batched (\<lambda>_ _. False) example_world example_source manifest_default {} (\<lambda>_. True)) = Some man'
    \<and> is_unchanged man' (lit ''/h/a.png'') 5"
proof -
  have ag: "times_agree (scan (\<lambda>_ _. False) example_world example_source)"
    by (simp add: example_scan times_agree_def)
  have p: "me_path_str example_meta = lit ''/h/a.png''" "me_mtime example_meta = 5"
    by (simp_all add: example_meta_def lit_def slash_def ch_def)
  show ?thesis
    using crawl_mirrors_disk [OF ag refl, of manifest_default "{}"] p by (auto simp: example_scan)
qed

theorem single_file_and_crawl_agree_witness:
  "(case index_file example_world 1 \<lparr>has_tesseract = True, ocr_enabled = True\<rparr> True (src_body_checker example_source) 0
           [lit ''h'', lit ''a.png''] of
      Some (d, job) \<Rightarrow> doc_body d = Some (lit ''scanned'') \<and> job = None | None \<Rightarrow> False)
   \<and> doc_body (fst (content_pass example_world example_source example_meta)) = None"
proof -
  let ?e = "\<lparr>we_path = [lit ''h'', lit ''a.png''], we_depth = 1, we_kind = KFile\<rparr>"
  have m: "entry_meta example_world ?e = Some example_meta"
    by (simp add: entry_meta_def example_world_def example_meta_def file_name_def mtime_secs_def canonical_fs_path_str_def)
  have R: "index_file example_world (src_max_file_size_mb example_source) (src_caps example_source)
      (src_ocr_enqueue example_source) (src_body_checker example_source) (src_min_image_side_px example_source) (we_path ?e)
    = Some ((fst (content_pass example_world example_source example_meta))\<lparr>doc_body := Some (lit ''scanned'')\<rparr>,
            snd (content_pass example_world example_source example_meta))
    \<and> doc_body (fst (content_pass example_world example_source example_meta)) = None
    \<and> snd (content_pass example_world example_source example_meta) = None"
    using single_file_and_crawl_agree [OF m, of "\<lparr>fm_modified = Some 5, fm_len = 100, fm_is_file = True, fm_is_dir = False\<rparr>" example_source]
    by (simp add: example_world_def example_source_def example_meta_def canonical_fs_path_str_def old_body_def)
  then show ?thesis by (simp add: example_source_def)
qed

end
