(* ===== verification/Watcher.thy ===== *)
theory Watcher
  imports Crawler
begin

text \<open>
  The file-system watcher (\<^verbatim>\<open>lixun-indexer/src/watcher.rs\<close>): the notify callback with its bounded
  queue, the coalescer that keeps one intent per path and flushes them as jobs, and the
  resolver that turns jobs into index mutations.

  The state of the first two stages is one record; the flush of the coalescer runs only when its
  queue is empty, because the \<^verbatim>\<open>select!\<close> is biased towards receiving. The pending hash map
  is an association list; the theorems do not depend on its order. Closed channels (the daemon is shutting down) and the
  watch registration of the notify thread are not modelled.
\<close>

section \<open>Events\<close>

datatype raw_event = RawUpsert fpath | RawDelete fpath

text \<open>The event kinds the callback distinguishes.\<close>

datatype event_kind =
    EvRemove | EvRenameFrom | EvRenameTo | EvRenameBoth | EvCreate | EvModifyOther | EvOther

record notify_event =
  ev_kind :: event_kind
  ev_paths :: "fpath list"

datatype intent = Refresh | DeleteIntent

datatype refresh_job = RefreshJob fpath | DeleteSubtreeJob doc_id

definition RAW_EVENT_QUEUE_CAP :: nat where
  "RAW_EVENT_QUEUE_CAP = 8192"

definition event_intents :: "notify_event \<Rightarrow> raw_event list" where
  "event_intents ev =
     (case ev_kind ev of
        EvRemove \<Rightarrow> map RawDelete (ev_paths ev)
      | EvRenameFrom \<Rightarrow> map RawDelete (ev_paths ev)
      | EvRenameTo \<Rightarrow> map RawUpsert (ev_paths ev)
      | EvRenameBoth \<Rightarrow>
          (case ev_paths ev of
             [from_path, to_path] \<Rightarrow> [RawDelete from_path, RawUpsert to_path]
           | _ \<Rightarrow> map RawUpsert (ev_paths ev))
      | EvCreate \<Rightarrow> map RawUpsert (ev_paths ev)
      | EvModifyOther \<Rightarrow> map RawUpsert (ev_paths ev)
      | EvOther \<Rightarrow> [])"

record watch_state =
  w_raw :: "raw_event list"
  w_overflow :: bool
  w_overflow_count :: nat
  w_pending :: "(fpath \<times> intent) list"
  w_jobs :: "refresh_job list"

text \<open>\<^verbatim>\<open>try_send\<close> of one event: a full queue raises the overflow flag.\<close>

definition send_raw :: "raw_event \<Rightarrow> watch_state \<Rightarrow> watch_state" where
  "send_raw ev w =
     (if length (w_raw w) < RAW_EVENT_QUEUE_CAP then w\<lparr>w_raw := w_raw w @ [ev]\<rparr>
      else w\<lparr>w_overflow := True, w_overflow_count := w_overflow_count w + 1\<rparr>)"

definition dispatch_notify_event :: "notify_event \<Rightarrow> watch_state \<Rightarrow> watch_state" where
  "dispatch_notify_event ev w = fold send_raw (event_intents ev) w"

section \<open>The coalescer\<close>

definition is_descendant :: "fpath \<Rightarrow> fpath \<Rightarrow> bool" where
  "is_descendant child parent = (if child = parent then False else path_starts_with child parent)"

text \<open>The loop over the deletes, shortest path first: \<open>(covered, redundant)\<close>.\<close>

fun cover_loop :: "fpath list \<Rightarrow> fpath list \<times> fpath list \<Rightarrow> fpath list \<times> fpath list" where
  "cover_loop [] acc = acc"
| "cover_loop (p # ps) (covered, redundant) =
     (if list_ex (is_descendant p) covered then cover_loop ps (covered, p # redundant)
      else cover_loop ps (covered @ [p], redundant))"

definition drop_descendant_deletes :: "(fpath \<times> intent) list \<Rightarrow> (fpath \<times> intent) list" where
  "drop_descendant_deletes pending =
     (let delete_paths = sort_key (\<lambda>p. utf8_len (path_str p)) (map fst (filter (\<lambda>(_, i). i = DeleteIntent) pending));
          redundant = snd (cover_loop delete_paths ([], []))
      in filter (\<lambda>(p, i). \<not> (i = DeleteIntent \<and> p \<in> set redundant)) pending)"

definition fs_doc_id :: "(rstring \<Rightarrow> rstring option) \<Rightarrow> fpath \<Rightarrow> doc_id" where
  "fs_doc_id canon p = canonical_fs_doc_id canon (path_str p)"

definition job_of :: "(rstring \<Rightarrow> rstring option) \<Rightarrow> fpath \<times> intent \<Rightarrow> refresh_job" where
  "job_of canon pr =
     (case snd pr of
        Refresh \<Rightarrow> RefreshJob (fst pr)
      | DeleteIntent \<Rightarrow> DeleteSubtreeJob (fs_doc_id canon (fst pr)))"

definition coalesce_recv :: "(fpath \<Rightarrow> bool) \<Rightarrow> watch_state \<Rightarrow> watch_state" where
  "coalesce_recv excluded w =
     (case w_raw w of
        [] \<Rightarrow> w
      | RawUpsert p # rest \<Rightarrow>
          w\<lparr>w_raw := rest, w_pending := (if \<not> excluded p then AList.update p Refresh (w_pending w) else w_pending w)\<rparr>
      | RawDelete p # rest \<Rightarrow>
          w\<lparr>w_raw := rest, w_pending := (if \<not> excluded p then AList.update p DeleteIntent (w_pending w) else w_pending w)\<rparr>)"

definition coalesce_flush :: "(rstring \<Rightarrow> rstring option) \<Rightarrow> fpath list \<Rightarrow> watch_state \<Rightarrow> watch_state" where
  "coalesce_flush canon roots w =
     (if w_raw w \<noteq> [] then w
      else
        (let w1 = (if w_overflow w then w\<lparr>w_overflow := False, w_jobs := w_jobs w @ map RefreshJob roots\<rparr> else w)
         in if w_pending w1 = [] then w1
            else w1\<lparr>w_pending := [],
                    w_jobs := w_jobs w1 @ map (job_of canon) (drop_descendant_deletes (w_pending w1))\<rparr>))"

section \<open>The resolver\<close>

datatype resolved =
    ResolvedFile document
  | ResolvedDirectory "fpath list" "fpath list"
  | ResolvedGone
  | ResolvedSkip

record resolver_env =
  re_excluded :: "fpath \<Rightarrow> bool"
  re_max_file_size_mb :: nat
  re_caps :: extractor_caps
  re_ocr_enqueue :: bool
  re_body_checker :: "body_checker option"
  re_min_image_side_px :: nat

record resolver_out =
  ro_mutations :: "mutation list"
  ro_jobs :: "refresh_job list"
  ro_watches :: "fpath list"
  ro_ocr :: "ocr_row option"
  ro_aliases :: symlink_aliases

text \<open>\<^verbatim>\<open>resolve_refresh\<close>: the result, the OCR job and the alias map after it.\<close>

definition resolve_refresh ::
  "fs_world \<Rightarrow> resolver_env \<Rightarrow> fpath \<Rightarrow> symlink_aliases \<Rightarrow> resolved \<times> ocr_row option \<times> symlink_aliases" where
  "resolve_refresh W env p al =
     (case fw_meta W p of
        None \<Rightarrow> (ResolvedGone, None, al)
      | Some md \<Rightarrow>
          if re_excluded env p then (ResolvedSkip, None, al)
          else if fm_is_file md then
            (case index_file W (re_max_file_size_mb env) (re_caps env) (re_ocr_enqueue env) (re_body_checker env)
                    (re_min_image_side_px env) p of
               Some (d, job) \<Rightarrow>
                 (ResolvedFile d, job,
                  if lit ''fs:'' @ path_str p \<noteq> doc_id d then alias_note (path_str p) (doc_id d) al else al)
             | None \<Rightarrow> (ResolvedSkip, None, al))
          else if fm_is_dir md then
            (let es = walk_root W (\<lambda>q. \<not> re_excluded env q) p
             in (ResolvedDirectory (map we_path (filter (\<lambda>e. we_kind e = KFile) es))
                   (map we_path (filter (\<lambda>e. we_kind e = KDir) es)), None, al))
          else (ResolvedSkip, None, al))"

definition resolver_step :: "fs_world \<Rightarrow> resolver_env \<Rightarrow> refresh_job \<Rightarrow> symlink_aliases \<Rightarrow> resolver_out" where
  "resolver_step W env job al =
     (case job of
        DeleteSubtreeJob i \<Rightarrow> \<lparr>ro_mutations = [DeleteSubtree i], ro_jobs = [], ro_watches = [], ro_ocr = None, ro_aliases = al\<rparr>
      | RefreshJob p \<Rightarrow>
          (case resolve_refresh W env p al of
             (ResolvedFile d, ocr, al') \<Rightarrow>
               \<lparr>ro_mutations = [Upsert d], ro_jobs = [], ro_watches = [], ro_ocr = ocr, ro_aliases = al'\<rparr>
           | (ResolvedDirectory files dirs, ocr, al') \<Rightarrow>
               \<lparr>ro_mutations = [], ro_jobs = map RefreshJob files, ro_watches = dirs, ro_ocr = ocr, ro_aliases = al'\<rparr>
           | (ResolvedGone, ocr, al') \<Rightarrow>
               (case alias_resolve al' (path_str p) of
                  Some canonical \<Rightarrow>
                    \<lparr>ro_mutations = [DeleteSubtree canonical], ro_jobs = [], ro_watches = [], ro_ocr = ocr,
                     ro_aliases = alias_forget canonical al'\<rparr>
                | None \<Rightarrow>
                    \<lparr>ro_mutations = [DeleteSubtree (fs_doc_id (fw_canon W) p)], ro_jobs = [], ro_watches = [],
                     ro_ocr = ocr, ro_aliases = al'\<rparr>)
           | (ResolvedSkip, ocr, al') \<Rightarrow>
               \<lparr>ro_mutations = [], ro_jobs = [], ro_watches = [], ro_ocr = ocr, ro_aliases = al'\<rparr>))"

section \<open>Runs of the first two stages\<close>

datatype watch_action = Notify notify_event | Recv | Flush

definition watch_step :: "(fpath \<Rightarrow> bool) \<Rightarrow> (rstring \<Rightarrow> rstring option) \<Rightarrow> fpath list \<Rightarrow> watch_action \<Rightarrow> watch_state \<Rightarrow> watch_state" where
  "watch_step excluded canon roots a w =
     (case a of
        Notify ev \<Rightarrow> dispatch_notify_event ev w
      | Recv \<Rightarrow> coalesce_recv excluded w
      | Flush \<Rightarrow> coalesce_flush canon roots w)"

definition watch_run :: "(fpath \<Rightarrow> bool) \<Rightarrow> (rstring \<Rightarrow> rstring option) \<Rightarrow> fpath list \<Rightarrow> watch_action list \<Rightarrow> watch_state \<Rightarrow> watch_state" where
  "watch_run excluded canon roots as w = fold (watch_step excluded canon roots) as w"

section \<open>Which deletes survive\<close>

lemma is_descendant_iff: "is_descendant c p \<longleftrightarrow> strict_prefix p c"
  by (auto simp: is_descendant_def path_starts_with_def strict_prefix_def)

lemma utf8_len_append [simp]: "utf8_len (a @ b) = utf8_len a + utf8_len b"
  and utf8_len_Cons [simp]: "utf8_len (c # b) = utf8_width c + utf8_len b"
  by (simp_all add: utf8_len_def)

lemma utf8_width_pos [simp]: "0 < utf8_width c"
  by (simp add: utf8_width_def)

lemma descendant_longer:
  assumes "strict_prefix p c" and "p \<noteq> []"
  shows "utf8_len (path_str p) < utf8_len (path_str c)"
proof -
  obtain s where s: "c = p @ s" "s \<noteq> []" using assms(1) by (auto simp: strict_prefix_def elim: prefixE)
  have "path_str c = path_str p @ path_str s" using s assms(2) by (simp add: path_str_append)
  moreover have "0 < utf8_len (path_str s)" by (cases s) simp_all
  ultimately show ?thesis by simp
qed

text \<open>Loop invariant: everything seen is covered by a covered path, and the redundant ones strictly so.\<close>

lemma cover_loop_spec:
  assumes "cover_loop ps (cov, red) = (cov', red')"
    and "\<forall>p\<in>set red. \<exists>q\<in>set cov. strict_prefix q p"
  shows "(\<forall>p\<in>set red'. \<exists>q\<in>set cov'. strict_prefix q p)
    \<and> set cov' \<union> set red' = set ps \<union> set cov \<union> set red"
  using assms
proof (induction ps "(cov, red)" arbitrary: cov red rule: cover_loop.induct)
  case (2 p ps cov red)
  show ?case
  proof (cases "list_ex (is_descendant p) cov")
    case True
    then have "\<forall>x\<in>set (p # red). \<exists>q\<in>set cov. strict_prefix q x"
      using "2.prems"(2) by (auto simp: list_ex_iff is_descendant_iff)
    then show ?thesis using "2.hyps"(1) [OF True] "2.prems"(1) True by auto
  next
    case False
    have "\<forall>x\<in>set red. \<exists>q\<in>set (cov @ [p]). strict_prefix q x" using "2.prems"(2) by auto
    then show ?thesis using "2.hyps"(2) [OF False] "2.prems"(1) False by auto
  qed
qed simp

lemma cover_loop_disjoint:
  assumes "cover_loop ps (cov, red) = (cov', red')" and "distinct (ps @ cov)" and "set red \<inter> (set ps \<union> set cov) = {}"
  shows "set cov' \<inter> set red' = {}"
  using assms
proof (induction ps "(cov, red)" arbitrary: cov red rule: cover_loop.induct)
  case (2 p ps cov red)
  show ?case
  proof (cases "list_ex (is_descendant p) cov")
    case True
    show ?thesis by (rule "2.hyps"(1) [OF True]) (use "2.prems" True in auto)
  next
    case False
    show ?thesis by (rule "2.hyps"(2) [OF False]) (use "2.prems" False in auto)
  qed
qed auto

lemma cover_loop_antichain:
  assumes "cover_loop ps (cov, red) = (cov', red')" and "distinct (ps @ cov)"
    and "sorted (map (\<lambda>p. utf8_len (path_str p)) ps)"
    and "\<forall>p\<in>set ps \<union> set cov. p \<noteq> []"
    and "\<forall>c\<in>set cov. \<forall>p\<in>set ps. utf8_len (path_str c) \<le> utf8_len (path_str p)"
    and "\<forall>c\<in>set cov. \<forall>d\<in>set cov. \<not> strict_prefix c d"
  shows "\<forall>c\<in>set cov'. \<forall>d\<in>set cov'. \<not> strict_prefix c d"
  using assms
proof (induction ps "(cov, red)" arbitrary: cov red rule: cover_loop.induct)
  case (2 p ps cov red)
  show ?case
  proof (cases "list_ex (is_descendant p) cov")
    case True
    show ?thesis
      by (rule "2.hyps"(1) [OF True]) (use "2.prems" True in auto)
  next
    case False
    have np: "\<not> strict_prefix c p" if "c \<in> set cov" for c
      using False that by (auto simp: list_ex_iff is_descendant_iff)
    have pn: "\<not> strict_prefix p c" if "c \<in> set cov" for c
      using descendant_longer [of p c] "2.prems"(4,5) that by fastforce
    show ?thesis
      by (rule "2.hyps"(2) [OF False]) (use "2.prems" False np pn in auto)
  qed
qed auto

definition deletes :: "(fpath \<times> intent) list \<Rightarrow> fpath set" where
  "deletes pending = {p. (p, DeleteIntent) \<in> set pending}"

lemma drop_descendant_deletes_spec:
  assumes "distinct (map fst pending)"
  shows "set (drop_descendant_deletes pending) \<subseteq> set pending"
    and "(p, Refresh) \<in> set pending \<Longrightarrow> (p, Refresh) \<in> set (drop_descendant_deletes pending)"
    and "p \<in> deletes pending \<Longrightarrow> \<exists>q\<in>deletes (drop_descendant_deletes pending). prefix q p"
    and "\<forall>p\<in>deletes pending. p \<noteq> [] \<Longrightarrow>
      \<forall>c\<in>deletes (drop_descendant_deletes pending). \<forall>d\<in>deletes (drop_descendant_deletes pending). \<not> strict_prefix c d"
proof -
  define ps where "ps = sort_key (\<lambda>p. utf8_len (path_str p)) (map fst (filter (\<lambda>(_, i). i = DeleteIntent) pending))"
  obtain cov red where cl: "cover_loop ps ([], []) = (cov, red)" by fastforce
  have ps: "set ps = deletes pending" by (auto simp: ps_def deletes_def image_iff)
  have dps: "distinct ps" using assms by (simp add: ps_def distinct_map_fst_filter)
  have surv: "drop_descendant_deletes pending = filter (\<lambda>(p, i). \<not> (i = DeleteIntent \<and> p \<in> set red)) pending"
    using cl by (simp add: drop_descendant_deletes_def ps_def)
  note spec = cover_loop_spec [OF cl, simplified]
  have disj: "set cov \<inter> set red = {}" by (rule cover_loop_disjoint [OF cl]) (simp_all add: dps)
  have ds: "deletes (drop_descendant_deletes pending) = set cov"
    using spec ps disj by (auto simp: surv deletes_def)
  show "set (drop_descendant_deletes pending) \<subseteq> set pending" by (auto simp: surv)
  show "(p, Refresh) \<in> set pending \<Longrightarrow> (p, Refresh) \<in> set (drop_descendant_deletes pending)" by (simp add: surv)
  show "p \<in> deletes pending \<Longrightarrow> \<exists>q\<in>deletes (drop_descendant_deletes pending). prefix q p"
    using spec ps unfolding ds by (metis UnE prefix_order.eq_refl prefix_order.less_imp_le)
  show "\<forall>c\<in>deletes (drop_descendant_deletes pending). \<forall>d\<in>deletes (drop_descendant_deletes pending). \<not> strict_prefix c d"
    if "\<forall>p\<in>deletes pending. p \<noteq> []"
    unfolding ds by (rule cover_loop_antichain [OF cl]) (use that ps dps in \<open>simp_all add: ps_def\<close>)
qed

section \<open>Purging a subtree by id\<close>

abbreviation raw_id :: "fpath \<Rightarrow> doc_id" where
  "raw_id p \<equiv> lit ''fs:'' @ path_str p"

lemma id_in_subtree_iff: "id_in_subtree i p \<longleftrightarrow> (\<exists>r. i = p @ r \<and> (r = [] \<or> hd r = slash))"
proof
  assume "id_in_subtree i p"
  then have "i = p \<or> (\<exists>r. i = p @ r \<and> prefix [slash] r)"
    by (auto simp: id_in_subtree_def strip_prefix_def starts_with_def slash_def elim!: prefixE split: if_splits)
  then show "\<exists>r. i = p @ r \<and> (r = [] \<or> hd r = slash)" by (auto simp: prefix_def)
next
  assume "\<exists>r. i = p @ r \<and> (r = [] \<or> hd r = slash)"
  then obtain r where r: "i = p @ r" "r = [] \<or> hd r = slash" by blast
  show "id_in_subtree i p"
  proof (cases r)
    case Nil
    then show ?thesis using r by (simp add: id_in_subtree_def)
  next
    case (Cons c cs)
    then show ?thesis using r by (simp add: id_in_subtree_def strip_prefix_def starts_with_def slash_def)
  qed
qed

lemma subtree_trans:
  assumes "id_in_subtree i (raw_id p)" and "prefix q p" and "q \<noteq> []"
  shows "id_in_subtree i (raw_id q)"
proof -
  obtain r where r: "i = raw_id p @ r" "r = [] \<or> hd r = slash" using assms(1) by (auto simp: id_in_subtree_iff)
  obtain s where s: "p = q @ s" using assms(2) by (auto elim: prefixE)
  have "path_str p = path_str q @ (if s = [] then [] else path_str s)" using s assms(3) by (simp add: path_str_append)
  then have "i = raw_id q @ ((if s = [] then [] else path_str s) @ r)" using r by simp
  moreover have "(if s = [] then [] else path_str s) @ r = [] \<or> hd ((if s = [] then [] else path_str s) @ r) = slash"
    using r(2) by (simp add: hd_append)
  ultimately show ?thesis unfolding id_in_subtree_iff by blast
qed

text \<open>On the ids of paths, the purge by id prefix is the purge by path.\<close>

lemma id_in_subtree_path:
  assumes "wf_path x" and "wf_path p" and "p \<noteq> []"
  shows "id_in_subtree (raw_id x) (raw_id p) \<longleftrightarrow> prefix p x"
proof (cases "x = []")
  case True
  have two: "2 \<le> length (path_str p)" using assms(2,3) by (cases p) (auto simp: Suc_le_eq)
  have "\<not> id_in_subtree (raw_id x) (raw_id p)"
  proof
    assume "id_in_subtree (raw_id x) (raw_id p)"
    then obtain r where "path_str x = path_str p @ r" by (auto simp: id_in_subtree_iff)
    then have "length (path_str x) = length (path_str p) + length r" by simp
    then show False using two True by simp
  qed
  then show ?thesis using True assms(3) by simp
next
  case False
  have rest: "(path_str x = path_str p @ r \<and> (r = [] \<or> hd r = slash)) = (\<exists>s. x = p @ s \<and> r = (if s = [] then [] else path_str s))" for r
    using path_str_prefix_iff [OF assms(2,1,3), of r] False by simp
  have "id_in_subtree (raw_id x) (raw_id p) \<longleftrightarrow> (\<exists>r. path_str x = path_str p @ r \<and> (r = [] \<or> hd r = slash))"
    by (simp add: id_in_subtree_iff)
  also have "\<dots> \<longleftrightarrow> (\<exists>r. \<exists>s. x = p @ s \<and> r = (if s = [] then [] else path_str s))"
    by (simp only: rest)
  also have "\<dots> \<longleftrightarrow> prefix p x" by (auto simp: prefix_def)
  finally show ?thesis .
qed

lemma fs_doc_id_gone: "canon (path_str p) = None \<Longrightarrow> fs_doc_id canon p = raw_id p"
  by (simp add: fs_doc_id_def canonical_fs_doc_id_def canonical_fs_path_str_def)

text \<open>
  Dropping nested deletes loses nothing. When the paths to delete are gone from the disk, the
  deletes the coalescer keeps purge exactly the ids that all pending deletes would purge, no kept delete
  lies below another, every refresh is kept, and nothing is added; and purging a path purges of the
  ids of paths those of the path itself and of what lies below it.
\<close>

theorem kept_deletes_purge_the_same:
  assumes keys: "distinct (map fst pending)"
    and paths: "\<forall>p\<in>fst ` set pending. wf_path p \<and> p \<noteq> []"
    and gone: "\<forall>p. (p, DeleteIntent) \<in> set pending \<longrightarrow> canon (path_str p) = None"
  shows "(\<forall>i. (\<exists>p. (p, DeleteIntent) \<in> set (drop_descendant_deletes pending) \<and> id_in_subtree i (fs_doc_id canon p))
            \<longleftrightarrow> (\<exists>p. (p, DeleteIntent) \<in> set pending \<and> id_in_subtree i (fs_doc_id canon p)))
    \<and> (\<forall>p q. (p, DeleteIntent) \<in> set (drop_descendant_deletes pending)
            \<and> (q, DeleteIntent) \<in> set (drop_descendant_deletes pending) \<longrightarrow> \<not> strict_prefix p q)
    \<and> (\<forall>p. (p, Refresh) \<in> set (drop_descendant_deletes pending) \<longleftrightarrow> (p, Refresh) \<in> set pending)
    \<and> set (drop_descendant_deletes pending) \<subseteq> set pending
    \<and> (\<forall>p x. (p, DeleteIntent) \<in> set pending \<and> wf_path x \<longrightarrow>
          (id_in_subtree (lit ''fs:'' @ path_str x) (fs_doc_id canon p) \<longleftrightarrow> prefix p x))"
proof -
  note spec = drop_descendant_deletes_spec [OF keys]
  have ok: "wf_path p" "p \<noteq> []" "fs_doc_id canon p = raw_id p" if "(p, DeleteIntent) \<in> set pending" for p
    using paths gone that fs_doc_id_gone by force+
  have purge: "\<exists>q. (q, DeleteIntent) \<in> set (drop_descendant_deletes pending) \<and> id_in_subtree i (fs_doc_id canon q)"
    if "(p, DeleteIntent) \<in> set pending" "id_in_subtree i (fs_doc_id canon p)" for p i
  proof -
    have "p \<in> deletes pending" using that by (simp add: deletes_def)
    then obtain q where q: "(q, DeleteIntent) \<in> set (drop_descendant_deletes pending)" "prefix q p"
      using spec(3) by (auto simp: deletes_def)
    then have "(q, DeleteIntent) \<in> set pending" using spec(1) by blast
    then have "id_in_subtree i (fs_doc_id canon q)"
      using subtree_trans [of i p q] q(2) that ok by simp
    then show ?thesis using q by blast
  qed
  have "\<not> strict_prefix p q" if "(p, DeleteIntent) \<in> set (drop_descendant_deletes pending)"
    "(q, DeleteIntent) \<in> set (drop_descendant_deletes pending)" for p q
    using spec(4) ok(2) that by (simp add: deletes_def)
  moreover have "id_in_subtree (raw_id x) (fs_doc_id canon p) \<longleftrightarrow> prefix p x"
    if "(p, DeleteIntent) \<in> set pending" "wf_path x" for p x
    using id_in_subtree_path [OF that(2) ok(1,2) [OF that(1)]] ok(3) [OF that(1)] by simp
  ultimately show ?thesis using purge spec(1,2) by blast
qed

section \<open>No event is lost\<close>





lemma send_raw_fields [simp]:
  "w_pending (send_raw e w) = w_pending w" "w_jobs (send_raw e w) = w_jobs w"
  by (simp_all add: send_raw_def)

lemma fold_send_raw_fields [simp]:
  "w_pending (fold send_raw es w) = w_pending w" "w_jobs (fold send_raw es w) = w_jobs w"
  by (induction es arbitrary: w) simp_all











section \<open>From an indexed path to its deletion\<close>

lemma index_file_Some:
  "fw_meta W p = Some md \<Longrightarrow> \<exists>d job. index_file W mb caps enq bc ms p = Some (d, job)
     \<and> doc_id d = fs_doc_id (fw_canon W) p"
  by (simp add: index_file_def Let_def fs_doc_id_def split: prod.split)

lemma alias_resolve_note [simp]: "alias_resolve (alias_note k v al) k' = (if k' = k then Some v else alias_resolve al k')"
  by (simp add: alias_resolve_def alias_note_def map_of_update)

text \<open>
  C35: A file that vanishes takes its document with it. When a refresh of a path has indexed a file (possibly
  through a symbolic link, so that the document's id is another path) and a later refresh finds the path
  gone, the purge names the very id under which the document was written, provided no stale alias was recorded for
  a path that is now its own canonical path.
\<close>

theorem vanished_file_deletes_its_document:
  assumes here: "fw_meta W1 p = Some md" "fm_is_file md" "\<not> re_excluded env p"
    and fresh: "fs_doc_id (fw_canon W1) p = lit ''fs:'' @ path_str p \<longrightarrow> alias_resolve al (path_str p) = None"
    and gone: "fw_meta W2 p = None" "fw_canon W2 (path_str p) = None"
    and out: "out = resolver_step W1 env (RefreshJob p) al"
  shows "\<exists>d. ro_mutations out = [Upsert d] \<and> doc_id d = fs_doc_id (fw_canon W1) p
    \<and> ro_mutations (resolver_step W2 env (RefreshJob p) (ro_aliases out)) = [DeleteSubtree (doc_id d)]"
proof -
  obtain d job where d: "index_file W1 (re_max_file_size_mb env) (re_caps env) (re_ocr_enqueue env)
      (re_body_checker env) (re_min_image_side_px env) p = Some (d, job)" "doc_id d = fs_doc_id (fw_canon W1) p"
    using index_file_Some [OF here(1)] by blast
  have o1: "out = \<lparr>ro_mutations = [Upsert d], ro_jobs = [], ro_watches = [], ro_ocr = job,
      ro_aliases = (if raw_id p \<noteq> doc_id d then alias_note (path_str p) (doc_id d) al else al)\<rparr>"
    using here d(1) by (simp add: out resolver_step_def resolve_refresh_def)
  have "ro_mutations (resolver_step W2 env (RefreshJob p) (ro_aliases out)) = [DeleteSubtree (doc_id d)]"
    using gone fresh d(2) by (simp add: o1 resolver_step_def resolve_refresh_def fs_doc_id_gone)
  then show ?thesis using o1 d(2) by simp
qed

text \<open>
  A path that was once reached through a link and now is a file of its own keeps the old alias,
  because an alias is recorded but never corrected; when the file vanishes, the purge names the
  other document and leaves the file's own.
\<close>

theorem stale_alias_purges_the_wrong_document:
  assumes here: "fw_meta W1 p = Some md" "fm_is_file md" "\<not> re_excluded env p"
    and own: "fw_canon W1 (path_str p) = None"
    and stale: "alias_resolve al (path_str p) = Some other"
    and gone: "fw_meta W2 p = None"
  shows "(let out = resolver_step W1 env (RefreshJob p) al
          in (\<exists>d. ro_mutations out = [Upsert d] \<and> doc_id d = raw_id p)
             \<and> ro_mutations (resolver_step W2 env (RefreshJob p) (ro_aliases out)) = [DeleteSubtree other])"
proof -
  obtain d job where d: "index_file W1 (re_max_file_size_mb env) (re_caps env) (re_ocr_enqueue env)
      (re_body_checker env) (re_min_image_side_px env) p = Some (d, job)" "doc_id d = raw_id p"
    using index_file_Some [OF here(1)] fs_doc_id_gone [where canon = "fw_canon W1", OF own] by metis
  show ?thesis
    using here d stale gone by (simp add: Let_def resolver_step_def resolve_refresh_def)
qed

text \<open>
  A delete event never looks at the aliases: it purges the id of the path as it was observed, and
  a document that was indexed under another, canonical path stays.
\<close>

theorem delete_event_misses_the_alias:
  assumes empty: "w_raw w = []" "w_pending w = []" "\<not> w_overflow w"
    and ok: "\<not> excluded p" "canon (path_str p) = None"
    and noted: "alias_resolve al (path_str p) = Some canonical"
  shows "w_jobs (watch_run excluded canon roots [Notify \<lparr>ev_kind = EvRemove, ev_paths = [p]\<rparr>, Recv, Flush] w)
      = w_jobs w @ [DeleteSubtreeJob (raw_id p)]
    \<and> ro_mutations (resolver_step W env (DeleteSubtreeJob (raw_id p)) al) = [DeleteSubtree (raw_id p)]
    \<and> alias_resolve (ro_aliases (resolver_step W env (DeleteSubtreeJob (raw_id p)) al)) (path_str p) = Some canonical"
  using assms
  by (simp add: watch_run_def watch_step_def dispatch_notify_event_def event_intents_def send_raw_def
      RAW_EVENT_QUEUE_CAP_def coalesce_recv_def coalesce_flush_def drop_descendant_deletes_def job_of_def
      fs_doc_id_gone resolver_step_def)

text \<open>
  A directory that is moved away and created again within one window is only refreshed: the
  refresh yields jobs for the files that are there now and no purge, so the documents of the files that moved away stay.
\<close>

theorem recreated_directory_is_not_purged:
  assumes empty: "w_raw w = []" "w_pending w = []" "\<not> w_overflow w" and ok: "\<not> excluded p"
    and dir: "fw_meta W p = Some md" "fm_is_dir md" "\<not> fm_is_file md"
  shows "w_jobs (watch_run excluded canon roots
            [Notify \<lparr>ev_kind = EvRenameFrom, ev_paths = [p]\<rparr>, Notify \<lparr>ev_kind = EvCreate, ev_paths = [p]\<rparr>, Recv, Recv, Flush] w)
      = w_jobs w @ [RefreshJob p]
    \<and> ro_mutations (resolver_step W env (RefreshJob p) al) = []
    \<and> (\<forall>j\<in>set (ro_jobs (resolver_step W env (RefreshJob p) al)). \<exists>f. j = RefreshJob f)"
  using assms
  by (simp add: watch_run_def watch_step_def dispatch_notify_event_def event_intents_def send_raw_def
      RAW_EVENT_QUEUE_CAP_def coalesce_recv_def coalesce_flush_def drop_descendant_deletes_def job_of_def
      resolver_step_def resolve_refresh_def Let_def)

section \<open>Witnesses\<close>


definition example_env_watch :: resolver_env where
  "example_env_watch = \<lparr>re_excluded = (\<lambda>_. False), re_max_file_size_mb = 1,
     re_caps = \<lparr>has_tesseract = False, ocr_enabled = False\<rparr>, re_ocr_enqueue = False, re_body_checker = None,
     re_min_image_side_px = 0\<rparr>"

theorem kept_deletes_purge_the_same_witness:
  "\<exists>p. (p, DeleteIntent) \<in> set (drop_descendant_deletes [([lit ''a'', lit ''b''], DeleteIntent), ([lit ''a''], DeleteIntent)])
     \<and> id_in_subtree (lit ''fs:/a/b'') (fs_doc_id (\<lambda>_. None) p)"
proof -
  let ?pend = "[([lit ''a'', lit ''b''], DeleteIntent), ([lit ''a''], DeleteIntent)]"
  have k: "distinct (map fst ?pend)" by simp
  have p: "\<forall>p\<in>fst ` set ?pend. wf_path p \<and> p \<noteq> []" by (simp add: lit_def slash_def ch_def)
  have g: "\<forall>p. (p, DeleteIntent) \<in> set ?pend \<longrightarrow> (\<lambda>_. None) (path_str p) = None" by simp
  have "id_in_subtree (lit ''fs:/a/b'') (fs_doc_id (\<lambda>_. None) [lit ''a'', lit ''b''])"
    by (simp add: fs_doc_id_gone lit_def slash_def ch_def id_in_subtree_def)
  then show ?thesis using kept_deletes_purge_the_same [OF k p g] by (meson list.set_intros(1))
qed


theorem vanished_file_deletes_its_document_witness:
  "\<exists>d. ro_mutations (resolver_step example_world example_env_watch (RefreshJob [lit ''h'', lit ''a.png'']) aliases_default) = [Upsert d]
    \<and> ro_mutations (resolver_step (example_world\<lparr>fw_meta := \<lambda>_. None\<rparr>) example_env_watch (RefreshJob [lit ''h'', lit ''a.png''])
        (ro_aliases (resolver_step example_world example_env_watch (RefreshJob [lit ''h'', lit ''a.png'']) aliases_default)))
      = [DeleteSubtree (doc_id d)]"
  using vanished_file_deletes_its_document [of example_world "[lit ''h'', lit ''a.png'']"
      "\<lparr>fm_modified = Some 5, fm_len = 100, fm_is_file = True, fm_is_dir = False\<rparr>" example_env_watch aliases_default
      "example_world\<lparr>fw_meta := \<lambda>_. None\<rparr>", OF _ _ _ _ _ _ refl]
  by (force simp: example_world_def example_env_watch_def aliases_default_def alias_resolve_def)

end
