(* ===== verification/Pipeline.thy ===== *)
theory Pipeline
  imports Watcher
begin

text \<open>
  The crawler and the index writer together: the mutations a crawl sends, applied by the writer
  in the order they are sent, make the index agree with the disk.
\<close>

section \<open>Applying what a crawl sends\<close>

fun sent_mutations :: "indexer_action list \<Rightarrow> mutation list" where
  "sent_mutations [] = []"
| "sent_mutations (SendMutation m # acts) = m # sent_mutations acts"
| "sent_mutations (_ # acts) = sent_mutations acts"

lemma sent_mutations_append [simp]: "sent_mutations (a @ b) = sent_mutations a @ sent_mutations b"
  by (induction a rule: sent_mutations.induct) simp_all




definition upsert_batches :: "'t tantivy \<Rightarrow> index_config \<Rightarrow> document list list \<Rightarrow> 't writer_state \<Rightarrow> 't writer_state" where
  "upsert_batches T cfg bs ws = fold (handle_mutation T cfg) (concat (map (\<lambda>b. [UpsertMany b, Applied 0]) bs)) ws"

lemma upsert_batches_Nil [simp]: "upsert_batches T cfg [] ws = ws"
  by (simp add: upsert_batches_def)

lemma upsert_batches_Cons [simp]:
  "upsert_batches T cfg (b # bs) ws =
     upsert_batches T cfg bs ((fold (upsert_one T cfg) b ws)\<lparr>ws_applied := ws_applied (fold (upsert_one T cfg) b ws) @ [0]\<rparr>)"
  by (simp add: upsert_batches_def handle_mutation_def)



section \<open>The index mirrors the disk\<close>









end
