(* ===== verification/Impact.thy ===== *)
theory Impact
  imports Prelude
begin

text \<open>
  System-impact levels: the level names and the per-level table of knobs (\<^verbatim>\<open>lixun-core/src/impact.rs\<close>), their wire
  form (\<^verbatim>\<open>lixun-ipc\<close>), the split of a change into knobs applied at once and knobs that need a restart, and the
  two ways the daemon changes the live level: the \<^verbatim>\<open>ImpactSet\<close> request and the battery watcher
  (\<^verbatim>\<open>lixun-daemon/src/main.rs\<close>, \<^verbatim>\<open>battery.rs\<close>, \<^verbatim>\<open>sched.rs\<close>). What the kernel makes of a request to
  change the process priority is the argument \<open>setp\<close> (current nice value, requested one, nice value afterwards).
\<close>

section \<open>Levels and profiles\<close>

datatype system_impact = Unlimited | High | Medium | Low

definition ALL_LEVELS :: "system_impact list" where
  "ALL_LEVELS = [Unlimited, High, Medium, Low]"

fun level_str :: "system_impact \<Rightarrow> rstring" where
  "level_str Unlimited = lit ''unlimited''"
| "level_str High = lit ''high''"
| "level_str Medium = lit ''medium''"
| "level_str Low = lit ''low''"

definition level_from_str :: "rstring \<Rightarrow> rstring + system_impact" where
  "level_from_str s =
     (if s = lit ''unlimited'' then Inr Unlimited
      else if s = lit ''high'' then Inr High
      else if s = lit ''medium'' then Inr Medium
      else if s = lit ''low'' then Inr Low
      else Inl (lit ''invalid level '' @ [34] @ s @ [34] @ lit ''; expected one of: unlimited, high, medium, low''))"

definition MB :: nat where
  "MB = 1024 * 1024"

record impact_profile =
  ip_level :: system_impact
  ip_tokio_worker_threads :: nat
  ip_onnx_intra_threads :: nat
  ip_onnx_inter_threads :: nat
  ip_rayon_threads :: nat
  ip_tantivy_heap_bytes :: nat
  ip_tantivy_num_threads :: nat
  ip_embed_batch_hint :: nat
  ip_embed_concurrency_hint :: "nat option"
  ip_ocr_jobs_per_tick :: nat
  ip_ocr_adaptive_throttle :: bool
  ip_ocr_nice_level :: int
  ip_ocr_io_class_idle :: bool
  ip_ocr_worker_interval :: nat
  ip_extract_cache_max_bytes :: nat
  ip_max_file_size_bytes :: nat
  ip_gloda_batch_size :: nat
  ip_daemon_nice :: int
  ip_daemon_sched_idle :: bool

fun from_level :: "system_impact \<Rightarrow> nat \<Rightarrow> impact_profile" where
  "from_level Unlimited num_cpus = \<lparr>
     ip_level = Unlimited, ip_tokio_worker_threads = num_cpus, ip_onnx_intra_threads = num_cpus,
     ip_onnx_inter_threads = num_cpus, ip_rayon_threads = num_cpus, ip_tantivy_heap_bytes = 200 * MB,
     ip_tantivy_num_threads = num_cpus, ip_embed_batch_hint = 64, ip_embed_concurrency_hint = None,
     ip_ocr_jobs_per_tick = 200, ip_ocr_adaptive_throttle = False, ip_ocr_nice_level = 0,
     ip_ocr_io_class_idle = False, ip_ocr_worker_interval = 1, ip_extract_cache_max_bytes = 2000 * MB,
     ip_max_file_size_bytes = 500 * 1024 * 1024, ip_gloda_batch_size = 5000, ip_daemon_nice = 0,
     ip_daemon_sched_idle = False\<rparr>"
| "from_level High num_cpus = \<lparr>
     ip_level = High, ip_tokio_worker_threads = num_cpus, ip_onnx_intra_threads = 4,
     ip_onnx_inter_threads = 2, ip_rayon_threads = min num_cpus 4, ip_tantivy_heap_bytes = 100 * MB,
     ip_tantivy_num_threads = 4, ip_embed_batch_hint = 32, ip_embed_concurrency_hint = None,
     ip_ocr_jobs_per_tick = 100, ip_ocr_adaptive_throttle = False, ip_ocr_nice_level = 5,
     ip_ocr_io_class_idle = False, ip_ocr_worker_interval = 1, ip_extract_cache_max_bytes = 500 * MB,
     ip_max_file_size_bytes = 50 * 1024 * 1024, ip_gloda_batch_size = 2500, ip_daemon_nice = 0,
     ip_daemon_sched_idle = False\<rparr>"
| "from_level Medium num_cpus = \<lparr>
     ip_level = Medium, ip_tokio_worker_threads = max (num_cpus div 2) 2, ip_onnx_intra_threads = 2,
     ip_onnx_inter_threads = 1, ip_rayon_threads = 2, ip_tantivy_heap_bytes = 64 * MB,
     ip_tantivy_num_threads = 2, ip_embed_batch_hint = 16, ip_embed_concurrency_hint = Some 1,
     ip_ocr_jobs_per_tick = 20, ip_ocr_adaptive_throttle = True, ip_ocr_nice_level = 15,
     ip_ocr_io_class_idle = True, ip_ocr_worker_interval = 5, ip_extract_cache_max_bytes = 200 * MB,
     ip_max_file_size_bytes = 20 * 1024 * 1024, ip_gloda_batch_size = 1000, ip_daemon_nice = 5,
     ip_daemon_sched_idle = False\<rparr>"
| "from_level Low num_cpus = \<lparr>
     ip_level = Low, ip_tokio_worker_threads = 2, ip_onnx_intra_threads = 1,
     ip_onnx_inter_threads = 1, ip_rayon_threads = 1, ip_tantivy_heap_bytes = 32 * MB,
     ip_tantivy_num_threads = 1, ip_embed_batch_hint = 8, ip_embed_concurrency_hint = Some 1,
     ip_ocr_jobs_per_tick = 5, ip_ocr_adaptive_throttle = True, ip_ocr_nice_level = 19,
     ip_ocr_io_class_idle = True, ip_ocr_worker_interval = 30, ip_extract_cache_max_bytes = 100 * MB,
     ip_max_file_size_bytes = 5 * 1024 * 1024, ip_gloda_batch_size = 200, ip_daemon_nice = 10,
     ip_daemon_sched_idle = True\<rparr>"

section \<open>Changes of level\<close>

definition knob :: "(impact_profile \<Rightarrow> 'a) \<Rightarrow> string \<Rightarrow> impact_profile \<Rightarrow> impact_profile \<Rightarrow> rstring list" where
  "knob sel name old new = (if sel old \<noteq> sel new then [lit name] else [])"

definition impact_diff_hot_cold :: "impact_profile \<Rightarrow> impact_profile \<Rightarrow> rstring list \<times> rstring list" where
  "impact_diff_hot_cold old new =
     (knob ip_daemon_nice ''daemon_nice'' old new
        @ knob ip_ocr_jobs_per_tick ''ocr_jobs_per_tick'' old new
        @ knob ip_ocr_adaptive_throttle ''ocr_adaptive_throttle'' old new
        @ knob ip_ocr_nice_level ''ocr_nice_level'' old new
        @ knob ip_ocr_io_class_idle ''ocr_io_class_idle'' old new
        @ knob ip_ocr_worker_interval ''ocr_worker_interval'' old new,
      knob ip_tokio_worker_threads ''tokio_worker_threads'' old new
        @ knob ip_onnx_intra_threads ''onnx_intra_threads'' old new
        @ knob ip_onnx_inter_threads ''onnx_inter_threads'' old new
        @ knob ip_rayon_threads ''rayon_threads'' old new
        @ knob ip_tantivy_heap_bytes ''tantivy_heap_bytes'' old new
        @ knob ip_tantivy_num_threads ''tantivy_num_threads'' old new
        @ knob ip_embed_batch_hint ''embed_batch_hint'' old new
        @ knob ip_embed_concurrency_hint ''embed_concurrency_hint'' old new
        @ knob ip_extract_cache_max_bytes ''extract_cache_max_bytes'' old new
        @ knob ip_max_file_size_bytes ''max_file_size_bytes'' old new
        @ knob ip_gloda_batch_size ''gloda_batch_size'' old new
        @ knob ip_daemon_sched_idle ''daemon_sched_idle'' old new)"

text \<open>The daemon's state: the live profile and the nice value and scheduling class the kernel has given the process.\<close>

record impact_state =
  im_profile :: impact_profile
  im_nice :: int
  im_sched_idle :: bool

definition apply_nice :: "(int \<Rightarrow> int \<Rightarrow> int) \<Rightarrow> int \<Rightarrow> impact_state \<Rightarrow> impact_state" where
  "apply_nice setp nice st = st\<lparr>im_nice := setp (im_nice st) nice\<rparr>"



datatype impact_response =
    ImpactSnapshot system_impact impact_profile "rstring list" "rstring list" bool
  | ImpactError rstring

text \<open>\<open>written\<close> is the outcome of rewriting the configuration file, when it is asked for.\<close>

definition impact_set ::
  "(int \<Rightarrow> int \<Rightarrow> int) \<Rightarrow> nat \<Rightarrow> (rstring + unit) \<Rightarrow> system_impact \<Rightarrow> bool \<Rightarrow> impact_state
     \<Rightarrow> impact_response \<times> impact_state" where
  "impact_set setp cpus written level persist st =
     (let new = from_level level cpus;
          diff = impact_diff_hot_cold (im_profile st) new;
          st' = (apply_nice setp (ip_daemon_nice new) st)\<lparr>im_profile := new\<rparr>
      in (if \<not> persist then ImpactSnapshot (ip_level new) new (fst diff) (snd diff) False
          else case written of
                 Inr _ \<Rightarrow> ImpactSnapshot (ip_level new) new (fst diff) (snd diff) True
               | Inl e \<Rightarrow> ImpactError (lit ''persist failed: '' @ e),
          st'))"







section \<open>What the lists of a change say\<close>

lemma knob_empty [simp]: "knob sel name old new = [] \<longleftrightarrow> sel old = sel new"
  by (simp add: knob_def)

lemma diff_empty_iff: "impact_diff_hot_cold old new = ([], []) \<longleftrightarrow> old\<lparr>ip_level := ip_level new\<rparr> = new"
  by (cases old; cases new) (auto simp: impact_diff_hot_cold_def)

lemma from_level_level [simp]: "ip_level (from_level l n) = l"
  by (cases l) simp_all

lemma jobs_tell_levels: "ip_ocr_jobs_per_tick (from_level l n) = ip_ocr_jobs_per_tick (from_level l' n') \<longleftrightarrow> l = l'"
  by (cases l; cases l') simp_all

lemma diff_levels: "fst (impact_diff_hot_cold (from_level l n) (from_level l' n)) = [] \<longleftrightarrow> l = l'"
  by (auto simp: impact_diff_hot_cold_def jobs_tell_levels)

text \<open>Level names: printing and parsing are inverse, and only the four names parse.\<close>

lemma level_str_roundtrip: "level_from_str (level_str l) = Inr l"
  by (cases l) (simp_all add: level_from_str_def lit_def)

lemma level_from_str_only: "level_from_str s = Inr l \<Longrightarrow> s = level_str l \<and> l \<in> set ALL_LEVELS"
  by (auto simp: level_from_str_def ALL_LEVELS_def split: if_splits)

section \<open>Runs\<close>


text \<open>
  The documented kernel rule: a privileged process gets the nice value it asks for, an unprivileged one only when it is not below the
  current one.
\<close>

definition linux_setpriority :: "bool \<Rightarrow> int \<Rightarrow> int \<Rightarrow> int" where
  "linux_setpriority privileged cur nice = (if privileged \<or> cur \<le> nice then nice else cur)"

definition profile_consistent :: "bool \<Rightarrow> nat \<Rightarrow> impact_state \<Rightarrow> bool" where
  "profile_consistent privileged cpus st =
     (im_profile st = from_level (ip_level (im_profile st)) cpus
      \<and> ip_daemon_nice (im_profile st) \<le> im_nice st
      \<and> (privileged \<longrightarrow> im_nice st = ip_daemon_nice (im_profile st)))"












text \<open>
  An unprivileged daemon never gets its priority back: once the level was \<open>Low\<close> (by request or on battery), switching to a level that
  asks for less leaves the process at nice 10 or more, while the reply names \<^verbatim>\<open>daemon_nice\<close> among the knobs applied.
\<close>

theorem unprivileged_nice_sticks:
  assumes "profile_consistent False cpus st" and "ip_level (im_profile st) = Low" and "level \<noteq> Low"
    and "impact_set (linux_setpriority False) cpus written level False st = (ImpactSnapshot l p hot cold persisted, st')"
  shows "lit ''daemon_nice'' \<in> set hot \<and> ip_daemon_nice p \<le> 5 \<and> 10 \<le> im_nice st'"
proof -
  have low: "im_profile st = from_level Low cpus" using assms(1,2) by (simp add: profile_consistent_def)
  have "10 \<le> im_nice st" using assms(1) low by (simp add: profile_consistent_def)
  then show ?thesis using assms(3,4) low
    by (cases level) (auto simp: impact_set_def Let_def apply_nice_def linux_setpriority_def impact_diff_hot_cold_def knob_def)
qed

text \<open>
  The lists of a change are exact: both are empty precisely when no knob differs, so a switch to another level is always
  reported, and a level's name is printed and parsed back to the same level, no other string being accepted.
\<close>

theorem impact_change_is_reported:
  "(impact_diff_hot_cold old new = ([], []) \<longleftrightarrow> old\<lparr>ip_level := ip_level new\<rparr> = new)
   \<and> (fst (impact_diff_hot_cold (from_level l cpus) (from_level l' cpus)) = [] \<longleftrightarrow> l = l')
   \<and> level_from_str (level_str l) = Inr l \<and> (level_from_str s = Inr l \<longleftrightarrow> s = level_str l)"
  using diff_empty_iff diff_levels level_str_roundtrip level_from_str_only by blast




lemma example_impact_set:
  "impact_set (linux_setpriority False) 8 (Inr ()) High False \<lparr>im_profile = from_level Low 8, im_nice = 10, im_sched_idle = False\<rparr>
   = (ImpactSnapshot High (from_level High 8) (fst (impact_diff_hot_cold (from_level Low 8) (from_level High 8)))
        (snd (impact_diff_hot_cold (from_level Low 8) (from_level High 8))) False,
      \<lparr>im_profile = from_level High 8, im_nice = 10, im_sched_idle = False\<rparr>)"
  by (simp add: impact_set_def Let_def apply_nice_def linux_setpriority_def)

theorem unprivileged_nice_sticks_witness:
  "lit ''daemon_nice'' \<in> set (fst (impact_diff_hot_cold (from_level Low 8) (from_level High 8)))"
  using unprivileged_nice_sticks [OF _ _ _ example_impact_set] by (simp add: profile_consistent_def)

end
