(* ===== verification/Config.thy ===== *)
theory Config
  imports Impact File_Paths "HOL-Library.Word"
begin

unbundle bit_operations_syntax

text \<open>
  The configuration file (\<^verbatim>\<open>lixun-config/src/lib.rs\<close>): the parsed form of every table (each key optional), the
  resolved configuration with its defaults, the way the one becomes the other (explicit keys, seeds from the impact profile,
  clamps), the sections forwarded to plugins, the scan for keybindings that collide, and loading with a fallback to defaults.
  The TOML parser, the regular-expression compiler, the environment and the number of CPUs are arguments.
\<close>

section \<open>Values\<close>

datatype f64 = Fin real | PosInf | NegInf | NaN

definition clamp01 :: "f64 \<Rightarrow> f64" where
  "clamp01 v = (case v of Fin x \<Rightarrow> Fin (max 0 (min 1 x)) | PosInf \<Rightarrow> Fin 1 | NegInf \<Rightarrow> Fin 0 | NaN \<Rightarrow> NaN)"

datatype toml_value = TTable "rstring \<Rightarrow> toml_value option" | TLeaf rstring

definition or_keep :: "'a option \<Rightarrow> 'a \<Rightarrow> 'a" where
  "or_keep v d = (case v of Some x \<Rightarrow> x | None \<Rightarrow> d)"

lemma or_keep_simps [simp]: "or_keep None d = d" "or_keep (Some x) d = x"
  by (simp_all add: or_keep_def)

definition expand_tilde :: "xdg_env \<Rightarrow> rstring \<Rightarrow> rstring" where
  "expand_tilde env p =
     (let home = or_keep (env_home env) []
      in case strip_prefix p (lit ''~/'') of
           Some rest \<Rightarrow> path_join home rest
         | None \<Rightarrow> if p = lit ''~'' then home else p)"

definition config_dir :: "xdg_env \<Rightarrow> rstring" where
  "config_dir env = or_keep (xdg_config env) (lit ''/tmp'')"

definition state_dir_path :: "xdg_env \<Rightarrow> rstring" where
  "state_dir_path env =
     path_join (or_keep (xdg_state env) (path_join (or_keep (env_home env) []) (lit ''.local/state''))) (lit ''lixun'')"

section \<open>Parsed tables\<close>

record core_toml =
  ct_roots :: "rstring list option"
  ct_exclude :: "rstring list option"
  ct_exclude_regex :: "rstring list option"
  ct_max_file_size_mb :: "nat option"
  ct_extractor_timeout_secs :: "nat option"
  ct_max_results :: "nat option"

record ocr_toml =
  ot_enabled :: "bool option"
  ot_languages :: "rstring list option"
  ot_max_pages_per_pdf :: "nat option"
  ot_min_image_side_px :: "nat option"
  ot_timeout_secs :: "nat option"
  ot_worker_interval_secs :: "nat option"
  ot_jobs_per_tick :: "nat option"
  ot_adaptive_throttle :: "bool option"
  ot_max_cpu_pressure_avg10 :: "f32 option"
  ot_nice_level :: "int option"
  ot_io_class_idle :: "bool option"

record impact_toml =
  it_level :: "system_impact option"
  it_follow_battery :: "bool option"
  it_on_battery_level :: "system_impact option"

record extract_toml =
  et_cache_max_mb :: "nat option"
  et_cache_sweep_interval_secs :: "nat option"
  et_extractor_max_decompress_mb :: "nat option"

datatype preview_placement = Window | Overlay

datatype blur_mode = BlurAuto | BlurCompositor | BlurOff

datatype blur_toml = Legacy bool | Mode blur_mode

fun blur_from_toml :: "blur_toml \<Rightarrow> blur_mode" where
  "blur_from_toml (Legacy True) = BlurAuto"
| "blur_from_toml (Legacy False) = BlurOff"
| "blur_from_toml (Mode m) = m"

definition wants_blur :: "blur_mode \<Rightarrow> bool" where
  "wants_blur m = (m \<noteq> BlurOff)"

record gui_toml =
  gt_width_percent :: "nat option"
  gt_height_percent :: "nat option"
  gt_max_width_px :: "int option"
  gt_max_height_px :: "int option"
  gt_preview_width_percent :: "nat option"
  gt_preview_height_percent :: "nat option"
  gt_preview_max_width_px :: "int option"
  gt_preview_max_height_px :: "int option"
  gt_preview_placement :: "preview_placement option"
  gt_blur :: "blur_toml option"
  gt_opacity :: "f64 option"
  gt_show_recents :: "bool option"
  gt_theme :: "rstring option"
  gt_matugen :: "bool option"
  gt_matugen_colors_path :: "rstring option"

record ranking_toml =
  rt_apps :: "f32 option"
  rt_files :: "f32 option"
  rt_mail :: "f32 option"
  rt_attachments :: "f32 option"
  rt_prefix_boost :: "f32 option"
  rt_acronym_boost :: "f32 option"
  rt_recency_weight :: "f32 option"
  rt_recency_tau_days :: "f32 option"
  rt_frecency_alpha :: "f32 option"
  rt_latch_weight :: "f32 option"
  rt_latch_cap :: "f32 option"
  rt_total_multiplier_cap :: "f32 option"
  rt_top_hit_min_confidence :: "f32 option"
  rt_top_hit_min_margin :: "f32 option"
  rt_strong_latch_threshold :: "nat option"

record preview_toml =
  pt_enabled :: "bool option"
  pt_default_format :: "rstring option"
  pt_max_file_size_mb :: "nat option"
  pt_cache_dir :: "rstring option"

record keybindings_toml =
  kt_close :: "rstring option"
  kt_primary_action :: "rstring option"
  kt_secondary_action :: "rstring option"
  kt_copy :: "rstring option"
  kt_quick_look :: "rstring option"
  kt_quick_look_alt :: "rstring option"
  kt_history_up :: "rstring option"
  kt_next_result :: "rstring option"
  kt_previous_result :: "rstring option"
  kt_next_category :: "rstring option"
  kt_previous_category :: "rstring option"
  kt_filter_all :: "rstring option"
  kt_filter_apps :: "rstring option"
  kt_filter_files :: "rstring option"
  kt_filter_mail :: "rstring option"
  kt_filter_attachments :: "rstring option"
  kt_global_toggle :: "rstring option"
  kt_reset_gui_position :: "rstring option"
  kt_actions_menu :: "rstring option"
  kt_info :: "rstring option"

record search_toml =
  st_web_engine_url :: "rstring option"

record config_toml =
  tm_core :: "core_toml option"
  tm_ranking :: "ranking_toml option"
  tm_keybindings :: "keybindings_toml option"
  tm_preview :: "preview_toml option"
  tm_gui :: "gui_toml option"
  tm_extract :: "extract_toml option"
  tm_ocr :: "ocr_toml option"
  tm_impact :: "impact_toml option"
  tm_search :: "search_toml option"

section \<open>The resolved configuration\<close>

record keybindings =
  kb_close :: rstring
  kb_primary_action :: rstring
  kb_secondary_action :: rstring
  kb_copy :: rstring
  kb_quick_look :: rstring
  kb_quick_look_alt :: rstring
  kb_history_up :: rstring
  kb_next_result :: rstring
  kb_previous_result :: rstring
  kb_next_category :: rstring
  kb_previous_category :: rstring
  kb_filter_all :: rstring
  kb_filter_apps :: rstring
  kb_filter_files :: rstring
  kb_filter_mail :: rstring
  kb_filter_attachments :: rstring
  kb_global_toggle :: rstring
  kb_reset_gui_position :: rstring
  kb_actions_menu :: rstring
  kb_info :: rstring

record preview_config =
  pc_enabled :: bool
  pc_default_format :: rstring
  pc_max_file_size_mb :: nat
  pc_cache_dir :: rstring
  pc_plugin_sections :: "rstring \<Rightarrow> toml_value option"

record gui_matugen =
  gm_enabled :: bool
  gm_colors_path :: rstring

record gui_config =
  gc_width_percent :: nat
  gc_height_percent :: nat
  gc_max_width_px :: int
  gc_max_height_px :: int
  gc_preview_width_percent :: nat
  gc_preview_height_percent :: nat
  gc_preview_max_width_px :: int
  gc_preview_max_height_px :: int
  gc_preview_placement :: preview_placement
  gc_blur :: blur_mode
  gc_opacity :: f64
  gc_show_recents :: bool
  gc_theme :: "rstring option"
  gc_matugen :: gui_matugen

record extract_config =
  ec_cache_max_mb :: nat
  ec_cache_sweep_interval_secs :: nat
  ec_extractor_max_decompress_mb :: nat

record content_filter_config =
  cf_filter_enabled :: bool
  cf_min_text_components :: nat

record ocr_config =
  oc_cfg_enabled :: bool
  oc_cfg_languages :: "rstring list"
  oc_cfg_max_pages_per_pdf :: "nat option"
  oc_cfg_min_image_side_px :: nat
  oc_cfg_timeout_secs :: nat
  oc_cfg_worker_interval_secs :: nat
  oc_cfg_jobs_per_tick :: nat
  oc_cfg_adaptive_throttle :: bool
  oc_cfg_max_cpu_pressure_avg10 :: f32
  oc_cfg_nice_level :: int
  oc_cfg_io_class_idle :: bool
  oc_cfg_content_filter :: content_filter_config

record impact_config =
  ic_level :: system_impact
  ic_follow_battery :: bool
  ic_on_battery_level :: system_impact

record 'r config =
  cfg_roots :: "rstring list"
  cfg_exclude :: "rstring list"
  cfg_exclude_regex :: "'r list"
  cfg_max_file_size_mb :: nat
  cfg_extractor_timeout_secs :: nat
  cfg_max_results :: nat
  cfg_ranking_apps :: f32
  cfg_ranking_files :: f32
  cfg_ranking_mail :: f32
  cfg_ranking_attachments :: f32
  cfg_ranking_prefix_boost :: f32
  cfg_ranking_acronym_boost :: f32
  cfg_ranking_recency_weight :: f32
  cfg_ranking_recency_tau_days :: f32
  cfg_ranking_frecency_alpha :: f32
  cfg_ranking_latch_weight :: f32
  cfg_ranking_latch_cap :: f32
  cfg_ranking_total_multiplier_cap :: f32
  cfg_ranking_top_hit_min_confidence :: f32
  cfg_ranking_top_hit_min_margin :: f32
  cfg_ranking_strong_latch_threshold :: nat
  cfg_keybindings :: keybindings
  cfg_preview :: preview_config
  cfg_gui :: gui_config
  cfg_extract :: extract_config
  cfg_ocr :: ocr_config
  cfg_impact :: impact_config
  cfg_web_engine_url :: rstring
  cfg_state_dir :: rstring
  cfg_plugin_sections :: "rstring \<Rightarrow> toml_value option"

section \<open>Defaults\<close>

definition keybindings_default :: keybindings where
  "keybindings_default = \<lparr>
     kb_close = lit ''Escape'', kb_primary_action = lit ''Return'', kb_secondary_action = lit ''<Shift>Return'',
     kb_copy = lit ''<Ctrl>c'', kb_quick_look = lit ''space'', kb_quick_look_alt = lit ''<Ctrl>space'',
     kb_history_up = lit ''Up'', kb_next_result = lit ''Down'', kb_previous_result = lit ''Up'',
     kb_next_category = lit ''<Ctrl>Down'', kb_previous_category = lit ''<Ctrl>Up'', kb_filter_all = lit ''<Ctrl>grave'',
     kb_filter_apps = lit ''<Ctrl>1'', kb_filter_files = lit ''<Ctrl>2'', kb_filter_mail = lit ''<Ctrl>3'',
     kb_filter_attachments = lit ''<Ctrl>4'', kb_global_toggle = lit ''Super+space'', kb_reset_gui_position = lit ''<Ctrl>0'',
     kb_actions_menu = lit ''<Ctrl>k'', kb_info = lit ''<Ctrl>i''\<rparr>"

definition preview_default :: "xdg_env \<Rightarrow> preview_config" where
  "preview_default env = \<lparr>
     pc_enabled = True, pc_default_format = lit ''auto'', pc_max_file_size_mb = 200,
     pc_cache_dir = path_join (or_keep (xdg_cache env) (path_join (or_keep (env_home env) []) (lit ''.cache''))) (lit ''lixun/preview''),
     pc_plugin_sections = (\<lambda>_. None)\<rparr>"

definition matugen_default :: "xdg_env \<Rightarrow> gui_matugen" where
  "matugen_default env =
     \<lparr>gm_enabled = False, gm_colors_path = path_join (path_join (config_dir env) (lit ''lixun'')) (lit ''colors.css'')\<rparr>"

definition DEFAULT_SURFACE_OPACITY :: f64 where
  "DEFAULT_SURFACE_OPACITY = Fin (7 / 10)"

definition gui_default :: "xdg_env \<Rightarrow> gui_config" where
  "gui_default env = \<lparr>
     gc_width_percent = 40, gc_height_percent = 60, gc_max_width_px = 900, gc_max_height_px = 800,
     gc_preview_width_percent = 50, gc_preview_height_percent = 70, gc_preview_max_width_px = 1400,
     gc_preview_max_height_px = 1200, gc_preview_placement = Window, gc_blur = BlurAuto,
     gc_opacity = DEFAULT_SURFACE_OPACITY, gc_show_recents = True, gc_theme = None, gc_matugen = matugen_default env\<rparr>"

definition extract_default :: extract_config where
  "extract_default = \<lparr>ec_cache_max_mb = 500, ec_cache_sweep_interval_secs = 600, ec_extractor_max_decompress_mb = 64\<rparr>"

definition content_filter_default :: content_filter_config where
  "content_filter_default = \<lparr>cf_filter_enabled = True, cf_min_text_components = 30\<rparr>"

definition ocr_default :: ocr_config where
  "ocr_default = \<lparr>
     oc_cfg_enabled = False, oc_cfg_languages = [], oc_cfg_max_pages_per_pdf = None, oc_cfg_min_image_side_px = 200,
     oc_cfg_timeout_secs = 30, oc_cfg_worker_interval_secs = 10, oc_cfg_jobs_per_tick = 10, oc_cfg_adaptive_throttle = False,
     oc_cfg_max_cpu_pressure_avg10 = 10, oc_cfg_nice_level = 19, oc_cfg_io_class_idle = False,
     oc_cfg_content_filter = content_filter_default\<rparr>"

definition impact_default :: impact_config where
  "impact_default = \<lparr>ic_level = High, ic_follow_battery = False, ic_on_battery_level = Low\<rparr>"

definition DEFAULT_WEB_ENGINE_URL :: rstring where
  "DEFAULT_WEB_ENGINE_URL = lit ''https://duckduckgo.com/?q={query}''"

definition default_excludes :: "rstring list" where
  "default_excludes = map lit
     [''.cache'', ''.local/share/Trash'', ''.steam'', ''.var/app'', ''node_modules'', ''target'', ''.git'', ''.venv'',
      ''__pycache__'', ''.swp'', ''.swo'', ''.swx'']"

definition config_default :: "xdg_env \<Rightarrow> 'r config" where
  "config_default env = \<lparr>
     cfg_roots = [or_keep (env_home env) (lit ''/home'')], cfg_exclude = default_excludes, cfg_exclude_regex = [],
     cfg_max_file_size_mb = 50, cfg_extractor_timeout_secs = 15, cfg_max_results = 30,
     cfg_ranking_apps = rnd32 (13 / 10), cfg_ranking_files = rnd32 (12 / 10), cfg_ranking_mail = 1,
     cfg_ranking_attachments = rnd32 (9 / 10), cfg_ranking_prefix_boost = rnd32 (14 / 10),
     cfg_ranking_acronym_boost = rnd32 (125 / 100), cfg_ranking_recency_weight = rnd32 (2 / 10),
     cfg_ranking_recency_tau_days = 30, cfg_ranking_frecency_alpha = rnd32 (1 / 10), cfg_ranking_latch_weight = rnd32 (5 / 10),
     cfg_ranking_latch_cap = 3, cfg_ranking_total_multiplier_cap = 6, cfg_ranking_top_hit_min_confidence = rnd32 (6 / 10),
     cfg_ranking_top_hit_min_margin = rnd32 (13 / 10), cfg_ranking_strong_latch_threshold = 3,
     cfg_keybindings = keybindings_default,
     cfg_preview = preview_default env, cfg_gui = gui_default env, cfg_extract = extract_default, cfg_ocr = ocr_default,
     cfg_impact = impact_default, cfg_web_engine_url = DEFAULT_WEB_ENGINE_URL, cfg_state_dir = state_dir_path env,
     cfg_plugin_sections = (\<lambda>_. None)\<rparr>"

section \<open>From the parsed tables to the configuration\<close>

definition apply_core :: "xdg_env \<Rightarrow> (rstring \<Rightarrow> 'r option) \<Rightarrow> core_toml \<Rightarrow> 'r config \<Rightarrow> 'r config" where
  "apply_core env mk_regex t cfg = cfg\<lparr>
     cfg_roots := (case ct_roots t of Some rs \<Rightarrow> map (expand_tilde env) rs | None \<Rightarrow> cfg_roots cfg),
     cfg_exclude := cfg_exclude cfg @ or_keep (ct_exclude t) [],
     cfg_exclude_regex := cfg_exclude_regex cfg @ List.map_filter mk_regex (or_keep (ct_exclude_regex t) []),
     cfg_max_file_size_mb := or_keep (ct_max_file_size_mb t) (cfg_max_file_size_mb cfg),
     cfg_extractor_timeout_secs := or_keep (ct_extractor_timeout_secs t) (cfg_extractor_timeout_secs cfg),
     cfg_max_results := or_keep (ct_max_results t) (cfg_max_results cfg)\<rparr>"

definition apply_ranking :: "ranking_toml \<Rightarrow> 'r config \<Rightarrow> 'r config" where
  "apply_ranking t cfg = cfg\<lparr>
     cfg_ranking_apps := or_keep (rt_apps t) (rnd32 (13 / 10)), cfg_ranking_files := or_keep (rt_files t) (rnd32 (12 / 10)),
     cfg_ranking_mail := or_keep (rt_mail t) 1, cfg_ranking_attachments := or_keep (rt_attachments t) (rnd32 (9 / 10)),
     cfg_ranking_prefix_boost := or_keep (rt_prefix_boost t) (rnd32 (14 / 10)),
     cfg_ranking_acronym_boost := or_keep (rt_acronym_boost t) (rnd32 (125 / 100)),
     cfg_ranking_recency_weight := or_keep (rt_recency_weight t) (rnd32 (2 / 10)),
     cfg_ranking_recency_tau_days := or_keep (rt_recency_tau_days t) 30,
     cfg_ranking_frecency_alpha := or_keep (rt_frecency_alpha t) (rnd32 (1 / 10)),
     cfg_ranking_latch_weight := or_keep (rt_latch_weight t) (rnd32 (5 / 10)),
     cfg_ranking_latch_cap := or_keep (rt_latch_cap t) 3,
     cfg_ranking_total_multiplier_cap := or_keep (rt_total_multiplier_cap t) 6,
     cfg_ranking_top_hit_min_confidence := or_keep (rt_top_hit_min_confidence t) (rnd32 (6 / 10)),
     cfg_ranking_top_hit_min_margin := or_keep (rt_top_hit_min_margin t) (rnd32 (13 / 10)),
     cfg_ranking_strong_latch_threshold := or_keep (rt_strong_latch_threshold t) 3\<rparr>"

definition apply_keybindings :: "keybindings_toml \<Rightarrow> keybindings \<Rightarrow> keybindings" where
  "apply_keybindings t kb = kb\<lparr>
     kb_close := or_keep (kt_close t) (kb_close kb), kb_primary_action := or_keep (kt_primary_action t) (kb_primary_action kb),
     kb_secondary_action := or_keep (kt_secondary_action t) (kb_secondary_action kb),
     kb_copy := or_keep (kt_copy t) (kb_copy kb), kb_quick_look := or_keep (kt_quick_look t) (kb_quick_look kb),
     kb_quick_look_alt := or_keep (kt_quick_look_alt t) (kb_quick_look_alt kb),
     kb_history_up := or_keep (kt_history_up t) (kb_history_up kb),
     kb_next_result := or_keep (kt_next_result t) (kb_next_result kb),
     kb_previous_result := or_keep (kt_previous_result t) (kb_previous_result kb),
     kb_next_category := or_keep (kt_next_category t) (kb_next_category kb),
     kb_previous_category := or_keep (kt_previous_category t) (kb_previous_category kb),
     kb_filter_all := or_keep (kt_filter_all t) (kb_filter_all kb),
     kb_filter_apps := or_keep (kt_filter_apps t) (kb_filter_apps kb),
     kb_filter_files := or_keep (kt_filter_files t) (kb_filter_files kb),
     kb_filter_mail := or_keep (kt_filter_mail t) (kb_filter_mail kb),
     kb_filter_attachments := or_keep (kt_filter_attachments t) (kb_filter_attachments kb),
     kb_global_toggle := or_keep (kt_global_toggle t) (kb_global_toggle kb),
     kb_reset_gui_position := or_keep (kt_reset_gui_position t) (kb_reset_gui_position kb),
     kb_actions_menu := or_keep (kt_actions_menu t) (kb_actions_menu kb), kb_info := or_keep (kt_info t) (kb_info kb)\<rparr>"

definition apply_preview :: "xdg_env \<Rightarrow> preview_toml \<Rightarrow> preview_config \<Rightarrow> preview_config" where
  "apply_preview env t p = p\<lparr>
     pc_enabled := or_keep (pt_enabled t) (pc_enabled p),
     pc_default_format := or_keep (pt_default_format t) (pc_default_format p),
     pc_max_file_size_mb := or_keep (pt_max_file_size_mb t) (pc_max_file_size_mb p),
     pc_cache_dir := or_keep (map_option (expand_tilde env) (pt_cache_dir t)) (pc_cache_dir p)\<rparr>"

definition clamp_percent :: "nat \<Rightarrow> nat" where
  "clamp_percent v = max 10 (min 95 v)"

definition apply_gui :: "xdg_env \<Rightarrow> gui_toml \<Rightarrow> gui_config \<Rightarrow> gui_config" where
  "apply_gui env t g = g\<lparr>
     gc_width_percent := or_keep (map_option clamp_percent (gt_width_percent t)) (gc_width_percent g),
     gc_height_percent := or_keep (map_option clamp_percent (gt_height_percent t)) (gc_height_percent g),
     gc_max_width_px := or_keep (map_option (max 200) (gt_max_width_px t)) (gc_max_width_px g),
     gc_max_height_px := or_keep (map_option (max 200) (gt_max_height_px t)) (gc_max_height_px g),
     gc_preview_width_percent := or_keep (map_option clamp_percent (gt_preview_width_percent t)) (gc_preview_width_percent g),
     gc_preview_height_percent := or_keep (map_option clamp_percent (gt_preview_height_percent t)) (gc_preview_height_percent g),
     gc_preview_max_width_px := or_keep (map_option (max 400) (gt_preview_max_width_px t)) (gc_preview_max_width_px g),
     gc_preview_max_height_px := or_keep (map_option (max 400) (gt_preview_max_height_px t)) (gc_preview_max_height_px g),
     gc_preview_placement := or_keep (gt_preview_placement t) (gc_preview_placement g),
     gc_blur := or_keep (map_option blur_from_toml (gt_blur t)) (gc_blur g),
     gc_opacity := or_keep (map_option clamp01 (gt_opacity t)) (gc_opacity g),
     gc_show_recents := or_keep (gt_show_recents t) (gc_show_recents g),
     gc_theme := (case gt_theme t of
                    Some th \<Rightarrow> if trim th = [] then None else Some (trim th)
                  | None \<Rightarrow> gc_theme g),
     gc_matugen := \<lparr>gm_enabled = or_keep (gt_matugen t) (gm_enabled (gc_matugen g)),
                    gm_colors_path = (case gt_matugen_colors_path t of
                        Some p \<Rightarrow> if trim p = [] then gm_colors_path (gc_matugen g) else expand_tilde env (trim p)
                      | None \<Rightarrow> gm_colors_path (gc_matugen g))\<rparr>\<rparr>"

definition apply_search :: "search_toml \<Rightarrow> rstring \<Rightarrow> rstring" where
  "apply_search t url0 =
     (case st_web_engine_url t of
        Some url \<Rightarrow> (if trim url = [] then url0
                      else if contains_str (trim url) (lit ''{query}'') then trim url else url0)
      | None \<Rightarrow> url0)"

definition apply_impact :: "impact_toml \<Rightarrow> impact_config \<Rightarrow> impact_config" where
  "apply_impact t c = c\<lparr>
     ic_level := or_keep (it_level t) (ic_level c),
     ic_follow_battery := or_keep (it_follow_battery t) (ic_follow_battery c),
     ic_on_battery_level := or_keep (it_on_battery_level t) (ic_on_battery_level c)\<rparr>"

definition resolved_profile :: "nat \<Rightarrow> 'r config \<Rightarrow> impact_profile" where
  "resolved_profile cpus cfg = from_level (ic_level (cfg_impact cfg)) cpus"

definition apply_extract :: "impact_profile \<Rightarrow> extract_toml option \<Rightarrow> extract_config \<Rightarrow> extract_config" where
  "apply_extract seed t c =
     (let c1 = c\<lparr>ec_cache_max_mb := ip_extract_cache_max_bytes seed div (1024 * 1024)\<rparr>
      in case t of
           None \<Rightarrow> c1
         | Some x \<Rightarrow> c1\<lparr>
             ec_cache_max_mb := or_keep (et_cache_max_mb x) (ec_cache_max_mb c1),
             ec_cache_sweep_interval_secs := or_keep (et_cache_sweep_interval_secs x) (ec_cache_sweep_interval_secs c1),
             ec_extractor_max_decompress_mb := or_keep (et_extractor_max_decompress_mb x) (ec_extractor_max_decompress_mb c1)\<rparr>)"

definition seed_ocr :: "impact_profile \<Rightarrow> ocr_config \<Rightarrow> ocr_config" where
  "seed_ocr seed c = c\<lparr>
     oc_cfg_worker_interval_secs := ip_ocr_worker_interval seed,
     oc_cfg_jobs_per_tick := ip_ocr_jobs_per_tick seed,
     oc_cfg_adaptive_throttle := ip_ocr_adaptive_throttle seed,
     oc_cfg_nice_level := ip_ocr_nice_level seed,
     oc_cfg_io_class_idle := ip_ocr_io_class_idle seed\<rparr>"

definition apply_ocr :: "ocr_toml \<Rightarrow> ocr_config \<Rightarrow> ocr_config" where
  "apply_ocr t c = c\<lparr>
     oc_cfg_enabled := or_keep (ot_enabled t) (oc_cfg_enabled c),
     oc_cfg_languages := or_keep (ot_languages t) (oc_cfg_languages c),
     oc_cfg_max_pages_per_pdf := (case ot_max_pages_per_pdf t of Some v \<Rightarrow> Some v | None \<Rightarrow> oc_cfg_max_pages_per_pdf c),
     oc_cfg_min_image_side_px := or_keep (ot_min_image_side_px t) (oc_cfg_min_image_side_px c),
     oc_cfg_timeout_secs := or_keep (ot_timeout_secs t) (oc_cfg_timeout_secs c),
     oc_cfg_worker_interval_secs := or_keep (ot_worker_interval_secs t) (oc_cfg_worker_interval_secs c),
     oc_cfg_jobs_per_tick := or_keep (ot_jobs_per_tick t) (oc_cfg_jobs_per_tick c),
     oc_cfg_adaptive_throttle := or_keep (ot_adaptive_throttle t) (oc_cfg_adaptive_throttle c),
     oc_cfg_max_cpu_pressure_avg10 := or_keep (ot_max_cpu_pressure_avg10 t) (oc_cfg_max_cpu_pressure_avg10 c),
     oc_cfg_nice_level := or_keep (ot_nice_level t) (oc_cfg_nice_level c),
     oc_cfg_io_class_idle := or_keep (ot_io_class_idle t) (oc_cfg_io_class_idle c)\<rparr>"

definition validate_ocr :: "ocr_config \<Rightarrow> ocr_config" where
  "validate_ocr c = c\<lparr>
     oc_cfg_max_pages_per_pdf := (if oc_cfg_max_pages_per_pdf c = Some 0 then None else oc_cfg_max_pages_per_pdf c),
     oc_cfg_worker_interval_secs := (if oc_cfg_worker_interval_secs c = 0 then 1 else oc_cfg_worker_interval_secs c),
     oc_cfg_jobs_per_tick := (if oc_cfg_jobs_per_tick c = 0 then 1 else oc_cfg_jobs_per_tick c),
     oc_cfg_nice_level := (if oc_cfg_nice_level c < 0 \<or> 19 < oc_cfg_nice_level c
                           then max 0 (min 19 (oc_cfg_nice_level c)) else oc_cfg_nice_level c)\<rparr>"

definition validate_and_normalize :: "'r config \<Rightarrow> 'r config" where
  "validate_and_normalize cfg = cfg\<lparr>
     cfg_ocr := validate_ocr (cfg_ocr cfg),
     cfg_max_results := (if cfg_max_results cfg < 1 \<or> 1000 < cfg_max_results cfg
                         then max 1 (min 1000 (cfg_max_results cfg)) else cfg_max_results cfg)\<rparr>"

definition KNOWN_TOP_LEVEL_KEYS :: "rstring list" where
  "KNOWN_TOP_LEVEL_KEYS = map lit
     [''core'', ''ranking'', ''keybindings'', ''preview'', ''gui'', ''extract'', ''ocr'', ''impact'']"

definition LEGACY_TOP_LEVEL_KEYS :: "rstring list" where
  "LEGACY_TOP_LEVEL_KEYS = map lit
     [''roots'', ''exclude'', ''exclude_regex'', ''max_file_size_mb'', ''extractor_timeout_secs'']"

definition KNOWN_PREVIEW_KEYS :: "rstring list" where
  "KNOWN_PREVIEW_KEYS = map lit [''enabled'', ''default_format'', ''max_file_size_mb'', ''cache_dir'']"

definition forward_sections :: "toml_value \<Rightarrow> 'r config \<Rightarrow> 'r config" where
  "forward_sections raw cfg =
     (case raw of
        TLeaf _ \<Rightarrow> cfg
      | TTable doc \<Rightarrow>
          (let preview_sections =
                 (case doc (lit ''preview'') of
                    Some (TTable t) \<Rightarrow>
                      (\<lambda>k. if k \<in> set KNOWN_PREVIEW_KEYS then pc_plugin_sections (cfg_preview cfg) k
                           else case t k of Some v \<Rightarrow> Some v | None \<Rightarrow> pc_plugin_sections (cfg_preview cfg) k)
                  | _ \<Rightarrow> pc_plugin_sections (cfg_preview cfg));
               doc1 = doc(lit ''preview'' := None);
               doc2 = (\<lambda>k. if k \<in> set LEGACY_TOP_LEVEL_KEYS then None else doc1 k)
           in cfg\<lparr>cfg_preview := (cfg_preview cfg)\<lparr>pc_plugin_sections := preview_sections\<rparr>,
                  cfg_plugin_sections :=
                    (\<lambda>k. if k \<in> set KNOWN_TOP_LEVEL_KEYS then cfg_plugin_sections cfg k
                         else case doc2 k of Some v \<Rightarrow> Some v | None \<Rightarrow> cfg_plugin_sections cfg k)\<rparr>))"

definition when_some :: "('t \<Rightarrow> 'c \<Rightarrow> 'c) \<Rightarrow> 't option \<Rightarrow> 'c \<Rightarrow> 'c" where
  "when_some f v c = (case v of Some t \<Rightarrow> f t c | None \<Rightarrow> c)"

definition explicit_tables :: "xdg_env \<Rightarrow> (rstring \<Rightarrow> 'r option) \<Rightarrow> config_toml \<Rightarrow> 'r config" where
  "explicit_tables env mk_regex p =
     (let c0 = config_default env;
          c1 = when_some (apply_core env mk_regex) (tm_core p) c0;
          c2 = when_some apply_ranking (tm_ranking p) c1;
          c3 = when_some (\<lambda>t c. c\<lparr>cfg_keybindings := apply_keybindings t (cfg_keybindings c)\<rparr>) (tm_keybindings p) c2;
          c4 = when_some (\<lambda>t c. c\<lparr>cfg_preview := apply_preview env t (cfg_preview c)\<rparr>) (tm_preview p) c3;
          c5 = when_some (\<lambda>t c. c\<lparr>cfg_gui := apply_gui env t (cfg_gui c)\<rparr>) (tm_gui p) c4;
          c6 = when_some (\<lambda>t c. c\<lparr>cfg_web_engine_url := apply_search t (cfg_web_engine_url c)\<rparr>) (tm_search p) c5
      in when_some (\<lambda>t c. c\<lparr>cfg_impact := apply_impact t (cfg_impact c)\<rparr>) (tm_impact p) c6)"

definition resolve_tables :: "xdg_env \<Rightarrow> (rstring \<Rightarrow> 'r option) \<Rightarrow> nat \<Rightarrow> config_toml \<Rightarrow> 'r config" where
  "resolve_tables env mk_regex cpus p =
     (let user_set = (\<exists>t\<in>set_option (tm_core p). ct_max_file_size_mb t \<noteq> None);
          c7 = explicit_tables env mk_regex p;
          seed = resolved_profile cpus c7;
          c8 = c7\<lparr>cfg_extract := apply_extract seed (tm_extract p) (cfg_extract c7)\<rparr>;
          c9 = (if user_set then c8
                else c8\<lparr>cfg_max_file_size_mb := ip_max_file_size_bytes seed div (1024 * 1024)\<rparr>);
          ocr1 = seed_ocr seed (cfg_ocr c9)
      in validate_and_normalize (c9\<lparr>cfg_ocr := when_some apply_ocr (tm_ocr p) ocr1\<rparr>))"

definition from_toml_str ::
  "xdg_env \<Rightarrow> (rstring \<Rightarrow> 'r option) \<Rightarrow> nat \<Rightarrow> (rstring \<Rightarrow> rstring + config_toml) \<Rightarrow> (rstring \<Rightarrow> rstring + toml_value)
     \<Rightarrow> rstring \<Rightarrow> rstring + 'r config" where
  "from_toml_str env mk_regex cpus parse parse_raw content =
     (case parse content of
        Inl e \<Rightarrow> Inl e
      | Inr p \<Rightarrow>
          (case parse_raw content of
             Inl e \<Rightarrow> Inl e
           | Inr raw \<Rightarrow> Inr (forward_sections raw (resolve_tables env mk_regex cpus p))))"

definition config_load ::
  "xdg_env \<Rightarrow> (rstring \<Rightarrow> 'r option) \<Rightarrow> nat \<Rightarrow> (rstring \<Rightarrow> rstring + config_toml) \<Rightarrow> (rstring \<Rightarrow> rstring + toml_value)
     \<Rightarrow> state_dir \<Rightarrow> rstring + 'r config" where
  "config_load env mk_regex cpus parse parse_raw files =
     (case files (path_join (config_dir env) (lit ''lixun/config.toml'')) of
        None \<Rightarrow> Inr (config_default env)
      | Some Unreadable \<Rightarrow> Inl (lit ''read error'')
      | Some (Readable content) \<Rightarrow> from_toml_str env mk_regex cpus parse parse_raw content)"

definition load_or_default ::
  "xdg_env \<Rightarrow> (rstring \<Rightarrow> 'r option) \<Rightarrow> nat \<Rightarrow> (rstring \<Rightarrow> rstring + config_toml) \<Rightarrow> (rstring \<Rightarrow> rstring + toml_value)
     \<Rightarrow> state_dir \<Rightarrow> 'r config \<times> rstring option" where
  "load_or_default env mk_regex cpus parse parse_raw files =
     (case config_load env mk_regex cpus parse parse_raw files of
        Inr cfg \<Rightarrow> (cfg, None)
      | Inl e \<Rightarrow>
          (config_default env,
           Some (lit ''config: '' @ path_join (config_dir env) (lit ''lixun/config.toml'') @ lit '' failed to load: '' @ e)))"

definition to_ranking_config :: "'r config \<Rightarrow> ranking_config" where
  "to_ranking_config cfg = ranking_default\<lparr>
     rc_apps := cfg_ranking_apps cfg, rc_files := cfg_ranking_files cfg, rc_mail := cfg_ranking_mail cfg,
     rc_attachments := cfg_ranking_attachments cfg, rc_prefix_boost := cfg_ranking_prefix_boost cfg,
     rc_acronym_boost := cfg_ranking_acronym_boost cfg, rc_recency_weight := cfg_ranking_recency_weight cfg,
     rc_recency_tau_days := cfg_ranking_recency_tau_days cfg, rc_frecency_alpha := cfg_ranking_frecency_alpha cfg,
     rc_latch_weight := cfg_ranking_latch_weight cfg, rc_latch_cap := cfg_ranking_latch_cap cfg,
     rc_total_multiplier_cap := cfg_ranking_total_multiplier_cap cfg,
     rc_top_hit_min_confidence := cfg_ranking_top_hit_min_confidence cfg,
     rc_top_hit_min_margin := cfg_ranking_top_hit_min_margin cfg,
     rc_strong_latch_threshold := cfg_ranking_strong_latch_threshold cfg\<rparr>"

section \<open>Every configuration in force is valid\<close>

definition gui_valid :: "gui_config \<Rightarrow> bool" where
  "gui_valid g =
     ((\<forall>p\<in>{gc_width_percent g, gc_height_percent g, gc_preview_width_percent g, gc_preview_height_percent g}. 10 \<le> p \<and> p \<le> 95)
      \<and> 200 \<le> gc_max_width_px g \<and> 200 \<le> gc_max_height_px g
      \<and> 400 \<le> gc_preview_max_width_px g \<and> 400 \<le> gc_preview_max_height_px g
      \<and> (case gc_opacity g of Fin x \<Rightarrow> 0 \<le> x \<and> x \<le> 1 | NaN \<Rightarrow> True | _ \<Rightarrow> False)
      \<and> (\<forall>t\<in>set_option (gc_theme g). t \<noteq> []))"

definition ocr_valid :: "ocr_config \<Rightarrow> bool" where
  "ocr_valid c =
     (1 \<le> oc_cfg_worker_interval_secs c \<and> 1 \<le> oc_cfg_jobs_per_tick c \<and> 0 \<le> oc_cfg_nice_level c \<and> oc_cfg_nice_level c \<le> 19
      \<and> oc_cfg_max_pages_per_pdf c \<noteq> Some 0)"

definition config_valid :: "'r config \<Rightarrow> bool" where
  "config_valid cfg =
     (1 \<le> cfg_max_results cfg \<and> cfg_max_results cfg \<le> 1000 \<and> gui_valid (cfg_gui cfg) \<and> ocr_valid (cfg_ocr cfg)
      \<and> contains_str (cfg_web_engine_url cfg) (lit ''{query}'')
      \<and> (\<forall>k\<in>set (KNOWN_TOP_LEVEL_KEYS @ LEGACY_TOP_LEVEL_KEYS). cfg_plugin_sections cfg k = None)
      \<and> (\<forall>k\<in>set KNOWN_PREVIEW_KEYS. pc_plugin_sections (cfg_preview cfg) k = None))"

lemma clamp_percent_range: "10 \<le> clamp_percent v" "clamp_percent v \<le> 95"
  by (auto simp: clamp_percent_def)

lemma gui_valid_default: "gui_valid (gui_default env)"
  by (simp add: gui_valid_def gui_default_def DEFAULT_SURFACE_OPACITY_def)

lemma or_keep_cases: "P d \<Longrightarrow> (\<And>x. v = Some x \<Longrightarrow> P x) \<Longrightarrow> P (or_keep v d)"
  by (cases v) simp_all

lemma gui_valid_apply:
  assumes "gui_valid g"
  shows "gui_valid (apply_gui env t g)"
proof -
  have "10 \<le> or_keep (map_option clamp_percent v) d \<and> or_keep (map_option clamp_percent v) d \<le> 95" if "10 \<le> d" "d \<le> 95" for v d
    using that clamp_percent_range by (cases v) auto
  moreover have "b \<le> or_keep (map_option (max b) v) d" if "b \<le> d" for b d :: int and v
    using that by (cases v) auto
  moreover have "case or_keep (map_option clamp01 v) d of Fin x \<Rightarrow> 0 \<le> x \<and> x \<le> 1 | NaN \<Rightarrow> True | _ \<Rightarrow> False"
    if "case d of Fin x \<Rightarrow> 0 \<le> x \<and> x \<le> 1 | NaN \<Rightarrow> True | _ \<Rightarrow> False" for v d
    using that by (cases v) (auto simp: clamp01_def split: f64.splits)
  moreover have "\<forall>th\<in>set_option (gc_theme (apply_gui env t g)). th \<noteq> []"
    using assms by (simp add: gui_valid_def apply_gui_def split: option.split)
  ultimately show ?thesis using assms unfolding gui_valid_def by (simp add: apply_gui_def)
qed

lemma ocr_valid_validate: "ocr_valid (validate_ocr c)"
  by (auto simp: ocr_valid_def validate_ocr_def)

lemma url_valid_apply:
  "contains_str url (lit ''{query}'') \<Longrightarrow> contains_str (apply_search t url) (lit ''{query}'')"
  by (simp add: apply_search_def split: option.split)

lemma url_valid_default: "contains_str DEFAULT_WEB_ENGINE_URL (lit ''{query}'')"
  by (simp add: DEFAULT_WEB_ENGINE_URL_def contains_str_def lit_def sublist_code)

text \<open>What the tables, whatever they say, leave of a configuration.\<close>

definition tables_inv :: "'r config \<Rightarrow> bool" where
  "tables_inv cfg =
     (gui_valid (cfg_gui cfg) \<and> contains_str (cfg_web_engine_url cfg) (lit ''{query}'')
      \<and> cfg_plugin_sections cfg = (\<lambda>_. None) \<and> pc_plugin_sections (cfg_preview cfg) = (\<lambda>_. None))"

lemma tables_inv_default: "tables_inv (config_default env)"
  by (simp add: tables_inv_def config_default_def gui_valid_default url_valid_default preview_default_def)

lemma tables_inv_core [simp]: "tables_inv (apply_core env mk t cfg) = tables_inv cfg"
  by (simp add: tables_inv_def apply_core_def)

lemma tables_inv_ranking [simp]: "tables_inv (apply_ranking t cfg) = tables_inv cfg"
  by (simp add: tables_inv_def apply_ranking_def)

lemma tables_inv_updates [simp]:
  "tables_inv (cfg\<lparr>cfg_keybindings := kb\<rparr>) = tables_inv cfg"
  "tables_inv (cfg\<lparr>cfg_impact := i\<rparr>) = tables_inv cfg"
  "tables_inv (cfg\<lparr>cfg_extract := e\<rparr>) = tables_inv cfg"
  "tables_inv (cfg\<lparr>cfg_max_file_size_mb := n\<rparr>) = tables_inv cfg"
  "tables_inv (cfg\<lparr>cfg_ocr := oc\<rparr>) = tables_inv cfg"
  by (simp_all add: tables_inv_def)

lemma tables_inv_steps:
  assumes "tables_inv cfg"
  shows "tables_inv (cfg\<lparr>cfg_preview := apply_preview env p (cfg_preview cfg)\<rparr>)"
    and "tables_inv (cfg\<lparr>cfg_gui := apply_gui env g (cfg_gui cfg)\<rparr>)"
    and "tables_inv (cfg\<lparr>cfg_web_engine_url := apply_search s (cfg_web_engine_url cfg)\<rparr>)"
  using assms by (simp_all add: tables_inv_def apply_preview_def gui_valid_apply url_valid_apply)

lemma tables_inv_normalize: "tables_inv (validate_and_normalize cfg) = tables_inv cfg"
  by (simp add: tables_inv_def validate_and_normalize_def)

lemma when_some_keeps: "P c \<Longrightarrow> (\<And>t c. P c \<Longrightarrow> P (f t c)) \<Longrightarrow> P (when_some f v c)"
  by (cases v) (simp_all add: when_some_def)

lemma tables_inv_explicit: "tables_inv (explicit_tables env mk p)"
  unfolding explicit_tables_def Let_def
  by (simp add: tables_inv_default when_some_keeps [of tables_inv] tables_inv_steps)

lemma tables_inv_resolve: "tables_inv (resolve_tables env mk cpus p)"
  unfolding resolve_tables_def Let_def tables_inv_normalize tables_inv_updates
  by (simp add: tables_inv_explicit)

lemma normalize_ranges:
  "ocr_valid (cfg_ocr (validate_and_normalize cfg))"
  "1 \<le> cfg_max_results (validate_and_normalize cfg) \<and> cfg_max_results (validate_and_normalize cfg) \<le> 1000"
  by (auto simp: validate_and_normalize_def ocr_valid_validate)

lemma resolve_ranges:
  "ocr_valid (cfg_ocr (resolve_tables env mk cpus p))"
  "1 \<le> cfg_max_results (resolve_tables env mk cpus p) \<and> cfg_max_results (resolve_tables env mk cpus p) \<le> 1000"
  unfolding resolve_tables_def Let_def by (rule normalize_ranges)+

lemma forward_valid:
  assumes "tables_inv cfg" and "ocr_valid (cfg_ocr cfg)" and "1 \<le> cfg_max_results cfg \<and> cfg_max_results cfg \<le> 1000"
  shows "config_valid (forward_sections raw cfg)"
proof (cases raw)
  case (TLeaf s)
  then show ?thesis using assms by (simp add: forward_sections_def config_valid_def tables_inv_def)
next
  case (TTable doc)
  have "lit ''preview'' \<in> set KNOWN_TOP_LEVEL_KEYS" by (simp add: KNOWN_TOP_LEVEL_KEYS_def)
  then show ?thesis using assms TTable
    by (auto simp: forward_sections_def config_valid_def tables_inv_def Let_def split: option.splits toml_value.splits)
qed

lemma default_valid: "config_valid (config_default env)"
  using tables_inv_default [of env]
  by (auto simp: config_valid_def tables_inv_def config_default_def ocr_valid_def ocr_default_def)

text \<open>
  C11: The configuration in force is always valid. Whatever the file holds, readable or not, parsed or not: the result count is
  between 1 and 1000; the OCR worker has a positive interval and batch, a nice level in range and no zero page cap; window
  percentages, pixel caps and opacity are in range (an opacity that is not a number apart); the web search
  template has its placeholder; and neither built-in nor legacy keys are handed to plugins as sections.
\<close>

theorem config_always_valid:
  "config_valid (fst (load_or_default env mk_regex cpus parse parse_raw files))"
  using default_valid forward_valid [OF tables_inv_resolve resolve_ranges]
  by (auto simp: load_or_default_def config_load_def from_toml_str_def
      split: option.splits file_state.splits sum.splits)

text \<open>
  Precedence of the settings seeded by the impact level: an explicit key wins, else the level's value; a missing file takes
  neither.
\<close>

lemma explicit_leaves_ocr: "cfg_ocr (explicit_tables env mk p) = ocr_default"
  unfolding explicit_tables_def Let_def
  by (intro when_some_keeps [where P = "\<lambda>c. cfg_ocr c = ocr_default"])
    (simp_all add: apply_core_def apply_ranking_def config_default_def)

lemma resolved_ocr:
  "cfg_ocr (resolve_tables env mk cpus p) =
     (let seeded = seed_ocr (resolved_profile cpus (explicit_tables env mk p)) ocr_default
      in validate_ocr (when_some apply_ocr (tm_ocr p) seeded))"
  unfolding resolve_tables_def Let_def validate_and_normalize_def
  by (cases "\<exists>t\<in>set_option (tm_core p). ct_max_file_size_mb t \<noteq> None") (simp_all add: explicit_leaves_ocr cong: option.case_cong)

lemma resolved_impact: "cfg_impact (resolve_tables env mk cpus p) = cfg_impact (explicit_tables env mk p)"
  by (simp add: resolve_tables_def Let_def validate_and_normalize_def)

text \<open>
  An empty file is not the same as no file: with no file the OCR worker is configured with the built-in interval of 10 seconds, 10 jobs
  and nice level 19, and with an empty one by the row of the default level (1 second, 100 jobs, nice level 5).
\<close>

definition empty_toml :: config_toml where
  "empty_toml = \<lparr>tm_core = None, tm_ranking = None, tm_keybindings = None, tm_preview = None, tm_gui = None, tm_extract = None,
     tm_ocr = None, tm_impact = None, tm_search = None\<rparr>"

theorem no_file_is_not_an_empty_file:
  fixes mk_regex :: "rstring \<Rightarrow> 'r option" and env :: xdg_env and cpus :: nat
  defines "missing \<equiv> cfg_ocr (config_default env :: 'r config)"
    and "blank \<equiv> cfg_ocr (resolve_tables env mk_regex cpus empty_toml)"
  shows "(oc_cfg_worker_interval_secs missing, oc_cfg_jobs_per_tick missing, oc_cfg_nice_level missing) = (10, 10, 19)
    \<and> (oc_cfg_worker_interval_secs blank, oc_cfg_jobs_per_tick blank, oc_cfg_nice_level blank) = (1, 100, 5)"
  unfolding missing_def blank_def
  by (simp add: resolve_tables_def explicit_tables_def empty_toml_def when_some_def Let_def validate_and_normalize_def validate_ocr_def seed_ocr_def resolved_profile_def
      config_default_def ocr_default_def impact_default_def)

text \<open>An opacity that is not a number passes the clamp.\<close>

theorem nan_opacity_passes:
  "gt_opacity t = Some NaN \<Longrightarrow> gc_opacity (apply_gui env t g) = NaN"
  by (simp add: apply_gui_def clamp01_def)

end
