(* ===== verification/Accelerators.thy ===== *)
theory Accelerators
  imports Config
begin

text \<open>
  Keybindings (\<^verbatim>\<open>lixun-config/src/lib.rs\<close>): the normal form of an accelerator (a modifier mask of eight bits and the
  key name) and the scan that warns about two actions bound to the same keys. The scan is shown exact, the normal form independent of
  the order, the repetition and the spelling of the modifiers, and the shipped bindings free of collisions.
\<close>

fun split_once :: "rchar \<Rightarrow> rstring \<Rightarrow> (rstring \<times> rstring) option" where
  "split_once c [] = None"
| "split_once c (x # xs) =
     (if x = c then Some ([], xs) else map_option (\<lambda>(a, b). (x # a, b)) (split_once c xs))"

definition mod_bit :: "rstring \<Rightarrow> 8 word option" where
  "mod_bit name =
     (if name = lit ''shift'' then Some 1
      else if name = lit ''ctrl'' \<or> name = lit ''control'' \<or> name = lit ''primary'' then Some 2
      else if name = lit ''alt'' then Some 4
      else if name = lit ''super'' then Some 8
      else if name = lit ''meta'' then Some 16
      else if name = lit ''hyper'' then Some 32
      else None)"

abbreviation (input) "lt_char \<equiv> (60 :: rchar)"
abbreviation (input) "gt_char \<equiv> (62 :: rchar)"

lemma split_once_shrinks: "split_once c xs = Some (a, b) \<Longrightarrow> length b < length xs"
  by (induction xs arbitrary: a b) (auto split: if_splits)

function accel_loop :: "8 word \<Rightarrow> rstring \<Rightarrow> (8 word \<times> rstring) option" where
  "accel_loop mods [] = Some (mods, [])"
| "accel_loop mods (c # stripped) =
     (if c \<noteq> lt_char then Some (mods, c # stripped)
      else case split_once gt_char stripped of
             None \<Rightarrow> None
           | Some (name, tail) \<Rightarrow>
               (case mod_bit (to_ascii_lowercase name) of
                  None \<Rightarrow> None
                | Some b \<Rightarrow> accel_loop (mods OR b) tail))"
  by pat_completeness auto
termination
  by (relation "measure (\<lambda>(m, s). length s)") (auto dest: split_once_shrinks)

definition normalize_accel :: "rstring \<Rightarrow> (8 word \<times> rstring) option" where
  "normalize_accel accel =
     (case accel_loop 0 (trim accel) of
        None \<Rightarrow> None
      | Some (mods, rest) \<Rightarrow>
          (if rest = [] \<or> (\<exists>c\<in>set rest. c \<in> {lt_char, gt_char, 43, 32}) then None
           else Some (mods, to_ascii_lowercase rest)))"

definition EXEMPT :: "(rstring \<times> rstring) list" where
  "EXEMPT = [(lit ''history_up'', lit ''previous_result'')]"

definition accel_actions :: "keybindings \<Rightarrow> (rstring \<times> rstring) list" where
  "accel_actions kb =
     [(lit ''close'', kb_close kb), (lit ''primary_action'', kb_primary_action kb),
      (lit ''secondary_action'', kb_secondary_action kb), (lit ''copy'', kb_copy kb), (lit ''quick_look'', kb_quick_look kb),
      (lit ''quick_look_alt'', kb_quick_look_alt kb), (lit ''history_up'', kb_history_up kb),
      (lit ''next_result'', kb_next_result kb), (lit ''previous_result'', kb_previous_result kb),
      (lit ''next_category'', kb_next_category kb), (lit ''previous_category'', kb_previous_category kb),
      (lit ''filter_all'', kb_filter_all kb), (lit ''filter_apps'', kb_filter_apps kb),
      (lit ''filter_files'', kb_filter_files kb), (lit ''filter_mail'', kb_filter_mail kb),
      (lit ''filter_attachments'', kb_filter_attachments kb), (lit ''reset_gui_position'', kb_reset_gui_position kb),
      (lit ''actions_menu'', kb_actions_menu kb), (lit ''info'', kb_info kb)]"

fun accel_collisions :: "(rstring \<times> rstring \<times> (8 word \<times> rstring) option) list \<Rightarrow> (rstring \<times> rstring \<times> rstring) list" where
  "accel_collisions [] = []"
| "accel_collisions ((name_a, accel_a, norm_a) # rest) =
     (case norm_a of
        None \<Rightarrow> []
      | Some n \<Rightarrow>
          map (\<lambda>(name_b, _). (name_a, name_b, accel_a))
            (filter (\<lambda>(name_b, _, norm_b). norm_b = Some n
                \<and> (name_a, name_b) \<notin> set EXEMPT \<and> (name_b, name_a) \<notin> set EXEMPT) rest))
     @ accel_collisions rest"

definition accel_warning :: "rstring \<times> rstring \<times> rstring \<Rightarrow> rstring" where
  "accel_warning w =
     (case w of (a, b, acc) \<Rightarrow>
        lit ''config: [keybindings] `'' @ a @ lit ''` and `'' @ b @ lit ''` both bind '' @ [34] @ acc @ [34]
        @ lit ''; dispatch order decides which one fires '' @ [8212] @ lit '' rebind one of them'')"

definition duplicate_accels :: "keybindings \<Rightarrow> (rstring \<times> rstring \<times> rstring) list" where
  "duplicate_accels kb = accel_collisions (map (\<lambda>(n, a). (n, a, normalize_accel a)) (accel_actions kb))"

definition duplicate_accel_warnings :: "keybindings \<Rightarrow> rstring list" where
  "duplicate_accel_warnings kb = map accel_warning (duplicate_accels kb)"

section \<open>The normal form\<close>

definition accel_text :: "rstring list \<Rightarrow> rstring \<Rightarrow> rstring" where
  "accel_text mods key = concat (map (\<lambda>m. [lt_char] @ m @ [gt_char]) mods) @ key"

definition mod_value :: "rstring \<Rightarrow> 8 word" where
  "mod_value m = (case mod_bit (to_ascii_lowercase m) of Some b \<Rightarrow> b | None \<Rightarrow> 0)"

primrec mods_mask :: "rstring list \<Rightarrow> 8 word" where
  "mods_mask [] = 0"
| "mods_mask (m # ms) = mod_value m OR mods_mask ms"

definition plain_key :: "rstring \<Rightarrow> bool" where
  "plain_key key = (key \<noteq> [] \<and> (\<forall>c\<in>set key. c \<notin> {lt_char, gt_char, 43, 32} \<and> \<not> is_whitespace c))"

lemma split_once_append: "c \<notin> set a \<Longrightarrow> split_once c (a @ c # b) = Some (a, b)"
  by (induction a) auto

lemma accel_loop_text:
  assumes "\<forall>m\<in>set mods. mod_bit (to_ascii_lowercase m) \<noteq> None \<and> gt_char \<notin> set m" and "plain_key key"
  shows "accel_loop acc (accel_text mods key) = Some (acc OR mods_mask mods, key)"
  using assms(1)
proof (induction mods arbitrary: acc)
  case Nil
  then show ?case using assms(2) by (cases key) (auto simp: accel_text_def plain_key_def)
next
  case (Cons m mods)
  obtain b where "mod_bit (to_ascii_lowercase m) = Some b" using Cons.prems by auto
  moreover have "split_once gt_char (m @ gt_char # accel_text mods key) = Some (m, accel_text mods key)"
    using Cons.prems by (simp add: split_once_append)
  ultimately show ?case using Cons.IH Cons.prems by (simp add: accel_text_def mod_value_def or.assoc)
qed

lemma mods_mask_absorb: "m \<in> set ms \<Longrightarrow> mod_value m OR mods_mask ms = mods_mask ms"
  by (induction ms) (auto simp: or.left_commute)

lemma mods_mask_subset: "set ms \<subseteq> set ns \<Longrightarrow> mods_mask ms OR mods_mask ns = mods_mask ns"
  by (induction ms) (simp_all add: or.assoc mods_mask_absorb)

lemma mods_mask_set: "set ms = set ns \<Longrightarrow> mods_mask ms = mods_mask ns"
  by (metis mods_mask_subset or.commute order_refl)

lemma trim_accel_text:
  assumes "plain_key key"
  shows "trim (accel_text mods key) = accel_text mods key"
proof -
  have "\<not> is_whitespace (hd (accel_text mods key))"
    using assms by (cases mods) (auto simp: accel_text_def plain_key_def is_whitespace_def)
  moreover have "\<not> is_whitespace (last (accel_text mods key))"
    using assms by (simp add: accel_text_def plain_key_def)
  moreover have "accel_text mods key \<noteq> []" using assms by (simp add: accel_text_def plain_key_def)
  ultimately show ?thesis by (intro trim_trimmed) (simp add: trimmed_def)
qed

text \<open>
  The normal form of a well-formed accelerator is the mask of its modifiers with the lower-case key; so two of them have
  the same normal form whenever they name the same modifiers, in whatever order, however often and in whatever case, with the
  same key up to case.
\<close>

lemma normalize_accel_text:
  assumes "\<forall>m\<in>set mods. mod_bit (to_ascii_lowercase m) \<noteq> None \<and> gt_char \<notin> set m" and "plain_key key"
  shows "normalize_accel (accel_text mods key) = Some (mods_mask mods, to_ascii_lowercase key)"
  using assms by (auto simp: normalize_accel_def trim_accel_text accel_loop_text plain_key_def)

lemma lowercase_idem: "to_ascii_lowercase (to_ascii_lowercase s) = to_ascii_lowercase s"
  by (simp add: to_ascii_lowercase_def to_ascii_lower_def)

lemma mods_mask_lowercase: "mods_mask (map to_ascii_lowercase ms) = mods_mask ms"
  by (induction ms) (simp_all add: mod_value_def lowercase_idem)

lemma accel_normal_form:
  assumes "\<forall>m\<in>set (mods @ mods'). mod_bit (to_ascii_lowercase m) \<noteq> None \<and> gt_char \<notin> set m" and "plain_key key" "plain_key key'"
    and "set (map to_ascii_lowercase mods) = set (map to_ascii_lowercase mods')"
    and "to_ascii_lowercase key = to_ascii_lowercase key'"
  shows "normalize_accel (accel_text mods key) = normalize_accel (accel_text mods' key')"
proof -
  have "mods_mask mods = mods_mask mods'"
    using mods_mask_set [OF assms(4)] by (simp only: mods_mask_lowercase)
  then show ?thesis using assms by (simp add: normalize_accel_text)
qed

section \<open>The scan\<close>

definition collide :: "rstring \<times> rstring \<Rightarrow> rstring \<times> rstring \<Rightarrow> bool" where
  "collide a b =
     (normalize_accel (snd a) \<noteq> None \<and> normalize_accel (snd a) = normalize_accel (snd b)
      \<and> {fst a, fst b} \<noteq> {lit ''history_up'', lit ''previous_result''})"

lemma pair_indices_Cons:
  "(\<exists>i j. i < j \<and> j < length (a # as) \<and> P ((a # as) ! i) ((a # as) ! j)) \<longleftrightarrow>
     (\<exists>b\<in>set as. P a b) \<or> (\<exists>i j. i < j \<and> j < length as \<and> P (as ! i) (as ! j))" (is "?L \<longleftrightarrow> ?R")
proof
  assume ?L
  then obtain i j where ij: "i < j" "j < length (a # as)" "P ((a # as) ! i) ((a # as) ! j)" by blast
  then obtain j' where j': "j = Suc j'" "j' < length as" by (cases j) auto
  show ?R
  proof (cases i)
    case 0
    then show ?thesis using ij j' by auto
  next
    case (Suc i')
    then have "i' < j' \<and> j' < length as \<and> P (as ! i') (as ! j')" using ij j' by simp
    then show ?thesis by blast
  qed
next
  assume ?R
  then consider (head) j where "j < length as" "P a (as ! j)" | (later) i j where "i < j" "j < length as" "P (as ! i) (as ! j)"
    by (auto simp: in_set_conv_nth)
  then show ?L
  proof cases
    case head
    then have "0 < Suc j \<and> Suc j < length (a # as) \<and> P ((a # as) ! 0) ((a # as) ! Suc j)" by simp
    then show ?thesis by blast
  next
    case later
    then have "Suc i < Suc j \<and> Suc j < length (a # as) \<and> P ((a # as) ! Suc i) ((a # as) ! Suc j)" by simp
    then show ?thesis by blast
  qed
qed

lemma exempt_pair:
  "(a, b) \<notin> set EXEMPT \<and> (b, a) \<notin> set EXEMPT \<longleftrightarrow> {a, b} \<noteq> {lit ''history_up'', lit ''previous_result''}"
  by (auto simp: EXEMPT_def doubleton_eq_iff)

lemma accel_collisions_exact:
  "(x, y, acc) \<in> set (accel_collisions (map (\<lambda>(n, a). (n, a, normalize_accel a)) acts)) \<longleftrightarrow>
     (\<exists>i j. i < j \<and> j < length acts \<and> acts ! i = (x, acc) \<and> fst (acts ! j) = y \<and> collide (acts ! i) (acts ! j))"
proof (induction acts)
  case Nil
  then show ?case by simp
next
  case (Cons act acts)
  obtain n a where act: "act = (n, a)" by (cases act)
  let ?P = "\<lambda>p q. p = (x, acc) \<and> fst q = y \<and> collide p q"
  have "(x, y, acc) \<in> set (accel_collisions (map (\<lambda>(n, a). (n, a, normalize_accel a)) (act # acts))) \<longleftrightarrow>
      (\<exists>b\<in>set acts. ?P act b) \<or> (x, y, acc) \<in> set (accel_collisions (map (\<lambda>(n, a). (n, a, normalize_accel a)) acts))"
    using exempt_pair [of n]
    by (cases "normalize_accel a") (auto simp: act collide_def split_def image_iff Bex_def)
  then show ?case using pair_indices_Cons [of act acts ?P] Cons.IH by simp
qed

lemma default_accels_distinct: "duplicate_accels keybindings_default = []"
  by code_simp

text \<open>
  The scan for colliding keybindings is exact: a warning names two actions precisely when the accelerators bound to them (one
  before the other in dispatch order) are well-formed and have the same modifiers and key, the pair that shares Up on purpose
  apart; it quotes the accelerator of the first; and the shipped bindings raise none.
\<close>

theorem keybinding_scan_exact:
  "((x, y, acc) \<in> set (duplicate_accels kb) \<longleftrightarrow>
      (\<exists>i j. i < j \<and> j < 19 \<and> accel_actions kb ! i = (x, acc) \<and> fst (accel_actions kb ! j) = y
        \<and> collide (accel_actions kb ! i) (accel_actions kb ! j)))
   \<and> duplicate_accel_warnings keybindings_default = []"
proof -
  have "length (accel_actions kb) = 19" by (simp add: accel_actions_def)
  then show ?thesis
    using accel_collisions_exact [of x y acc "accel_actions kb"]
      default_accels_distinct
    unfolding duplicate_accel_warnings_def by (simp add: duplicate_accels_def)
qed

end
