(* ===== verification/Cache_Sweep.thy ===== *)
theory Cache_Sweep
  imports Ocr_Queue
begin

text \<open>
  The extract-cache sweep (\<^verbatim>\<open>lixun-indexer/src/cache_sweep.rs\<close>): stale temporary files are removed, the oldest cached
  extractions are evicted until the cache fits its cap, and exhausted rows of the OCR queue are reaped. The files found by the
  directory walk and the answers of \<^verbatim>\<open>remove_file\<close> are arguments; a missing cache directory is \<open>None\<close>.
\<close>

section \<open>The cache sweep\<close>

record cache_file =
  cf_path :: rstring
  cf_mtime_secs :: int
  cf_size :: nat
  cf_is_tmp :: bool

record sweep_cfg =
  sw_max_bytes :: nat
  sw_tmp_max_age :: int
  sw_zombie_max_attempts :: int
  sw_zombie_max_age :: int

record sweep_outcome =
  so_evicted_files :: nat
  so_evicted_bytes :: nat
  so_tmp_cleaned :: nat
  so_zombies_reaped :: nat

definition sweep_default :: sweep_outcome where
  "sweep_default = \<lparr>so_evicted_files = 0, so_evicted_bytes = 0, so_tmp_cleaned = 0, so_zombies_reaped = 0\<rparr>"

datatype rm_result = Removed | RmNotFound | RmFailed

definition i64_saturating_sub :: "int \<Rightarrow> int \<Rightarrow> int" where
  "i64_saturating_sub a b = max (- (2 ^ 63)) (min (2 ^ 63 - 1) (a - b))"

definition is_tmp_name :: "rstring \<Rightarrow> bool" where
  "is_tmp_name n = starts_with n (lit ''.tmp-'')"

text \<open>The temporary files the sweep tries to remove.\<close>

definition stale_tmps :: "sweep_cfg \<Rightarrow> int \<Rightarrow> cache_file list \<Rightarrow> cache_file list" where
  "stale_tmps cfg now files =
     filter (\<lambda>f. sw_tmp_max_age cfg \<le> i64_saturating_sub now (cf_mtime_secs f)) (filter cf_is_tmp files)"

text \<open>The eviction loop: the files that are gone after it, in order, and the bytes it still counts.\<close>

fun evict_loop :: "(rstring \<Rightarrow> rm_result) \<Rightarrow> nat \<Rightarrow> nat \<Rightarrow> cache_file list \<Rightarrow> cache_file list \<times> nat" where
  "evict_loop rm cap remaining [] = ([], remaining)"
| "evict_loop rm cap remaining (f # fs) =
     (if remaining \<le> cap then ([], remaining)
      else (case rm (cf_path f) of
              RmFailed \<Rightarrow> evict_loop rm cap remaining fs
            | _ \<Rightarrow> (case evict_loop rm cap (remaining - cf_size f) fs of (out, r) \<Rightarrow> (f # out, r))))"

definition total_bytes :: "cache_file list \<Rightarrow> nat" where
  "total_bytes fs = sum_list (map cf_size fs)"

definition evicted :: "sweep_cfg \<Rightarrow> (rstring \<Rightarrow> rm_result) \<Rightarrow> cache_file list \<Rightarrow> cache_file list" where
  "evicted cfg rm files =
     (let regular = filter (\<lambda>f. \<not> cf_is_tmp f) files
      in if 0 < sw_max_bytes cfg \<and> sw_max_bytes cfg < total_bytes regular
         then fst (evict_loop rm (sw_max_bytes cfg) (total_bytes regular) (sort_key cf_mtime_secs regular))
         else [])"

text \<open>
  One sweep: the outcome, the files left, and the OCR queue after the reap (\<open>None\<close>: no reaper);
  \<open>reap_ok\<close> says whether the statement succeeds.
\<close>

definition sweep_once ::
  "sweep_cfg \<Rightarrow> int \<Rightarrow> (rstring \<Rightarrow> rm_result) \<Rightarrow> bool \<Rightarrow> cache_file list option \<Rightarrow> ocr_row list option
     \<Rightarrow> sweep_outcome \<times> cache_file list \<times> ocr_row list option" where
  "sweep_once cfg now rm reap_ok cache queue =
     (case cache of
        None \<Rightarrow> (sweep_default, [], queue)
      | Some files \<Rightarrow>
          (let tmps = filter (\<lambda>f. rm (cf_path f) \<noteq> RmFailed) (stale_tmps cfg now files);
               ev = evicted cfg rm files;
               left_files = filter (\<lambda>f. f \<notin> set tmps \<and> f \<notin> set ev) files;
               cutoff = i64_saturating_sub now (sw_zombie_max_age cfg);
               reap = (case queue of
                         Some q \<Rightarrow> if reap_ok then reap_zombies (sw_zombie_max_attempts cfg) cutoff q else (q, 0)
                       | None \<Rightarrow> ([], 0))
           in (\<lparr>so_evicted_files = length (filter (\<lambda>f. rm (cf_path f) = Removed) ev),
                so_evicted_bytes = total_bytes (filter (\<lambda>f. rm (cf_path f) = Removed) ev),
                so_tmp_cleaned = length (filter (\<lambda>f. rm (cf_path f) = Removed) tmps),
                so_zombies_reaped = snd reap\<rparr>,
               left_files, map_option (\<lambda>_. fst reap) queue)))"

lemma evict_loop_prefix:
  assumes "\<And>p. rm p \<noteq> RmFailed" and "evict_loop rm cap r fs = (out, r')" and "total_bytes fs \<le> r"
  shows "\<exists>k. out = take k fs \<and> r' = r - total_bytes (take k fs) \<and> (r' \<le> cap \<or> k = length fs)
    \<and> (out \<noteq> [] \<longrightarrow> cap < r - total_bytes (butlast out))"
  using assms(2,3)
proof (induction fs arbitrary: r out r')
  case Nil
  then show ?case by (simp add: total_bytes_def)
next
  case (Cons f fs)
  show ?case
  proof (cases "r \<le> cap")
    case True
    then show ?thesis using Cons.prems by (intro exI [of _ 0]) (simp add: total_bytes_def)
  next
    case False
    obtain out1 where rec: "evict_loop rm cap (r - cf_size f) fs = (out1, r')" and out: "out = f # out1"
      using Cons.prems(1) False assms(1) [of "cf_path f"] by (auto split: rm_result.splits prod.splits)
    have "total_bytes fs \<le> r - cf_size f" using Cons.prems(2) by (simp add: total_bytes_def)
    from Cons.IH [OF rec this] obtain k where k: "out1 = take k fs" "r' = r - cf_size f - total_bytes (take k fs)"
      "r' \<le> cap \<or> k = length fs" "out1 \<noteq> [] \<longrightarrow> cap < r - cf_size f - total_bytes (butlast out1)" by blast
    have "out = take (Suc k) (f # fs)" "r' = r - total_bytes (take (Suc k) (f # fs))" "r' \<le> cap \<or> Suc k = length (f # fs)"
      using k out by (simp_all add: total_bytes_def)
    moreover have "cap < r - total_bytes (butlast out)"
      using k(4) out False by (cases "out1 = []") (simp_all add: total_bytes_def)
    ultimately show ?thesis by blast
  qed
qed

lemma total_bytes_split: "total_bytes xs = total_bytes (take k xs) + total_bytes (drop k xs)"
  unfolding total_bytes_def by (metis append_take_drop_id map_append sum_list_append)

lemma total_bytes_mset: "mset xs = mset ys \<Longrightarrow> total_bytes xs = total_bytes ys"
  unfolding total_bytes_def by (metis mset_map sum_mset_sum_list)

lemma filter_not_taken:
  assumes "distinct xs"
  shows "filter (\<lambda>x. x \<notin> set (take k xs)) xs = drop k xs"
proof -
  have d: "set (take k xs) \<inter> set (drop k xs) = {}" using assms by (simp add: set_take_disj_set_drop_if_distinct)
  have "filter (\<lambda>x. x \<notin> set (take k xs)) (take k xs) = []" by (simp add: filter_empty_conv)
  moreover have "filter (\<lambda>x. x \<notin> set (take k xs)) (drop k xs) = drop k xs" using d by (auto simp: filter_id_conv)
  ultimately show ?thesis by (metis append_Nil append_take_drop_id filter_append)
qed

lemma evicted_spec:
  fixes files :: "cache_file list"
  assumes rm: "\<And>p. rm p \<noteq> RmFailed" and cap: "0 < sw_max_bytes cfg"
  defines "regular \<equiv> filter (\<lambda>f. \<not> cf_is_tmp f) files"
  obtains k where "evicted cfg rm files = take k (sort_key cf_mtime_secs regular)"
    and "total_bytes (drop k (sort_key cf_mtime_secs regular)) \<le> sw_max_bytes cfg"
    and "evicted cfg rm files \<noteq> [] \<longrightarrow> sw_max_bytes cfg < total_bytes regular - total_bytes (butlast (evicted cfg rm files))"
    and "total_bytes regular \<le> sw_max_bytes cfg \<longrightarrow> evicted cfg rm files = []"
proof (cases "sw_max_bytes cfg < total_bytes regular")
  case False
  then have "evicted cfg rm files = []" by (simp add: evicted_def regular_def Let_def)
  moreover have "total_bytes (sort_key cf_mtime_secs regular) = total_bytes regular" by (rule total_bytes_mset) simp
  ultimately show ?thesis using that [of 0] False by simp
next
  case True
  let ?s = "sort_key cf_mtime_secs regular"
  obtain out r' where loop: "evict_loop rm (sw_max_bytes cfg) (total_bytes regular) ?s = (out, r')" by fastforce
  have tot: "total_bytes ?s = total_bytes regular" by (rule total_bytes_mset) simp
  obtain k where k: "out = take k ?s" "r' = total_bytes regular - total_bytes (take k ?s)" "r' \<le> sw_max_bytes cfg \<or> k = length ?s"
    "out \<noteq> [] \<longrightarrow> sw_max_bytes cfg < total_bytes regular - total_bytes (butlast out)"
    using evict_loop_prefix [where rm = rm, OF rm loop eq_imp_le [OF tot]] by blast
  have ev: "evicted cfg rm files = out" using True cap loop by (simp add: evicted_def regular_def [symmetric] Let_def)
  have "total_bytes (drop k ?s) \<le> sw_max_bytes cfg"
    using k(2,3) total_bytes_split [of ?s k] tot by (auto simp: total_bytes_def)
  then show ?thesis using that [of k] k(1,4) ev True by auto
qed

text \<open>
  C13: The cache sweep keeps the cache within its budget. When every removal succeeds (or finds the file already gone), the regular files
  left after a sweep fit the configured size; it removes oldest files first and none too many (without the last one removed the
  cache would still be over); it removes none at all when the cache fits; and of the temporary files it
  removes exactly those past their age.
\<close>

theorem sweep_keeps_the_budget:
  fixes files :: "cache_file list"
  assumes rm: "\<And>p. rm p \<noteq> RmFailed" and cap: "0 < sw_max_bytes cfg" and unique: "distinct files"
    and swept: "sweep_once cfg now rm reap_ok (Some files) queue = (out, left_files, queue')"
  shows "total_bytes (filter (\<lambda>f. \<not> cf_is_tmp f) left_files) \<le> sw_max_bytes cfg
    \<and> (\<forall>f\<in>set files. \<forall>g\<in>set left_files. \<not> cf_is_tmp f \<and> \<not> cf_is_tmp g \<and> f \<notin> set left_files \<longrightarrow> cf_mtime_secs f \<le> cf_mtime_secs g)
    \<and> (total_bytes (filter (\<lambda>f. \<not> cf_is_tmp f) files) \<le> sw_max_bytes cfg \<longrightarrow>
         filter (\<lambda>f. \<not> cf_is_tmp f) left_files = filter (\<lambda>f. \<not> cf_is_tmp f) files)
    \<and> (evicted cfg rm files \<noteq> [] \<longrightarrow>
         sw_max_bytes cfg < total_bytes (filter (\<lambda>f. \<not> cf_is_tmp f) files) - total_bytes (butlast (evicted cfg rm files)))
    \<and> (\<forall>f\<in>set files. cf_is_tmp f \<longrightarrow>
         (f \<in> set left_files \<longleftrightarrow> i64_saturating_sub now (cf_mtime_secs f) < sw_tmp_max_age cfg))"
proof -
  let ?reg = "filter (\<lambda>f. \<not> cf_is_tmp f) files"
  let ?s = "sort_key cf_mtime_secs ?reg"
  let ?ev = "evicted cfg rm files"
  obtain k where k: "?ev = take k ?s" "total_bytes (drop k ?s) \<le> sw_max_bytes cfg"
    "?ev \<noteq> [] \<longrightarrow> sw_max_bytes cfg < total_bytes ?reg - total_bytes (butlast ?ev)"
    "total_bytes ?reg \<le> sw_max_bytes cfg \<longrightarrow> ?ev = []"
    by (rule evicted_spec [where rm = rm and files = files, OF rm cap])
  have left_files: "left_files = filter (\<lambda>f. f \<notin> set (stale_tmps cfg now files) \<and> f \<notin> set ?ev) files"
    using swept rm by (simp add: sweep_once_def Let_def)
  have reg_left: "filter (\<lambda>f. \<not> cf_is_tmp f) left_files = filter (\<lambda>f. f \<notin> set ?ev) ?reg"
    unfolding left_files filter_filter by (rule filter_cong) (auto simp: stale_tmps_def)
  have ds: "distinct ?s" using unique by simp
  have tail: "filter (\<lambda>f. f \<notin> set (take k ?s)) ?s = drop k ?s"
    by (rule filter_not_taken [OF ds])
  have "mset (filter (\<lambda>f. f \<notin> set ?ev) ?reg) = mset (drop k ?s)"
    unfolding tail [symmetric] k(1) by (simp add: filter_filter_mset conj_commute)
  then have "total_bytes (filter (\<lambda>f. \<not> cf_is_tmp f) left_files) \<le> sw_max_bytes cfg"
    unfolding reg_left using k(2) total_bytes_mset by metis
  moreover have "cf_mtime_secs f \<le> cf_mtime_secs g"
    if "f \<in> set files" "g \<in> set left_files" "\<not> cf_is_tmp f" "\<not> cf_is_tmp g" "f \<notin> set left_files" for f g
  proof -
    have "f \<in> set (take k ?s)" using that by (auto simp: left_files stale_tmps_def k(1))
    moreover have "g \<in> set (drop k ?s)"
      using that by (auto simp: left_files k(1) simp flip: tail)
    moreover have "sorted (map cf_mtime_secs (take k ?s @ drop k ?s))" by simp
    ultimately show ?thesis by (simp only: map_append sorted_append) auto
  qed
  moreover have "f \<in> set left_files \<longleftrightarrow> i64_saturating_sub now (cf_mtime_secs f) < sw_tmp_max_age cfg"
    if "f \<in> set files" "cf_is_tmp f" for f
    using that in_set_takeD [of f k ?s] by (auto simp: left_files stale_tmps_def k(1))
  ultimately show ?thesis using k(3,4) reg_left by auto
qed

text \<open>Two cached files of 6 and 5 bytes under a cap of 7, a stale and a fresh temporary file.\<close>

definition example_cache :: "cache_file list" where
  "example_cache =
     [\<lparr>cf_path = [1], cf_mtime_secs = 100, cf_size = 6, cf_is_tmp = False\<rparr>,
      \<lparr>cf_path = [2], cf_mtime_secs = 50, cf_size = 5, cf_is_tmp = False\<rparr>,
      \<lparr>cf_path = [3], cf_mtime_secs = 10, cf_size = 9, cf_is_tmp = True\<rparr>,
      \<lparr>cf_path = [4], cf_mtime_secs = 200, cf_size = 9, cf_is_tmp = True\<rparr>]"

definition example_sweep :: sweep_cfg where
  "example_sweep = \<lparr>sw_max_bytes = 7, sw_tmp_max_age = 60, sw_zombie_max_attempts = 3, sw_zombie_max_age = 1000\<rparr>"

lemma example_sweep_run:
  "sweep_once example_sweep 210 (\<lambda>_. Removed) True (Some example_cache) None =
     (\<lparr>so_evicted_files = 1, so_evicted_bytes = 5, so_tmp_cleaned = 1, so_zombies_reaped = 0\<rparr>,
      [example_cache ! 0, example_cache ! 3], None)"
  by (simp add: sweep_once_def stale_tmps_def evicted_def total_bytes_def example_cache_def example_sweep_def
      i64_saturating_sub_def)

theorem sweep_keeps_the_budget_witness:
  "total_bytes (filter (\<lambda>f. \<not> cf_is_tmp f) [example_cache ! 0, example_cache ! 3]) \<le> 7"
  using sweep_keeps_the_budget [OF _ _ _ example_sweep_run]
  by (simp add: example_sweep_def example_cache_def)

end
