(* ===== verification/Ocr_Worker.thy ===== *)
theory Ocr_Worker
  imports Config Cache_Sweep
begin

text \<open>
  The daemon's background workers put together (\<^verbatim>\<open>lixun-daemon/src/main.rs\<close>): the idle gates of the OCR
  worker (\<^verbatim>\<open>psi_gate.rs\<close> and the reindex flag), its configuration at start-up and the hot reload before every
  wake-up, and the configuration of the cache sweep. What the kernel's pressure file holds and the parser of
  decimal numbers are arguments.
\<close>

section \<open>Idle gates\<close>

record psi_gate =
  psi_threshold :: f32
  psi_enabled :: bool

definition psi_new :: "bool \<Rightarrow> f32 \<Rightarrow> psi_gate" where
  "psi_new linux threshold = \<lparr>psi_threshold = threshold, psi_enabled = linux\<rparr>"

text \<open>\<^verbatim>\<open>str::lines\<close>: split at line feeds, a trailing empty piece dropped, a carriage return before a line feed too.\<close>

definition newline :: rchar where
  "newline = 10"

fun split_lines :: "rstring \<Rightarrow> rstring \<Rightarrow> rstring list" where
  "split_lines acc [] = (if acc = [] then [] else [rev acc])"
| "split_lines acc (c # cs) =
     (if c = newline then rev (case acc of x # xs \<Rightarrow> if x = 13 then xs else acc | [] \<Rightarrow> []) # split_lines [] cs
      else split_lines (c # acc) cs)"

definition str_lines :: "rstring \<Rightarrow> rstring list" where
  "str_lines s = split_lines [] s"

fun first_some :: "('a \<Rightarrow> 'b option) \<Rightarrow> 'a list \<Rightarrow> 'b option" where
  "first_some f [] = None"
| "first_some f (x # xs) = (case f x of Some y \<Rightarrow> Some y | None \<Rightarrow> first_some f xs)"

definition avg10_field :: "rstring \<Rightarrow> rstring option" where
  "avg10_field line =
     (case strip_prefix line (lit ''some '') of
        Some rest \<Rightarrow> first_some (\<lambda>kv. strip_prefix kv (lit ''avg10='')) (split_whitespace rest)
      | None \<Rightarrow> None)"

definition read_some_avg10 :: "(rstring \<Rightarrow> f32 option) \<Rightarrow> file_state option \<Rightarrow> f32 option" where
  "read_some_avg10 parse_f32 psi =
     (case psi of
        Some (Readable s) \<Rightarrow> Option.bind (first_some avg10_field (str_lines s)) parse_f32
      | _ \<Rightarrow> None)"

definition psi_is_idle :: "(rstring \<Rightarrow> f32 option) \<Rightarrow> file_state option \<Rightarrow> psi_gate \<Rightarrow> bool \<times> psi_gate" where
  "psi_is_idle parse_f32 psi g =
     (if \<not> psi_enabled g then (True, g)
      else case read_some_avg10 parse_f32 psi of
             Some v \<Rightarrow> (v \<le> psi_threshold g, g)
           | None \<Rightarrow> (True, g\<lparr>psi_enabled := False\<rparr>))"

text \<open>The reindex flag behind its lock: \<open>None\<close> when the lock is taken.\<close>

definition stats_is_idle :: "bool option \<Rightarrow> bool" where
  "stats_is_idle reindexing = (case reindexing of Some r \<Rightarrow> \<not> r | None \<Rightarrow> False)"

datatype idle_gate = StatsGate | PsiGate psi_gate

record gate_env =
  ge_reindexing :: "bool option"
  ge_psi :: "file_state option"

definition gate_is_idle :: "(rstring \<Rightarrow> f32 option) \<Rightarrow> gate_env \<Rightarrow> idle_gate \<Rightarrow> bool \<times> idle_gate" where
  "gate_is_idle parse_f32 e g =
     (case g of
        StatsGate \<Rightarrow> (stats_is_idle (ge_reindexing e), StatsGate)
      | PsiGate p \<Rightarrow> (case psi_is_idle parse_f32 (ge_psi e) p of (b, p') \<Rightarrow> (b, PsiGate p')))"

fun composite_is_idle :: "(rstring \<Rightarrow> f32 option) \<Rightarrow> gate_env \<Rightarrow> idle_gate list \<Rightarrow> bool \<times> idle_gate list" where
  "composite_is_idle parse_f32 e [] = (True, [])"
| "composite_is_idle parse_f32 e (g # gs) =
     (case gate_is_idle parse_f32 e g of
        (False, g') \<Rightarrow> (False, g' # gs)
      | (True, g') \<Rightarrow> (case composite_is_idle parse_f32 e gs of (b, gs') \<Rightarrow> (b, g' # gs')))"

section \<open>Starting the worker\<close>

definition OCR_MAX_ATTEMPTS :: int where
  "OCR_MAX_ATTEMPTS = 3"

definition resolve_ocr_langs :: "rstring list \<Rightarrow> rstring list \<Rightarrow> rstring list" where
  "resolve_ocr_langs configured available =
     (if configured = [] then (if available = [] then [lit ''eng''] else available)
      else (let out = filter (\<lambda>l. l \<in> set available) configured
            in if out = [] then [lit ''eng''] else out))"

record worker_caps =
  wc_has_tesseract :: bool
  wc_tesseract_langs :: "rstring list"

definition throttle_of :: "bool \<Rightarrow> int \<Rightarrow> bool \<Rightarrow> (int \<times> bool) option" where
  "throttle_of adaptive nice io_idle = (if adaptive then Some (nice, io_idle) else None)"

definition worker_cfg :: "ocr_config \<Rightarrow> rstring list \<Rightarrow> ocr_cfg" where
  "worker_cfg c available = \<lparr>
     oc_interval = oc_cfg_worker_interval_secs c,
     oc_langs = resolve_ocr_langs (oc_cfg_languages c) available,
     oc_min_image_side_px = oc_cfg_min_image_side_px c,
     oc_max_pages_per_pdf = oc_cfg_max_pages_per_pdf c,
     oc_max_attempts = OCR_MAX_ATTEMPTS,
     oc_jobs_per_tick = oc_cfg_jobs_per_tick c,
     oc_throttle = throttle_of (oc_cfg_adaptive_throttle c) (oc_cfg_nice_level c) (oc_cfg_io_class_idle c),
     oc_content_filter_enabled = cf_filter_enabled (oc_cfg_content_filter c),
     oc_min_text_components = cf_min_text_components (oc_cfg_content_filter c)\<rparr>"

definition worker_gates :: "bool \<Rightarrow> ocr_config \<Rightarrow> idle_gate list" where
  "worker_gates linux c =
     (if oc_cfg_adaptive_throttle c then [StatsGate, PsiGate (psi_new linux (oc_cfg_max_cpu_pressure_avg10 c))]
      else [StatsGate])"

definition spawn_ocr_worker ::
  "bool \<Rightarrow> 'r config \<Rightarrow> worker_caps \<Rightarrow> bool \<Rightarrow> (ocr_cfg \<times> idle_gate list) option" where
  "spawn_ocr_worker linux config caps queue_open =
     (if \<not> wc_has_tesseract caps \<or> \<not> oc_cfg_enabled (cfg_ocr config) then None
      else if \<not> queue_open then None
      else Some (worker_cfg (cfg_ocr config) (wc_tesseract_langs caps), worker_gates linux (cfg_ocr config)))"

definition ocr_refresh :: "impact_profile \<Rightarrow> ocr_cfg_update" where
  "ocr_refresh p = \<lparr>
     cu_interval = ip_ocr_worker_interval p,
     cu_jobs_per_tick = ip_ocr_jobs_per_tick p,
     cu_throttle = throttle_of (ip_ocr_adaptive_throttle p) (ip_ocr_nice_level p) (ip_ocr_io_class_idle p)\<rparr>"

definition spawn_cache_sweep_worker :: "'r config \<Rightarrow> sweep_cfg option" where
  "spawn_cache_sweep_worker config =
     (let cfg = \<lparr>sw_max_bytes = (ec_cache_max_mb (cfg_extract config) * 1024 * 1024) mod 2 ^ 64, sw_tmp_max_age = 3600,
                 sw_zombie_max_attempts = OCR_MAX_ATTEMPTS, sw_zombie_max_age = 30 * 86400\<rparr>
      in if sw_max_bytes cfg = 0 then None else Some cfg)"

section \<open>What the gates guarantee\<close>

lemma composite_true:
  assumes "composite_is_idle parse e gs = (True, gs')" and "g \<in> set gs"
  shows "fst (gate_is_idle parse e g)"
  using assms
proof (induction gs arbitrary: gs')
  case (Cons x xs)
  then show ?case by (auto split: prod.splits bool.splits)
qed simp

lemma composite_length: "length (snd (composite_is_idle parse e gs)) = length gs"
  by (induction gs) (auto split: prod.splits bool.splits)

lemma composite_keeps_stats:
  "StatsGate \<in> set gs \<Longrightarrow> StatsGate \<in> set (snd (composite_is_idle parse e gs))"
  by (induction gs) (auto simp: gate_is_idle_def split: prod.splits bool.splits idle_gate.splits)

text \<open>The gates through a sequence of probes.\<close>

definition probe_all :: "(rstring \<Rightarrow> f32 option) \<Rightarrow> gate_env list \<Rightarrow> idle_gate list \<Rightarrow> idle_gate list" where
  "probe_all parse es gs = fold (\<lambda>e gs. snd (composite_is_idle parse e gs)) es gs"

lemma probe_all_keeps_stats: "StatsGate \<in> set gs \<Longrightarrow> StatsGate \<in> set (probe_all parse es gs)"
  by (induction es arbitrary: gs) (simp_all add: probe_all_def composite_keeps_stats)

lemma worker_gates_stats: "StatsGate \<in> set (worker_gates linux c)"
  by (simp add: worker_gates_def)

text \<open>
  C32: No OCR work while the index is being rebuilt. However the worker was started and whatever its gates have seen before, a
  tick that finds the reindex flag set, or its lock taken, leaves the queue as it is and sends nothing to the index.
\<close>

theorem no_ocr_while_reindexing:
  assumes "spawn_ocr_worker linux config caps opened = Some (cfg, gates)"
    and "te_idle e = fst (composite_is_idle parse ge (probe_all parse seen gates))"
    and "ge_reindexing ge \<noteq> Some False"
  shows "tick_once cfg' e q = (q, [], NoIdle)"
proof -
  have "StatsGate \<in> set (probe_all parse seen gates)"
    using assms(1) worker_gates_stats probe_all_keeps_stats
    by (fastforce simp: spawn_ocr_worker_def split: if_splits)
  moreover have "\<not> fst (gate_is_idle parse ge StatsGate)"
    using assms(3) by (auto simp: gate_is_idle_def stats_is_idle_def split: option.splits)
  ultimately have "\<not> te_idle e"
    using assms(2) composite_true [of parse ge] by (metis prod.collapse)
  then show ?thesis by (simp add: tick_once_def)
qed

text \<open>A pressure gate that once failed to read its file is open from then on.\<close>

lemma psi_fails_open:
  "read_some_avg10 parse psi = None \<Longrightarrow> fst (psi_is_idle parse psi g)
     \<and> psi_is_idle parse psi' (snd (psi_is_idle parse psi g)) = (True, snd (psi_is_idle parse psi g))"
  by (simp add: psi_is_idle_def)

section \<open>The configuration in force\<close>

text \<open>
  From its first wake-up on the OCR worker follows the live impact profile: interval, batch size and throttle are those of
  the profile in force at the wake-up, so a change of level takes effect without a restart, and the batch size is never zero;
  everything else stays as the worker was started.
\<close>

theorem ocr_worker_follows_profile:
  assumes "ocr_wake (Some (ocr_refresh (from_level level cpus))) env (cfg, q, ws) = ((cfg', st), sent)"
  shows "oc_interval cfg' = ip_ocr_worker_interval (from_level level cpus)
    \<and> oc_jobs_per_tick cfg' = ip_ocr_jobs_per_tick (from_level level cpus) \<and> 0 < oc_jobs_per_tick cfg'
    \<and> oc_throttle cfg' = (if level \<in> {Medium, Low} then Some (ip_ocr_nice_level (from_level level cpus), True) else None)
    \<and> cfg' = cfg\<lparr>oc_interval := oc_interval cfg', oc_jobs_per_tick := oc_jobs_per_tick cfg', oc_throttle := oc_throttle cfg'\<rparr>"
  using assms
  by (cases level) (auto simp: ocr_wake_def apply_update_def ocr_refresh_def throttle_of_def Let_def split: prod.splits)

text \<open>
  Explicit OCR settings do not survive the first wake-up: the configuration resolves \<^verbatim>\<open>[ocr].jobs_per_tick\<close>,
  \<^verbatim>\<open>worker_interval_secs\<close> and the throttle keys over the level's values and the worker starts with them, yet after one
  wake-up nothing of them is left.
\<close>

theorem explicit_ocr_settings_are_lost:
  assumes "tm_ocr p = Some t" and "ot_jobs_per_tick t = Some n" and "0 < n"
    and "spawn_ocr_worker linux (resolve_tables env mk_regex cpus p) caps opened = Some (cfg, gates)"
    and "ocr_wake (Some (ocr_refresh (resolved_profile cpus (resolve_tables env mk_regex cpus p)))) tenv (cfg, q, ws)
           = ((cfg', st), sent)"
  shows "oc_jobs_per_tick cfg = n
    \<and> oc_jobs_per_tick cfg' = ip_ocr_jobs_per_tick (resolved_profile cpus (resolve_tables env mk_regex cpus p))"
proof
  have "oc_cfg_jobs_per_tick (cfg_ocr (resolve_tables env mk_regex cpus p)) = n"
    using assms(1-3) by (simp add: resolved_ocr Let_def when_some_def apply_ocr_def validate_ocr_def)
  then show "oc_jobs_per_tick cfg = n" using assms(4) by (auto simp: spawn_ocr_worker_def worker_cfg_def split: if_splits)
  show "oc_jobs_per_tick cfg' = ip_ocr_jobs_per_tick (resolved_profile cpus (resolve_tables env mk_regex cpus p))"
    using assms(5) by (auto simp: ocr_wake_def apply_update_def ocr_refresh_def Let_def split: prod.splits)
qed

text \<open>
  The languages handed to the engine are never none, and with languages configured only ones that are installed are used, or English.
\<close>

lemma resolve_ocr_langs_sound:
  "resolve_ocr_langs configured available \<noteq> []"
  "set (resolve_ocr_langs configured available) \<subseteq> set available \<union> {lit ''eng''}"
  by (auto simp: resolve_ocr_langs_def Let_def)

definition example_toml :: config_toml where
  "example_toml = empty_toml\<lparr>tm_ocr := Some \<lparr>ot_enabled = Some True, ot_languages = None, ot_max_pages_per_pdf = None,
     ot_min_image_side_px = None, ot_timeout_secs = None, ot_worker_interval_secs = None, ot_jobs_per_tick = Some 7,
     ot_adaptive_throttle = Some True, ot_max_cpu_pressure_avg10 = None, ot_nice_level = None, ot_io_class_idle = None\<rparr>\<rparr>"

definition example_env :: xdg_env where
  "example_env = \<lparr>xdg_data = None, xdg_state = None, xdg_cache = None, xdg_config = None, env_home = None, env_semantic_dir = None\<rparr>"

definition example_caps :: worker_caps where
  "example_caps = \<lparr>wc_has_tesseract = True, wc_tesseract_langs = [lit ''deu'']\<rparr>"

definition example_config :: "unit config" where
  "example_config = resolve_tables example_env (\<lambda>_. None) 8 example_toml"

lemma example_config_ocr:
  "oc_cfg_enabled (cfg_ocr example_config)" "oc_cfg_adaptive_throttle (cfg_ocr example_config)"
  "ic_level (cfg_impact example_config) = High"
  by (simp_all add: example_config_def resolved_ocr resolved_impact example_toml_def empty_toml_def explicit_tables_def Let_def
      when_some_def apply_ocr_def validate_ocr_def config_default_def impact_default_def)

lemma example_spawn:
  "spawn_ocr_worker True example_config example_caps True =
     Some (worker_cfg (cfg_ocr example_config) [lit ''deu''],
           [StatsGate, PsiGate (psi_new True (oc_cfg_max_cpu_pressure_avg10 (cfg_ocr example_config)))])"
  by (simp add: spawn_ocr_worker_def example_caps_def example_config_ocr worker_gates_def)

theorem no_ocr_while_reindexing_witness:
  "tick_once example_ocr_cfg ((example_tick 100 (Inr None))\<lparr>te_idle := False\<rparr>) [] = ([], [], NoIdle)"
  by (rule no_ocr_while_reindexing
        [where ge = "\<lparr>ge_reindexing = None, ge_psi = None\<rparr>" and parse = "\<lambda>_. None" and seen = "[]", OF example_spawn])
    (simp_all add: probe_all_def gate_is_idle_def stats_is_idle_def)

lemma example_wake:
  "ocr_wake (Some (ocr_refresh (from_level Medium 8))) (\<lambda>_. example_tick 100 (Inr None)) (example_ocr_cfg, [], ws) =
     ((apply_update (Some (ocr_refresh (from_level Medium 8))) example_ocr_cfg, [], ws), [])"
proof -
  have "ocr_batch cfg (\<lambda>_. example_tick 100 (Inr None)) 0 n ([], ws) = (([], ws), [])" for cfg n
    by (cases n) (simp_all add: tick_once_def example_tick_def peek_next_def)
  then show ?thesis by (simp add: ocr_wake_def Let_def)
qed

theorem ocr_worker_follows_profile_witness:
  "oc_throttle (apply_update (Some (ocr_refresh (from_level Medium 8))) example_ocr_cfg) = Some (15, True)"
  using ocr_worker_follows_profile [OF example_wake] by simp

theorem explicit_ocr_settings_are_lost_witness:
  "oc_jobs_per_tick (worker_cfg (cfg_ocr example_config) [lit ''deu'']) = 7"
proof -
  let ?u = "Some (ocr_refresh (resolved_profile 8 example_config))"
  obtain cfg' st sent where
    wake: "ocr_wake ?u (\<lambda>_. example_tick 100 (Inr None)) (worker_cfg (cfg_ocr example_config) [lit ''deu''], [], undefined) = ((cfg', st), sent)"
    by (metis prod.exhaust)
  show ?thesis
    using explicit_ocr_settings_are_lost [of example_toml, OF _ _ _ example_spawn [unfolded example_config_def] wake [unfolded example_config_def]]
    by (simp add: example_toml_def example_config_def)
qed

end
