(* ===== verification/Wire.thy ===== *)
theory Wire
  imports Prelude "HOL-Library.Word"
begin

text \<open>
  Frames on the unix sockets: the streaming codecs (\<^verbatim>\<open>lixun-ipc/src/lib.rs\<close>, \<^verbatim>\<open>preview.rs\<close>,
  \<^verbatim>\<open>lixun-semantic-proto\<close>), the blocking helpers of the GUI and preview processes (\<^verbatim>\<open>gui.rs\<close>,
  \<^verbatim>\<open>preview.rs\<close>), the version-dependent payload codecs and the framing of the daemon and of its clients
  (\<^verbatim>\<open>lixun-daemon/src/main.rs\<close>, \<^verbatim>\<open>lixun-cli/src/main.rs\<close>, \<^verbatim>\<open>lixun-gui/src/ipc.rs\<close>).
  The serialisers (\<^verbatim>\<open>serde_json\<close>, \<^verbatim>\<open>postcard\<close>) are arguments; what is relied on is that they read back
  what they wrote (\<open>serde_ok\<close>).
\<close>

section \<open>Bytes\<close>

type_synonym bytes = "8 word list"

definition be32 :: "nat \<Rightarrow> bytes" where
  "be32 n = [of_nat (n div 2 ^ 24), of_nat (n div 2 ^ 16), of_nat (n div 2 ^ 8), of_nat n]"

definition be16 :: "nat \<Rightarrow> bytes" where
  "be16 n = [of_nat (n div 2 ^ 8), of_nat n]"

definition get_be :: "bytes \<Rightarrow> nat" where
  "get_be bs = foldl (\<lambda>acc b. acc * 256 + unat b) 0 bs"

definition MAX_FRAME_LEN :: nat where
  "MAX_FRAME_LEN = 64 * 1024 * 1024"

lemma be_length [simp]: "length (be32 n) = 4" "length (be16 n) = 2"
  by (simp_all add: be32_def be16_def)

lemma unat_byte: "unat (of_nat k :: 8 word) = k mod 256"
  by (simp add: unat_of_nat)

lemma get_be16 [simp]: "get_be (be16 n) = n mod 2 ^ 16"
  using mod_mult2_eq [of n 256 256] by (simp add: get_be_def be16_def unat_byte ac_simps)

lemma get_be32 [simp]: "get_be (be32 n) = n mod 2 ^ 32"
proof -
  have "n mod (256 * (256 * (256 * 256))) =
      256 * (256 * (256 * (n div 256 div 256 div 256 mod 256) + n div 256 div 256 mod 256) + n div 256 mod 256) + n mod 256"
    by (simp only: mod_mult2_eq)
  then show ?thesis by (simp add: get_be_def be32_def unat_byte div_mult2_eq [symmetric] ac_simps)
qed

section \<open>The streaming codec\<close>

datatype decode_state = Header | Version nat | Payload nat

datatype 'a decoded = NeedMore | Decoded 'a | Broken rstring

record codec_params =
  cp_min_version :: nat
  cp_version :: nat
  cp_max_len :: "nat option"
  cp_check_u32 :: bool

definition ipc_codec :: codec_params where
  "ipc_codec = \<lparr>cp_min_version = 4, cp_version = 5, cp_max_len = Some MAX_FRAME_LEN, cp_check_u32 = False\<rparr>"

definition preview_codec :: codec_params where
  "preview_codec = \<lparr>cp_min_version = 1, cp_version = 1, cp_max_len = Some MAX_FRAME_LEN, cp_check_u32 = True\<rparr>"

definition semantic_codec :: codec_params where
  "semantic_codec = \<lparr>cp_min_version = 2, cp_version = 2, cp_max_len = None, cp_check_u32 = True\<rparr>"

definition codec_encode :: "codec_params \<Rightarrow> ('a \<Rightarrow> bytes option) \<Rightarrow> 'a \<Rightarrow> bytes option" where
  "codec_encode p to_vec item =
     (case to_vec item of
        None \<Rightarrow> None
      | Some json \<Rightarrow>
          (let total_len = 2 + length json
           in if cp_check_u32 p \<and> 2 ^ 32 - 1 < total_len then None
              else Some (be32 total_len @ be16 (cp_version p) @ json)))"

definition decode_payload ::
  "(bytes \<Rightarrow> 'a option) \<Rightarrow> nat \<Rightarrow> bytes \<Rightarrow> 'a decoded \<times> decode_state \<times> bytes" where
  "decode_payload from_slice len src =
     (if length src < len then (NeedMore, Payload len, src)
      else case from_slice (take len src) of
             Some item \<Rightarrow> (Decoded item, Header, drop len src)
           | None \<Rightarrow> (Broken (lit ''invalid payload''), Payload len, drop len src))"

definition decode_version ::
  "codec_params \<Rightarrow> (bytes \<Rightarrow> 'a option) \<Rightarrow> nat \<Rightarrow> bytes \<Rightarrow> 'a decoded \<times> decode_state \<times> bytes" where
  "decode_version p from_slice len src =
     (if length src < 2 then (NeedMore, Version len, src)
      else if get_be (take 2 src) < cp_min_version p \<or> cp_version p < get_be (take 2 src)
      then (Broken (lit ''version outside supported''), Version len, drop 2 src)
      else decode_payload from_slice (len - 2) (drop 2 src))"

definition decode_header ::
  "codec_params \<Rightarrow> (bytes \<Rightarrow> 'a option) \<Rightarrow> bytes \<Rightarrow> 'a decoded \<times> decode_state \<times> bytes" where
  "decode_header p from_slice src =
     (if length src < 4 then (NeedMore, Header, src)
      else (let len = get_be (take 4 src)
            in if len < 2 then (Broken (lit ''frame too short for version''), Header, drop 4 src)
               else if (\<exists>m\<in>set_option (cp_max_len p). m < len)
               then (Broken (lit ''frame length exceeds maximum''), Header, drop 4 src)
               else decode_version p from_slice len (drop 4 src)))"

definition codec_decode ::
  "codec_params \<Rightarrow> (bytes \<Rightarrow> 'a option) \<Rightarrow> decode_state \<times> bytes \<Rightarrow> 'a decoded \<times> decode_state \<times> bytes" where
  "codec_decode p from_slice s =
     (case s of
        (Header, src) \<Rightarrow> decode_header p from_slice src
      | (Version len, src) \<Rightarrow> decode_version p from_slice len src
      | (Payload len, src) \<Rightarrow> decode_payload from_slice len src)"

lemmas codec_decode_defs = codec_decode_def decode_header_def decode_version_def decode_payload_def Let_def

text \<open>How the transport drives a decoder: the bytes of a read are appended and the decoder is asked until it needs more.\<close>

definition state_rank :: "decode_state \<Rightarrow> nat" where
  "state_rank st = (case st of Header \<Rightarrow> 0 | _ \<Rightarrow> 1)"

lemma decoded_progress:
  assumes "codec_decode p fs (st, src) = (Decoded m, st', rest)"
  shows "st' = Header \<and> 2 * length rest + state_rank st' < 2 * length src + state_rank st"
  using assms
  by (auto simp: codec_decode_defs state_rank_def split: decode_state.splits if_splits option.splits)

function drain ::
  "codec_params \<Rightarrow> (bytes \<Rightarrow> 'a option) \<Rightarrow> decode_state \<times> bytes \<Rightarrow> 'a list \<times> rstring option \<times> decode_state \<times> bytes" where
  "drain p fs s =
     (case codec_decode p fs s of
        (Decoded m, s') \<Rightarrow> (case drain p fs s' of (ms, e, t) \<Rightarrow> (m # ms, e, t))
      | (NeedMore, s') \<Rightarrow> ([], None, s')
      | (Broken e, s') \<Rightarrow> ([], Some e, s'))"
  by pat_completeness auto
termination
  by (relation "measure (\<lambda>(p, fs, st, src). 2 * length src + state_rank st)") (auto dest: decoded_progress [OF sym])

declare drain.simps [simp del]

fun feed ::
  "codec_params \<Rightarrow> (bytes \<Rightarrow> 'a option) \<Rightarrow> decode_state \<times> bytes \<Rightarrow> bytes list \<Rightarrow> 'a list \<times> rstring option \<times> decode_state \<times> bytes" where
  "feed p fs s [] = ([], None, s)"
| "feed p fs (st, src) (chunk # chunks) =
     (case drain p fs (st, src @ chunk) of
        (ms, None, t) \<Rightarrow> (case feed p fs t chunks of (ms', e, t') \<Rightarrow> (ms @ ms', e, t'))
      | (ms, Some e, t) \<Rightarrow> (ms, Some e, t))"

section \<open>More bytes never change what was decoded\<close>

definition more_bytes :: "bytes \<Rightarrow> 'a decoded \<times> decode_state \<times> bytes \<Rightarrow> 'a decoded \<times> decode_state \<times> bytes" where
  "more_bytes later r = (case r of (d, st, rest) \<Rightarrow> (d, st, rest @ later))"

lemma payload_append:
  "len \<le> length src \<Longrightarrow> decode_payload fs len (src @ later) = more_bytes later (decode_payload fs len src)"
  by (simp add: decode_payload_def more_bytes_def split: option.split)

lemma payload_needmore:
  "fst (decode_payload fs len src) = NeedMore \<longleftrightarrow> length src < len"
  "length src < len \<Longrightarrow> snd (decode_payload fs len src) = (Payload len, src)"
  by (simp_all add: decode_payload_def split: option.split)

text \<open>The two laws of a decoder: an answer stands whatever follows, and a request for more resumes where it stopped.\<close>

definition resumes :: "codec_params \<Rightarrow> (bytes \<Rightarrow> 'a option) \<Rightarrow> (bytes \<Rightarrow> 'a decoded \<times> decode_state \<times> bytes) \<Rightarrow> bytes \<Rightarrow> bool" where
  "resumes p fs dec src = (\<forall>later.
     (fst (dec src) \<noteq> NeedMore \<longrightarrow> dec (src @ later) = more_bytes later (dec src))
     \<and> (fst (dec src) = NeedMore \<longrightarrow>
         dec (src @ later) = codec_decode p fs (fst (snd (dec src)), snd (snd (dec src)) @ later)))"

lemma resumes_payload: "resumes p fs (decode_payload fs len) src"
  using payload_append [of len src fs]
  by (auto simp: resumes_def payload_needmore codec_decode_def not_less)

lemma resumes_version: "resumes p fs (decode_version p fs len) src"
proof (cases "length src < 2")
  case True
  then show ?thesis by (simp add: resumes_def decode_version_def codec_decode_def)
next
  case False
  then have take2: "take 2 (src @ later) = take 2 src" "drop 2 (src @ later) = drop 2 src @ later" for later by simp_all
  show ?thesis
    using False resumes_payload [of p fs "len - 2" "drop 2 src"]
    unfolding resumes_def decode_version_def by (simp add: take2 more_bytes_def)
qed

lemma resumes_header: "resumes p fs (decode_header p fs) src"
proof (cases "length src < 4")
  case True
  then show ?thesis by (simp add: resumes_def decode_header_def codec_decode_def)
next
  case False
  then have take4: "take 4 (src @ later) = take 4 src" "drop 4 (src @ later) = drop 4 src @ later" for later by simp_all
  show ?thesis
    using False resumes_version [of p fs _ "drop 4 src"]
    unfolding resumes_def decode_header_def Let_def by (simp add: take4 more_bytes_def)
qed

lemma resumes_codec: "resumes p fs (\<lambda>src. codec_decode p fs (st, src)) src"
  using resumes_header [of p fs src] resumes_version [of p fs _ src] resumes_payload [of p fs _ src]
  by (cases st) (simp_all add: codec_decode_def)

lemma decoded_append:
  assumes "codec_decode p fs (st, src) = (d, st', rest)" and "d \<noteq> NeedMore"
  shows "codec_decode p fs (st, src @ later) = (d, st', rest @ later)"
  using resumes_codec [of p fs st src] assms by (simp add: resumes_def more_bytes_def)

lemma needmore_append:
  assumes "codec_decode p fs (st, src) = (NeedMore, st', rest)"
  shows "codec_decode p fs (st, src @ later) = codec_decode p fs (st', rest @ later)"
  using resumes_codec [of p fs st src] assms by (simp add: resumes_def)

section \<open>Chunks do not matter\<close>

lemma drain_append:
  assumes "drain p fs (st, src) = (ms, None, st', rest)"
  shows "drain p fs (st, src @ later) = (case drain p fs (st', rest @ later) of (ms', e, t) \<Rightarrow> (ms @ ms', e, t))"
  using assms
proof (induction p fs "(st, src)" arbitrary: st src ms rule: drain.induct)
  case (1 p fs st src)
  obtain d st1 src1 where dec: "codec_decode p fs (st, src) = (d, st1, src1)" by (metis prod.exhaust)
  show ?case
  proof (cases d)
    case NeedMore
    then have "st' = st1" "rest = src1" "ms = []" using 1(2) dec by (simp_all add: drain.simps [of p fs "(st, src)"])
    then show ?thesis using needmore_append [of p fs st src] dec NeedMore
      by (simp add: drain.simps [of p fs "(st, src @ later)"] drain.simps [of p fs "(st1, src1 @ later)"] split: prod.split decoded.split)
  next
    case (Decoded m)
    then obtain ms1 where ms1: "drain p fs (st1, src1) = (ms1, None, st', rest)" "ms = m # ms1"
      using 1(2) dec by (auto simp: drain.simps [of p fs "(st, src)"] split: prod.splits)
    have "drain p fs (st1, src1 @ later) = (case drain p fs (st', rest @ later) of (ms', e, t) \<Rightarrow> (ms1 @ ms', e, t))"
      using 1(1) [OF dec [symmetric] Decoded ms1(1)] .
    then show ?thesis using decoded_append [OF dec] Decoded ms1(2)
      by (simp add: drain.simps [of p fs "(st, src @ later)"] split: prod.split)
  next
    case (Broken e)
    then show ?thesis using 1(2) dec by (simp add: drain.simps [of p fs "(st, src)"])
  qed
qed

lemma drain_append_broken:
  assumes "drain p fs (st, src) = (ms, Some e, t)"
  shows "\<exists>t'. drain p fs (st, src @ later) = (ms, Some e, t')"
  using assms
proof (induction p fs "(st, src)" arbitrary: st src ms rule: drain.induct)
  case (1 p fs st src)
  obtain d st1 src1 where dec: "codec_decode p fs (st, src) = (d, st1, src1)" by (metis prod.exhaust)
  show ?case
  proof (cases d)
    case NeedMore
    then show ?thesis using 1(2) dec by (simp add: drain.simps [of p fs "(st, src)"])
  next
    case (Decoded m)
    then obtain ms1 where ms1: "drain p fs (st1, src1) = (ms1, Some e, t)" "ms = m # ms1"
      using 1(2) dec by (auto simp: drain.simps [of p fs "(st, src)"] split: prod.splits)
    have "\<exists>t'. drain p fs (st1, src1 @ later) = (ms1, Some e, t')"
      using 1(1) [OF dec [symmetric] Decoded ms1(1)] .
    then show ?thesis using decoded_append [OF dec] Decoded ms1(2)
      by (auto simp: drain.simps [of p fs "(st, src @ later)"])
  next
    case (Broken e')
    then show ?thesis using 1(2) dec decoded_append [OF dec]
      by (auto simp: drain.simps [of p fs "(st, src)"] drain.simps [of p fs "(st, src @ later)"])
  qed
qed

lemma drain_ends_needmore:
  assumes "drain p fs s = (ms, None, t)"
  shows "drain p fs t = ([], None, t)"
  using assms
proof (induction p fs s arbitrary: ms rule: drain.induct)
  case (1 p fs s)
  obtain st src where s: "s = (st, src)" by (cases s)
  obtain d st1 src1 where dec: "codec_decode p fs (st, src) = (d, st1, src1)" by (metis prod.exhaust)
  show ?case
  proof (cases d)
    case NeedMore
    then have t: "t = (st1, src1)" using 1(2) dec s by (simp add: drain.simps [of p fs "(st, src)"])
    have "codec_decode p fs (st1, src1) = (NeedMore, st1, src1)"
      using needmore_append [of p fs st src st1 src1 "[]"] dec NeedMore by simp
    then show ?thesis by (simp add: t drain.simps [of p fs "(st1, src1)"])
  next
    case (Decoded m)
    then show ?thesis using 1(1) [OF dec [unfolded s [symmetric], symmetric] Decoded] 1(2) dec s
      by (auto simp: drain.simps [of p fs "(st, src)"] split: prod.splits)
  next
    case (Broken e)
    then show ?thesis using 1(2) dec s by (simp add: drain.simps [of p fs "(st, src)"])
  qed
qed

lemma feed_is_drain:
  assumes "drain p fs (st, src) = ([], None, (st, src))"
  shows "let whole = drain p fs (st, src @ concat chunks); parts = feed p fs (st, src) chunks
    in fst parts = fst whole \<and> fst (snd parts) = fst (snd whole) \<and> (fst (snd whole) = None \<longrightarrow> parts = whole)"
  using assms
proof (induction chunks arbitrary: st src)
  case Nil
  then show ?case by (simp add: Let_def)
next
  case (Cons chunk chunks)
  obtain ms e t where d: "drain p fs (st, src @ chunk) = (ms, e, t)" by (metis prod.exhaust)
  show ?case
  proof (cases e)
    case None
    obtain st1 src1 where t: "t = (st1, src1)" by (cases t)
    have "drain p fs (st, (src @ chunk) @ concat chunks) =
        (case drain p fs (st1, src1 @ concat chunks) of (ms', e, t) \<Rightarrow> (ms @ ms', e, t))"
      by (rule drain_append) (use d None t in simp)
    then show ?thesis using Cons.IH [of st1 src1] drain_ends_needmore [of p fs "(st, src @ chunk)"] d None t
      by (auto simp: Let_def split: prod.splits)
  next
    case (Some err)
    then show ?thesis using drain_append_broken [of p fs st "src @ chunk" ms err t "concat chunks"] d
      by (auto simp: Let_def)
  qed
qed

section \<open>Round trips\<close>

definition fits :: "codec_params \<Rightarrow> bytes \<Rightarrow> bool" where
  "fits p json = (2 + length json < 2 ^ 32 \<and> (\<forall>m\<in>set_option (cp_max_len p). 2 + length json \<le> m))"

definition versions_ok :: "codec_params \<Rightarrow> bool" where
  "versions_ok p = (cp_min_version p \<le> cp_version p \<and> cp_version p < 2 ^ 16)"

lemma decode_frame:
  assumes "fits p json" and "versions_ok p"
  shows "decode_header p fs (be32 (2 + length json) @ be16 (cp_version p) @ json @ rest) =
    (case fs json of Some m \<Rightarrow> (Decoded m, Header, rest) | None \<Rightarrow> (Broken (lit ''invalid payload''), Payload (length json), rest))"
  using assms
  by (auto simp: decode_header_def decode_version_def decode_payload_def fits_def versions_ok_def Let_def split: option.split)

lemma drain_frames:
  assumes "versions_ok p"
    and "\<forall>m\<in>set ms. \<exists>json. to_vec m = Some json \<and> fs json = Some m \<and> fits p json"
  shows "drain p fs (Header, concat (map (\<lambda>m. the (codec_encode p to_vec m)) ms)) = (ms, None, Header, [])"
  using assms(2)
proof (induction ms)
  case Nil
  then show ?case by (simp add: drain.simps codec_decode_def decode_header_def)
next
  case (Cons m ms)
  then obtain json where json: "to_vec m = Some json" "fs json = Some m" "fits p json" by auto
  then have "the (codec_encode p to_vec m) = be32 (2 + length json) @ be16 (cp_version p) @ json"
    by (auto simp: codec_encode_def fits_def Let_def)
  then have "codec_decode p fs (Header, concat (map (\<lambda>m. the (codec_encode p to_vec m)) (m # ms))) =
      (Decoded m, Header, concat (map (\<lambda>m. the (codec_encode p to_vec m)) ms))"
    by (simp only: list.map concat.simps append_assoc codec_decode_def prod.case decode_state.case
        decode_frame [OF json(3) assms(1)] json(2) option.case)
  then show ?case using Cons by (simp add: drain.simps [of p fs "(Header, _ @ _)"])
qed

text \<open>
  C15: Messages survive the socket, however the bytes arrive. For each of the three channels (daemon, preview process, semantic
  worker): when the serialiser reads back what it wrote and no message exceeds the frame limit, the frames of any sequence of
  messages, cut into chunks at arbitrary places, are decoded into exactly that sequence, without error and with nothing
  left over.
\<close>

theorem frames_survive_chunking:
  assumes "p \<in> {ipc_codec, preview_codec, semantic_codec}"
    and "\<forall>m\<in>set ms. \<exists>json. to_vec m = Some json \<and> from_slice json = Some m \<and> fits p json"
    and "concat chunks = concat (map (\<lambda>m. the (codec_encode p to_vec m)) ms)"
  shows "feed p from_slice (Header, []) chunks = (ms, None, Header, [])"
proof -
  have "versions_ok p" using assms(1) by (auto simp: versions_ok_def ipc_codec_def preview_codec_def semantic_codec_def)
  then have "drain p from_slice (Header, concat chunks) = (ms, None, Header, [])"
    using drain_frames [OF _ assms(2)] assms(3) by simp
  moreover have "drain p from_slice (Header, []) = ([], None, Header, [])"
    by (simp add: drain.simps codec_decode_def decode_header_def)
  ultimately show ?thesis using feed_is_drain [of p from_slice Header "[]" chunks] by (simp add: Let_def)
qed

section \<open>Requests and responses\<close>

record 'm serde =
  sd_json_to :: "'m \<Rightarrow> bytes option"
  sd_json_from :: "bytes \<Rightarrow> 'm option"
  sd_post_to :: "'m \<Rightarrow> bytes option"
  sd_post_from :: "bytes \<Rightarrow> 'm option"


definition PROTOCOL_VERSION_LEGACY :: nat where
  "PROTOCOL_VERSION_LEGACY = 4"

definition PROTOCOL_VERSION_BINARY :: nat where
  "PROTOCOL_VERSION_BINARY = 5"

datatype wire_error = Eof | TooShort | TooLong nat | UnsupportedVersion nat | BadPayload

definition encode_for_version :: "'m serde \<Rightarrow> nat \<Rightarrow> 'm \<Rightarrow> wire_error + bytes" where
  "encode_for_version sd version m =
     (if version = PROTOCOL_VERSION_LEGACY
      then (case sd_json_to sd m of Some bs \<Rightarrow> Inr bs | None \<Rightarrow> Inl BadPayload)
      else if version = PROTOCOL_VERSION_BINARY
      then (case sd_post_to sd m of Some bs \<Rightarrow> Inr bs | None \<Rightarrow> Inl BadPayload)
      else Inl (UnsupportedVersion version))"

definition decode_for_version :: "'m serde \<Rightarrow> nat \<Rightarrow> bytes \<Rightarrow> wire_error + 'm" where
  "decode_for_version sd version bs =
     (if version = PROTOCOL_VERSION_LEGACY
      then (case sd_json_from sd bs of Some m \<Rightarrow> Inr m | None \<Rightarrow> Inl BadPayload)
      else if version = PROTOCOL_VERSION_BINARY
      then (case sd_post_from sd bs of Some m \<Rightarrow> Inr m | None \<Rightarrow> Inl BadPayload)
      else Inl (UnsupportedVersion version))"

definition encode_message :: "bool \<Rightarrow> 'm serde \<Rightarrow> 'm \<Rightarrow> wire_error + nat \<times> bytes" where
  "encode_message legacy_json sd m =
     (let v = if legacy_json then PROTOCOL_VERSION_LEGACY else PROTOCOL_VERSION_BINARY
      in case encode_for_version sd v m of Inr bs \<Rightarrow> Inr (v, bs) | Inl e \<Rightarrow> Inl e)"

definition frame :: "nat \<Rightarrow> bytes \<Rightarrow> bytes" where
  "frame version payload = be32 (2 + length payload) @ be16 version @ payload"


definition read_exact :: "nat \<Rightarrow> bytes \<Rightarrow> (bytes \<times> bytes) option" where
  "read_exact n stream = (if length stream < n then None else Some (take n stream, drop n stream))"

text \<open>
  The daemon's reader. \<open>Inr None\<close> is the clean end of a connection: no further byte, or too few for a length; any other shortage of bytes
  is an error.
\<close>

definition read_request :: "'m serde \<Rightarrow> bytes \<Rightarrow> wire_error + (nat \<times> 'm \<times> bytes) option" where
  "read_request sd stream =
     (case read_exact 4 stream of
        None \<Rightarrow> Inr None
      | Some (hdr, s1) \<Rightarrow>
          (let frame_len = get_be hdr
           in if frame_len < 2 then Inl TooShort
              else if MAX_FRAME_LEN < frame_len then Inl (TooLong frame_len)
              else case read_exact 2 s1 of
                     None \<Rightarrow> Inl Eof
                   | Some (ver_buf, s2) \<Rightarrow>
                       (let version = get_be ver_buf
                        in if version < PROTOCOL_VERSION_LEGACY \<or> PROTOCOL_VERSION_BINARY < version
                           then Inl (UnsupportedVersion version)
                           else case read_exact (frame_len - 2) s2 of
                                  None \<Rightarrow> Inl Eof
                                | Some (buf, s3) \<Rightarrow>
                                    (case decode_for_version sd version buf of
                                       Inl e \<Rightarrow> Inl e
                                     | Inr m \<Rightarrow> Inr (Some (version, m, s3))))))"


definition client_frame :: "bool \<Rightarrow> 'm serde \<Rightarrow> 'm \<Rightarrow> bytes option" where
  "client_frame legacy_json sd m =
     (case encode_message legacy_json sd m of Inr (v, payload) \<Rightarrow> Some (frame v payload) | Inl _ \<Rightarrow> None)"

text \<open>The blocking helpers of the GUI and preview channels, always JSON: the accepted versions are arguments.\<close>

definition write_frame_sync :: "nat \<Rightarrow> ('m \<Rightarrow> bytes option) \<Rightarrow> 'm \<Rightarrow> bytes option" where
  "write_frame_sync version to_vec m =
     (case to_vec m of
        None \<Rightarrow> None
      | Some json \<Rightarrow> if 2 ^ 32 - 1 < 2 + length json then None else Some (frame version json))"

definition read_frame_sync :: "nat \<Rightarrow> nat \<Rightarrow> (bytes \<Rightarrow> 'm option) \<Rightarrow> bytes \<Rightarrow> wire_error + 'm \<times> bytes" where
  "read_frame_sync min_version version from_slice stream =
     (case read_exact 4 stream of
        None \<Rightarrow> Inl Eof
      | Some (hdr, s1) \<Rightarrow>
          (let total_len = get_be hdr
           in if total_len < 2 then Inl TooShort
              else if MAX_FRAME_LEN < total_len then Inl (TooLong total_len)
              else case read_exact 2 s1 of
                     None \<Rightarrow> Inl Eof
                   | Some (ver_buf, s2) \<Rightarrow>
                       (if get_be ver_buf < min_version \<or> version < get_be ver_buf then Inl (UnsupportedVersion (get_be ver_buf))
                        else case read_exact (total_len - 2) s2 of
                               None \<Rightarrow> Inl Eof
                             | Some (buf, s3) \<Rightarrow> (case from_slice buf of Some m \<Rightarrow> Inr (m, s3) | None \<Rightarrow> Inl BadPayload))))"

definition gui_write_frame :: "('m \<Rightarrow> bytes option) \<Rightarrow> 'm \<Rightarrow> bytes option" where
  "gui_write_frame = write_frame_sync PROTOCOL_VERSION_BINARY"

definition gui_read_frame :: "(bytes \<Rightarrow> 'm option) \<Rightarrow> bytes \<Rightarrow> wire_error + 'm \<times> bytes" where
  "gui_read_frame = read_frame_sync PROTOCOL_VERSION_BINARY PROTOCOL_VERSION_BINARY"

definition preview_write_frame :: "('m \<Rightarrow> bytes option) \<Rightarrow> 'm \<Rightarrow> bytes option" where
  "preview_write_frame = write_frame_sync 1"

definition preview_read_frame :: "(bytes \<Rightarrow> 'm option) \<Rightarrow> bytes \<Rightarrow> wire_error + 'm \<times> bytes" where
  "preview_read_frame = read_frame_sync 1 1"

section \<open>The daemon's end of a connection\<close>

text \<open>
  One poll of the pending read: the bytes it has taken so far and those that have arrived since are one list; when it stays pending it
  has taken them all.
\<close>

datatype 'm progress = Pending | Ready nat 'm bytes | ReadFailed wire_error

definition try_frame :: "(nat \<Rightarrow> bool) \<Rightarrow> 'm serde \<Rightarrow> bytes \<Rightarrow> 'm progress" where
  "try_frame unsupported sd bs =
     (if length bs < 4 then Pending
      else (let frame_len = get_be (take 4 bs)
            in if frame_len < 2 then ReadFailed TooShort
               else if MAX_FRAME_LEN < frame_len then ReadFailed (TooLong frame_len)
               else if length bs < 6 then Pending
               else (let version = get_be (take 2 (drop 4 bs))
                     in if unsupported version then ReadFailed (UnsupportedVersion version)
                        else if length bs < 4 + frame_len then Pending
                        else case decode_for_version sd version (take (frame_len - 2) (drop 6 bs)) of
                               Inl e \<Rightarrow> ReadFailed e
                             | Inr m \<Rightarrow> Ready version m (drop (4 + frame_len) bs))))"

definition try_request :: "'m serde \<Rightarrow> bytes \<Rightarrow> 'm progress" where
  "try_request = try_frame (\<lambda>version. version < PROTOCOL_VERSION_LEGACY \<or> PROTOCOL_VERSION_BINARY < version)"

definition try_response :: "'m serde \<Rightarrow> bytes \<Rightarrow> 'm progress" where
  "try_response = try_frame (\<lambda>_. False)"

record server_conn =
  sc_version :: "nat option"
  sc_got :: bytes
  sc_open :: bool

definition conn_close :: "server_conn \<Rightarrow> server_conn" where
  "conn_close c = c\<lparr>sc_open := False, sc_got := []\<rparr>"

lemma ready_shrinks: "try_request sd bs = Ready v m rest \<Longrightarrow> length rest < length bs"
  by (auto simp: try_request_def try_frame_def Let_def split: if_splits sum.splits)

text \<open>Requests are taken until a read stays pending; the first one fixes the version, another version ends the connection.\<close>

function pump :: "'m serde \<Rightarrow> server_conn \<Rightarrow> 'm list \<times> server_conn" where
  "pump sd c =
     (case try_request sd (sc_got c) of
        Pending \<Rightarrow> ([], c)
      | ReadFailed _ \<Rightarrow> ([], conn_close c)
      | Ready v m rest \<Rightarrow>
          (if sc_version c \<in> {None, Some v}
           then (case pump sd (c\<lparr>sc_version := Some v, sc_got := rest\<rparr>) of (ms, c') \<Rightarrow> (m # ms, c'))
           else ([], conn_close c)))"
  by pat_completeness auto
termination
  by (relation "measure (\<lambda>(sd, c). length (sc_got c))") (auto dest: ready_shrinks)

declare pump.simps [simp del]

datatype socket_event = Arrive bytes | SearchFinished

definition socket_event_step :: "'m serde \<Rightarrow> socket_event \<Rightarrow> server_conn \<Rightarrow> 'm list \<times> server_conn" where
  "socket_event_step sd ev c =
     (if \<not> sc_open c then ([], c)
      else case ev of
             Arrive chunk \<Rightarrow> pump sd (c\<lparr>sc_got := sc_got c @ chunk\<rparr>)
           | SearchFinished \<Rightarrow> (if sc_version c = None then ([], c) else ([], c\<lparr>sc_got := []\<rparr>)))"

fun conn_run :: "'m serde \<Rightarrow> socket_event list \<Rightarrow> server_conn \<Rightarrow> 'm list \<times> server_conn" where
  "conn_run sd [] c = ([], c)"
| "conn_run sd (ev # evs) c =
     (case socket_event_step sd ev c of (ms, c') \<Rightarrow> (case conn_run sd evs c' of (ms', c'') \<Rightarrow> (ms @ ms', c'')))"







section \<open>Conversations\<close>







lemma frame_parts:
  assumes "2 + length payload \<le> MAX_FRAME_LEN" and "v \<in> {4, 5}"
  shows "take 4 (frame v payload @ rest) = be32 (2 + length payload)"
    and "get_be (be32 (2 + length payload)) = 2 + length payload"
    and "drop 4 (frame v payload @ rest) = be16 v @ payload @ rest"
    and "get_be (be16 v) = v"
    and "length (frame v payload) = 6 + length payload"
    and "drop 6 (frame v payload @ rest) = payload @ rest"
  using assms by (auto simp: frame_def MAX_FRAME_LEN_def)







text \<open>
  A search that finishes while a request is arriving loses the part that has arrived: the read is one arm of a selection, the arm is
  dropped when the other fires, and the bytes it had taken go with it. What comes next is read as the start of a frame.
\<close>

theorem finished_search_drops_partial_request:
  assumes "sc_open c" and "sc_version c = Some v" and "sc_got c = []" and "try_request sd first = Pending"
  shows "conn_run sd [Arrive first, SearchFinished, Arrive second] c = conn_run sd [Arrive second] c"
proof -
  have "pump sd (c\<lparr>sc_got := first\<rparr>) = ([], c\<lparr>sc_got := first\<rparr>)" using assms(4) by (simp add: pump.simps)
  moreover have "c\<lparr>sc_got := []\<rparr> = c" using assms(3) by (cases c) simp
  ultimately show ?thesis using assms by (simp add: socket_event_step_def)
qed

text \<open>
  The codec type of the daemon channel writes JSON and stamps the binary version on it; the daemon hands such a frame to the binary
  decoder.
\<close>

theorem frame_codec_stamps_binary_on_json:
  assumes "sd_json_to sd m = Some json" and "2 + length json \<le> MAX_FRAME_LEN" and "sd_post_from sd json = None"
    and "codec_encode ipc_codec (sd_json_to sd) m = Some bs"
  shows "try_request sd (bs @ rest) = ReadFailed BadPayload"
proof -
  have bs: "bs = frame 5 json" using assms(1,4) by (simp add: codec_encode_def ipc_codec_def frame_def Let_def)
  note parts = frame_parts [OF assms(2), where v = 5, simplified]
  show ?thesis
    unfolding bs try_request_def try_frame_def Let_def
    using assms(2,3) parts
    by (simp add: decode_for_version_def PROTOCOL_VERSION_LEGACY_def PROTOCOL_VERSION_BINARY_def)
qed

lemma read_frame_sync_frame:
  assumes "to_vec m = Some json" and "from_slice json = Some m" and "2 + length json \<le> MAX_FRAME_LEN"
    and "min_v \<le> v" and "v < 2 ^ 16"
  shows "\<exists>bs. write_frame_sync v to_vec m = Some bs \<and> read_frame_sync min_v v from_slice (bs @ rest) = Inr (m, rest)"
  using assms
  by (auto simp: write_frame_sync_def read_frame_sync_def read_exact_def frame_def Let_def MAX_FRAME_LEN_def)

text \<open>The GUI and preview channels read back what their peers write.\<close>

lemma sync_channels_roundtrip:
  assumes "to_vec m = Some json" and "from_slice json = Some m" and "2 + length json \<le> MAX_FRAME_LEN"
  shows "\<exists>bs. gui_write_frame to_vec m = Some bs \<and> gui_read_frame from_slice (bs @ rest) = Inr (m, rest)"
    and "\<exists>bs. preview_write_frame to_vec m = Some bs \<and> preview_read_frame from_slice (bs @ rest) = Inr (m, rest)"
  unfolding gui_write_frame_def gui_read_frame_def preview_write_frame_def preview_read_frame_def
  using read_frame_sync_frame [where to_vec = to_vec and from_slice = from_slice, OF assms]
  by (simp_all add: PROTOCOL_VERSION_BINARY_def)

text \<open>Messages that are their own bytes, tagged by the format.\<close>

definition example_serde :: "bytes serde" where
  "example_serde = \<lparr>sd_json_to = (\<lambda>m. Some (123 # m)), sd_json_from = (\<lambda>b. if b \<noteq> [] \<and> hd b = 123 then Some (List.tl b) else None),
     sd_post_to = (\<lambda>m. Some (7 # m)), sd_post_from = (\<lambda>b. if b \<noteq> [] \<and> hd b = 7 then Some (List.tl b) else None)\<rparr>"


theorem frames_survive_chunking_witness:
  "feed preview_codec Some (Header, []) [[0, 0], [0, 3, 0, 1, 9, 0, 0, 0], [4, 0, 1, 8], [7]] = ([[9], [8, 7 :: 8 word]], None, Header, [])"
  by (rule frames_survive_chunking [where to_vec = Some])
    (simp_all add: fits_def preview_codec_def MAX_FRAME_LEN_def codec_encode_def be32_def be16_def)


text \<open>The request of the witness above, cut in two, is never delivered when a search finishes in between.\<close>

theorem finished_search_drops_partial_request_witness:
  "fst (conn_run example_serde [Arrive [0, 0, 0], SearchFinished, Arrive [4, 0, 5, 7, 9]]
     \<lparr>sc_version = Some 5, sc_got = [], sc_open = True\<rparr>) = []"
proof -
  let ?c = "\<lparr>sc_version = Some 5, sc_got = [], sc_open = True\<rparr>"
  have "try_request example_serde [4, 0, 5, 7, 9] = ReadFailed (TooLong 67110151)"
    by (simp add: try_request_def try_frame_def get_be_def MAX_FRAME_LEN_def)
  then have "fst (conn_run example_serde [Arrive [4, 0, 5, 7, 9]] ?c) = []"
    by (simp add: socket_event_step_def pump.simps)
  then show ?thesis
    by (subst finished_search_drops_partial_request [where v = 5]) (simp_all add: try_request_def try_frame_def)
qed

end
