(* ===== verification/Gui_Client.thy ===== *)
theory Gui_Client
  imports Fusion Wire
begin

text \<open>
  The launcher's search client (\<^verbatim>\<open>lixun-gui/src/ipc.rs\<close>): a writer thread sends every search on one persistent
  connection and reconnects when that fails; one reader thread per connection hands chunks to the launcher, drops those of an older
  session, and reports a search that timed out or lost its connection. The session epoch and the epoch sent last are shared between
  the threads. A step is one atomic action of one thread, so a run interleaves them freely; the outcomes of connecting and
  writing, and what a read meets, are part of the step. The end of the theory returns to the bytes of a read.
\<close>

section \<open>State and steps\<close>

record received_chunk =
  sk_epoch :: nat
  sk_phase :: phase
  sk_hits :: "hit list"
  sk_top_hit :: "doc_id option"
  sk_claimed :: bool
  sk_explanations :: "rstring list"

datatype client_response = ChunkResponse received_chunk | CancelledResponse nat | OtherResponse

datatype ipc_message = SearchChunkMsg received_chunk | TransportFailed nat | SearchTimeout nat

record reader =
  rd_last_final :: nat
  rd_last_timeout :: nat
  rd_alive :: bool

datatype writer = WIdle | WSending nat nat | WGaveUp nat

record gui_client =
  cl_session :: nat
  cl_last_sent :: nat
  cl_readers :: "reader list"
  cl_conn :: "nat option"
  cl_writer :: writer

definition client_init :: gui_client where
  "client_init = \<lparr>cl_session = 0, cl_last_sent = 0, cl_readers = [], cl_conn = None, cl_writer = WIdle\<rparr>"

definition reader_new :: reader where
  "reader_new = \<lparr>rd_last_final = 0, rd_last_timeout = 0, rd_alive = True\<rparr>"

definition pending_epoch :: "gui_client \<Rightarrow> nat \<Rightarrow> nat option" where
  "pending_epoch cl delivered =
     (if cl_last_sent cl = cl_session cl \<and> delivered < cl_last_sent cl then Some (cl_last_sent cl) else None)"

definition fail_if_pending :: "gui_client \<Rightarrow> reader \<Rightarrow> ipc_message list \<times> reader" where
  "fail_if_pending cl r =
     (case pending_epoch cl (rd_last_final r) of
        Some epoch \<Rightarrow> ([TransportFailed epoch], r\<lparr>rd_last_final := epoch\<rparr>)
      | None \<Rightarrow> ([], r))"

text \<open>\<open>SetupFailed\<close>: the read timeout could not be set, the reader ends before its first read.\<close>

datatype read_event = ReadTimedOut | ReadLost | ReadFrame client_response | SetupFailed

definition reader_event :: "gui_client \<Rightarrow> read_event \<Rightarrow> reader \<Rightarrow> ipc_message list \<times> reader" where
  "reader_event cl ev r =
     (case ev of
        ReadTimedOut \<Rightarrow>
          (case pending_epoch cl (max (rd_last_final r) (rd_last_timeout r)) of
             Some epoch \<Rightarrow> ([SearchTimeout epoch], r\<lparr>rd_last_timeout := epoch\<rparr>)
           | None \<Rightarrow> ([], r))
      | ReadLost \<Rightarrow> (case fail_if_pending cl r of (out, r') \<Rightarrow> (out, r'\<lparr>rd_alive := False\<rparr>))
      | ReadFrame (ChunkResponse c) \<Rightarrow>
          (if sk_epoch c \<noteq> cl_session cl then ([], r)
           else ([SearchChunkMsg c],
                 if sk_phase c = Final then r\<lparr>rd_last_final := max (rd_last_final r) (sk_epoch c)\<rparr> else r))
      | ReadFrame _ \<Rightarrow> ([], r)
      | SetupFailed \<Rightarrow> ([], r\<lparr>rd_alive := False\<rparr>))"

definition conn_alive :: "gui_client \<Rightarrow> bool" where
  "conn_alive cl = (case cl_conn cl of Some i \<Rightarrow> i < length (cl_readers cl) \<and> rd_alive (cl_readers cl ! i) | None \<Rightarrow> False)"

definition connect_with_reader :: "bool \<Rightarrow> gui_client \<Rightarrow> gui_client" where
  "connect_with_reader ok cl =
     (if ok then cl\<lparr>cl_readers := cl_readers cl @ [reader_new], cl_conn := Some (length (cl_readers cl))\<rparr> else cl\<lparr>cl_conn := None\<rparr>)"

datatype client_step =
    NewSession
  | Begin nat bool
  | Attempt bool bool
  | Report
  | Reader nat read_event

definition writer_attempt :: "bool \<Rightarrow> bool \<Rightarrow> nat \<Rightarrow> nat \<Rightarrow> gui_client \<Rightarrow> gui_client" where
  "writer_attempt connects writes epoch tries cl =
     (let cl1 = (if conn_alive cl then cl else cl\<lparr>cl_conn := None\<rparr>);
          cl2 = (if cl_conn cl1 = None then connect_with_reader connects cl1 else cl1)
      in if cl_conn cl2 = None then cl2\<lparr>cl_writer := WGaveUp epoch\<rparr>
         else if writes then cl2\<lparr>cl_writer := WIdle\<rparr>
         else cl2\<lparr>cl_conn := None, cl_writer := (if tries = 0 then WSending epoch 1 else WGaveUp epoch)\<rparr>)"

definition client_do :: "client_step \<Rightarrow> gui_client \<Rightarrow> ipc_message list \<times> gui_client" where
  "client_do s cl =
     (case s of
        NewSession \<Rightarrow> ([], cl\<lparr>cl_session := cl_session cl + 1\<rparr>)
      | Begin epoch encodes \<Rightarrow>
          (if cl_writer cl = WIdle \<and> epoch = cl_session cl \<and> encodes
           then ([], cl\<lparr>cl_last_sent := epoch, cl_writer := WSending epoch 0\<rparr>) else ([], cl))
      | Attempt connects writes \<Rightarrow>
          (case cl_writer cl of
             WSending epoch tries \<Rightarrow> ([], writer_attempt connects writes epoch tries cl)
           | _ \<Rightarrow> ([], cl))
      | Report \<Rightarrow>
          (case cl_writer cl of
             WGaveUp epoch \<Rightarrow>
               ((if epoch = cl_session cl then [TransportFailed epoch] else []), cl\<lparr>cl_writer := WIdle\<rparr>)
           | _ \<Rightarrow> ([], cl))
      | Reader i ev \<Rightarrow>
          (if i < length (cl_readers cl) \<and> rd_alive (cl_readers cl ! i)
           then (case reader_event cl ev (cl_readers cl ! i) of
                   (out, r') \<Rightarrow> (out, cl\<lparr>cl_readers := (cl_readers cl)[i := r']\<rparr>))
           else ([], cl)))"

text \<open>A run: the messages so far, each with the step that produced it, and the state.\<close>

fun client_run :: "client_step list \<Rightarrow> gui_client \<Rightarrow> (client_step \<times> ipc_message) list \<times> gui_client" where
  "client_run [] cl = ([], cl)"
| "client_run (s # ss) cl =
     (case client_do s cl of (out, cl') \<Rightarrow>
        (case client_run ss cl' of (later, cl'') \<Rightarrow> (map (Pair s) out @ later, cl'')))"

section \<open>One step\<close>




lemma run_append:
  "client_run (ss @ ts) cl =
     (case client_run ss cl of (out, cl') \<Rightarrow> (case client_run ts cl' of (later, cl'') \<Rightarrow> (out @ later, cl'')))"
  by (induction ss arbitrary: cl) (simp_all split: prod.split)

section \<open>Invariants of a run\<close>

definition answers :: "nat \<Rightarrow> ipc_message \<Rightarrow> bool" where
  "answers e m = (case m of SearchChunkMsg c \<Rightarrow> sk_epoch c = e \<and> sk_phase c = Final | TransportFailed e' \<Rightarrow> e' = e | SearchTimeout _ \<Rightarrow> False)"

definition answered :: "nat \<Rightarrow> (client_step \<times> ipc_message) list \<Rightarrow> bool" where
  "answered e trace = (\<exists>m\<in>snd ` set trace. answers e m)"


lemma answered_append [simp]: "answered e (xs @ ys) \<longleftrightarrow> answered e xs \<or> answered e ys"
  by (auto simp: answered_def)

lemma answered_Nil [simp]: "\<not> answered e []"
  by (simp add: answered_def)








section \<open>What one reader says\<close>







text \<open>
  A reader that cannot set its read timeout ends without a word: the search just sent on its connection is neither answered nor
  reported.
\<close>

theorem setup_failure_is_silent:
  "client_run [NewSession, Begin 1 True, Attempt True True, Reader 0 SetupFailed] client_init =
     ([], \<lparr>cl_session = 1, cl_last_sent = 1, cl_readers = [reader_new\<lparr>rd_alive := False\<rparr>], cl_conn = Some 0, cl_writer = WIdle\<rparr>)"
  by (simp add: client_do_def client_init_def writer_attempt_def conn_alive_def connect_with_reader_def reader_event_def reader_new_def Let_def)





section \<open>The bytes of a read\<close>

text \<open>
  The reader reads the length of a frame with a time limit and goes on after the limit; the bytes of the length that had arrived are
  in the discarded buffer.
\<close>

record byte_reader =
  br_got :: bytes
  br_open :: bool

datatype sock_event = SockBytes bytes | SockTimeout

function take_responses :: "'m serde \<Rightarrow> bytes \<Rightarrow> 'm list \<times> byte_reader" where
  "take_responses sd bs =
     (case try_response sd bs of
        Pending \<Rightarrow> ([], \<lparr>br_got = bs, br_open = True\<rparr>)
      | ReadFailed _ \<Rightarrow> ([], \<lparr>br_got = [], br_open = False\<rparr>)
      | Ready v m rest \<Rightarrow> (case take_responses sd rest of (ms, b) \<Rightarrow> (m # ms, b)))"
  by pat_completeness auto
termination
  by (relation "measure (\<lambda>(sd, bs). length bs)")
    (auto simp: try_response_def try_frame_def Let_def split: if_splits sum.splits)

definition sock_step :: "'m serde \<Rightarrow> sock_event \<Rightarrow> byte_reader \<Rightarrow> 'm list \<times> byte_reader" where
  "sock_step sd ev b =
     (if \<not> br_open b then ([], b)
      else case ev of
             SockBytes bs \<Rightarrow> take_responses sd (br_got b @ bs)
           | SockTimeout \<Rightarrow> ([], if length (br_got b) < 4 then b\<lparr>br_got := []\<rparr> else \<lparr>br_got = [], br_open = False\<rparr>))"

fun sock_run :: "'m serde \<Rightarrow> sock_event list \<Rightarrow> byte_reader \<Rightarrow> 'm list \<times> byte_reader" where
  "sock_run sd [] b = ([], b)"
| "sock_run sd (ev # evs) b =
     (case sock_step sd ev b of (ms, b') \<Rightarrow> (case sock_run sd evs b' of (ms', b'') \<Rightarrow> (ms @ ms', b'')))"

declare take_responses.simps [simp del]

text \<open>When the limit passes between two bytes of a length, the rest of the stream is read out of step.\<close>

theorem timeout_inside_a_length_desynchronises:
  assumes "0 < n" and "n < 4"
  shows "sock_run sd [SockBytes (take n bs), SockTimeout, SockBytes (drop n bs)] \<lparr>br_got = [], br_open = True\<rparr> =
    sock_run sd [SockBytes (drop n bs)] \<lparr>br_got = [], br_open = True\<rparr>"
proof -
  have "length (take n bs) < 4" using assms by simp
  then have "take_responses sd (take n bs) = ([], \<lparr>br_got = take n bs, br_open = True\<rparr>)"
    by (simp add: take_responses.simps try_response_def try_frame_def)
  moreover have "min (length bs) n < 4" using assms by simp
  ultimately show ?thesis by (simp add: sock_step_def)
qed

end
