(* ===== verification/Preview_Lifecycle.thy ===== *)
theory Preview_Lifecycle
  imports Core_Types
begin

text \<open>
  The preview process and its supervision, \<^verbatim>\<open>lixun-daemon/src/preview_spawn.rs\<close>, with the command handler of
  the process itself, \<^verbatim>\<open>lixun-preview-bin/src/main.rs\<close>. The daemon keeps one lifecycle value behind a lock; every
  request takes its epoch from a counter before it takes the lock, so the model splits a request in two steps, \<open>Call\<close> and
  \<open>Locked\<close>. Each spawned process has a supervisor task, a bounded command queue and a writer task; their steps
  interleave freely with the requests. Process ids, the results of spawning, connecting and writing, and the liveness test of a
  process are given with the step. Socket files, the time of last use (written, never read) and log output are left out.
\<close>

section \<open>Messages\<close>

type_synonym geometry = "rstring \<times> int \<times> int \<times> int \<times> int"
type_synonym content = "nat \<times> hit \<times> rstring option"

datatype preview_command =
    ShowOrUpdate nat hit "rstring option"
  | CloseCmd nat
  | HideCmd nat
  | PingCmd
  | SetParent rstring
  | ClearParent
  | ScrollCmd nat bool nat
  | LauncherGeometry geometry

datatype preview_event =
    ReadyEvent nat
  | Closed nat "rstring option"
  | Launched nat
  | ErrorEvent nat
  | ParentLost
  | NavKey nat int
  | SetLauncherVisible bool

datatype gui_command =
    GuiShow | GuiHide | GuiToggle | GuiQuit | GuiPing | ClearSession
  | ExitPreviewMode "rstring option" | SoftHide | PreviewNav int

section \<open>The preview process\<close>

text \<open>
  What \<open>handle_command\<close> does to the state of the process. \<open>can_show\<close> stands for the plugin lookup and the widget work of
  \<open>show_or_update\<close>, which leaves the window as it was when it fails; \<open>token\<close> for the activation token of the
  compositor.
\<close>

record preview_state =
  pv_epoch :: nat
  pv_shown :: "content option"
  pv_parent :: "rstring option"
  pv_launcher :: "geometry option"
  pv_launcher_hidden :: bool
  pv_idle :: bool

definition preview_init :: preview_state where
  "preview_init = \<lparr>pv_epoch = 0, pv_shown = None, pv_parent = None, pv_launcher = None, pv_launcher_hidden = False, pv_idle = False\<rparr>"

definition preview_hide :: "rstring option \<Rightarrow> nat \<Rightarrow> preview_state \<Rightarrow> preview_event list \<times> preview_state" where
  "preview_hide token epoch pv =
     ((if pv_launcher_hidden pv then [SetLauncherVisible True] else []) @ [Closed epoch token],
      pv\<lparr>pv_shown := None, pv_launcher_hidden := False, pv_idle := True\<rparr>)"

definition handle_command ::
    "(hit \<Rightarrow> bool) \<Rightarrow> rstring option \<Rightarrow> preview_command \<Rightarrow> preview_state \<Rightarrow> preview_event list \<times> preview_state" where
  "handle_command can_show token c pv =
     (case c of
        ShowOrUpdate epoch h monitor \<Rightarrow>
          (let pv1 = pv\<lparr>pv_epoch := epoch, pv_idle := False\<rparr>
           in if can_show h then ([], pv1\<lparr>pv_shown := Some (epoch, h, monitor)\<rparr>) else ([ErrorEvent epoch], pv1))
      | CloseCmd epoch \<Rightarrow> preview_hide token epoch pv
      | HideCmd epoch \<Rightarrow> preview_hide token epoch pv
      | PingCmd \<Rightarrow> ([], pv)
      | SetParent handle \<Rightarrow> ([], pv\<lparr>pv_parent := Some handle\<rparr>)
      | ClearParent \<Rightarrow> ([], pv\<lparr>pv_parent := None\<rparr>)
      | ScrollCmd _ _ _ \<Rightarrow> ([], pv)
      | LauncherGeometry g \<Rightarrow> ([], pv\<lparr>pv_launcher := Some g\<rparr>))"

definition preview_after :: "(hit \<Rightarrow> bool) \<Rightarrow> rstring option \<Rightarrow> preview_command list \<Rightarrow> preview_state" where
  "preview_after can_show token cs = fold (\<lambda>c pv. snd (handle_command can_show token c pv)) cs preview_init"

section \<open>The spawner\<close>

definition PREVIEW_CMD_QUEUE_CAP :: nat where
  "PREVIEW_CMD_QUEUE_CAP = 64"

datatype lifecycle =
    Dead
  | Starting nat "content option" "rstring option" "geometry option"
  | Running nat nat

text \<open>
  \<open>Running pid k\<close> is the source's \<open>Ready\<close>; \<open>k\<close> names the supervisor whose queue the stored sender belongs to.
  A supervisor is connecting, reading events, sending the buffered commands after a promotion, telling the launcher something
  before it reads on, ending (its own sender is dropped, it waits for the writer task), or leaving, with the last commands to
  the launcher.
\<close>

datatype sup_phase =
    Connecting
  | Reading
  | Draining "preview_command list"
  | Telling "gui_command list"
  | Ending
  | Leaving "gui_command list"

record supervisor =
  sv_pid :: nat
  sv_phase :: sup_phase
  sv_queue :: "preview_command list"
  sv_writer :: bool
  sv_wire :: "preview_command list"
  sv_up :: bool

datatype call =
    Dispatch hit "rstring option"
  | HideCall
  | ScrollCall bool nat
  | SetParentCall rstring
  | ClearParentCall
  | GeometryCall geometry

record spawner =
  sp_life :: lifecycle
  sp_epoch :: nat
  sp_geometry :: "geometry option"
  sp_sups :: "supervisor list"
  sp_calls :: "(nat \<times> call) list"
  sp_gui :: "gui_command list"
  sp_signals :: "nat list"

definition spawner_new :: spawner where
  "spawner_new = \<lparr>sp_life = Dead, sp_epoch = 0, sp_geometry = None, sp_sups = [], sp_calls = [], sp_gui = [], sp_signals = []\<rparr>"

definition sup_new :: "nat \<Rightarrow> supervisor" where
  "sup_new pid = \<lparr>sv_pid = pid, sv_phase = Connecting, sv_queue = [], sv_writer = False, sv_wire = [], sv_up = True\<rparr>"

definition life_pid :: "lifecycle \<Rightarrow> nat option" where
  "life_pid l = (case l of Dead \<Rightarrow> None | Starting pid _ _ _ \<Rightarrow> Some pid | Running pid _ \<Rightarrow> Some pid)"

definition set_sup :: "nat \<Rightarrow> supervisor \<Rightarrow> spawner \<Rightarrow> spawner" where
  "set_sup k v s = s\<lparr>sp_sups := (sp_sups s)[k := v]\<rparr>"

definition send_or_drop :: "nat \<Rightarrow> preview_command \<Rightarrow> spawner \<Rightarrow> bool \<times> spawner" where
  "send_or_drop k c s =
     (let v = sp_sups s ! k
      in if \<not> sv_writer v then (True, s)
         else if length (sv_queue v) < PREVIEW_CMD_QUEUE_CAP then (False, set_sup k (v\<lparr>sv_queue := sv_queue v @ [c]\<rparr>) s)
         else (False, s))"

text \<open>Sending on the stored sender; a closed channel makes the lifecycle dead. The boolean is the error of the call.\<close>

definition send_running :: "nat \<Rightarrow> preview_command \<Rightarrow> spawner \<Rightarrow> bool \<times> spawner" where
  "send_running k c s =
     (case send_or_drop k c s of (gone, s1) \<Rightarrow> (gone, if gone then s1\<lparr>sp_life := Dead\<rparr> else s1))"

definition dispatch :: "nat option \<Rightarrow> nat \<Rightarrow> hit \<Rightarrow> rstring option \<Rightarrow> spawner \<Rightarrow> bool \<times> spawner" where
  "dispatch spawned epoch h monitor s =
     (case sp_life s of
        Dead \<Rightarrow>
          (case spawned of
             None \<Rightarrow> (True, s)
           | Some pid \<Rightarrow>
               (False, s\<lparr>sp_life := Starting pid (Some (epoch, h, monitor)) None (sp_geometry s),
                         sp_sups := sp_sups s @ [sup_new pid]\<rparr>))
      | Starting pid _ parent geom \<Rightarrow> (False, s\<lparr>sp_life := Starting pid (Some (epoch, h, monitor)) parent geom\<rparr>)
      | Running _ k \<Rightarrow> send_running k (ShowOrUpdate epoch h monitor) s)"

definition hide :: "nat \<Rightarrow> spawner \<Rightarrow> spawner" where
  "hide epoch s =
     (case sp_life s of
        Dead \<Rightarrow> s
      | Starting pid _ parent geom \<Rightarrow> s\<lparr>sp_life := Starting pid None parent geom\<rparr>
      | Running _ k \<Rightarrow> snd (send_running k (HideCmd epoch) s))"

definition scroll :: "nat \<Rightarrow> bool \<Rightarrow> nat \<Rightarrow> spawner \<Rightarrow> spawner" where
  "scroll epoch down pages s =
     (case sp_life s of Running _ k \<Rightarrow> snd (send_running k (ScrollCmd epoch down pages) s) | _ \<Rightarrow> s)"

definition set_parent :: "rstring \<Rightarrow> spawner \<Rightarrow> spawner" where
  "set_parent handle s =
     (case sp_life s of
        Dead \<Rightarrow> s
      | Starting pid desired _ geom \<Rightarrow> s\<lparr>sp_life := Starting pid desired (Some handle) geom\<rparr>
      | Running _ k \<Rightarrow> snd (send_running k (SetParent handle) s))"

definition clear_parent :: "spawner \<Rightarrow> spawner" where
  "clear_parent s =
     (case sp_life s of
        Dead \<Rightarrow> s
      | Starting pid desired _ geom \<Rightarrow> s\<lparr>sp_life := Starting pid desired None geom\<rparr>
      | Running _ k \<Rightarrow> snd (send_running k ClearParent s))"

definition set_launcher_geometry :: "geometry \<Rightarrow> spawner \<Rightarrow> spawner" where
  "set_launcher_geometry g s0 =
     (let s = s0\<lparr>sp_geometry := Some g\<rparr>
      in case sp_life s of
           Dead \<Rightarrow> s
         | Starting pid desired parent _ \<Rightarrow> s\<lparr>sp_life := Starting pid desired parent (Some g)\<rparr>
         | Running _ k \<Rightarrow> snd (send_running k (LauncherGeometry g) s))"

definition shutdown :: "bool \<Rightarrow> spawner \<Rightarrow> spawner" where
  "shutdown alive s =
     s\<lparr>sp_life := Dead,
       sp_signals := (case life_pid (sp_life s) of Some pid \<Rightarrow> if alive then sp_signals s @ [pid] else sp_signals s | None \<Rightarrow> sp_signals s)\<rparr>"

text \<open>Before the lock: \<open>dispatch\<close> and \<open>hide\<close> take a fresh epoch, \<open>scroll\<close> reads the current one.\<close>

definition begin_call :: "call \<Rightarrow> spawner \<Rightarrow> spawner" where
  "begin_call c s =
     (case c of
        Dispatch _ _ \<Rightarrow> s\<lparr>sp_epoch := sp_epoch s + 1, sp_calls := sp_calls s @ [(sp_epoch s + 1, c)]\<rparr>
      | HideCall \<Rightarrow> s\<lparr>sp_epoch := sp_epoch s + 1, sp_calls := sp_calls s @ [(sp_epoch s + 1, c)]\<rparr>
      | _ \<Rightarrow> s\<lparr>sp_calls := sp_calls s @ [(sp_epoch s, c)]\<rparr>)"

definition locked_call :: "nat option \<Rightarrow> nat \<times> call \<Rightarrow> spawner \<Rightarrow> spawner" where
  "locked_call spawned t s =
     (case t of (epoch, c) \<Rightarrow>
        (case c of
           Dispatch h monitor \<Rightarrow> snd (dispatch spawned epoch h monitor s)
         | HideCall \<Rightarrow> hide epoch s
         | ScrollCall down pages \<Rightarrow> scroll epoch down pages s
         | SetParentCall handle \<Rightarrow> set_parent handle s
         | ClearParentCall \<Rightarrow> clear_parent s
         | GeometryCall g \<Rightarrow> set_launcher_geometry g s))"

section \<open>The supervisor\<close>

definition set_phase :: "nat \<Rightarrow> sup_phase \<Rightarrow> spawner \<Rightarrow> spawner" where
  "set_phase k ph s = set_sup k ((sp_sups s ! k)\<lparr>sv_phase := ph\<rparr>) s"

definition buffered :: "content option \<Rightarrow> rstring option \<Rightarrow> geometry option \<Rightarrow> preview_command list" where
  "buffered desired parent geom =
     (case parent of Some handle \<Rightarrow> [SetParent handle] | None \<Rightarrow> []) @
     (case desired of Some (epoch, h, monitor) \<Rightarrow> [ShowOrUpdate epoch h monitor] | None \<Rightarrow> []) @
     (case geom of Some g \<Rightarrow> [LauncherGeometry g] | None \<Rightarrow> [])"

definition promote :: "nat \<Rightarrow> spawner \<Rightarrow> spawner" where
  "promote k s =
     (case sp_life s of
        Starting pid desired parent geom \<Rightarrow>
          (if pid = sv_pid (sp_sups s ! k)
           then set_phase k (Draining (buffered desired parent geom)) (s\<lparr>sp_life := Running pid k\<rparr>)
           else set_phase k Ending s)
      | Dead \<Rightarrow> set_phase k Ending s
      | Running _ _ \<Rightarrow> s)"

definition gui_commands :: "nat \<Rightarrow> preview_event \<Rightarrow> gui_command list" where
  "gui_commands current ev =
     (case ev of
        Closed _ token \<Rightarrow> [GuiShow, ExitPreviewMode token]
      | Launched _ \<Rightarrow> [GuiHide, ClearSession, ExitPreviewMode None]
      | ErrorEvent epoch \<Rightarrow> (if epoch = current then [ExitPreviewMode None] else [])
      | NavKey _ delta \<Rightarrow> [PreviewNav delta]
      | SetLauncherVisible visible \<Rightarrow> [if visible then GuiShow else SoftHide]
      | _ \<Rightarrow> [])"

definition on_event :: "nat \<Rightarrow> preview_event \<Rightarrow> spawner \<Rightarrow> spawner" where
  "on_event k ev s =
     (case ev of
        ReadyEvent _ \<Rightarrow> promote k s
      | _ \<Rightarrow> set_phase k (Telling (gui_commands (sp_epoch s) ev)) s)"

definition reset_to_dead :: "bool \<Rightarrow> nat \<Rightarrow> spawner \<Rightarrow> spawner" where
  "reset_to_dead alive k s =
     (let pid = sv_pid (sp_sups s ! k)
      in set_phase k (Leaving [GuiShow, ExitPreviewMode None])
           (s\<lparr>sp_life := (if life_pid (sp_life s) = Some pid then Dead else sp_life s),
              sp_signals := (if alive then sp_signals s @ [pid] else sp_signals s)\<rparr>))"

text \<open>The steps a supervisor and its writer task can take.\<close>

datatype sup_step =
    Connect bool bool
  | Event preview_event
  | StreamEnd
  | Drain
  | Tell
  | Write bool
  | WriterStop
  | Finish bool
  | Exit

definition holds_sender :: "sup_phase \<Rightarrow> bool" where
  "holds_sender ph = (case ph of Reading \<Rightarrow> True | Draining _ \<Rightarrow> True | Telling _ \<Rightarrow> True | _ \<Rightarrow> False)"

definition senders_gone :: "nat \<Rightarrow> spawner \<Rightarrow> bool" where
  "senders_gone k s =
     (\<not> holds_sender (sv_phase (sp_sups s ! k)) \<and> (case sp_life s of Running _ j \<Rightarrow> j \<noteq> k | _ \<Rightarrow> True))"

definition drain_one :: "nat \<Rightarrow> preview_command list \<Rightarrow> spawner \<Rightarrow> spawner" where
  "drain_one k cs s =
     (case cs of
        [] \<Rightarrow> set_phase k Reading s
      | c # rest \<Rightarrow>
          (case send_or_drop k c s of (gone, s1) \<Rightarrow> set_phase k (if gone then Ending else Draining rest) s1))"

definition tell_one :: "nat \<Rightarrow> spawner \<Rightarrow> spawner" where
  "tell_one k s =
     (case sv_phase (sp_sups s ! k) of
        Telling [] \<Rightarrow> set_phase k Reading s
      | Telling (g # gs) \<Rightarrow> set_phase k (Telling gs) (s\<lparr>sp_gui := sp_gui s @ [g]\<rparr>)
      | Leaving (g # gs) \<Rightarrow> set_phase k (Leaving gs) (s\<lparr>sp_gui := sp_gui s @ [g]\<rparr>)
      | _ \<Rightarrow> s)"

definition write_one :: "nat \<Rightarrow> bool \<Rightarrow> spawner \<Rightarrow> spawner" where
  "write_one k ok s =
     (let v = sp_sups s ! k
      in if sv_writer v
         then (case sv_queue v of
                 [] \<Rightarrow> s
               | c # rest \<Rightarrow>
                   set_sup k (if ok \<and> sv_up v then v\<lparr>sv_queue := rest, sv_wire := sv_wire v @ [c]\<rparr>
                              else v\<lparr>sv_queue := [], sv_writer := False\<rparr>) s)
         else s)"

definition sup_do :: "nat \<Rightarrow> sup_step \<Rightarrow> spawner \<Rightarrow> spawner" where
  "sup_do k st s =
     (let v = sp_sups s ! k
      in case st of
           Connect ok alive \<Rightarrow>
             (if sv_phase v = Connecting
              then (if ok then set_sup k (v\<lparr>sv_phase := Reading, sv_writer := True\<rparr>) s else reset_to_dead alive k s) else s)
         | Event ev \<Rightarrow> (if sv_phase v = Reading \<and> sv_up v then on_event k ev s else s)
         | StreamEnd \<Rightarrow> (if sv_phase v = Reading then set_phase k Ending s else s)
         | Drain \<Rightarrow> (case sv_phase v of Draining cs \<Rightarrow> drain_one k cs s | _ \<Rightarrow> s)
         | Tell \<Rightarrow> tell_one k s
         | Write ok \<Rightarrow> write_one k ok s
         | WriterStop \<Rightarrow>
             (if sv_writer v \<and> sv_queue v = [] \<and> senders_gone k s then set_sup k (v\<lparr>sv_writer := False\<rparr>) s else s)
         | Finish alive \<Rightarrow> (if sv_phase v = Ending \<and> \<not> sv_writer v then reset_to_dead alive k s else s)
         | Exit \<Rightarrow> set_sup k (v\<lparr>sv_up := False\<rparr>) s)"

datatype preview_step =
    Call call
  | Locked nat "nat option"
  | Shutdown bool
  | Superv nat sup_step

definition preview_do :: "preview_step \<Rightarrow> spawner \<Rightarrow> spawner" where
  "preview_do st s =
     (case st of
        Call c \<Rightarrow> begin_call c s
      | Locked i spawned \<Rightarrow>
          (if i < length (sp_calls s)
           then locked_call spawned (sp_calls s ! i) (s\<lparr>sp_calls := take i (sp_calls s) @ drop (Suc i) (sp_calls s)\<rparr>) else s)
      | Shutdown alive \<Rightarrow> shutdown alive s
      | Superv k act \<Rightarrow> (if k < length (sp_sups s) then sup_do k act s else s))"

fun preview_run :: "preview_step list \<Rightarrow> spawner \<Rightarrow> spawner" where
  "preview_run [] s = s"
| "preview_run (st # sts) s = preview_run sts (preview_do st s)"

section \<open>Who owns the lifecycle\<close>

text \<open>
  The process in the lifecycle is always the one spawned last, and its supervisor has not left. A process that is starting has
  been sent nothing.
\<close>

definition owner_ok :: "lifecycle \<Rightarrow> nat \<Rightarrow> supervisor \<Rightarrow> bool" where
  "owner_ok l k v =
     (case l of
        Dead \<Rightarrow> True
      | Starting pid _ _ _ \<Rightarrow>
          sv_pid v = pid \<and> sv_queue v = [] \<and> sv_wire v = [] \<and>
          (case sv_phase v of Connecting \<Rightarrow> True | Reading \<Rightarrow> True | Telling _ \<Rightarrow> True | Ending \<Rightarrow> True | _ \<Rightarrow> False)
      | Running pid j \<Rightarrow>
          j = k \<and> sv_pid v = pid \<and>
          (case sv_phase v of Reading \<Rightarrow> True | Draining _ \<Rightarrow> True | Telling _ \<Rightarrow> True | Ending \<Rightarrow> True | _ \<Rightarrow> False))"

definition owner_inv :: "spawner \<Rightarrow> bool" where
  "owner_inv s =
     (sp_life s = Dead \<or> sp_sups s \<noteq> [] \<and> owner_ok (sp_life s) (length (sp_sups s) - 1) (last (sp_sups s)))"

lemmas spawner_defs =
  preview_do_def begin_call_def locked_call_def dispatch_def hide_def scroll_def set_parent_def clear_parent_def
  set_launcher_geometry_def shutdown_def sup_do_def on_event_def promote_def reset_to_dead_def drain_one_def tell_one_def
  write_one_def send_running_def send_or_drop_def set_phase_def set_sup_def Let_def

lemma owner_inv_new: "owner_inv spawner_new"
  by (simp add: owner_inv_def spawner_new_def)

lemma map_pid_update: "sv_pid v = sv_pid (xs ! k) \<Longrightarrow> map sv_pid (xs[k := v]) = map sv_pid xs"
  by (cases "k < length xs") (simp_all add: map_update list_update_same_conv list_update_beyond)

definition pids :: "spawner \<Rightarrow> nat list" where
  "pids s = map sv_pid (sp_sups s)"

lemma pids_set_sup [simp]: "sv_pid v = sv_pid (sp_sups s ! k) \<Longrightarrow> pids (set_sup k v s) = pids s"
  by (simp add: pids_def set_sup_def map_pid_update)

lemma pids_set_phase [simp]: "pids (set_phase k ph s) = pids s"
  by (simp add: set_phase_def)

lemma pids_other [simp]:
  "pids (s\<lparr>sp_life := l\<rparr>) = pids s" "pids (s\<lparr>sp_epoch := e\<rparr>) = pids s" "pids (s\<lparr>sp_geometry := g\<rparr>) = pids s"
  "pids (s\<lparr>sp_calls := c\<rparr>) = pids s" "pids (s\<lparr>sp_gui := u\<rparr>) = pids s" "pids (s\<lparr>sp_signals := i\<rparr>) = pids s"
  by (simp_all add: pids_def)

lemma send_or_drop_pids [simp]: "pids (snd (send_or_drop k c s)) = pids s"
  by (simp add: send_or_drop_def Let_def)

lemma send_running_pids [simp]: "pids (snd (send_running k c s)) = pids s"
  by (simp add: send_running_def send_or_drop_def Let_def)

lemma drain_one_pids [simp]: "pids (drain_one k cs s) = pids s"
  by (simp add: drain_one_def send_or_drop_def Let_def split: list.split)

lemma sup_do_pids [simp]: "pids (sup_do k st s) = pids s"
  by (simp add: sup_do_def on_event_def promote_def reset_to_dead_def tell_one_def write_one_def Let_def
      split: sup_step.split preview_event.split lifecycle.split sup_phase.split list.split)

lemma locked_call_pids: "\<exists>new. pids (locked_call spawned t s) = pids s @ new"
proof -
  have "\<exists>new. pids (snd (dispatch spawned e h m s)) = pids s @ new" for e h m
    by (cases "sp_life s") (simp_all add: dispatch_def split: option.split, simp add: pids_def)
  then show ?thesis
    by (simp add: locked_call_def hide_def scroll_def set_parent_def clear_parent_def set_launcher_geometry_def
        split: prod.split call.split lifecycle.split)
qed

lemma preview_do_pids: "\<exists>new. pids (preview_do st s) = pids s @ new"
proof (cases st)
  case (Locked i spawned)
  then show ?thesis using locked_call_pids[of spawned "sp_calls s ! i" "s\<lparr>sp_calls := take i (sp_calls s) @ drop (Suc i) (sp_calls s)\<rparr>"]
    by (auto simp: preview_do_def)
qed (auto simp: preview_do_def begin_call_def shutdown_def split: call.split)

lemma preview_do_distinct: "distinct (pids (preview_do st s)) \<Longrightarrow> distinct (pids s)"
  using preview_do_pids[of st s] by auto

lemma preview_run_distinct: "distinct (pids (preview_run sts s)) \<Longrightarrow> distinct (pids s)"
  by (induction sts arbitrary: s) (auto dest: preview_do_distinct)

lemma older_pid:
  assumes "distinct (pids s)" "k < length (sp_sups s)" "k \<noteq> length (sp_sups s) - 1"
  shows "sv_pid (sp_sups s ! k) \<noteq> sv_pid (last (sp_sups s))"
proof -
  have "sp_sups s \<noteq> []" using assms(2) by auto
  moreover have "pids s ! k \<noteq> pids s ! (length (sp_sups s) - 1)"
    using assms by (subst nth_eq_iff_index_eq) (auto simp: pids_def)
  ultimately show ?thesis using assms(2) by (simp add: pids_def last_conv_nth)
qed

lemma life_set [simp]: "sp_life (set_sup k v s) = sp_life s" "sp_life (set_phase k ph s) = sp_life s"
  "sp_epoch (set_sup k v s) = sp_epoch s" "sp_epoch (set_phase k ph s) = sp_epoch s"
  "sp_calls (set_sup k v s) = sp_calls s" "sp_calls (set_phase k ph s) = sp_calls s"
  "sp_sups (set_sup k v s) = (sp_sups s)[k := v]" "sp_sups (set_phase k ph s) = (sp_sups s)[k := (sp_sups s ! k)\<lparr>sv_phase := ph\<rparr>]"
  by (simp_all add: set_sup_def set_phase_def)

lemma sup_do_split:
  "sp_sups (sup_do k st s) = (sp_sups s)[k := sp_sups (sup_do k st s) ! k]" if "k < length (sp_sups s)"
  using that by (simp add: sup_do_def on_event_def promote_def reset_to_dead_def tell_one_def write_one_def drain_one_def
      send_or_drop_def Let_def split: sup_step.split preview_event.split lifecycle.split sup_phase.split list.split)

text \<open>A supervisor whose process is not the current one leaves the lifecycle alone.\<close>

lemma old_supervisor_harmless:
  assumes "owner_inv s" "distinct (pids s)" "k < length (sp_sups s)" "k \<noteq> length (sp_sups s) - 1"
  shows "sp_life (sup_do k st s) = sp_life s" "last (sp_sups (sup_do k st s)) = last (sp_sups s)"
proof -
  have "life_pid (sp_life s) \<noteq> Some (sv_pid (sp_sups s ! k))"
    using older_pid[OF assms(2-4)] assms(1) by (auto simp: owner_inv_def owner_ok_def life_pid_def split: lifecycle.splits)
  then show "sp_life (sup_do k st s) = sp_life s"
    by (auto simp: sup_do_def on_event_def promote_def reset_to_dead_def tell_one_def write_one_def drain_one_def
      send_or_drop_def Let_def life_pid_def split: sup_step.split preview_event.split lifecycle.split sup_phase.split list.split)
  show "last (sp_sups (sup_do k st s)) = last (sp_sups s)"
  proof -
    have "sp_sups s \<noteq> []" using assms(3) by auto
    then have "last ((sp_sups s)[k := w]) = last (sp_sups s)" for w using assms(4) by (simp add: last_list_update)
    then show ?thesis by (metis sup_do_split[OF assms(3), of st])
  qed
qed

lemma sup_do_length [simp]: "length (sp_sups (sup_do k st s)) = length (sp_sups s)"
  using sup_do_pids[of k st s] by (metis length_map pids_def)

lemma owner_inv_current:
  assumes "owner_inv s" "sp_sups s \<noteq> []" "k = length (sp_sups s) - 1"
  shows "owner_inv (sup_do k st s)"
proof -
  obtain vs v where v: "sp_sups s = vs @ [v]" using assms(2) by (metis append_butlast_last_id)
  then have k: "k = length vs" using assms(3) by simp
  show ?thesis
    using assms(1) v k
    by (cases "sp_life s"; cases "sv_phase v")
      (auto simp: owner_inv_def owner_ok_def sup_do_def on_event_def promote_def reset_to_dead_def tell_one_def write_one_def
        drain_one_def send_or_drop_def life_pid_def Let_def
        split: sup_step.split preview_event.split list.split)
qed

lemma owner_inv_sup:
  assumes "owner_inv s" "distinct (pids s)" "k < length (sp_sups s)"
  shows "owner_inv (sup_do k st s)"
proof (cases "k = length (sp_sups s) - 1")
  case True
  then show ?thesis using owner_inv_current assms(1,3) by fastforce
next
  case False
  moreover have "sp_sups s \<noteq> []" using assms(3) by auto
  ultimately show ?thesis
    using assms old_supervisor_harmless[OF assms False] by (metis owner_inv_def sup_do_length length_0_conv)
qed

lemma send_running_cases:
  assumes "sp_sups s = vs @ [v]" "k = length vs"
  shows "send_running k c s =
    (if \<not> sv_writer v then (True, s\<lparr>sp_life := Dead\<rparr>)
     else if length (sv_queue v) < PREVIEW_CMD_QUEUE_CAP
     then (False, s\<lparr>sp_sups := vs @ [v\<lparr>sv_queue := sv_queue v @ [c]\<rparr>]\<rparr>) else (False, s))"
  using assms by (simp add: send_running_def send_or_drop_def set_sup_def Let_def)

lemma owner_inv_send:
  assumes "owner_inv s" "sp_life s = Running pid k"
  shows "owner_inv (snd (send_running k c s))"
proof -
  obtain vs v where v: "sp_sups s = vs @ [v]" using assms by (metis append_butlast_last_id lifecycle.distinct(3) owner_inv_def)
  then have "k = length vs" using assms by (simp add: owner_inv_def owner_ok_def)
  then show ?thesis using assms v by (simp add: send_running_cases owner_inv_def owner_ok_def)
qed

lemma owner_inv_locked: "owner_inv s \<Longrightarrow> owner_inv (locked_call spawned t s)"
proof -
  assume inv: "owner_inv s"
  have geom: "owner_inv (s\<lparr>sp_geometry := g\<rparr>)" for g using inv by (simp add: owner_inv_def)
  show ?thesis
  proof (cases "sp_life s")
    case Dead
    then show ?thesis using inv
      by (auto simp: locked_call_def dispatch_def hide_def scroll_def set_parent_def clear_parent_def set_launcher_geometry_def
          owner_inv_def owner_ok_def sup_new_def split: prod.split call.split option.split)
  next
    case (Starting pid d p g)
    then show ?thesis using inv
      by (auto simp: locked_call_def dispatch_def hide_def scroll_def set_parent_def clear_parent_def set_launcher_geometry_def
          owner_inv_def owner_ok_def split: prod.split call.split)
  next
    case (Running pid k)
    then show ?thesis using inv geom
      by (simp add: locked_call_def dispatch_def hide_def scroll_def set_parent_def clear_parent_def set_launcher_geometry_def
          owner_inv_send split: prod.split call.split)
  qed
qed

lemma owner_inv_other [simp]:
  "owner_inv (s\<lparr>sp_epoch := e\<rparr>) = owner_inv s" "owner_inv (s\<lparr>sp_calls := c\<rparr>) = owner_inv s"
  by (simp_all add: owner_inv_def)

lemma owner_inv_step: "owner_inv s \<Longrightarrow> distinct (pids s) \<Longrightarrow> owner_inv (preview_do st s)"
  by (simp add: preview_do_def begin_call_def shutdown_def owner_inv_sup owner_inv_locked
      split: preview_step.split call.split) (simp add: owner_inv_def)

lemma owner_inv_run: "owner_inv s \<Longrightarrow> distinct (pids (preview_run sts s)) \<Longrightarrow> owner_inv (preview_run sts s)"
proof (induction sts arbitrary: s)
  case (Cons st sts)
  then have "distinct (pids s)" using preview_run_distinct[of "st # sts" s] by simp
  then show ?case using Cons owner_inv_step by simp
qed simp

section \<open>The latest request wins\<close>

text \<open>
  The commands on their way to the current process, in the order it will see them, and what they make it show.
\<close>

definition draining :: "sup_phase \<Rightarrow> preview_command list" where
  "draining ph = (case ph of Draining cs \<Rightarrow> cs | _ \<Rightarrow> [])"

definition pipeline :: "spawner \<Rightarrow> preview_command list" where
  "pipeline s =
     (case sp_life s of
        Dead \<Rightarrow> []
      | Starting _ desired parent geom \<Rightarrow> buffered desired parent geom
      | Running _ k \<Rightarrow> (let v = sp_sups s ! k in sv_wire v @ sv_queue v @ draining (sv_phase v)))"

definition command_intent :: "preview_command \<Rightarrow> content option \<Rightarrow> content option" where
  "command_intent c cur =
     (case c of ShowOrUpdate epoch h monitor \<Rightarrow> Some (epoch, h, monitor) | HideCmd _ \<Rightarrow> None | CloseCmd _ \<Rightarrow> None | _ \<Rightarrow> cur)"

definition shown_by :: "preview_command list \<Rightarrow> content option" where
  "shown_by cs = fold command_intent cs None"

text \<open>The specification: the tickets of the calls in the order they were made, and the effect of a call.\<close>

fun tickets :: "nat \<Rightarrow> call list \<Rightarrow> (nat \<times> call) list" where
  "tickets e [] = []"
| "tickets e (c # cs) =
     (let e' = (case c of Dispatch _ _ \<Rightarrow> e + 1 | HideCall \<Rightarrow> e + 1 | _ \<Rightarrow> e) in (e', c) # tickets e' cs)"

definition request_intent :: "nat \<times> call \<Rightarrow> content option \<Rightarrow> content option" where
  "request_intent t cur =
     (case t of (epoch, c) \<Rightarrow> (case c of Dispatch h monitor \<Rightarrow> Some (epoch, h, monitor) | HideCall \<Rightarrow> None | _ \<Rightarrow> cur))"

definition calls_of :: "preview_step list \<Rightarrow> call list" where
  "calls_of sts = concat (map (\<lambda>st. case st of Call c \<Rightarrow> [c] | _ \<Rightarrow> []) sts)"

definition locks_of :: "preview_step list \<Rightarrow> nat" where
  "locks_of sts = length (filter (\<lambda>st. case st of Locked _ _ \<Rightarrow> True | _ \<Rightarrow> False) sts)"

text \<open>
  The circumstances: calls get the lock in the order of their tickets, a spawn succeeds, the current process lives and reads,
  its queue has room, and no call is applied between the promotion of a process and the last buffered command.
\<close>

definition lock_calm :: "spawner \<Rightarrow> nat option \<Rightarrow> bool" where
  "lock_calm s spawned =
     (case sp_life s of
        Dead \<Rightarrow> spawned \<noteq> None
      | Starting _ _ _ _ \<Rightarrow> True
      | Running _ k \<Rightarrow>
          (let v = sp_sups s ! k
           in sv_writer v \<and> length (sv_queue v) < PREVIEW_CMD_QUEUE_CAP \<and> draining (sv_phase v) = []))"

lemma lock_calm_other [simp]: "lock_calm (s\<lparr>sp_calls := c\<rparr>) spawned = lock_calm s spawned"
  by (simp add: lock_calm_def Let_def cong: lifecycle.case_cong)

definition calm :: "spawner \<Rightarrow> preview_step \<Rightarrow> bool" where
  "calm s st =
     (case st of
        Call _ \<Rightarrow> True
      | Locked i spawned \<Rightarrow> i = 0 \<and> sp_calls s \<noteq> [] \<and> lock_calm s spawned
      | Shutdown _ \<Rightarrow> False
      | Superv k act \<Rightarrow>
          Suc k < length (sp_sups s) \<or>
          (case act of Connect ok _ \<Rightarrow> ok | Write ok \<Rightarrow> ok | StreamEnd \<Rightarrow> False | Finish _ \<Rightarrow> False | Exit \<Rightarrow> False | _ \<Rightarrow> True))"

fun calm_run :: "preview_step list \<Rightarrow> spawner \<Rightarrow> bool" where
  "calm_run [] s = True"
| "calm_run (st # sts) s = (calm s st \<and> calm_run sts (preview_do st s))"

text \<open>What a calm run keeps: the current process is up, its writer task runs, the buffered commands fit in the queue.\<close>

definition healthy :: "spawner \<Rightarrow> bool" where
  "healthy s =
     (sp_life s = Dead \<or>
      (let v = last (sp_sups s)
       in sv_up v \<and> sv_phase v \<noteq> Ending \<and> (sv_phase v = Connecting \<or> sv_writer v) \<and>
          (draining (sv_phase v) \<noteq> [] \<longrightarrow> length (sv_queue v) + length (draining (sv_phase v)) \<le> 3)))"

lemma buffered_length: "length (buffered d p g) \<le> 3"
  by (simp add: buffered_def split: option.split)

lemma shown_by_buffered: "shown_by (buffered d p g) = d"
  by (simp add: shown_by_def buffered_def command_intent_def split: option.split)

lemma pipeline_other [simp]:
  "pipeline (s\<lparr>sp_calls := c\<rparr>) = pipeline s" "pipeline (s\<lparr>sp_epoch := e\<rparr>) = pipeline s"
  "healthy (s\<lparr>sp_calls := c\<rparr>) = healthy s" "healthy (s\<lparr>sp_epoch := e\<rparr>) = healthy s"
  by (simp_all add: pipeline_def healthy_def Let_def cong: lifecycle.case_cong)

lemma shown_by_Nil [simp]: "shown_by [] = None"
  by (simp add: shown_by_def)

lemma shown_by_snoc [simp]: "shown_by (cs @ [c]) = command_intent c (shown_by cs)"
  by (simp add: shown_by_def)

lemma calm_sup:
  assumes "owner_inv s" "healthy s" "sp_sups s \<noteq> []" "k = length (sp_sups s) - 1" "calm s (Superv k act)"
  shows "pipeline (sup_do k act s) = pipeline s \<and> healthy (sup_do k act s)"
proof -
  obtain vs v where v: "sp_sups s = vs @ [v]" using assms(3) by (metis append_butlast_last_id)
  then have k: "k = length vs" using assms(4) by simp
  show ?thesis
    using assms(1,2,5) v k buffered_length
    by (cases "sp_life s"; cases "sv_phase v"; cases act)
      (auto simp: owner_inv_def owner_ok_def healthy_def calm_def pipeline_def draining_def sup_do_def on_event_def promote_def
        tell_one_def write_one_def drain_one_def send_or_drop_def senders_gone_def holds_sender_def PREVIEW_CMD_QUEUE_CAP_def
        Let_def nth_append
        split: preview_event.split list.split)
qed

lemma calm_old_sup:
  assumes "owner_inv s" "healthy s" "distinct (pids s)" "k < length (sp_sups s)" "k \<noteq> length (sp_sups s) - 1"
  shows "pipeline (sup_do k act s) = pipeline s \<and> healthy (sup_do k act s)"
proof -
  have ne: "sp_sups s \<noteq> []" using assms(4) by auto
  have nth: "sp_sups (sup_do k act s) ! (length (sp_sups s) - 1) = last (sp_sups s)"
    using old_supervisor_harmless(2)[OF assms(1,3-5), of act] ne
    by (metis last_conv_nth length_0_conv sup_do_length)
  have "sp_sups (sup_do k act s) ! j = sp_sups s ! j" if "sp_life s = Running pid j" for pid j
    using that assms(1) nth ne by (auto simp: owner_inv_def owner_ok_def last_conv_nth)
  then have "pipeline (sup_do k act s) = pipeline s"
    using old_supervisor_harmless(1)[OF assms(1,3-5)] by (auto simp: pipeline_def Let_def split: lifecycle.split)
  then show ?thesis
    using old_supervisor_harmless[OF assms(1,3-5)] assms(2) by (simp add: healthy_def)
qed

lemma calm_locked:
  assumes "owner_inv s" "healthy s" "lock_calm s spawned"
  shows "shown_by (pipeline (locked_call spawned t s)) = request_intent t (shown_by (pipeline s)) \<and> healthy (locked_call spawned t s)
    \<and> sp_epoch (locked_call spawned t s) = sp_epoch s \<and> sp_calls (locked_call spawned t s) = sp_calls s"
proof (cases "sp_life s")
  case Dead
  then show ?thesis using assms
    by (cases t; cases "snd t")
      (auto simp: lock_calm_def locked_call_def dispatch_def hide_def scroll_def set_parent_def clear_parent_def
        set_launcher_geometry_def pipeline_def shown_by_buffered request_intent_def healthy_def sup_new_def draining_def)
next
  case (Starting pid d p g)
  then show ?thesis using assms
    by (cases t; cases "snd t")
      (auto simp: lock_calm_def locked_call_def dispatch_def hide_def scroll_def set_parent_def clear_parent_def
        set_launcher_geometry_def pipeline_def shown_by_buffered request_intent_def healthy_def)
next
  case (Running pid k)
  then obtain vs v where v: "sp_sups s = vs @ [v]" using assms(1)
    by (metis append_butlast_last_id lifecycle.distinct(3) owner_inv_def)
  then have "k = length vs" using assms(1) Running by (simp add: owner_inv_def owner_ok_def)
  then show ?thesis using assms Running v
    by (cases t; cases "snd t")
      (auto simp: lock_calm_def locked_call_def dispatch_def hide_def scroll_def set_parent_def clear_parent_def
        set_launcher_geometry_def pipeline_def request_intent_def healthy_def send_running_cases command_intent_def Let_def
        simp flip: append_assoc)
qed

lemma calm_step:
  assumes "owner_inv s" "healthy s" "distinct (pids s)" "calm s st"
  shows "healthy (preview_do st s)"
    "shown_by (pipeline (preview_do st s)) =
       (case st of Locked _ _ \<Rightarrow> request_intent (hd (sp_calls s)) (shown_by (pipeline s)) | _ \<Rightarrow> shown_by (pipeline s))"
proof -
  have "healthy (preview_do st s) \<and> shown_by (pipeline (preview_do st s)) =
       (case st of Locked _ _ \<Rightarrow> request_intent (hd (sp_calls s)) (shown_by (pipeline s)) | _ \<Rightarrow> shown_by (pipeline s))"
  proof (cases st)
    case (Call c)
    then show ?thesis using assms(2)
      by (cases c) (simp_all add: preview_do_def begin_call_def)
  next
    case (Locked i spawned)
    then obtain t ts where t: "sp_calls s = t # ts" "i = 0"
      using assms(4) by (cases "sp_calls s") (auto simp: calm_def)
    let ?s = "s\<lparr>sp_calls := ts\<rparr>"
    have "owner_inv ?s" "healthy ?s" "pipeline ?s = pipeline s" "lock_calm ?s spawned"
      using assms t Locked by (auto simp: calm_def)
    then show ?thesis using calm_locked[of ?s spawned t] Locked t by (simp add: preview_do_def)
  next
    case (Shutdown alive)
    then show ?thesis using assms(4) by (simp add: calm_def)
  next
    case (Superv k act)
    have "pipeline (sup_do k act s) = pipeline s \<and> healthy (sup_do k act s)" if lt: "k < length (sp_sups s)"
    proof (cases "k = length (sp_sups s) - 1")
      case True
      moreover have "sp_sups s \<noteq> []" using lt by auto
      ultimately show ?thesis using calm_sup assms(1,2,4) Superv by blast
    qed (use assms(1-3) lt calm_old_sup in blast)
    then show ?thesis using assms(2) Superv by (simp add: preview_do_def)
  qed
  then show "healthy (preview_do st s)" "shown_by (pipeline (preview_do st s)) =
       (case st of Locked _ _ \<Rightarrow> request_intent (hd (sp_calls s)) (shown_by (pipeline s)) | _ \<Rightarrow> shown_by (pipeline s))" by auto
qed

text \<open>The counter and the calls that wait for the lock, in any run.\<close>

definition fresh_calls :: "call list \<Rightarrow> nat" where
  "fresh_calls cs = length (filter (\<lambda>c. case c of Dispatch _ _ \<Rightarrow> True | HideCall \<Rightarrow> True | _ \<Rightarrow> False) cs)"

lemma tickets_snoc:
  "tickets e (cs @ [c]) = tickets e cs @ [(e + fresh_calls (cs @ [c]), c)]"
  by (induction cs arbitrary: e) (auto simp: fresh_calls_def Let_def split: call.split)

lemma tickets_length [simp]: "length (tickets e cs) = length cs"
  by (induction cs arbitrary: e) (simp_all add: Let_def)

lemma sup_do_queue_of_calls [simp]: "sp_calls (sup_do k act s) = sp_calls s" "sp_epoch (sup_do k act s) = sp_epoch s"
  by (simp_all add: sup_do_def on_event_def promote_def reset_to_dead_def tell_one_def write_one_def drain_one_def
      send_or_drop_def Let_def split: sup_step.split preview_event.split lifecycle.split sup_phase.split list.split)

lemma preview_run_snoc [simp]: "preview_run (sts @ [st]) s = preview_do st (preview_run sts s)"
  by (induction sts arbitrary: s) simp_all

lemma calm_run_snoc [simp]: "calm_run (sts @ [st]) s = (calm_run sts s \<and> calm (preview_run sts s) st)"
  by (induction sts arbitrary: s) auto

lemma calm_run_refines:
  assumes "calm_run sts spawner_new" "distinct (pids (preview_run sts spawner_new))"
  shows "healthy (preview_run sts spawner_new)
    \<and> locks_of sts \<le> length (calls_of sts)
    \<and> sp_epoch (preview_run sts spawner_new) = fresh_calls (calls_of sts)
    \<and> sp_calls (preview_run sts spawner_new) = drop (locks_of sts) (tickets 0 (calls_of sts))
    \<and> shown_by (pipeline (preview_run sts spawner_new)) = fold request_intent (take (locks_of sts) (tickets 0 (calls_of sts))) None"
  using assms
proof (induction sts rule: rev_induct)
  case Nil
  then show ?case
    by (simp add: spawner_new_def healthy_def locks_of_def calls_of_def fresh_calls_def pipeline_def)
next
  case (snoc st sts)
  let ?s = "preview_run sts spawner_new"
  have d: "distinct (pids ?s)" using snoc.prems(2) by (auto dest: preview_do_distinct)
  have o: "owner_inv ?s" by (rule owner_inv_run[OF owner_inv_new d])
  have IH: "healthy ?s" "locks_of sts \<le> length (calls_of sts)" "sp_epoch ?s = fresh_calls (calls_of sts)"
    "sp_calls ?s = drop (locks_of sts) (tickets 0 (calls_of sts))"
    "shown_by (pipeline ?s) = fold request_intent (take (locks_of sts) (tickets 0 (calls_of sts))) None"
    using snoc.IH snoc.prems(1) d by auto
  have c: "calm ?s st" using snoc.prems(1) by simp
  note st = calm_step[OF o IH(1) d c]
  show ?case
  proof (cases st)
    case (Call call)
    then show ?thesis using IH st
      by (cases call) (simp_all add: preview_do_def begin_call_def calls_of_def locks_of_def tickets_snoc fresh_calls_def)
  next
    case (Locked i spawned)
    then have ne: "drop (locks_of sts) (tickets 0 (calls_of sts)) \<noteq> []" and i: "i = 0" using c IH(4) by (auto simp: calm_def)
    then have lt: "locks_of sts < length (tickets 0 (calls_of sts))" by simp
    have eq: "calls_of (sts @ [st]) = calls_of sts" "locks_of (sts @ [st]) = Suc (locks_of sts)"
      using Locked by (simp_all add: calls_of_def locks_of_def)
    have hd: "hd (sp_calls ?s) = tickets 0 (calls_of sts) ! locks_of sts" using IH(4) lt by (simp add: hd_drop_conv_nth)
    have "lock_calm (?s\<lparr>sp_calls := drop (Suc 0) (sp_calls ?s)\<rparr>) spawned"
      using c Locked by (auto simp: calm_def)
    from calm_locked[OF _ _ this] o IH(1) ne i IH(4)
    have "sp_epoch (preview_do st ?s) = sp_epoch ?s" "sp_calls (preview_do st ?s) = drop (Suc 0) (sp_calls ?s)"
      using Locked lt hd by (simp_all add: preview_do_def hd_conv_nth)
    then show ?thesis
      using st IH eq lt Locked hd by (simp add: take_Suc_conv_app_nth)
  next
    case (Shutdown alive)
    then show ?thesis using c by (simp add: calm_def)
  next
    case (Superv k act)
    then show ?thesis using IH st by (simp add: preview_do_def calls_of_def locks_of_def)
  qed
qed

text \<open>What the process shows is what its commands ask for.\<close>

lemma preview_after_snoc [simp]:
  "preview_after can_show token (cs @ [c]) = snd (handle_command can_show token c (preview_after can_show token cs))"
  by (simp add: preview_after_def)

lemma preview_shows_intent:
  assumes "\<And>h. can_show h"
  shows "pv_shown (preview_after can_show token cs) = shown_by cs"
proof (induction cs rule: rev_induct)
  case (snoc c cs)
  then show ?case using assms
    by (cases c) (simp_all add: handle_command_def preview_hide_def command_intent_def Let_def)
qed (simp add: preview_after_def preview_init_def)

lemma epoch_of_intent:
  "fold request_intent (tickets 0 cs) None = Some (e, h, m) \<Longrightarrow> e = fresh_calls cs"
proof (induction cs rule: rev_induct)
  case (snoc c cs)
  then show ?case by (cases c) (auto simp: tickets_snoc request_intent_def fresh_calls_def)
qed simp

section \<open>Delivery\<close>

text \<open>The steps that empty the pipeline of the current process.\<close>

definition settle :: "spawner \<Rightarrow> preview_step list" where
  "settle s =
     (case sp_life s of
        Running _ k \<Rightarrow>
          (let v = sp_sups s ! k; d = draining (sv_phase v)
           in replicate (length d) (Superv k Drain) @ replicate (length (sv_queue v) + length d) (Superv k (Write True)))
      | _ \<Rightarrow> [])"

lemma preview_run_append: "preview_run (xs @ ys) s = preview_run ys (preview_run xs s)"
  by (induction xs arbitrary: s) simp_all

lemma drain_all:
  assumes "sp_sups s = vs @ [v]" "sp_life s = Running pid (length vs)" "sv_phase v = Draining cs" "sv_writer v"
    "length (sv_queue v) + length cs \<le> PREVIEW_CMD_QUEUE_CAP"
  shows "\<exists>s'. preview_run (replicate (length cs) (Superv (length vs) Drain)) s = s' \<and> sp_life s' = sp_life s \<and>
    sp_sups s' = vs @ [v\<lparr>sv_phase := Draining [], sv_queue := sv_queue v @ cs\<rparr>]"
  using assms
proof (induction cs arbitrary: s v)
  case (Cons c cs)
  let ?v = "v\<lparr>sv_phase := Draining cs, sv_queue := sv_queue v @ [c]\<rparr>"
  have "preview_do (Superv (length vs) Drain) s = s\<lparr>sp_sups := vs @ [?v]\<rparr>"
    using Cons.prems by (simp add: preview_do_def sup_do_def drain_one_def send_or_drop_def set_phase_def set_sup_def Let_def)
  then show ?case using Cons.IH[of "s\<lparr>sp_sups := vs @ [?v]\<rparr>" ?v] Cons.prems by simp
qed auto

lemma write_all:
  assumes "sp_sups s = vs @ [v]" "sv_writer v" "sv_up v"
  shows "\<exists>s'. preview_run (replicate (length (sv_queue v)) (Superv (length vs) (Write True))) s = s' \<and> sp_life s' = sp_life s \<and>
    sp_sups s' = vs @ [v\<lparr>sv_queue := [], sv_wire := sv_wire v @ sv_queue v\<rparr>]"
  using assms
proof (induction "sv_queue v" arbitrary: s v)
  case (Cons c cs)
  let ?v = "v\<lparr>sv_queue := cs, sv_wire := sv_wire v @ [c]\<rparr>"
  have q: "sv_queue v = c # cs" using Cons.hyps(2) by simp
  have "preview_do (Superv (length vs) (Write True)) s = s\<lparr>sp_sups := vs @ [?v]\<rparr>"
    using Cons.prems q by (simp add: preview_do_def sup_do_def write_one_def set_sup_def Let_def)
  then show ?case using Cons.hyps(1)[of ?v "s\<lparr>sp_sups := vs @ [?v]\<rparr>"] Cons.prems q by simp
qed auto

lemma settle_delivers:
  assumes "owner_inv s" "healthy s" "sp_life s = Running pid k"
    "length (sv_queue (sp_sups s ! k)) + length (draining (sv_phase (sp_sups s ! k))) \<le> PREVIEW_CMD_QUEUE_CAP"
  shows "sv_wire (sp_sups (preview_run (settle s) s) ! k) = pipeline s"
proof -
  obtain vs v where v: "sp_sups s = vs @ [v]" using assms(1,3)
    by (metis append_butlast_last_id lifecycle.distinct(3) owner_inv_def)
  then have k: "k = length vs" using assms(1,3) by (simp add: owner_inv_def owner_ok_def)
  let ?d = "draining (sv_phase v)"
  have w: "sv_writer v" "sv_up v" using assms(1-3) v k by (auto simp: healthy_def Let_def owner_inv_def owner_ok_def)
  obtain s' ph where s': "preview_run (replicate (length ?d) (Superv k Drain)) s = s'" "sp_life s' = sp_life s"
    "sp_sups s' = vs @ [v\<lparr>sv_phase := ph, sv_queue := sv_queue v @ ?d\<rparr>]"
  proof (cases "\<exists>cs. sv_phase v = Draining cs")
    case True
    then obtain cs where "sv_phase v = Draining cs" by auto
    then show ?thesis using that drain_all[OF v, of pid cs] assms(3,4) v k w by (auto simp: draining_def)
  next
    case False
    then have "?d = []" by (auto simp: draining_def split: sup_phase.split)
    then show ?thesis using that[of s "sv_phase v"] v by simp
  qed
  show ?thesis
    using write_all[OF s'(3)] s' w assms(3) v k
    by (auto simp: settle_def Let_def preview_run_append pipeline_def)
qed

section \<open>Properties\<close>

text \<open>
  C17: The latest preview request wins. In a run in which calls get the lock in the order of their epochs, the current process
  lives and reads, its queue has room and no call falls between the promotion of a process and its last buffered command, the
  commands held for the process (buffered while it starts, queued, already written) make it show exactly what the last applied
  request asked for, whatever the interleaving with connecting, the promotion to ready, events, writes and the leftover
  supervisors of earlier processes. Emptying the queue needs only the steps \<open>settle\<close>; afterwards the process shows that
  content. When no call is waiting, the content carries the current epoch, so that an error report for it passes the epoch test
  of the supervisor.
\<close>

theorem latest_request_wins:
  assumes calm: "calm_run sts spawner_new" and pids: "distinct (pids (preview_run sts spawner_new))"
    and plugin: "\<And>h. can_show h"
    and run: "s = preview_run sts spawner_new" and asked: "want = fold request_intent (take (locks_of sts) (tickets 0 (calls_of sts))) None"
  shows "shown_by (pipeline s) = want
    \<and> (\<forall>pid k. sp_life s = Running pid k
           \<and> length (sv_queue (sp_sups s ! k)) + length (draining (sv_phase (sp_sups s ! k))) \<le> PREVIEW_CMD_QUEUE_CAP
         \<longrightarrow> pv_shown (preview_after can_show token (sv_wire (sp_sups (preview_run (settle s) s) ! k))) = want)
    \<and> (\<forall>e h m. sp_calls s = [] \<and> want = Some (e, h, m) \<longrightarrow> e = sp_epoch s)"
proof -
  note r = calm_run_refines[OF calm pids, folded run asked]
  have i: "shown_by (pipeline s) = want" using r by simp
  have "pv_shown (preview_after can_show token (sv_wire (sp_sups (preview_run (settle s) s) ! k))) = want"
    if "sp_life s = Running pid k"
      "length (sv_queue (sp_sups s ! k)) + length (draining (sv_phase (sp_sups s ! k))) \<le> PREVIEW_CMD_QUEUE_CAP" for pid k
    using settle_delivers[OF _ _ that] owner_inv_run[OF owner_inv_new pids] r run i preview_shows_intent[OF plugin] by simp
  moreover have "e = sp_epoch s" if "sp_calls s = []" "want = Some (e, h, m)" for e h m
    using r that epoch_of_intent[of "calls_of sts" e h m] asked by simp
  ultimately show ?thesis using i by blast
qed

text \<open>
  C18: One owner. In every run, however requests, supervisors, writers and exits interleave (the operating system not handing
  out one process id twice), a lifecycle that is not dead belongs to the process spawned last, and the supervisor of that
  process has not left, so its clean-up is still to come; no step of any other supervisor or writer changes the lifecycle or
  anything of the current process.
\<close>

theorem lifecycle_has_one_owner:
  assumes pids: "distinct (pids (preview_run sts spawner_new))" and run: "s = preview_run sts spawner_new"
  shows "(sp_life s \<noteq> Dead \<longrightarrow>
           sp_sups s \<noteq> [] \<and> life_pid (sp_life s) = Some (sv_pid (last (sp_sups s))) \<and> (\<forall>gs. sv_phase (last (sp_sups s)) \<noteq> Leaving gs))
    \<and> (\<forall>k act. k < length (sp_sups s) - 1 \<longrightarrow>
           sp_life (preview_do (Superv k act) s) = sp_life s \<and> last (sp_sups (preview_do (Superv k act) s)) = last (sp_sups s))"
proof -
  have inv: "owner_inv s" using owner_inv_run[OF owner_inv_new pids] run by simp
  have "sp_sups s \<noteq> [] \<and> life_pid (sp_life s) = Some (sv_pid (last (sp_sups s))) \<and> (\<forall>gs. sv_phase (last (sp_sups s)) \<noteq> Leaving gs)"
    if "sp_life s \<noteq> Dead"
    using inv that by (auto simp: owner_inv_def owner_ok_def life_pid_def split: lifecycle.splits sup_phase.splits)
  moreover have "sp_life (preview_do (Superv k act) s) = sp_life s \<and> last (sp_sups (preview_do (Superv k act) s)) = last (sp_sups s)"
    if "k < length (sp_sups s) - 1" for k act
    using old_supervisor_harmless[OF inv] pids run that by (simp add: preview_do_def)
  ultimately show ?thesis by blast
qed

text \<open>
  The circumstances of the first theorem are needed. Two concurrent requests can reach the lock in the wrong order, and the older
  one then replaces the newer one in the buffer, although the source calls the overwriting epoch always fresher.
\<close>

theorem older_request_overwrites:
  "sp_life (preview_run [Call (Dispatch h m), Call (Dispatch h' m'), Locked 1 (Some pid), Locked 0 None] spawner_new)
     = Starting pid (Some (1, h, m)) None None"
  by (simp add: preview_do_def begin_call_def locked_call_def dispatch_def spawner_new_def)

text \<open>
  The buffered commands are sent after the lock is released, not in one locked region: a request in between is overtaken by the
  older buffered one, and the process, which applies commands whatever their epoch, ends up showing the older content.
\<close>

theorem request_between_promotion_and_drain_is_reverted:
  assumes "\<And>x. can_show x"
    and "s = preview_run [Call (Dispatch h m), Locked 0 (Some pid), Superv 0 (Connect True True), Superv 0 (Event (ReadyEvent pid)),
               Call (Dispatch h' m'), Locked 0 None, Superv 0 Drain, Superv 0 (Write True), Superv 0 (Write True)] spawner_new"
  shows "sp_epoch s = 2" "pv_shown (preview_after can_show token (sv_wire (sp_sups s ! 0))) = Some (1, h, m)"
  using assms
  by (simp_all add: preview_do_def begin_call_def locked_call_def dispatch_def spawner_new_def sup_new_def sup_do_def on_event_def
      promote_def buffered_def drain_one_def write_one_def send_running_def send_or_drop_def set_phase_def set_sup_def Let_def
      PREVIEW_CMD_QUEUE_CAP_def preview_after_def handle_command_def)

text \<open>
  When a ready process exits, its supervisor drops its own sender and waits for the writer task; the lifecycle still holds the
  other sender, so the writer waits for a command and nothing happens: no supervisor step changes the state, the launcher is not
  told. The next request is accepted, fails in the writer, and only then the lifecycle is reset: that request is never shown.
\<close>

definition exited_run :: "hit \<Rightarrow> rstring option \<Rightarrow> nat \<Rightarrow> preview_step list" where
  "exited_run h m pid =
     [Call (Dispatch h m), Locked 0 (Some pid), Superv 0 (Connect True True), Superv 0 (Event (ReadyEvent pid)),
      Superv 0 Drain, Superv 0 Drain, Superv 0 (Write True), Superv 0 Exit, Superv 0 StreamEnd]"

lemma exited_state:
  "preview_run (exited_run h m pid) spawner_new =
     \<lparr>sp_life = Running pid 0, sp_epoch = 1, sp_geometry = None,
      sp_sups = [\<lparr>sv_pid = pid, sv_phase = Ending, sv_queue = [], sv_writer = True, sv_wire = [ShowOrUpdate 1 h m], sv_up = False\<rparr>],
      sp_calls = [], sp_gui = [], sp_signals = []\<rparr>"
  by (simp add: exited_run_def preview_do_def begin_call_def locked_call_def dispatch_def spawner_new_def sup_new_def sup_do_def
      on_event_def promote_def buffered_def drain_one_def write_one_def send_running_def send_or_drop_def set_phase_def set_sup_def
      Let_def PREVIEW_CMD_QUEUE_CAP_def)

theorem exited_preview_loses_next_request:
  assumes "s = preview_run (exited_run h m pid) spawner_new"
    and "t = preview_run [Call (Dispatch h' m'), Locked 0 spawned, Superv 0 (Write True), Superv 0 (Finish alive)] s"
  shows "preview_do (Superv 0 act) s = s" "sp_gui s = []" "fst (dispatch spawned 2 h' m' s) = False"
    "sp_life t = Dead" "pipeline t = []" "sv_wire (sp_sups t ! 0) = [ShowOrUpdate 1 h m]"
proof -
  show "preview_do (Superv 0 act) s = s"
    using assms(1) by (simp add: exited_state preview_do_def sup_do_def tell_one_def write_one_def senders_gone_def set_sup_def
        Let_def split: sup_step.split)
  show "sp_gui s = []" "fst (dispatch spawned 2 h' m' s) = False"
    using assms(1) by (simp_all add: exited_state dispatch_def send_running_def send_or_drop_def PREVIEW_CMD_QUEUE_CAP_def Let_def)
  show "sp_life t = Dead" "pipeline t = []" "sv_wire (sp_sups t ! 0) = [ShowOrUpdate 1 h m]"
    using assms by (simp_all add: exited_state pipeline_def preview_do_def begin_call_def locked_call_def dispatch_def sup_do_def write_one_def
        send_running_def send_or_drop_def set_phase_def set_sup_def reset_to_dead_def life_pid_def PREVIEW_CMD_QUEUE_CAP_def Let_def)
qed

section \<open>Witnesses\<close>

definition example_hit :: "rstring \<Rightarrow> hit" where
  "example_hit name = \<lparr>hit_id = name, hit_category = File, hit_title = name, hit_subtitle = [], hit_icon_name = None,
     hit_kind_label = None, hit_score = 1, hit_action = OpenFile name, hit_extract_fail = False, hit_sender = None,
     hit_recipients = None, hit_body = None, hit_secondary_action = None, hit_source_instance = [], hit_row_menu = [],
     hit_mime = None, hit_timestamp = None, hit_size = None\<rparr>"

definition example_preview_run :: "preview_step list" where
  "example_preview_run =
     [Call (GeometryCall ([], 0, 0, 8, 6)), Locked 0 (Some 7), Call (Dispatch (example_hit [1]) None), Locked 0 (Some 7),
      Superv 0 (Connect True True), Call (Dispatch (example_hit [2]) None), Call (SetParentCall [9]), Locked 0 None, Locked 0 None,
      Superv 0 (Event (ReadyEvent 7)), Superv 0 Drain, Superv 0 (Write True), Superv 0 Drain, Superv 0 Drain,
      Call (Dispatch (example_hit [3]) None), Locked 0 None]"

lemmas preview_eval =
  example_preview_run_def preview_do_def begin_call_def locked_call_def dispatch_def set_parent_def set_launcher_geometry_def
  spawner_new_def sup_new_def sup_do_def on_event_def promote_def buffered_def drain_one_def write_one_def send_running_def
  send_or_drop_def set_phase_def set_sup_def PREVIEW_CMD_QUEUE_CAP_def draining_def Let_def

lemma example_preview_state:
  "preview_run example_preview_run spawner_new =
     \<lparr>sp_life = Running 7 0, sp_epoch = 3, sp_geometry = Some ([], 0, 0, 8, 6),
      sp_sups = [\<lparr>sv_pid = 7, sv_phase = Draining [],
        sv_queue = [ShowOrUpdate 2 (example_hit [2]) None, LauncherGeometry ([], 0, 0, 8, 6), ShowOrUpdate 3 (example_hit [3]) None],
        sv_writer = True, sv_wire = [SetParent [9]], sv_up = True\<rparr>],
      sp_calls = [], sp_gui = [], sp_signals = []\<rparr>"
  by (simp add: preview_eval)

theorem latest_request_wins_witness:
  "shown_by (pipeline (preview_run example_preview_run spawner_new)) = Some (3, example_hit [3], None)
   \<and> pv_shown (preview_after (\<lambda>_. True) None
       (sv_wire (sp_sups (preview_run (settle (preview_run example_preview_run spawner_new)) (preview_run example_preview_run spawner_new)) ! 0)))
     = Some (3, example_hit [3], None)
   \<and> 3 = sp_epoch (preview_run example_preview_run spawner_new)"
proof -
  have calm: "calm_run example_preview_run spawner_new"
    by (simp add: preview_eval calm_def lock_calm_def)
  have pids: "distinct (pids (preview_run example_preview_run spawner_new))"
    by (simp add: example_preview_state pids_def)
  have want: "Some (3, example_hit [3], None) =
      fold request_intent (take (locks_of example_preview_run) (tickets 0 (calls_of example_preview_run))) None"
    by (simp add: example_preview_run_def locks_of_def calls_of_def request_intent_def Let_def numeral_eq_Suc)
  note w = latest_request_wins[of example_preview_run "\<lambda>_. True", OF calm pids TrueI refl want]
  show ?thesis
    using w[of None] by (simp add: example_preview_state PREVIEW_CMD_QUEUE_CAP_def draining_def)
qed

definition example_restart :: "preview_step list" where
  "example_restart =
     [Call (Dispatch (example_hit [1]) None), Locked 0 (Some 7), Superv 0 (Connect False True),
      Call (Dispatch (example_hit [2]) None), Locked 0 (Some 8)]"

theorem lifecycle_has_one_owner_witness:
  "life_pid (sp_life (preview_run example_restart spawner_new)) = Some 8
   \<and> sp_life (preview_do (Superv 0 Tell) (preview_run example_restart spawner_new)) = sp_life (preview_run example_restart spawner_new)"
proof -
  have state: "distinct (pids (preview_run example_restart spawner_new))"
    "sp_life (preview_run example_restart spawner_new) = Starting 8 (Some (2, example_hit [2], None)) None None"
    "length (sp_sups (preview_run example_restart spawner_new)) = 2"
    by (simp_all add: example_restart_def preview_eval reset_to_dead_def life_pid_def pids_def)
  show ?thesis
    using lifecycle_has_one_owner[OF state(1) refl] state(2,3)
    by (simp add: life_pid_def)
qed

end
