(* ===== verification/Semantic_Worker.thy ===== *)
theory Semantic_Worker
  imports Index_Writer
begin

text \<open>
  The embedding side of the semantic worker, \<^verbatim>\<open>lixun-semantic-worker/src\<close>: the job loop with its flush windows
  (\<^verbatim>\<open>worker.rs\<close>), the progress journal (\<^verbatim>\<open>journal.rs\<close>), the write operations of the vector store
  (\<^verbatim>\<open>store.rs\<close>), and on the daemon's side the broadcaster that turns a committed batch into jobs
  (\<^verbatim>\<open>lixun-source-semantic-stub/src/source.rs\<close>).

  The embedding models, the image decoder, LanceDB and SQLite are third-party code: the models and the decoder are functions
  that may fail, a statement on a table or on the journal succeeds or fails as the environment of the wake-up says. A vector
  table maps a document id to its row, since every write is a merge on the id. Times are milliseconds.
\<close>

section \<open>The vector tables\<close>

type_synonym vec = "f32 list"

record vector_row =
  vr_doc_id :: doc_id
  vr_source_instance :: rstring
  vr_mtime :: int
  vr_vector :: vec

type_synonym vector_table = "doc_id \<rightharpoonup> vector_row"

text \<open>A merge with two source rows of one id is refused by LanceDB as ambiguous.\<close>

definition upsert_many :: "bool \<Rightarrow> nat \<Rightarrow> vector_row list \<Rightarrow> vector_table \<Rightarrow> vector_table option" where
  "upsert_many ok width rows table =
     (if rows = [] then Some table
      else if list_ex (\<lambda>r. length (vr_vector r) \<noteq> width) rows then None
      else if \<not> distinct (map vr_doc_id rows) \<or> \<not> ok then None
      else Some (fold (\<lambda>r t. t(vr_doc_id r \<mapsto> r)) rows table))"

section \<open>The journal\<close>

type_synonym journal = "doc_id \<rightharpoonup> rstring \<times> int \<times> int"

definition CHANNEL_TEXT :: rstring where
  "CHANNEL_TEXT = lit ''text''"

definition CHANNEL_IMAGE :: rstring where
  "CHANNEL_IMAGE = lit ''image''"

text \<open>The primary key is the document id alone, so \<open>INSERT OR REPLACE\<close> replaces the row of either channel.\<close>

definition journal_record :: "doc_id \<Rightarrow> rstring \<Rightarrow> int \<Rightarrow> int \<Rightarrow> journal \<Rightarrow> journal" where
  "journal_record i channel embedded_at mtime j = j(i \<mapsto> (channel, embedded_at, mtime))"

definition is_current :: "doc_id \<Rightarrow> rstring \<Rightarrow> int \<Rightarrow> journal \<Rightarrow> bool" where
  "is_current i channel mtime j =
     (mtime \<noteq> 0 \<and> (case j i of Some (c, _, m) \<Rightarrow> c = channel \<and> m = mtime | None \<Rightarrow> False))"

definition forget :: "doc_id \<Rightarrow> journal \<Rightarrow> journal" where
  "forget i j = j(i := None)"

definition was_embedded :: "doc_id \<Rightarrow> rstring \<Rightarrow> journal \<Rightarrow> bool" where
  "was_embedded i channel j = (case j i of Some (c, _, _) \<Rightarrow> c = channel | None \<Rightarrow> False)"

section \<open>The worker\<close>

datatype embed_job = EmbedUpsert upserted_doc | EmbedDelete doc_id

datatype channel = TextChannel | ImageChannel | SkipChannel

definition EMBED_SUB_BATCH_TEXT :: nat where
  "EMBED_SUB_BATCH_TEXT = 16"

definition EMBED_SUB_BATCH_IMAGE :: nat where
  "EMBED_SUB_BATCH_IMAGE = 8"

definition classify :: "upserted_doc \<Rightarrow> channel" where
  "classify d =
     (if (case ud_mime d of Some m \<Rightarrow> starts_with m (lit ''image/'') | None \<Rightarrow> False) then ImageChannel
      else case ud_body d of
             Some body \<Rightarrow> if trim body \<noteq> [] then TextChannel else SkipChannel
           | None \<Rightarrow> SkipChannel)"

definition compose_text_input :: "upserted_doc \<Rightarrow> rstring" where
  "compose_text_input d = (case ud_body d of Some body \<Rightarrow> body | None \<Rightarrow> [])"

text \<open>The values of a hash map filled in order: the last document of every id (their order does not matter below).\<close>

definition dedup_by_doc_id :: "upserted_doc list \<Rightarrow> upserted_doc list" where
  "dedup_by_doc_id batch = map snd (fold (\<lambda>d m. AList.update (ud_doc_id d) d m) batch [])"

record embed_cfg =
  wc_flush_ms :: nat
  wc_batch_size :: nat
  wc_text_dim :: nat
  wc_image_dim :: nat

record embed_env =
  ee_text_model :: "rstring list \<Rightarrow> vec list option"
  ee_image_model :: "rstring list \<Rightarrow> vec list option"
  ee_prepare :: "rstring list \<Rightarrow> rstring list option"
  ee_text_write :: bool
  ee_image_write :: bool
  ee_text_delete :: bool
  ee_image_delete :: bool
  ee_journal_read :: bool
  ee_journal_write :: "doc_id \<Rightarrow> bool"
  ee_unix_seconds :: int

record embed_worker =
  ew_text :: vector_table
  ew_image :: vector_table
  ew_journal :: journal
  ew_pending_text :: "upserted_doc list"
  ew_pending_images :: "upserted_doc list"
  ew_pending_deletes :: "doc_id list"
  ew_last_flush :: nat
  ew_flush_count :: nat


text \<open>Sub-batches: the model runs on one chunk after the other, the first failure drops the whole batch.\<close>

function embed_chunks :: "('a list \<Rightarrow> vec list option) \<Rightarrow> nat \<Rightarrow> 'a list \<Rightarrow> vec list option" where
  "embed_chunks model n xs =
     (if xs = [] \<or> n = 0 then Some []
      else case model (take n xs) of
             None \<Rightarrow> None
           | Some vs \<Rightarrow> map_option (append vs) (embed_chunks model n (drop n xs)))"
  by pat_completeness auto

termination
  by (relation "measure (\<lambda>(_, _, xs). length xs)") auto

declare embed_chunks.simps [simp del]

definition already_embedded :: "embed_env \<Rightarrow> upserted_doc \<Rightarrow> rstring \<Rightarrow> embed_worker \<Rightarrow> bool" where
  "already_embedded env d channel w = (ee_journal_read env \<and> is_current (ud_doc_id d) channel (ud_mtime d) (ew_journal w))"

definition handle_job :: "embed_env \<Rightarrow> embed_job \<Rightarrow> embed_worker \<Rightarrow> embed_worker" where
  "handle_job env job w =
     (case job of
        EmbedUpsert d \<Rightarrow>
          (case classify d of
             TextChannel \<Rightarrow>
               if already_embedded env d CHANNEL_TEXT w then w else w\<lparr>ew_pending_text := ew_pending_text w @ [d]\<rparr>
           | ImageChannel \<Rightarrow>
               if already_embedded env d CHANNEL_IMAGE w then w else w\<lparr>ew_pending_images := ew_pending_images w @ [d]\<rparr>
           | SkipChannel \<Rightarrow> w)
      | EmbedDelete i \<Rightarrow> w\<lparr>ew_pending_deletes := ew_pending_deletes w @ [i]\<rparr>)"

definition row_of :: "upserted_doc \<Rightarrow> vec \<Rightarrow> vector_row" where
  "row_of d v = \<lparr>vr_doc_id = ud_doc_id d, vr_source_instance = ud_source_instance d, vr_mtime = ud_mtime d, vr_vector = v\<rparr>"

definition record_batch :: "embed_env \<Rightarrow> rstring \<Rightarrow> upserted_doc list \<Rightarrow> journal \<Rightarrow> journal" where
  "record_batch env channel batch j =
     fold (\<lambda>d j. if ee_journal_write env (ud_doc_id d)
                  then journal_record (ud_doc_id d) channel (ee_unix_seconds env) (ud_mtime d) j else j) batch j"

definition flush_text :: "embed_cfg \<Rightarrow> embed_env \<Rightarrow> nat \<Rightarrow> embed_worker \<Rightarrow> embed_worker" where
  "flush_text cfg env now w0 =
     (let w = w0\<lparr>ew_last_flush := now\<rparr>
      in if ew_pending_text w = [] then w
         else let batch = dedup_by_doc_id (ew_pending_text w); w1 = w\<lparr>ew_pending_text := []\<rparr>
              in case embed_chunks (ee_text_model env) EMBED_SUB_BATCH_TEXT (map compose_text_input batch) of
                   None \<Rightarrow> w1
                 | Some vectors \<Rightarrow>
                     if length vectors \<noteq> length batch then w1
                     else case upsert_many (ee_text_write env) (wc_text_dim cfg) (map2 row_of batch vectors) (ew_text w1) of
                            None \<Rightarrow> w1
                          | Some t \<Rightarrow> w1\<lparr>ew_text := t, ew_journal := record_batch env CHANNEL_TEXT batch (ew_journal w1)\<rparr>)"

definition image_paths :: "upserted_doc list \<Rightarrow> rstring list" where
  "image_paths batch = List.map_filter (\<lambda>d. strip_prefix (ud_doc_id d) (lit ''fs:'')) batch"

definition flush_images :: "embed_cfg \<Rightarrow> embed_env \<Rightarrow> embed_worker \<Rightarrow> embed_worker" where
  "flush_images cfg env w =
     (if ew_pending_images w = [] then w
      else let batch = dedup_by_doc_id (ew_pending_images w); w1 = w\<lparr>ew_pending_images := []\<rparr>; original = image_paths batch
           in if original = [] then w1
              else case ee_prepare env original of
                     None \<Rightarrow> w1
                   | Some paths \<Rightarrow>
                       if paths = [] then w1
                       else case embed_chunks (ee_image_model env) EMBED_SUB_BATCH_IMAGE paths of
                              None \<Rightarrow> w1
                            | Some vectors \<Rightarrow>
                                if length vectors \<noteq> length batch then w1
                                else case upsert_many (ee_image_write env) (wc_image_dim cfg) (map2 row_of batch vectors) (ew_image w1) of
                                       None \<Rightarrow> w1
                                     | Some t \<Rightarrow> w1\<lparr>ew_image := t, ew_journal := record_batch env CHANNEL_IMAGE batch (ew_journal w1)\<rparr>)"

definition store_delete :: "embed_env \<Rightarrow> doc_id list \<Rightarrow> embed_worker \<Rightarrow> embed_worker \<times> bool" where
  "store_delete env ids w =
     (if ids = [] then (w, True)
      else if \<not> ee_text_delete env then (w, False)
      else let w1 = w\<lparr>ew_text := ew_text w |` (- set ids)\<rparr>
           in if \<not> ee_image_delete env then (w1, False)
              else (w1\<lparr>ew_image := ew_image w1 |` (- set ids)\<rparr>, True))"

definition flush_deletes :: "embed_env \<Rightarrow> embed_worker \<Rightarrow> embed_worker" where
  "flush_deletes env w =
     (if ew_pending_deletes w = [] then w
      else let ids = remdups_adj (sort (ew_pending_deletes w))
           in case store_delete env ids (w\<lparr>ew_pending_deletes := []\<rparr>) of
                (w1, False) \<Rightarrow> w1
              | (w1, True) \<Rightarrow> w1\<lparr>ew_journal := fold (\<lambda>i j. if ee_journal_write env i then forget i j else j) ids (ew_journal w1)\<rparr>)"

text \<open>Compaction and index maintenance rewrite the tables without changing their rows.\<close>

definition maybe_compact :: "embed_worker \<Rightarrow> embed_worker" where
  "maybe_compact w = w\<lparr>ew_flush_count := (ew_flush_count w + 1) mod 2 ^ 64\<rparr>"

definition flush_all :: "embed_cfg \<Rightarrow> embed_env \<Rightarrow> nat \<Rightarrow> embed_worker \<Rightarrow> embed_worker" where
  "flush_all cfg env now w = maybe_compact (flush_deletes env (flush_images cfg env (flush_text cfg env now w)))"

text \<open>
  One turn of the loop. At its head the worker waits for the rest of the flush period, or without limit when none is left; so a
  timeout is possible only while the timer is armed.
\<close>

datatype wake = Received embed_job | ChannelClosed | TimedOut

definition armed :: "embed_cfg \<Rightarrow> nat \<Rightarrow> embed_worker \<Rightarrow> bool" where
  "armed cfg head_time w = (head_time - ew_last_flush w < wc_flush_ms cfg)"

definition worker_wake :: "embed_cfg \<Rightarrow> embed_env \<Rightarrow> nat \<Rightarrow> wake \<Rightarrow> embed_worker \<Rightarrow> embed_worker" where
  "worker_wake cfg env now wk w =
     (case wk of
        Received job \<Rightarrow>
          (let w1 = handle_job env job w
           in if wc_batch_size cfg \<le> length (ew_pending_text w1) \<or> wc_batch_size cfg \<le> length (ew_pending_images w1)
                \<or> wc_batch_size cfg \<le> length (ew_pending_deletes w1)
              then flush_all cfg env now w1 else w1)
      | ChannelClosed \<Rightarrow> flush_all cfg env now w
      | TimedOut \<Rightarrow> flush_all cfg env now w)"

record turn =
  tn_head :: nat
  tn_wake :: wake
  tn_time :: nat
  tn_env :: embed_env

definition turn_possible :: "embed_cfg \<Rightarrow> turn \<Rightarrow> embed_worker \<Rightarrow> bool" where
  "turn_possible cfg tn w = (tn_wake tn = TimedOut \<longrightarrow> armed cfg (tn_head tn) w)"

definition worker_turn :: "embed_cfg \<Rightarrow> turn \<Rightarrow> embed_worker \<Rightarrow> embed_worker" where
  "worker_turn cfg tn w = worker_wake cfg (tn_env tn) (tn_time tn) (tn_wake tn) w"

fun worker_run :: "embed_cfg \<Rightarrow> turn list \<Rightarrow> embed_worker \<Rightarrow> embed_worker" where
  "worker_run cfg [] w = w"
| "worker_run cfg (tn # tns) w = worker_run cfg tns (worker_turn cfg tn w)"

section \<open>Backfill\<close>

record doc_source =
  ds_ids :: "doc_id list"
  ds_hydrate :: "doc_id \<Rightarrow> hit option option"
  ds_body :: "doc_id \<Rightarrow> rstring option option"

definition backfill_doc :: "doc_source \<Rightarrow> doc_id \<Rightarrow> upserted_doc option" where
  "backfill_doc ds i =
     (case ds_hydrate ds i of
        None \<Rightarrow> None
      | Some None \<Rightarrow> None
      | Some (Some h) \<Rightarrow>
          let body = (case hit_body h of
                        Some b \<Rightarrow> if trim b \<noteq> [] then Some (Some b) else ds_body ds i
                      | None \<Rightarrow> ds_body ds i)
          in case body of
               None \<Rightarrow> None
             | Some b \<Rightarrow> Some \<lparr>ud_doc_id = i, ud_source_instance = hit_source_instance h, ud_mtime = 0, ud_mime = hit_mime h, ud_body = b\<rparr>)"

text \<open>The jobs submitted, and the counts reported (submitted, total).\<close>

definition start_backfill :: "doc_source \<Rightarrow> journal \<Rightarrow> embed_job list \<times> nat \<times> nat" where
  "start_backfill ds j =
     (let fresh = filter (\<lambda>i. \<not> (was_embedded i CHANNEL_TEXT j \<and> was_embedded i CHANNEL_IMAGE j)) (ds_ids ds);
          jobs = map EmbedUpsert (List.map_filter (backfill_doc ds) fresh)
      in (jobs, length jobs, length (ds_ids ds)))"

section \<open>The broadcaster\<close>

text \<open>The jobs the worker receives for a committed batch, when every send succeeds: all upserts, then the deletes.\<close>

fun dedup_seen :: "doc_id list \<Rightarrow> doc_id list \<Rightarrow> doc_id list" where
  "dedup_seen seen [] = []"
| "dedup_seen seen (i # ids) = (if i \<in> set seen then dedup_seen seen ids else i # dedup_seen (i # seen) ids)"

definition broadcast_jobs :: "mutation_batch \<Rightarrow> embed_job list" where
  "broadcast_jobs b = map EmbedUpsert (mb_upserts b) @ map EmbedDelete (dedup_seen [] (mb_deletes b))"

section \<open>Batches\<close>

text \<open>The last pending document of an id.\<close>

definition pend_map :: "upserted_doc list \<Rightarrow> doc_id \<rightharpoonup> upserted_doc" where
  "pend_map ds = fold (\<lambda>d m. m(ud_doc_id d \<mapsto> d)) ds Map.empty"

lemma pend_map_Nil [simp]: "pend_map [] = Map.empty"
  by (simp add: pend_map_def)

lemma pend_map_snoc [simp]: "pend_map (ds @ [d]) = (pend_map ds)(ud_doc_id d \<mapsto> d)"
  by (simp add: pend_map_def)

lemma pend_map_mem: "pend_map ds i = Some d \<Longrightarrow> d \<in> set ds \<and> ud_doc_id d = i"
  by (induction ds rule: rev_induct) (auto split: if_splits)

lemma pend_map_None: "pend_map ds i = None \<longleftrightarrow> i \<notin> ud_doc_id ` set ds"
  by (induction ds rule: rev_induct) auto

lemma alist_update_all:
  "\<forall>(i, e)\<in>set al. P i e \<Longrightarrow> P k v \<Longrightarrow> \<forall>(i, e)\<in>set (AList.update k v al). P i e"
  by (induction al) auto

lemma dedup_al:
  defines "al ds \<equiv> fold (\<lambda>d m. AList.update (ud_doc_id d) d m) ds []"
  shows "map_of (al ds) = pend_map ds" "distinct (map fst (al ds))" "\<forall>(i, d)\<in>set (al ds). ud_doc_id d = i"
proof -
  have "map_of (al ds) = pend_map ds \<and> distinct (map fst (al ds)) \<and> (\<forall>(i, d)\<in>set (al ds). ud_doc_id d = i)"
  proof (induction ds rule: rev_induct)
    case (snoc d ds)
    have "al (ds @ [d]) = AList.update (ud_doc_id d) d (al ds)" by (simp add: al_def)
    moreover have "\<forall>(i, e)\<in>set (AList.update (ud_doc_id d) d (al ds)). ud_doc_id e = i"
      by (rule alist_update_all) (use snoc in auto)
    ultimately show ?case using snoc by (simp add: update_conv' distinct_update)
  qed (simp add: al_def)
  then show "map_of (al ds) = pend_map ds" "distinct (map fst (al ds))" "\<forall>(i, d)\<in>set (al ds). ud_doc_id d = i" by auto
qed

lemma dedup_ids: "map ud_doc_id (dedup_by_doc_id ds) = map fst (fold (\<lambda>d m. AList.update (ud_doc_id d) d m) ds [])"
  using dedup_al(3)[of ds] by (auto simp: dedup_by_doc_id_def)

lemma dedup_distinct: "distinct (map ud_doc_id (dedup_by_doc_id ds))"
  using dedup_al(2) by (simp add: dedup_ids)

lemma dedup_mem: "d \<in> set (dedup_by_doc_id ds) \<longleftrightarrow> pend_map ds (ud_doc_id d) = Some d"
proof -
  have "d \<in> set (dedup_by_doc_id ds) \<longleftrightarrow> (\<exists>i. (i, d) \<in> set (fold (\<lambda>d m. AList.update (ud_doc_id d) d m) ds []))"
    by (force simp: dedup_by_doc_id_def)
  also have "\<dots> \<longleftrightarrow> (ud_doc_id d, d) \<in> set (fold (\<lambda>d m. AList.update (ud_doc_id d) d m) ds [])"
    using dedup_al(3)[of ds] by auto
  also have "\<dots> \<longleftrightarrow> pend_map ds (ud_doc_id d) = Some d"
    using dedup_al(1)[of ds] map_of_eq_Some_iff[OF dedup_al(2)[of ds]] by simp
  finally show ?thesis .
qed

lemma dedup_ids_set: "ud_doc_id ` set (dedup_by_doc_id ds) = ud_doc_id ` set ds"
proof -
  have "set (map ud_doc_id (dedup_by_doc_id ds)) = dom (pend_map ds)"
    using dedup_al(1)[of ds] dom_map_of_conv_image_fst[of "fold (\<lambda>d m. AList.update (ud_doc_id d) d m) ds []"]
    by (simp only: dedup_ids set_map)
  also have "\<dots> = ud_doc_id ` set ds" by (rule set_eqI) (metis pend_map_None domIff)
  finally show ?thesis by simp
qed

lemma dedup_Nil [simp]: "dedup_by_doc_id ds = [] \<longleftrightarrow> ds = []"
  using dedup_ids_set[of ds] by auto

lemma dedup_of_Nil [simp]: "dedup_by_doc_id [] = []"
  by simp

text \<open>A model that maps every input by itself gives the same vectors in chunks.\<close>

lemma embed_chunks_pointwise:
  assumes "\<And>xs. model xs = Some (map f xs)" "0 < n"
  shows "embed_chunks model n xs = Some (map f xs)"
proof (induction xs rule: length_induct)
  case (1 xs)
  show ?case
  proof (cases "xs = []")
    case True
    then show ?thesis by (simp add: embed_chunks.simps)
  next
    case False
    then have "embed_chunks model n (drop n xs) = Some (map f (drop n xs))" using 1 assms(2) by simp
    then show ?thesis using False assms by (subst embed_chunks.simps) (simp flip: map_append)
  qed
qed

lemma fold_rows:
  assumes "distinct (map vr_doc_id rows)"
  shows "fold (\<lambda>r t. t(vr_doc_id r \<mapsto> r)) rows t i = (case find (\<lambda>r. vr_doc_id r = i) rows of Some r \<Rightarrow> Some r | None \<Rightarrow> t i)"
  using assms
proof (induction rows arbitrary: t)
  case (Cons r rows)
  then have "find (\<lambda>r'. vr_doc_id r' = vr_doc_id r) rows = None" by (auto simp: find_None_iff image_iff)
  then show ?case using Cons by (auto split: option.splits)
qed simp

section \<open>One window\<close>

text \<open>An environment in which the text side works: the model maps texts one by one to vectors of the right width, writes succeed.\<close>

definition text_env_ok :: "embed_cfg \<Rightarrow> (rstring \<Rightarrow> vec) \<Rightarrow> embed_env \<Rightarrow> bool" where
  "text_env_ok cfg f env \<longleftrightarrow>
     (\<forall>xs. ee_text_model env xs = Some (map f xs)) \<and> ee_text_write env \<and> ee_text_delete env \<and> ee_image_delete env \<and>
     (\<forall>i. ee_journal_write env i)"

definition text_row :: "(rstring \<Rightarrow> vec) \<Rightarrow> upserted_doc \<Rightarrow> vector_row" where
  "text_row f d = row_of d (f (compose_text_input d))"

lemma row_of_id [simp]: "vr_doc_id (row_of d v) = ud_doc_id d" "vr_vector (row_of d v) = v" "vr_mtime (row_of d v) = ud_mtime d"
  by (simp_all add: row_of_def)

lemma text_row_simps [simp]: "vr_doc_id (text_row f d) = ud_doc_id d" "vr_vector (text_row f d) = f (compose_text_input d)"
  "vr_mtime (text_row f d) = ud_mtime d"
  by (simp_all add: text_row_def)

lemma map2_row: "map2 row_of ds (map (f \<circ> compose_text_input) ds) = map (text_row f) ds"
  by (induction ds) (simp_all add: text_row_def)

lemma find_dedup: "find (\<lambda>d. ud_doc_id d = i) (dedup_by_doc_id ds) = pend_map ds i"
proof (cases "pend_map ds i")
  case None
  then have "i \<notin> ud_doc_id ` set (dedup_by_doc_id ds)" by (simp add: pend_map_None dedup_ids_set)
  then have "find (\<lambda>d. ud_doc_id d = i) (dedup_by_doc_id ds) = None" by (auto simp: find_None_iff)
  then show ?thesis using None by simp
next
  case (Some d)
  then have d: "ud_doc_id d = i" "d \<in> set (dedup_by_doc_id ds)" using pend_map_mem[of ds i d] by (auto simp: dedup_mem)
  obtain e where e: "find (\<lambda>d. ud_doc_id d = i) (dedup_by_doc_id ds) = Some e"
    using d by (cases "find (\<lambda>d. ud_doc_id d = i) (dedup_by_doc_id ds)") (auto simp: find_None_iff)
  then have "ud_doc_id e = i" "e \<in> set (dedup_by_doc_id ds)" by (auto simp: find_Some_iff)
  then show ?thesis using e Some dedup_mem[of e ds] by simp
qed

lemma record_batch_lookup:
  assumes "\<forall>i. ee_journal_write env i" "distinct (map ud_doc_id ds)"
  shows "record_batch env channel ds j i =
    (case find (\<lambda>d. ud_doc_id d = i) ds of Some d \<Rightarrow> Some (channel, ee_unix_seconds env, ud_mtime d) | None \<Rightarrow> j i)"
  using assms(2)
proof (induction ds arbitrary: j)
  case (Cons d ds)
  have step: "record_batch env channel (d # ds) j =
      record_batch env channel ds (journal_record (ud_doc_id d) channel (ee_unix_seconds env) (ud_mtime d) j)"
    using assms(1) by (simp add: record_batch_def)
  have "find (\<lambda>e. ud_doc_id e = ud_doc_id d) ds = None" using Cons.prems by (auto simp: find_None_iff image_iff)
  then show ?case using Cons by (auto simp: step journal_record_def split: option.splits)
qed (simp add: record_batch_def)

lemma find_map_rows: "find (\<lambda>r. vr_doc_id r = i) (map (text_row f) ds) = map_option (text_row f) (find (\<lambda>d. ud_doc_id d = i) ds)"
  by (induction ds) simp_all

lemma flush_text_ok:
  assumes "text_env_ok cfg f env" "\<And>x. length (f x) = wc_text_dim cfg"
  shows "ew_text (flush_text cfg env now w) i =
           (case pend_map (ew_pending_text w) i of Some d \<Rightarrow> Some (text_row f d) | None \<Rightarrow> ew_text w i)"
    "ew_journal (flush_text cfg env now w) i =
       (case pend_map (ew_pending_text w) i of
          Some d \<Rightarrow> Some (CHANNEL_TEXT, ee_unix_seconds env, ud_mtime d) | None \<Rightarrow> ew_journal w i)"
    "ew_pending_text (flush_text cfg env now w) = []" "ew_pending_deletes (flush_text cfg env now w) = ew_pending_deletes w"
    "ew_pending_images (flush_text cfg env now w) = ew_pending_images w" "ew_last_flush (flush_text cfg env now w) = now"
proof -
  let ?b = "dedup_by_doc_id (ew_pending_text w)"
  have vs: "embed_chunks (ee_text_model env) EMBED_SUB_BATCH_TEXT (map compose_text_input ?b) = Some (map (f \<circ> compose_text_input) ?b)"
    using assms(1) by (subst embed_chunks_pointwise[of _ f]) (simp_all add: text_env_ok_def EMBED_SUB_BATCH_TEXT_def)
  have dist: "distinct (map vr_doc_id (map (text_row f) ?b))" using dedup_distinct by (simp add: comp_def)
  have "upsert_many (ee_text_write env) (wc_text_dim cfg) (map2 row_of ?b (map (f \<circ> compose_text_input) ?b)) t
      = Some (fold (\<lambda>r t. t(vr_doc_id r \<mapsto> r)) (map (text_row f) ?b) t)" for t
    using assms dist by (auto simp: map2_row upsert_many_def list_ex_iff text_env_ok_def)
  then have eq: "flush_text cfg env now w =
      (if ew_pending_text w = [] then w\<lparr>ew_last_flush := now\<rparr>
       else w\<lparr>ew_last_flush := now, ew_pending_text := [], ew_text := fold (\<lambda>r t. t(vr_doc_id r \<mapsto> r)) (map (text_row f) ?b) (ew_text w),
              ew_journal := record_batch env CHANNEL_TEXT ?b (ew_journal w)\<rparr>)"
    using vs by (simp add: flush_text_def Let_def)
  show "ew_text (flush_text cfg env now w) i =
           (case pend_map (ew_pending_text w) i of Some d \<Rightarrow> Some (text_row f d) | None \<Rightarrow> ew_text w i)"
    using fold_rows[OF dist, of "ew_text w" i] by (auto simp: eq find_map_rows find_dedup split: option.split)
  show "ew_journal (flush_text cfg env now w) i =
       (case pend_map (ew_pending_text w) i of
          Some d \<Rightarrow> Some (CHANNEL_TEXT, ee_unix_seconds env, ud_mtime d) | None \<Rightarrow> ew_journal w i)"
    using record_batch_lookup[of env ?b CHANNEL_TEXT "ew_journal w" i] assms(1) dedup_distinct[of "ew_pending_text w"]
    by (auto simp: eq find_dedup text_env_ok_def)
  show "ew_pending_text (flush_text cfg env now w) = []" "ew_pending_deletes (flush_text cfg env now w) = ew_pending_deletes w"
    "ew_pending_images (flush_text cfg env now w) = ew_pending_images w" "ew_last_flush (flush_text cfg env now w) = now"
    by (simp_all add: eq)
qed


lemma flush_images_frame:
  "ew_text (flush_images cfg env w) = ew_text w" "ew_pending_text (flush_images cfg env w) = ew_pending_text w"
  "ew_pending_deletes (flush_images cfg env w) = ew_pending_deletes w" "ew_pending_images (flush_images cfg env w) = []"
  "ew_last_flush (flush_images cfg env w) = ew_last_flush w"
  by (simp_all add: flush_images_def Let_def split: option.split)


lemma set_sorted_ids: "set (remdups_adj (sort ids)) = set (ids :: rstring list)"
  by simp

lemma fold_forget:
  assumes "\<forall>i. ee_journal_write env i"
  shows "fold (\<lambda>i j. if ee_journal_write env i then forget i j else j) ids j = j |` (- set ids)"
  using assms by (induction ids arbitrary: j) (auto simp: forget_def restrict_map_def fun_eq_iff)

lemma restrict_all [simp]: "m |` UNIV = m"
  by (simp add: restrict_map_def)

lemma sort_Nil_iff [simp]: "sort xs = [] \<longleftrightarrow> xs = []"
  by (metis set_empty set_sort)

lemma flush_deletes_ok:
  assumes "text_env_ok cfg f env"
  shows "ew_text (flush_deletes env w) = ew_text w |` (- set (ew_pending_deletes w))"
    "ew_journal (flush_deletes env w) = ew_journal w |` (- set (ew_pending_deletes w))"
    "ew_pending_deletes (flush_deletes env w) = []" "ew_pending_text (flush_deletes env w) = ew_pending_text w"
    "ew_pending_images (flush_deletes env w) = ew_pending_images w" "ew_last_flush (flush_deletes env w) = ew_last_flush w"
  using assms fold_forget[of env] by (simp_all add: flush_deletes_def store_delete_def text_env_ok_def Let_def split: if_split)

section \<open>The table follows the jobs\<close>

text \<open>The specification: every job takes effect at once.\<close>

definition apply_job :: "(rstring \<Rightarrow> vec) \<Rightarrow> embed_job \<Rightarrow> vector_table \<Rightarrow> vector_table" where
  "apply_job f job t =
     (case job of
        EmbedUpsert d \<Rightarrow> if classify d = TextChannel then t(ud_doc_id d \<mapsto> text_row f d) else t
      | EmbedDelete i \<Rightarrow> t(i := None))"




text \<open>What the text table is about to hold.\<close>

definition view :: "(rstring \<Rightarrow> vec) \<Rightarrow> embed_worker \<Rightarrow> vector_table" where
  "view f w i =
     (if i \<in> set (ew_pending_deletes w) then None
      else case pend_map (ew_pending_text w) i of Some d \<Rightarrow> Some (text_row f d) | None \<Rightarrow> ew_text w i)"

lemma view_images [simp]: "view f (w\<lparr>ew_pending_images := x\<rparr>) = view f w"
  by (simp add: view_def fun_eq_iff cong: option.case_cong)

definition journal_true :: "(rstring \<Rightarrow> vec) \<Rightarrow> embed_job list \<Rightarrow> embed_worker \<Rightarrow> bool" where
  "journal_true f js w \<longleftrightarrow>
     (\<forall>i t m. ew_journal w i = Some (CHANNEL_TEXT, t, m) \<longrightarrow>
        (\<exists>d. EmbedUpsert d \<in> set js \<and> ud_doc_id d = i \<and> ud_mtime d = m \<and> ew_text w i = Some (text_row f d)))"


lemma journal_true_other [simp]:
  "journal_true f js (w\<lparr>ew_pending_text := x\<rparr>) = journal_true f js w" "journal_true f js (w\<lparr>ew_pending_images := x\<rparr>) = journal_true f js w"
  "journal_true f js (w\<lparr>ew_pending_deletes := y\<rparr>) = journal_true f js w"
  by (simp_all add: journal_true_def)









section \<open>Properties\<close>


text \<open>The two conditions on a window are needed: the deletes of a window are applied after its upserts, whatever came first.\<close>

theorem recreated_document_loses_its_vector:
  assumes "text_env_ok cfg f env" "\<And>x. length (f x) = wc_text_dim cfg" "EmbedDelete (ud_doc_id d) \<in> set js" "EmbedUpsert d \<in> set js"
    and "w = flush_all cfg env now (fold (handle_job env) js w0)"
  shows "ew_text w (ud_doc_id d) = None" "ew_journal w (ud_doc_id d) = None"
proof -
  have "EmbedDelete i \<in> set ks \<Longrightarrow> i \<in> set (ew_pending_deletes (fold (handle_job env) ks w0))" for i ks
    by (induction ks rule: rev_induct) (auto simp: handle_job_def split: embed_job.split channel.split)
  then have "ud_doc_id d \<in> set (ew_pending_deletes (fold (handle_job env) js w0))" using assms(3) by blast
  then show "ew_text w (ud_doc_id d) = None" "ew_journal w (ud_doc_id d) = None"
    using assms(5) flush_text_ok(4)[OF assms(1,2)] flush_deletes_ok[OF assms(1)]
    by (simp_all add: flush_all_def maybe_compact_def flush_images_frame)
qed

text \<open>
  The broadcaster sends the upserts of a committed batch before its deletes. A document deleted and written again between two
  commits, which the index holds after the commit, is therefore deleted by the worker.
\<close>

lemma broadcast_deletes_last:
  assumes "i \<in> set (mb_deletes b)"
  shows "fold (apply_job f) (broadcast_jobs b) t i = None"
proof -
  have seen: "i \<notin> set seen \<Longrightarrow> i \<in> set ids \<Longrightarrow> i \<in> set (dedup_seen seen ids)" for seen ids
    by (induction seen ids rule: dedup_seen.induct) auto
  have gone: "i \<in> set ids \<Longrightarrow> fold (apply_job f) (map EmbedDelete ids) t' i = None" for ids t'
    by (induction ids rule: rev_induct) (auto simp: apply_job_def)
  show ?thesis using gone seen[of "[]"] assms by (simp add: broadcast_jobs_def)
qed

theorem recreated_before_commit_loses_its_vector:
  assumes "delete_by_id T (doc_id d) (ws_index ws) = (ix, True)" "upsert_doc T cfg d ix = (ix', True)"
    and "\<not> id_tombstoned (doc_id d) (ws_tombstones ws)" "ws_batch ws = batch_default"
    and "ws' = handle_mutation T cfg (Upsert d) (handle_mutation T cfg (Delete (doc_id d)) ws)"
  shows "mb_upserts (ws_batch ws') = [upserted_doc_from d]" "fold (apply_job f) (broadcast_jobs (ws_batch ws')) t (doc_id d) = None"
  using assms broadcast_deletes_last[of "doc_id d" "ws_batch ws'"]
  by (simp_all add: handle_mutation_def upsert_one_def delete_one_def push_upsert_def push_delete_def batch_default_def)

text \<open>
  The timer. A flush records its starting time; when it takes longer than the flush period, the worker waits without a limit at
  the next head of the loop, and goes on doing so after every job: jobs that do not fill a batch are never flushed.
\<close>

theorem slow_flush_disarms_timer:
  assumes "\<forall>tn\<in>set tns. \<exists>job. tn_wake tn = Received job" "\<forall>tn\<in>set tns. ew_last_flush w + wc_flush_ms cfg \<le> tn_head tn"
    and "ew_last_flush w + wc_flush_ms cfg \<le> later"
    and "length (ew_pending_text w) + length tns < wc_batch_size cfg" "length (ew_pending_images w) + length tns < wc_batch_size cfg"
      "length (ew_pending_deletes w) + length tns < wc_batch_size cfg"
  shows "\<not> armed cfg later (worker_run cfg tns w)" "prefix (ew_pending_text w) (ew_pending_text (worker_run cfg tns w))"
    "ew_text (worker_run cfg tns w) = ew_text w"
proof -
  have "\<not> armed cfg later (worker_run cfg tns w) \<and> prefix (ew_pending_text w) (ew_pending_text (worker_run cfg tns w))
      \<and> ew_text (worker_run cfg tns w) = ew_text w"
    using assms
  proof (induction tns arbitrary: w)
    case Nil
    then show ?case by (auto simp: armed_def)
  next
    case (Cons tn tns)
    then obtain job where job: "tn_wake tn = Received job" by auto
    let ?w = "handle_job (tn_env tn) job w"
    have step: "ew_last_flush ?w = ew_last_flush w" "ew_text ?w = ew_text w" "prefix (ew_pending_text w) (ew_pending_text ?w)"
      "length (ew_pending_text ?w) \<le> Suc (length (ew_pending_text w))" "length (ew_pending_images ?w) \<le> Suc (length (ew_pending_images w))"
      "length (ew_pending_deletes ?w) \<le> Suc (length (ew_pending_deletes w))"
      by (simp_all add: handle_job_def split: embed_job.split channel.split)
    then have turn: "worker_turn cfg tn w = ?w" using Cons.prems job by (simp add: worker_turn_def worker_wake_def Let_def)
    have "\<not> armed cfg later (worker_run cfg tns ?w) \<and> prefix (ew_pending_text ?w) (ew_pending_text (worker_run cfg tns ?w))
      \<and> ew_text (worker_run cfg tns ?w) = ew_text ?w"
      by (rule Cons.IH) (use Cons.prems step in auto)
    then show ?case using step(2,3) turn prefix_order.trans[OF step(3)] by simp
  qed
  then show "\<not> armed cfg later (worker_run cfg tns w)" "prefix (ew_pending_text w) (ew_pending_text (worker_run cfg tns w))"
    "ew_text (worker_run cfg tns w) = ew_text w" by auto
qed

text \<open>
  The journal holds one row per document, so no document is recorded for both channels, and the test of the backfill for
  documents already done never skips any.
\<close>

theorem backfill_never_skips:
  "start_backfill ds j = start_backfill ds Map.empty"
proof -
  have "\<not> (was_embedded i CHANNEL_TEXT j \<and> was_embedded i CHANNEL_IMAGE j)" for i j
    by (auto simp: was_embedded_def CHANNEL_TEXT_def CHANNEL_IMAGE_def lit_def split: option.splits)
  then show ?thesis by (simp add: start_backfill_def)
qed

text \<open>One image that cannot be decoded, or whose id is not a file, drops its whole batch.\<close>

theorem one_bad_image_drops_the_batch:
  assumes "\<And>xs vs. ee_image_model env xs = Some vs \<Longrightarrow> length vs = length xs"
    and "\<And>xs ys. ee_prepare env xs = Some ys \<Longrightarrow> length ys \<le> length xs"
    and "length (image_paths (dedup_by_doc_id (ew_pending_images w))) < length (dedup_by_doc_id (ew_pending_images w))
      \<or> (\<exists>ys. ee_prepare env (image_paths (dedup_by_doc_id (ew_pending_images w))) = Some ys
           \<and> length ys < length (image_paths (dedup_by_doc_id (ew_pending_images w))))"
  shows "ew_image (flush_images cfg env w) = ew_image w \<and> ew_pending_images (flush_images cfg env w) = []
    \<and> ew_journal (flush_images cfg env w) = ew_journal w"
proof -
  let ?b = "dedup_by_doc_id (ew_pending_images w)"
  have len: "embed_chunks (ee_image_model env) n xs = Some vs \<Longrightarrow> 0 < n \<Longrightarrow> length vs = length xs" for n xs vs
  proof (induction xs arbitrary: vs rule: length_induct)
    case (1 xs)
    show ?case
    proof (cases "xs = []")
      case False
      then obtain us rest where "ee_image_model env (take n xs) = Some us" "embed_chunks (ee_image_model env) n (drop n xs) = Some rest"
        "vs = us @ rest" using 1(2,3) by (subst (asm) embed_chunks.simps) (auto split: option.splits)
      moreover from this have "length rest = length (drop n xs)" using 1(1)[rule_format, of "drop n xs" rest] 1(3) False by simp
      ultimately show ?thesis using assms(1)[of "take n xs" us] by simp
    qed (use 1 in \<open>simp add: embed_chunks.simps\<close>)
  qed
  have paths: "length (image_paths ds) \<le> length ds" for ds
    by (simp add: image_paths_def List.map_filter_def)
  have "length vs \<noteq> length ?b" if "ee_prepare env (image_paths ?b) = Some ys"
      "embed_chunks (ee_image_model env) EMBED_SUB_BATCH_IMAGE ys = Some vs" for ys vs
    using len[OF that(2)] assms(2)[OF that(1)] assms(3) paths[of ?b] that(1) by (auto simp: EMBED_SUB_BATCH_IMAGE_def)
  then show ?thesis by (auto simp: flush_images_def Let_def split: option.split)
qed

section \<open>Witness\<close>












end
