(* ===== verification/Semantic_Link.thy ===== *)
theory Semantic_Link
  imports Semantic_Worker Fusion "HOL-Library.Word"
begin

text \<open>
  The link between the daemon and the semantic worker: the connection with its request-correlation maps and the callers that use it
  (\<^verbatim>\<open>lixun-source-semantic-stub/src/transport.rs\<close>, \<^verbatim>\<open>source.rs\<close>), the supervisor that starts sessions and routes the
  worker's messages (\<^verbatim>\<open>lixun-daemon/src/semantic_supervisor.rs\<close>), and on the other side of the socket the dispatch loop of the
  worker (\<^verbatim>\<open>lixun-semantic-worker/src/main.rs\<close>) with the document store it reads through callbacks (\<^verbatim>\<open>ipc_doc_store.rs\<close>).

  Everything here runs concurrently: callers, the sink task, the reader task and the tasks the two dispatchers spawn. A step of
  the system is one atomic action of one of them, an execution is any sequence of actions, and an action that is not possible has
  the value \<open>None\<close>. A one-shot channel is the \<open>slot\<close> of its caller. The bounded reply queue of the worker and the socket
  buffers are one queue in each direction. What the embedding models, the vector store and the document store answer is an
  argument of the action. The worker's answers and the daemon's answers to callbacks are kept as a history, which no action reads.
\<close>

section \<open>The protocol\<close>

type_synonym req_id = "64 word"

datatype error_code = BadRequest | Internal | Storage | CallbackFailed | VersionMismatch

record ipc_error =
  ie_code :: error_code
  ie_detail :: rstring

datatype callback_resp =
    RespAllDocIds "doc_id list"
  | RespHydrateDoc "hit option"
  | RespGetBody "rstring option"
  | RespError error_code rstring

datatype sem_cmd =
    CmdHandshake nat
  | CmdEmbed "upserted_doc list"
  | CmdDelete doc_id
  | CmdSearchText req_id rstring nat
  | CmdSearchImage req_id rstring nat
  | CmdClassifyQuery req_id rstring
  | CmdBackfillStart req_id
  | CmdCallbackReply req_id callback_resp
  | CmdShutdown

datatype sem_msg =
    MsgHandshakeOk nat
  | MsgSearchResult req_id "ann_hit list"
  | MsgClassifyResult req_id modality
  | MsgCallAllDocIds req_id
  | MsgCallHydrateDoc req_id doc_id
  | MsgCallGetBody req_id doc_id
  | MsgBackfillComplete req_id nat nat
  | MsgError req_id error_code rstring

definition SEMANTIC_PROTOCOL :: nat where
  "SEMANTIC_PROTOCOL = 2"

section \<open>The connection\<close>

text \<open>A caller is named by its position in the list of callers; the writer is the number of the session it belongs to.\<close>

record semantic_connection =
  sc_writer :: nat
  sc_next_req_id :: req_id
  sc_pending_search :: "(req_id \<times> nat) list"
  sc_pending_classify :: "(req_id \<times> nat) list"
  sc_pending_backfill :: "(req_id \<times> nat) list"

datatype sem_reply =
    SearchReply "ipc_error + ann_hit list"
  | ClassifyReply "ipc_error + modality"
  | BackfillReply "ipc_error + nat \<times> nat"

definition connection_new :: "nat \<Rightarrow> semantic_connection" where
  "connection_new w = \<lparr>sc_writer = w, sc_next_req_id = 1, sc_pending_search = [], sc_pending_classify = [], sc_pending_backfill = []\<rparr>"

definition alloc_req_id :: "semantic_connection \<Rightarrow> req_id \<times> semantic_connection" where
  "alloc_req_id c = (sc_next_req_id c, c\<lparr>sc_next_req_id := sc_next_req_id c + 1\<rparr>)"

definition rebind_writer :: "nat \<Rightarrow> semantic_connection \<Rightarrow> semantic_connection" where
  "rebind_writer w c = c\<lparr>sc_writer := w\<rparr>"

definition register_search :: "req_id \<Rightarrow> nat \<Rightarrow> semantic_connection \<Rightarrow> semantic_connection" where
  "register_search i t c = c\<lparr>sc_pending_search := AList.update i t (sc_pending_search c)\<rparr>"

definition register_classify :: "req_id \<Rightarrow> nat \<Rightarrow> semantic_connection \<Rightarrow> semantic_connection" where
  "register_classify i t c = c\<lparr>sc_pending_classify := AList.update i t (sc_pending_classify c)\<rparr>"

definition register_backfill :: "req_id \<Rightarrow> nat \<Rightarrow> semantic_connection \<Rightarrow> semantic_connection" where
  "register_backfill i t c = c\<lparr>sc_pending_backfill := AList.update i t (sc_pending_backfill c)\<rparr>"

text \<open>Completing a request takes its entry out of the map and hands the reply to the caller that was registered, if any.\<close>

type_synonym deliveries = "(nat \<times> sem_reply) list"

definition taken :: "req_id \<Rightarrow> (req_id \<times> nat) list \<Rightarrow> sem_reply \<Rightarrow> deliveries" where
  "taken i m r = (case map_of m i of Some t \<Rightarrow> [(t, r)] | None \<Rightarrow> [])"

definition complete_search :: "req_id \<Rightarrow> ipc_error + ann_hit list \<Rightarrow> semantic_connection \<Rightarrow> deliveries \<times> semantic_connection" where
  "complete_search i r c =
     (taken i (sc_pending_search c) (SearchReply r), c\<lparr>sc_pending_search := AList.delete i (sc_pending_search c)\<rparr>)"

definition complete_classify :: "req_id \<Rightarrow> ipc_error + modality \<Rightarrow> semantic_connection \<Rightarrow> deliveries \<times> semantic_connection" where
  "complete_classify i r c =
     (taken i (sc_pending_classify c) (ClassifyReply r), c\<lparr>sc_pending_classify := AList.delete i (sc_pending_classify c)\<rparr>)"

definition complete_backfill :: "req_id \<Rightarrow> ipc_error + nat \<times> nat \<Rightarrow> semantic_connection \<Rightarrow> deliveries \<times> semantic_connection" where
  "complete_backfill i r c =
     (taken i (sc_pending_backfill c) (BackfillReply r), c\<lparr>sc_pending_backfill := AList.delete i (sc_pending_backfill c)\<rparr>)"

definition fail_all_pending :: "ipc_error \<Rightarrow> semantic_connection \<Rightarrow> deliveries \<times> semantic_connection" where
  "fail_all_pending e c =
     (map (\<lambda>(_, t). (t, SearchReply (Inl e))) (sc_pending_search c)
      @ map (\<lambda>(_, t). (t, ClassifyReply (Inl e))) (sc_pending_classify c)
      @ map (\<lambda>(_, t). (t, BackfillReply (Inl e))) (sc_pending_backfill c),
      c\<lparr>sc_pending_search := [], sc_pending_classify := [], sc_pending_backfill := []\<rparr>)"

section \<open>The callers\<close>

datatype sem_request =
    AskText rstring nat
  | AskImage rstring nat
  | AskClassify rstring
  | AskBackfill

datatype sem_outcome =
    GotHits "ann_hit list"
  | GotModality modality
  | GotStats nat nat
  | GotError rstring

datatype caller_phase = Sending nat | Awaiting | Returned sem_outcome

record sem_caller =
  cl_id :: req_id
  cl_request :: sem_request
  cl_phase :: caller_phase
  cl_slot :: "sem_reply option"

definition U32_MAX :: nat where
  "U32_MAX = 2 ^ 32 - 1"

fun build_cmd :: "sem_request \<Rightarrow> req_id \<Rightarrow> sem_cmd" where
  "build_cmd (AskText q k) i = CmdSearchText i q (min k U32_MAX)"
| "build_cmd (AskImage q k) i = CmdSearchImage i q (min k U32_MAX)"
| "build_cmd (AskClassify q) i = CmdClassifyQuery i q"
| "build_cmd AskBackfill i = CmdBackfillStart i"

definition cl_cmd :: "sem_caller \<Rightarrow> sem_cmd" where
  "cl_cmd c = build_cmd (cl_request c) (cl_id c)"

fun register :: "sem_request \<Rightarrow> req_id \<Rightarrow> nat \<Rightarrow> semantic_connection \<Rightarrow> semantic_connection" where
  "register (AskText _ _) i t = register_search i t"
| "register (AskImage _ _) i t = register_search i t"
| "register (AskClassify _) i t = register_classify i t"
| "register AskBackfill i t = register_backfill i t"

text \<open>Without a connection, and whenever the worker does not answer, a search has no hits and a query is classified as text.\<close>

fun error_code_name :: "error_code \<Rightarrow> rstring" where
  "error_code_name BadRequest = lit ''BadRequest''"
| "error_code_name Internal = lit ''Internal''"
| "error_code_name Storage = lit ''Storage''"
| "error_code_name CallbackFailed = lit ''Callback''"
| "error_code_name VersionMismatch = lit ''Version''"

fun without_answer :: "sem_request \<Rightarrow> rstring \<Rightarrow> sem_outcome" where
  "without_answer (AskText _ _) _ = GotHits []"
| "without_answer (AskImage _ _) _ = GotHits []"
| "without_answer (AskClassify _) _ = GotModality MText"
| "without_answer AskBackfill e = GotError e"

text \<open>What a caller makes of the reply in its channel.\<close>

fun outcome_of :: "sem_reply \<Rightarrow> sem_outcome" where
  "outcome_of (SearchReply (Inr hits)) = GotHits hits"
| "outcome_of (ClassifyReply (Inr m)) = GotModality m"
| "outcome_of (BackfillReply (Inr (submitted, seen))) = GotStats submitted seen"
| "outcome_of (SearchReply (Inl e)) = GotHits []"
| "outcome_of (ClassifyReply (Inl e)) = GotModality MText"
| "outcome_of (BackfillReply (Inl e)) = GotError (lit ''backfill: '' @ error_code_name (ie_code e) @ lit '': '' @ ie_detail e)"

definition writer_closed :: ipc_error where
  "writer_closed = \<lparr>ie_code = Internal, ie_detail = lit ''writer channel closed''\<rparr>"

text \<open>When the channel turns out to be closed, searches and classifications are completed with an error; a backfill only returns it.\<close>

fun send_failed :: "sem_request \<Rightarrow> req_id \<Rightarrow> semantic_connection \<Rightarrow> semantic_connection" where
  "send_failed (AskText _ _) i c = snd (complete_search i (Inl writer_closed) c)"
| "send_failed (AskImage _ _) i c = snd (complete_search i (Inl writer_closed) c)"
| "send_failed (AskClassify _) i c = snd (complete_classify i (Inl writer_closed) c)"
| "send_failed AskBackfill i c = c"

section \<open>The worker's side of a session\<close>

datatype doc_ask = AskAllDocIds | AskHydrateDoc doc_id | AskGetBody doc_id

datatype call_phase = CallAwaiting | CallReturned "callback_resp option"

record doc_call =
  dc_id :: req_id
  dc_ask :: doc_ask
  dc_phase :: call_phase
  dc_slot :: "callback_resp option"

record sem_session =
  se_queue :: "sem_cmd list"
  se_receiver :: bool
  se_worker_up :: bool
  se_inbox :: "sem_cmd list"
  se_outbox :: "sem_msg list"
  se_tasks :: "sem_cmd list"
  se_embed :: "embed_job list"
  se_next_call :: req_id
  se_pending_calls :: "(req_id \<times> nat) list"
  se_calls :: "doc_call list"
  se_serving :: "sem_msg list"
  se_answered :: "(sem_cmd \<times> sem_msg) list"
  se_served :: "(sem_msg \<times> callback_resp) list"

definition session_new :: sem_session where
  "session_new = \<lparr>se_queue = [], se_receiver = True, se_worker_up = True, se_inbox = [], se_outbox = [], se_tasks = [], se_embed = [],
     se_next_call = 2 ^ 32, se_pending_calls = [], se_calls = [], se_serving = [], se_answered = [], se_served = []\<rparr>"

definition WRITER_QUEUE_CAPACITY :: nat where
  "WRITER_QUEUE_CAPACITY = 256"

definition SEARCH_CONCURRENCY :: nat where
  "SEARCH_CONCURRENCY = 32"

fun needs_permit :: "sem_cmd \<Rightarrow> bool" where
  "needs_permit (CmdSearchText _ _ _) = True"
| "needs_permit (CmdSearchImage _ _ _) = True"
| "needs_permit (CmdClassifyQuery _ _) = True"
| "needs_permit _ = False"

text \<open>A reply of the daemon is routed to the call that waits for it; a late one is dropped.\<close>

definition deliver :: "req_id \<Rightarrow> callback_resp \<Rightarrow> sem_session \<Rightarrow> sem_session" where
  "deliver i resp s =
     (let s' = s\<lparr>se_pending_calls := AList.delete i (se_pending_calls s)\<rparr> in
      case map_of (se_pending_calls s) i of
        Some n \<Rightarrow> s'\<lparr>se_calls := (se_calls s)[n := (se_calls s ! n)\<lparr>dc_slot := Some resp\<rparr>]\<rparr>
      | None \<Rightarrow> s')"

text \<open>
  One frame of the dispatch loop. A search or classification waits for a permit before its task is spawned, and the loop with it;
  after a shutdown command the loop has ended.
\<close>

fun dispatch_cmd :: "sem_cmd \<Rightarrow> sem_session \<Rightarrow> sem_session option" where
  "dispatch_cmd (CmdHandshake _) s = Some (s\<lparr>se_outbox := se_outbox s @ [MsgError 0 BadRequest (lit ''duplicate Handshake'')]\<rparr>)"
| "dispatch_cmd (CmdEmbed docs) s = Some (s\<lparr>se_embed := se_embed s @ map EmbedUpsert docs\<rparr>)"
| "dispatch_cmd (CmdDelete d) s = Some (s\<lparr>se_embed := se_embed s @ [EmbedDelete d]\<rparr>)"
| "dispatch_cmd (CmdCallbackReply i resp) s = Some (deliver i resp s)"
| "dispatch_cmd CmdShutdown s = Some (s\<lparr>se_worker_up := False\<rparr>)"
| "dispatch_cmd cmd s =
     (if needs_permit cmd \<and> SEARCH_CONCURRENCY \<le> length (filter needs_permit (se_tasks s)) then None
      else Some (s\<lparr>se_tasks := se_tasks s @ [cmd]\<rparr>))"

text \<open>The end of a spawned task: what the search, the classifier or the backfill gave, an error or the time-out of the task.\<close>

record task_results =
  tr_search :: "rstring + ann_hit list"
  tr_classify :: "rstring + modality"
  tr_backfill :: "rstring + nat \<times> nat"

definition err_or :: "req_id \<Rightarrow> ('a \<Rightarrow> sem_msg) \<Rightarrow> rstring + 'a \<Rightarrow> sem_msg" where
  "err_or i f r = (case r of Inl e \<Rightarrow> MsgError i Internal e | Inr x \<Rightarrow> f x)"

fun task_reply :: "task_results \<Rightarrow> sem_cmd \<Rightarrow> sem_msg option" where
  "task_reply tr (CmdSearchText i _ _) = Some (err_or i (MsgSearchResult i) (tr_search tr))"
| "task_reply tr (CmdSearchImage i _ _) = Some (err_or i (MsgSearchResult i) (tr_search tr))"
| "task_reply tr (CmdClassifyQuery i _) = Some (err_or i (MsgClassifyResult i) (tr_classify tr))"
| "task_reply tr (CmdBackfillStart i) = Some (err_or i (\<lambda>(n, m). MsgBackfillComplete i n m) (tr_backfill tr))"
| "task_reply tr _ = None"

definition finish_task :: "nat \<Rightarrow> task_results \<Rightarrow> sem_session \<Rightarrow> sem_session option" where
  "finish_task k tr s =
     (if \<not> k < length (se_tasks s) then None
      else case task_reply tr (se_tasks s ! k) of
             None \<Rightarrow> None
           | Some m \<Rightarrow> Some (s\<lparr>se_tasks := take k (se_tasks s) @ drop (Suc k) (se_tasks s), se_outbox := se_outbox s @ [m],
                 se_answered := se_answered s @ [(se_tasks s ! k, m)]\<rparr>))"

text \<open>The document store of the backfill: a call registers itself, sends its message, and waits.\<close>

fun ask_msg :: "doc_ask \<Rightarrow> req_id \<Rightarrow> sem_msg" where
  "ask_msg AskAllDocIds i = MsgCallAllDocIds i"
| "ask_msg (AskHydrateDoc d) i = MsgCallHydrateDoc i d"
| "ask_msg (AskGetBody d) i = MsgCallGetBody i d"

definition dc_msg :: "doc_call \<Rightarrow> sem_msg" where
  "dc_msg c = ask_msg (dc_ask c) (dc_id c)"

definition start_call :: "bool \<Rightarrow> doc_ask \<Rightarrow> sem_session \<Rightarrow> sem_session" where
  "start_call writer_open a s =
     (let i = se_next_call s; c = \<lparr>dc_id = i, dc_ask = a, dc_phase = CallAwaiting, dc_slot = None\<rparr>;
          pending = AList.update i (length (se_calls s)) (se_pending_calls s) in
      if writer_open
      then s\<lparr>se_next_call := i + 1, se_pending_calls := pending, se_calls := se_calls s @ [c], se_outbox := se_outbox s @ [ask_msg a i]\<rparr>
      else s\<lparr>se_next_call := i + 1, se_pending_calls := AList.delete i pending, se_calls := se_calls s @ [c\<lparr>dc_phase := CallReturned None\<rparr>]\<rparr>)"

definition end_call :: "bool \<Rightarrow> nat \<Rightarrow> sem_session \<Rightarrow> sem_session option" where
  "end_call expired n s =
     (if \<not> n < length (se_calls s) then None
      else let c = se_calls s ! n in
           if dc_phase c \<noteq> CallAwaiting then None
           else case (dc_slot c, expired) of
                  (Some resp, False) \<Rightarrow> Some (s\<lparr>se_calls := (se_calls s)[n := c\<lparr>dc_phase := CallReturned (Some resp)\<rparr>]\<rparr>)
                | (None, True) \<Rightarrow> Some (s\<lparr>se_pending_calls := AList.delete (dc_id c) (se_pending_calls s),
                      se_calls := (se_calls s)[n := c\<lparr>dc_phase := CallReturned None\<rparr>]\<rparr>)
                | _ \<Rightarrow> None)"





section \<open>The supervisor\<close>

datatype worker_state = WorkerDisabled | WorkerNotFound | WorkerStarting | WorkerDownloading | WorkerReady | WorkerBackoff

definition MIN_BACKOFF :: nat where
  "MIN_BACKOFF = 1"

definition MAX_BACKOFF :: nat where
  "MAX_BACKOFF = 60"

fun encode_worker_state :: "worker_state \<Rightarrow> nat" where
  "encode_worker_state WorkerDisabled = 0"
| "encode_worker_state WorkerNotFound = 1"
| "encode_worker_state WorkerStarting = 2"
| "encode_worker_state WorkerDownloading = 3"
| "encode_worker_state WorkerReady = 4"
| "encode_worker_state WorkerBackoff = 5"

definition worker_state_of :: "nat \<Rightarrow> worker_state" where
  "worker_state_of n =
     (if n = 1 then WorkerNotFound else if n = 2 then WorkerStarting else if n = 3 then WorkerDownloading
      else if n = 4 then WorkerReady else if n = 5 then WorkerBackoff else WorkerDisabled)"

text \<open>The daemon's document store, as far as the callbacks read it.\<close>

record doc_store_view =
  dv_all_doc_ids :: "rstring + doc_id list"
  dv_hydrate_doc :: "doc_id \<Rightarrow> rstring + hit option"
  dv_get_body :: "doc_id \<Rightarrow> rstring + rstring option"

definition resp_or :: "('a \<Rightarrow> callback_resp) \<Rightarrow> rstring \<Rightarrow> rstring + 'a \<Rightarrow> callback_resp" where
  "resp_or f what r = (case r of Inl e \<Rightarrow> RespError CallbackFailed (what @ lit '': '' @ e) | Inr x \<Rightarrow> f x)"

fun callback_answer :: "doc_store_view option \<Rightarrow> sem_msg \<Rightarrow> callback_resp" where
  "callback_answer None _ = RespError CallbackFailed (lit ''doc store not installed'')"
| "callback_answer (Some v) (MsgCallAllDocIds _) = resp_or RespAllDocIds (lit ''all_doc_ids'') (dv_all_doc_ids v)"
| "callback_answer (Some v) (MsgCallHydrateDoc _ d) = resp_or RespHydrateDoc (lit ''hydrate_doc('' @ d @ lit '')'') (dv_hydrate_doc v d)"
| "callback_answer (Some v) (MsgCallGetBody _ d) = resp_or RespGetBody (lit ''get_body('' @ d @ lit '')'') (dv_get_body v d)"
| "callback_answer (Some v) _ = RespError CallbackFailed []"

fun msg_req_id :: "sem_msg \<Rightarrow> req_id" where
  "msg_req_id (MsgHandshakeOk _) = 0"
| "msg_req_id (MsgSearchResult i _) = i"
| "msg_req_id (MsgClassifyResult i _) = i"
| "msg_req_id (MsgCallAllDocIds i) = i"
| "msg_req_id (MsgCallHydrateDoc i _) = i"
| "msg_req_id (MsgCallGetBody i _) = i"
| "msg_req_id (MsgBackfillComplete i _ _) = i"
| "msg_req_id (MsgError i _ _) = i"

text \<open>A message of the worker: replies complete requests, callbacks are handed to a task of their own.\<close>

fun handle_msg :: "sem_msg \<Rightarrow> semantic_connection \<Rightarrow> deliveries \<times> sem_msg list \<times> semantic_connection" where
  "handle_msg (MsgHandshakeOk _) c = ([], [], c)"
| "handle_msg (MsgSearchResult i hits) c = (let (d, c') = complete_search i (Inr hits) c in (d, [], c'))"
| "handle_msg (MsgClassifyResult i m) c = (let (d, c') = complete_classify i (Inr m) c in (d, [], c'))"
| "handle_msg (MsgBackfillComplete i n m) c = (let (d, c') = complete_backfill i (Inr (n, m)) c in (d, [], c'))"
| "handle_msg (MsgError i code detail) c =
     (let e = \<lparr>ie_code = code, ie_detail = detail\<rparr>;
          (d1, c1) = complete_search i (Inl e) c;
          (d2, c2) = complete_classify i (Inl e) c1;
          (d3, c3) = complete_backfill i (Inl e) c2 in (d1 @ d2 @ d3, [], c3))"
| "handle_msg m c = ([], [m], c)"

section \<open>The system\<close>

record sem_system =
  sy_conn :: "semantic_connection option"
  sy_callers :: "sem_caller list"
  sy_sessions :: "sem_session list"
  sy_waiting :: "(nat \<times> sem_cmd) list"
  sy_state :: worker_state
  sy_backoff :: nat

definition system_new :: sem_system where
  "system_new = \<lparr>sy_conn = None, sy_callers = [], sy_sessions = [], sy_waiting = [], sy_state = WorkerStarting, sy_backoff = MIN_BACKOFF\<rparr>"

text \<open>A reply sent into the one-shot channel of a caller; a caller that has returned has dropped its end.\<close>

definition put_reply :: "nat \<times> sem_reply \<Rightarrow> sem_caller list \<Rightarrow> sem_caller list" where
  "put_reply d cs = (case cl_phase (cs ! fst d) of Returned _ \<Rightarrow> cs | _ \<Rightarrow> cs[fst d := (cs ! fst d)\<lparr>cl_slot := Some (snd d)\<rparr>])"

definition put_replies :: "deliveries \<Rightarrow> sem_caller list \<Rightarrow> sem_caller list" where
  "put_replies ds cs = fold put_reply ds cs"

definition ask :: "sem_request \<Rightarrow> sem_system \<Rightarrow> sem_system option" where
  "ask rq st =
     (case sy_conn st of
        None \<Rightarrow> None
      | Some c \<Rightarrow>
          let (i, c1) = alloc_req_id c in
          Some (st\<lparr>sy_conn := Some (register rq i (length (sy_callers st)) c1),
            sy_callers := sy_callers st @ [\<lparr>cl_id = i, cl_request = rq, cl_phase = Sending (sc_writer c), cl_slot = None\<rparr>]\<rparr>))"

definition send_cmd :: "nat \<Rightarrow> sem_system \<Rightarrow> sem_system option" where
  "send_cmd t st =
     (if \<not> t < length (sy_callers st) then None
      else let cl = sy_callers st ! t in
           case (cl_phase cl, sy_conn st) of
             (Sending n, Some c) \<Rightarrow>
               if \<not> n < length (sy_sessions st) then None
               else let s = sy_sessions st ! n in
               if \<not> se_receiver s
               then Some (st\<lparr>sy_conn := Some (send_failed (cl_request cl) (cl_id cl) c),
                      sy_callers := (sy_callers st)[t := cl\<lparr>cl_phase := Returned (without_answer (cl_request cl) (lit ''semantic worker writer channel closed''))\<rparr>]\<rparr>)
               else if length (se_queue s) < WRITER_QUEUE_CAPACITY
               then Some (st\<lparr>sy_callers := (sy_callers st)[t := cl\<lparr>cl_phase := Awaiting\<rparr>],
                      sy_sessions := (sy_sessions st)[n := s\<lparr>se_queue := se_queue s @ [cl_cmd cl]\<rparr>]\<rparr>)
               else None
           | _ \<Rightarrow> None)"

text \<open>A caller takes the reply out of its channel, or gives up when the time-out fires first; its registration then stays behind.\<close>

definition collect :: "bool \<Rightarrow> nat \<Rightarrow> sem_system \<Rightarrow> sem_system option" where
  "collect expired t st =
     (if \<not> t < length (sy_callers st) then None
      else let cl = sy_callers st ! t in
           if cl_phase cl \<noteq> Awaiting then None
           else case (cl_slot cl, expired) of
                  (Some r, False) \<Rightarrow> Some (st\<lparr>sy_callers := (sy_callers st)[t := cl\<lparr>cl_phase := Returned (outcome_of r)\<rparr>]\<rparr>)
                | (None, True) \<Rightarrow> Some (st\<lparr>sy_callers := (sy_callers st)[t := cl\<lparr>cl_phase := Returned (without_answer (cl_request cl) (lit ''backfill timed out''))\<rparr>]\<rparr>)
                | _ \<Rightarrow> None)"

text \<open>The sink task of a session writes the next command to the socket; the first failed write ends it, and the queue is dropped.\<close>

definition sink_step :: "sem_session \<Rightarrow> sem_session option" where
  "sink_step s =
     (if \<not> se_receiver s then None
      else case se_queue s of
             [] \<Rightarrow> None
           | cmd # rest \<Rightarrow>
               if se_worker_up s then Some (s\<lparr>se_queue := rest, se_inbox := se_inbox s @ [cmd]\<rparr>)
               else Some (s\<lparr>se_queue := [], se_receiver := False\<rparr>))"

definition dispatch_step :: "sem_session \<Rightarrow> sem_session option" where
  "dispatch_step s =
     (case se_inbox s of
        [] \<Rightarrow> None
      | cmd # rest \<Rightarrow> if se_worker_up s then dispatch_cmd cmd (s\<lparr>se_inbox := rest\<rparr>) else None)"

text \<open>A callback task of the daemon answers over the writer of its own session; a closed channel loses the answer.\<close>

definition serve_step :: "nat \<Rightarrow> doc_store_view option \<Rightarrow> sem_session \<Rightarrow> sem_session option" where
  "serve_step k v s =
     (if \<not> k < length (se_serving s) then None
      else let m = se_serving s ! k; resp = callback_answer v m;
               s' = s\<lparr>se_serving := take k (se_serving s) @ drop (Suc k) (se_serving s), se_served := se_served s @ [(m, resp)]\<rparr> in
           if \<not> se_receiver s then Some s'
           else if length (se_queue s) < WRITER_QUEUE_CAPACITY
           then Some (s'\<lparr>se_queue := se_queue s @ [CmdCallbackReply (msg_req_id m) resp]\<rparr>)
           else None)"

text \<open>The reader task takes the next message off the socket, also when the session it belongs to is over.\<close>

definition read_msg :: "nat \<Rightarrow> sem_system \<Rightarrow> sem_system option" where
  "read_msg n st =
     (if \<not> n < length (sy_sessions st) then None
      else let s = sy_sessions st ! n in
           case (se_outbox s, sy_conn st) of
             (m # rest, Some c) \<Rightarrow>
               let (ds, calls, c') = handle_msg m c in
               Some (st\<lparr>sy_conn := Some c', sy_callers := put_replies ds (sy_callers st),
                 sy_sessions := (sy_sessions st)[n := s\<lparr>se_outbox := rest, se_serving := se_serving s @ calls\<rparr>]\<rparr>)
           | _ \<Rightarrow> None)"

text \<open>
  The supervisor's loop. A session attempt either fails before the connection is bound, or the acknowledgement of the handshake
  is checked and the connection created, the first time, or bound to the new writer. When the session is over, every pending
  request is failed and the supervisor sleeps.
\<close>

definition handshake_accepted :: "sem_msg \<Rightarrow> bool" where
  "handshake_accepted ack = (case ack of MsgHandshakeOk v \<Rightarrow> v = SEMANTIC_PROTOCOL | _ \<Rightarrow> False)"

definition worker_disconnected :: ipc_error where
  "worker_disconnected = \<lparr>ie_code = Internal, ie_detail = lit ''worker disconnected''\<rparr>"

definition session_over :: "sem_system \<Rightarrow> sem_system" where
  "session_over st =
     (case sy_conn st of
        None \<Rightarrow> st\<lparr>sy_state := WorkerBackoff\<rparr>
      | Some c \<Rightarrow> let (ds, c') = fail_all_pending worker_disconnected c in
          st\<lparr>sy_conn := Some c', sy_callers := put_replies ds (sy_callers st), sy_state := WorkerBackoff\<rparr>)"

definition session_attempt :: "sem_msg option \<Rightarrow> sem_system \<Rightarrow> sem_system option" where
  "session_attempt ack st =
     (if sy_state st \<noteq> WorkerStarting then None
      else if (case ack of None \<Rightarrow> False | Some m \<Rightarrow> handshake_accepted m)
      then let n = length (sy_sessions st) in
           Some (st\<lparr>sy_sessions := sy_sessions st @ [session_new], sy_state := WorkerReady,
             sy_conn := Some (case sy_conn st of Some c \<Rightarrow> rebind_writer n c | None \<Rightarrow> connection_new n)\<rparr>)
      else Some (session_over st))"

definition session_end :: "sem_system \<Rightarrow> sem_system option" where
  "session_end st =
     (if sy_state st \<noteq> WorkerReady then None
      else let n = length (sy_sessions st) - 1 in
           Some (session_over (st\<lparr>sy_sessions := (sy_sessions st)[n := (sy_sessions st ! n)\<lparr>se_worker_up := False, se_tasks := []\<rparr>]\<rparr>)))"

definition backoff_over :: "sem_system \<Rightarrow> sem_system option" where
  "backoff_over st =
     (if sy_state st \<noteq> WorkerBackoff then None
      else Some (st\<lparr>sy_state := WorkerStarting, sy_backoff := min (sy_backoff st * 2) MAX_BACKOFF\<rparr>))"

text \<open>
  The broadcaster's commands go over the current writer without a registration: at once when the queue has room, by a task that
  waits for room otherwise; a closed channel loses them.
\<close>

definition push_cmd :: "nat \<Rightarrow> sem_cmd \<Rightarrow> sem_system \<Rightarrow> sem_system" where
  "push_cmd n cmd st =
     (let s = sy_sessions st ! n in st\<lparr>sy_sessions := (sy_sessions st)[n := s\<lparr>se_queue := se_queue s @ [cmd]\<rparr>]\<rparr>)"

definition forward :: "sem_cmd \<Rightarrow> sem_system \<Rightarrow> sem_system" where
  "forward cmd st =
     (case sy_conn st of
        None \<Rightarrow> st
      | Some c \<Rightarrow>
          let s = sy_sessions st ! sc_writer c in
          if \<not> se_receiver s then st
          else if length (se_queue s) < WRITER_QUEUE_CAPACITY then push_cmd (sc_writer c) cmd st
          else st\<lparr>sy_waiting := sy_waiting st @ [(sc_writer c, cmd)]\<rparr>)"

definition push_waiting :: "nat \<Rightarrow> sem_system \<Rightarrow> sem_system option" where
  "push_waiting k st =
     (if \<not> k < length (sy_waiting st) then None
      else let (n, cmd) = sy_waiting st ! k; s = sy_sessions st ! n;
               st' = st\<lparr>sy_waiting := take k (sy_waiting st) @ drop (Suc k) (sy_waiting st)\<rparr> in
           if \<not> se_receiver s then Some st'
           else if length (se_queue s) < WRITER_QUEUE_CAPACITY then Some (push_cmd n cmd st') else None)"

fun chunked :: "nat \<Rightarrow> nat \<Rightarrow> 'a list \<Rightarrow> 'a list list" where
  "chunked 0 n xs = []"
| "chunked (Suc f) n xs = (if xs = [] then [] else take n xs # chunked f n (drop n xs))"

definition broadcast_cmds :: "mutation_batch \<Rightarrow> sem_cmd list" where
  "broadcast_cmds b = map CmdEmbed (chunked (length (mb_upserts b)) 64 (mb_upserts b)) @ map CmdDelete (dedup_seen [] (mb_deletes b))"

section \<open>Executions\<close>

datatype sem_action =
    Ask sem_request
  | SendCmd nat
  | Collect bool nat
  | Broadcast mutation_batch
  | PushWaiting nat
  | SinkStep nat
  | DispatchStep nat
  | FinishTask nat nat task_results
  | StartCall nat bool doc_ask
  | EndCall nat bool nat
  | ServeStep nat nat "doc_store_view option"
  | WorkerDies nat
  | ReadMsg nat
  | SessionAttempt "sem_msg option"
  | SessionEnd
  | BackoffOver

definition in_session :: "nat \<Rightarrow> (sem_session \<Rightarrow> sem_session option) \<Rightarrow> sem_system \<Rightarrow> sem_system option" where
  "in_session n f st =
     (if n < length (sy_sessions st)
      then map_option (\<lambda>s. st\<lparr>sy_sessions := (sy_sessions st)[n := s]\<rparr>) (f (sy_sessions st ! n)) else None)"

text \<open>Callbacks are issued by a running backfill.\<close>

definition backfilling :: "sem_session \<Rightarrow> bool" where
  "backfilling s = list_ex (\<lambda>cmd. case cmd of CmdBackfillStart _ \<Rightarrow> True | _ \<Rightarrow> False) (se_tasks s)"

fun sem_step :: "sem_action \<Rightarrow> sem_system \<Rightarrow> sem_system option" where
  "sem_step (Ask rq) st = ask rq st"
| "sem_step (SendCmd t) st = send_cmd t st"
| "sem_step (Collect expired t) st = collect expired t st"
| "sem_step (Broadcast b) st = Some (fold forward (broadcast_cmds b) st)"
| "sem_step (PushWaiting k) st = push_waiting k st"
| "sem_step (SinkStep n) st = in_session n sink_step st"
| "sem_step (DispatchStep n) st = in_session n dispatch_step st"
| "sem_step (FinishTask n k tr) st = in_session n (finish_task k tr) st"
| "sem_step (StartCall n up a) st = in_session n (\<lambda>s. if backfilling s then Some (start_call up a s) else None) st"
| "sem_step (EndCall n expired k) st = in_session n (end_call expired k) st"
| "sem_step (ServeStep n k v) st = in_session n (serve_step k v) st"
| "sem_step (WorkerDies n) st = in_session n (\<lambda>s. Some (s\<lparr>se_worker_up := False\<rparr>)) st"
| "sem_step (ReadMsg n) st = read_msg n st"
| "sem_step (SessionAttempt ack) st = session_attempt ack st"
| "sem_step SessionEnd st = session_end st"
| "sem_step BackoffOver st = backoff_over st"

inductive sem_reachable :: "sem_system \<Rightarrow> bool" where
  sem_init: "sem_reachable system_new"
| sem_next: "sem_reachable st \<Longrightarrow> sem_step a st = Some st' \<Longrightarrow> sem_reachable st'"

section \<open>Correlation\<close>

fun is_request :: "sem_cmd \<Rightarrow> bool" where
  "is_request (CmdBackfillStart _) = True"
| "is_request cmd = needs_permit cmd"

fun cmd_req_id :: "sem_cmd \<Rightarrow> req_id" where
  "cmd_req_id (CmdSearchText i _ _) = i"
| "cmd_req_id (CmdSearchImage i _ _) = i"
| "cmd_req_id (CmdClassifyQuery i _) = i"
| "cmd_req_id (CmdBackfillStart i) = i"
| "cmd_req_id _ = 0"

fun msg_reply :: "sem_msg \<Rightarrow> sem_reply option" where
  "msg_reply (MsgSearchResult _ hits) = Some (SearchReply (Inr hits))"
| "msg_reply (MsgClassifyResult _ m) = Some (ClassifyReply (Inr m))"
| "msg_reply (MsgBackfillComplete _ n m) = Some (BackfillReply (Inr (n, m)))"
| "msg_reply _ = None"

fun no_answer :: "sem_request \<Rightarrow> sem_outcome \<Rightarrow> bool" where
  "no_answer (AskText _ _) out = (out = GotHits [])"
| "no_answer (AskImage _ _) out = (out = GotHits [])"
| "no_answer (AskClassify _) out = (out = GotModality MText)"
| "no_answer AskBackfill out = (\<exists>e. out = GotError e)"

fun error_reply :: "sem_request \<Rightarrow> sem_reply \<Rightarrow> bool" where
  "error_reply (AskText _ _) r = (\<exists>e. r = SearchReply (Inl e))"
| "error_reply (AskImage _ _) r = (\<exists>e. r = SearchReply (Inl e))"
| "error_reply (AskClassify _) r = (\<exists>e. r = ClassifyReply (Inl e))"
| "error_reply AskBackfill r = (\<exists>e. r = BackfillReply (Inl e))"

fun is_search :: "sem_request \<Rightarrow> bool" where
  "is_search (AskText _ _) = True"
| "is_search (AskImage _ _) = True"
| "is_search _ = False"

fun is_classify :: "sem_request \<Rightarrow> bool" where
  "is_classify (AskClassify _) = True"
| "is_classify _ = False"

type_synonym answer_log = "(sem_cmd \<times> sem_msg) set"

text \<open>A reply a caller may have: an error, or what the worker answered to the caller's own command.\<close>

definition own_reply :: "answer_log \<Rightarrow> sem_cmd \<Rightarrow> sem_reply \<Rightarrow> bool" where
  "own_reply A cmd r = (\<exists>m. (cmd, m) \<in> A \<and> msg_reply m = Some r)"

definition good_reply :: "answer_log \<Rightarrow> sem_caller \<Rightarrow> sem_reply \<Rightarrow> bool" where
  "good_reply A c r = (error_reply (cl_request c) r \<or> own_reply A (cl_cmd c) r)"

definition good_outcome :: "answer_log \<Rightarrow> sem_caller \<Rightarrow> sem_outcome \<Rightarrow> bool" where
  "good_outcome A c out = (no_answer (cl_request c) out \<or> (\<exists>r. own_reply A (cl_cmd c) r \<and> out = outcome_of r))"

definition good_caller :: "answer_log \<Rightarrow> nat \<Rightarrow> sem_caller \<Rightarrow> bool" where
  "good_caller A n c =
     ((\<forall>r. cl_slot c = Some r \<longrightarrow> good_reply A c r)
      \<and> (case cl_phase c of Returned out \<Rightarrow> good_outcome A c out | Sending k \<Rightarrow> k < n | Awaiting \<Rightarrow> True))"

definition good_session :: "sem_cmd set \<Rightarrow> sem_session \<Rightarrow> bool" where
  "good_session C s =
     ((\<forall>cmd\<in>set (se_queue s) \<union> set (se_inbox s) \<union> set (se_tasks s). is_request cmd \<longrightarrow> cmd \<in> C)
      \<and> (\<forall>cmd\<in>set (se_tasks s). is_request cmd)
      \<and> (\<forall>m\<in>set (se_outbox s). msg_reply m \<noteq> None \<longrightarrow> (\<exists>cmd. (cmd, m) \<in> set (se_answered s)))
      \<and> (\<forall>(cmd, m)\<in>set (se_answered s). cmd \<in> C \<and> (\<exists>tr. task_reply tr cmd = Some m)))"

definition answer_log_of :: "sem_session list \<Rightarrow> answer_log" where
  "answer_log_of ss = (\<Union>s\<in>set ss. set (se_answered s))"

definition asked :: "sem_caller list \<Rightarrow> sem_cmd set" where
  "asked cs = cl_cmd ` set cs"

definition ids_in_order :: "sem_caller list \<Rightarrow> bool" where
  "ids_in_order cs = (\<forall>t<length cs. cl_id (cs ! t) = of_nat (Suc t))"

definition pending_ok :: "(sem_request \<Rightarrow> bool) \<Rightarrow> sem_caller list \<Rightarrow> (req_id \<times> nat) list \<Rightarrow> bool" where
  "pending_ok P cs m = (\<forall>(i, t)\<in>set m. t < length cs \<and> cl_id (cs ! t) = i \<and> P (cl_request (cs ! t)))"

definition conn_ok :: "sem_caller list \<Rightarrow> nat \<Rightarrow> semantic_connection \<Rightarrow> bool" where
  "conn_ok cs n c =
     (sc_next_req_id c = of_nat (Suc (length cs)) \<and> sc_writer c < n
      \<and> pending_ok is_search cs (sc_pending_search c) \<and> pending_ok is_classify cs (sc_pending_classify c)
      \<and> pending_ok (\<lambda>rq. rq = AskBackfill) cs (sc_pending_backfill c))"

definition link_inv :: "sem_system \<Rightarrow> bool" where
  "link_inv st =
     (ids_in_order (sy_callers st)
      \<and> (case sy_conn st of None \<Rightarrow> sy_callers st = [] | Some c \<Rightarrow> conn_ok (sy_callers st) (length (sy_sessions st)) c)
      \<and> (\<forall>s\<in>set (sy_sessions st). good_session (asked (sy_callers st)) s)
      \<and> (\<forall>c\<in>set (sy_callers st). good_caller (answer_log_of (sy_sessions st)) (length (sy_sessions st)) c)
      \<and> (\<forall>(n, cmd)\<in>set (sy_waiting st). n < length (sy_sessions st) \<and> \<not> is_request cmd)
      \<and> (sy_state st = WorkerReady \<longrightarrow> sy_sessions st \<noteq> []))"

lemma request_build [simp]: "is_request (build_cmd rq i)" "cmd_req_id (build_cmd rq i) = i"
  by (cases rq; simp)+

lemma cl_cmd_id [simp]: "cmd_req_id (cl_cmd c) = cl_id c" "is_request (cl_cmd c)"
  by (simp_all add: cl_cmd_def)

lemma own_reply_mono: "own_reply A cmd r \<Longrightarrow> A \<subseteq> B \<Longrightarrow> own_reply B cmd r"
  by (auto simp: own_reply_def)

lemma good_caller_mono: "good_caller A n c \<Longrightarrow> A \<subseteq> B \<Longrightarrow> n \<le> k \<Longrightarrow> good_caller B k c"
  unfolding good_caller_def good_reply_def good_outcome_def
  by (cases "cl_phase c") (auto intro: own_reply_mono)

lemma good_session_mono: "good_session C s \<Longrightarrow> C \<subseteq> D \<Longrightarrow> good_session D s"
  unfolding good_session_def by fast

lemma error_outcome: "error_reply rq r \<Longrightarrow> no_answer rq (outcome_of r)"
  by (cases rq) auto

lemma no_answer_without [simp]: "no_answer rq (without_answer rq e)"
  by (cases rq) auto

lemma good_reply_outcome: "good_reply A c r \<Longrightarrow> good_outcome A c (outcome_of r)"
  unfolding good_reply_def good_outcome_def using error_outcome by blast

text \<open>Request ids are distinct as long as the 64-bit counter has not wrapped.\<close>

lemma of_nat_Suc_inj:
  assumes "(of_nat (Suc m) :: req_id) = of_nat (Suc n)" "Suc m < 2 ^ 64" "Suc n < 2 ^ 64"
  shows "m = n"
proof -
  have "unat (of_nat (Suc k) :: req_id) = Suc k" if "Suc k < 2 ^ 64" for k
    using that by (simp add: unsigned_of_nat take_bit_nat_eq_self del: of_nat_Suc)
  then show ?thesis using assms by (metis Suc_inject)
qed

lemma unique_id:
  assumes "ids_in_order cs" "length cs < 2 ^ 64" "t < length cs" "u < length cs" "cl_id (cs ! t) = cl_id (cs ! u)"
  shows "t = u"
proof -
  have "(of_nat (Suc t) :: req_id) = of_nat (Suc u)" using assms by (simp add: ids_in_order_def del: of_nat_Suc)
  with assms show ?thesis by (intro of_nat_Suc_inj[of t u]) auto
qed

lemma own_command:
  assumes "ids_in_order cs" "length cs < 2 ^ 64" "cmd \<in> asked cs" "t < length cs" "cl_id (cs ! t) = cmd_req_id cmd"
  shows "cmd = cl_cmd (cs ! t)"
proof -
  obtain u where "u < length cs" "cmd = cl_cmd (cs ! u)" using assms(3) by (auto simp: asked_def in_set_conv_nth)
  then show ?thesis using unique_id[OF assms(1,2,4), of u] assms(5) by simp
qed

lemma task_reply_id:
  assumes "task_reply tr cmd = Some m"
  shows "msg_req_id m = cmd_req_id cmd"
  using assms by (cases cmd) (auto simp: err_or_def split: sum.splits)

text \<open>What is delivered: errors, or the answer to the command of that very caller.\<close>

definition good_deliveries :: "answer_log \<Rightarrow> sem_caller list \<Rightarrow> deliveries \<Rightarrow> bool" where
  "good_deliveries A cs ds = (\<forall>(t, r)\<in>set ds. t < length cs \<and> good_reply A (cs ! t) r)"

lemma pending_okD: "pending_ok P cs m \<Longrightarrow> map_of m i = Some t \<Longrightarrow> t < length cs \<and> cl_id (cs ! t) = i \<and> P (cl_request (cs ! t))"
  unfolding pending_ok_def by (auto dest!: map_of_SomeD)

lemma pending_ok_delete: "pending_ok P cs m \<Longrightarrow> pending_ok P cs (AList.delete i m)"
  unfolding pending_ok_def by (auto simp: AList.delete_eq)

lemma pending_ok_Nil [simp]: "pending_ok P cs []"
  by (simp add: pending_ok_def)

lemma alist_update_subset: "set (AList.update k v al) \<subseteq> insert (k, v) (set al)"
  by (induction al) auto

lemma taken_good:
  assumes "pending_ok P cs m" "\<And>t. t < length cs \<Longrightarrow> cl_id (cs ! t) = i \<Longrightarrow> P (cl_request (cs ! t)) \<Longrightarrow> good_reply A (cs ! t) r"
  shows "good_deliveries A cs (taken i m r)"
  using pending_okD[OF assms(1)] assms(2) by (auto simp: good_deliveries_def taken_def split: option.splits)

lemma good_deliveries_append [simp]:
  "good_deliveries A cs (ds @ es) = (good_deliveries A cs ds \<and> good_deliveries A cs es)"
  "good_deliveries A cs []"
  by (auto simp: good_deliveries_def)

lemma error_good:
  "is_search (cl_request c) \<Longrightarrow> good_reply A c (SearchReply (Inl e))"
  "is_classify (cl_request c) \<Longrightarrow> good_reply A c (ClassifyReply (Inl e))"
  "cl_request c = AskBackfill \<Longrightarrow> good_reply A c (BackfillReply (Inl e))"
  by (cases "cl_request c"; simp add: good_reply_def)+

lemmas complete_defs = complete_search_def complete_classify_def complete_backfill_def

lemma handle_msg_good:
  assumes "conn_ok cs n c" "ids_in_order cs" "length cs < 2 ^ 64" "handle_msg m c = (ds, calls, c')"
    and "msg_reply m \<noteq> None \<longrightarrow> (\<exists>cmd. (cmd, m) \<in> A \<and> cmd \<in> asked cs \<and> (\<exists>tr. task_reply tr cmd = Some m))"
  shows "good_deliveries A cs ds" "conn_ok cs n c'"
proof -
  have own: "good_reply A (cs ! t) r" if "msg_reply m = Some r" "t < length cs" "cl_id (cs ! t) = msg_req_id m" for t r
  proof -
    obtain cmd tr where "(cmd, m) \<in> A" "cmd \<in> asked cs" "task_reply tr cmd = Some m" using assms(5) \<open>msg_reply m = Some r\<close> by auto
    moreover from this have "cmd = cl_cmd (cs ! t)" using own_command[OF assms(2,3)] task_reply_id that by metis
    ultimately show ?thesis using that by (auto simp: good_reply_def own_reply_def)
  qed
  show "good_deliveries A cs ds"
    using assms(1,4) own by (cases m) (auto simp: conn_ok_def complete_defs Let_def intro!: taken_good error_good)
  show "conn_ok cs n c'"
    using assms(1,4) by (cases m) (auto simp: conn_ok_def complete_defs Let_def intro: pending_ok_delete)
qed


lemma put_reply_core [simp]:
  "length (put_reply d cs) = length cs" "cl_id (put_reply d cs ! t) = cl_id (cs ! t)"
  "cl_request (put_reply d cs ! t) = cl_request (cs ! t)" "cl_phase (put_reply d cs ! t) = cl_phase (cs ! t)"
proof -
  have "(cs[u := (cs ! u)\<lparr>cl_slot := x\<rparr>]) ! t = (if t = u \<and> t < length cs then (cs ! t)\<lparr>cl_slot := x\<rparr> else cs ! t)" for u x
    by (cases "u < length cs") (auto simp: nth_list_update list_update_beyond)
  then show "length (put_reply d cs) = length cs" "cl_id (put_reply d cs ! t) = cl_id (cs ! t)"
    "cl_request (put_reply d cs ! t) = cl_request (cs ! t)" "cl_phase (put_reply d cs ! t) = cl_phase (cs ! t)"
    by (auto simp: put_reply_def split: caller_phase.splits)
qed

lemma put_replies_core [simp]:
  "length (put_replies ds cs) = length cs" "cl_id (put_replies ds cs ! t) = cl_id (cs ! t)"
  "cl_request (put_replies ds cs ! t) = cl_request (cs ! t)" "cl_phase (put_replies ds cs ! t) = cl_phase (cs ! t)"
  by (induction ds arbitrary: cs) (simp_all add: put_replies_def)

lemma put_replies_cmd [simp]: "cl_cmd (put_replies ds cs ! t) = cl_cmd (cs ! t)" "cl_cmd (put_reply d cs ! t) = cl_cmd (cs ! t)"
  by (simp_all add: cl_cmd_def)

lemma slot_good: "good_caller A n c \<Longrightarrow> good_reply A c r \<Longrightarrow> good_caller A n (c\<lparr>cl_slot := Some r\<rparr>)"
  by (simp add: good_caller_def good_reply_def good_outcome_def cl_cmd_def split: caller_phase.splits)

lemma put_reply_good:
  assumes "fst d < length cs" "good_reply A (cs ! fst d) (snd d)" "\<forall>c\<in>set cs. good_caller A n c"
  shows "\<forall>c\<in>set (put_reply d cs). good_caller A n c"
proof -
  have "good_caller A n ((cs ! fst d)\<lparr>cl_slot := Some (snd d)\<rparr>)" using assms by (intro slot_good) auto
  then show ?thesis
    using assms(3) by (auto simp: put_reply_def dest!: subsetD[OF set_update_subset_insert] split: caller_phase.splits)
qed

lemma good_deliveries_core:
  "good_deliveries A (put_reply d cs) ds = good_deliveries A cs ds"
  by (auto simp: good_deliveries_def good_reply_def)

lemma put_replies_good:
  assumes "good_deliveries A cs ds" "\<forall>c\<in>set cs. good_caller A n c"
  shows "\<forall>c\<in>set (put_replies ds cs). good_caller A n c"
  using assms
proof (induction ds arbitrary: cs)
  case (Cons d ds)
  have d: "fst d < length cs" "good_reply A (cs ! fst d) (snd d)" and ds: "good_deliveries A cs ds"
    using Cons.prems(1) by (auto simp: good_deliveries_def)
  have "\<forall>c\<in>set (put_replies ds (put_reply d cs)). good_caller A n c"
  proof (rule Cons.IH)
    show "good_deliveries A (put_reply d cs) ds" using ds by (simp add: good_deliveries_core)
    show "\<forall>c\<in>set (put_reply d cs). good_caller A n c" by (rule put_reply_good[OF d Cons.prems(2)])
  qed
  then show ?case by (simp add: put_replies_def)
qed (simp add: put_replies_def)

lemma core_cong:
  assumes "length ds = length cs" "\<And>t. t < length cs \<Longrightarrow> cl_id (ds ! t) = cl_id (cs ! t) \<and> cl_request (ds ! t) = cl_request (cs ! t)"
  shows "conn_ok ds n c = conn_ok cs n c" "ids_in_order ds = ids_in_order cs" "asked ds = asked cs"
proof -
  have "pending_ok P ds m = pending_ok P cs m" for P m
    unfolding pending_ok_def using assms by (auto simp: split_beta)
  then show "conn_ok ds n c = conn_ok cs n c" by (simp add: conn_ok_def assms(1))
  show "ids_in_order ds = ids_in_order cs" using assms by (simp add: ids_in_order_def)
  have "cl_cmd (ds ! t) = cl_cmd (cs ! t)" if "t < length cs" for t using assms(2)[OF that] by (simp add: cl_cmd_def)
  then have "map cl_cmd ds = map cl_cmd cs" using assms(1) by (intro nth_equalityI) auto
  then show "asked ds = asked cs" unfolding asked_def by (metis list.set_map)
qed

lemma put_replies_cong [simp]:
  "conn_ok (put_replies ds cs) n c = conn_ok cs n c" "ids_in_order (put_replies ds cs) = ids_in_order cs"
  "asked (put_replies ds cs) = asked cs"
  by (rule core_cong; simp)+

section \<open>Steps inside a session\<close>

lemma link_in_session:
  assumes "link_inv st" "in_session n f st = Some st'"
    and "\<And>C s s'. good_session C s \<Longrightarrow> f s = Some s' \<Longrightarrow> good_session C s' \<and> set (se_answered s) \<subseteq> set (se_answered s')"
  shows "link_inv st' \<and> sy_callers st' = sy_callers st"
proof -
  obtain s' where s': "n < length (sy_sessions st)" "f (sy_sessions st ! n) = Some s'"
    "st' = st\<lparr>sy_sessions := (sy_sessions st)[n := s']\<rparr>"
    using assms(2) by (auto simp: in_session_def split: if_splits)
  define A where "A = answer_log_of (sy_sessions st)"
  define B where "B = answer_log_of ((sy_sessions st)[n := s'])"
  have old: "good_session (asked (sy_callers st)) (sy_sessions st ! n)" using assms(1) s'(1) by (simp add: link_inv_def)
  have new: "good_session (asked (sy_callers st)) s'" "set (se_answered (sy_sessions st ! n)) \<subseteq> set (se_answered s')"
    using assms(3)[OF old s'(2)] by auto
  have "A \<subseteq> B"
  proof
    fix x assume "x \<in> A"
    then obtain k where k: "k < length (sy_sessions st)" "x \<in> set (se_answered (sy_sessions st ! k))"
      unfolding A_def answer_log_of_def by (metis UN_E in_set_conv_nth)
    then have "x \<in> set (se_answered ((sy_sessions st)[n := s'] ! k))" using new(2) by (cases "k = n") auto
    then show "x \<in> B" using k(1) nth_mem[of k "(sy_sessions st)[n := s']"] unfolding B_def answer_log_of_def by auto
  qed
  then have "\<forall>c\<in>set (sy_callers st). good_caller B (length (sy_sessions st)) c"
    using assms(1) by (auto simp: link_inv_def A_def intro: good_caller_mono)
  then show ?thesis
    using assms(1) new(1) s'(1) set_update_subset_insert[of "sy_sessions st" n s'] unfolding link_inv_def B_def s'(3)
    by (auto split: option.splits)
qed

lemma sink_step_good: "good_session C s \<Longrightarrow> sink_step s = Some s' \<Longrightarrow> good_session C s' \<and> set (se_answered s) \<subseteq> set (se_answered s')"
  by (auto simp: sink_step_def good_session_def split: if_splits list.splits)

lemma deliver_fields [simp]:
  "se_queue (deliver i r s) = se_queue s" "se_inbox (deliver i r s) = se_inbox s" "se_tasks (deliver i r s) = se_tasks s"
  "se_outbox (deliver i r s) = se_outbox s" "se_answered (deliver i r s) = se_answered s" "se_served (deliver i r s) = se_served s"
  "se_serving (deliver i r s) = se_serving s" "se_next_call (deliver i r s) = se_next_call s"
  "se_pending_calls (deliver i r s) = AList.delete i (se_pending_calls s)"
  by (auto simp: deliver_def Let_def split: option.splits)

lemma dispatch_step_good:
  assumes "good_session C s" "dispatch_step s = Some s'"
  shows "good_session C s' \<and> set (se_answered s) \<subseteq> set (se_answered s')"
proof -
  obtain cmd rest where c: "se_inbox s = cmd # rest" "dispatch_cmd cmd (s\<lparr>se_inbox := rest\<rparr>) = Some s'"
    using assms(2) by (auto simp: dispatch_step_def split: list.splits if_splits)
  then show ?thesis using assms(1) by (cases cmd) (auto simp: good_session_def split: if_splits)
qed

lemma set_drop_one: "set (take k xs @ drop (Suc k) xs) \<subseteq> set xs"
  by (auto dest: in_set_takeD in_set_dropD)

lemma finish_task_good:
  assumes "good_session C s" "finish_task k tr s = Some s'"
  shows "good_session C s' \<and> set (se_answered s) \<subseteq> set (se_answered s')"
proof -
  obtain m where m: "k < length (se_tasks s)" "task_reply tr (se_tasks s ! k) = Some m"
    "s' = s\<lparr>se_tasks := take k (se_tasks s) @ drop (Suc k) (se_tasks s), se_outbox := se_outbox s @ [m],
                 se_answered := se_answered s @ [(se_tasks s ! k, m)]\<rparr>"
    using assms(2) by (auto simp: finish_task_def split: if_splits option.splits)
  have "se_tasks s ! k \<in> C" using assms(1) m(1) unfolding good_session_def by (meson UnCI nth_mem)
  then show ?thesis
    using assms(1) m(2) set_drop_one[of k "se_tasks s"] unfolding good_session_def m(3) by (simp, blast)
qed

lemma ask_msg_no_reply [simp]: "msg_reply (ask_msg a i) = None"
  by (cases a) auto

lemma call_steps_good:
  "good_session C s \<Longrightarrow> good_session C (start_call up a s) \<and> set (se_answered s) \<subseteq> set (se_answered (start_call up a s))"
  "good_session C s \<Longrightarrow> end_call expired k s = Some s' \<Longrightarrow> good_session C s' \<and> set (se_answered s) \<subseteq> set (se_answered s')"
  "good_session C s \<Longrightarrow> serve_step k v s = Some s' \<Longrightarrow> good_session C s' \<and> set (se_answered s) \<subseteq> set (se_answered s')"
  by (auto simp: start_call_def end_call_def serve_step_def good_session_def Let_def split: if_splits option.splits bool.splits)

section \<open>Steps of the system\<close>

lemma pending_ok_grow: "pending_ok P cs m \<Longrightarrow> pending_ok P (cs @ [x]) m"
  by (auto simp: pending_ok_def nth_append)

lemma pending_ok_add:
  assumes "pending_ok P cs m" "P (cl_request x)" "cl_id x = i"
  shows "pending_ok P (cs @ [x]) (AList.update i (length cs) m)"
  using pending_ok_grow[OF assms(1), of x] assms(2,3) alist_update_subset[of i "length cs" m] by (auto simp: pending_ok_def)

lemma conn_ok_register:
  assumes "conn_ok cs n c" "cl_id x = sc_next_req_id c" "cl_request x = rq"
  shows "conn_ok (cs @ [x]) n (register rq (sc_next_req_id c) (length cs) (c\<lparr>sc_next_req_id := sc_next_req_id c + 1\<rparr>))"
proof -
  have next_id: "sc_next_req_id c + 1 = of_nat (Suc (length (cs @ [x])))" and w: "sc_writer c < n"
    and p: "pending_ok is_search cs (sc_pending_search c)" "pending_ok is_classify cs (sc_pending_classify c)"
      "pending_ok (\<lambda>rq. rq = AskBackfill) cs (sc_pending_backfill c)"
    using assms(1) by (auto simp: conn_ok_def)
  note grown = p[THEN pending_ok_grow, of x]
  note added = p[THEN pending_ok_add, OF _ assms(2)]
  show ?thesis
    using w grown added assms(3)
    by (cases rq; simp add: conn_ok_def next_id register_search_def register_classify_def register_backfill_def del: of_nat_Suc length_append)
qed

lemma link_ask:
  assumes "link_inv st" "ask rq st = Some st'"
  shows "link_inv st'"
proof -
  obtain c where c: "sy_conn st = Some c" using assms(2) by (auto simp: ask_def split: option.splits)
  let ?cs = "sy_callers st"
  define x where "x = \<lparr>cl_id = sc_next_req_id c, cl_request = rq, cl_phase = Sending (sc_writer c), cl_slot = None\<rparr>"
  let ?c' = "register rq (sc_next_req_id c) (length ?cs) (c\<lparr>sc_next_req_id := sc_next_req_id c + 1\<rparr>)"
  have st': "st' = st\<lparr>sy_conn := Some ?c', sy_callers := ?cs @ [x]\<rparr>"
    using assms(2) c by (simp add: ask_def alloc_req_id_def x_def)
  have ok: "conn_ok ?cs (length (sy_sessions st)) c" using assms(1) c by (simp add: link_inv_def)
  have "conn_ok (?cs @ [x]) (length (sy_sessions st)) ?c'" by (rule conn_ok_register[OF ok]) (simp_all add: x_def)
  moreover have "ids_in_order (?cs @ [x])"
    using assms(1) ok by (auto simp: link_inv_def ids_in_order_def conn_ok_def nth_append less_Suc_eq x_def)
  moreover have "good_session (asked (?cs @ [x])) s" if "s \<in> set (sy_sessions st)" for s
    using assms(1) that by (auto simp: link_inv_def asked_def elim!: good_session_mono)
  moreover have "good_caller A (length (sy_sessions st)) x" for A
    using ok by (simp add: good_caller_def conn_ok_def x_def)
  ultimately show ?thesis using assms(1) unfolding st' link_inv_def by simp
qed

lemma link_callers_update:
  assumes "link_inv st" "t < length (sy_callers st)" "cl_id c = cl_id (sy_callers st ! t)" "cl_request c = cl_request (sy_callers st ! t)"
    and "good_caller (answer_log_of (sy_sessions st)) (length (sy_sessions st)) c"
  shows "link_inv (st\<lparr>sy_callers := (sy_callers st)[t := c]\<rparr>)"
proof -
  let ?cs = "(sy_callers st)[t := c]"
  have core: "length ?cs = length (sy_callers st)" "\<And>u. u < length (sy_callers st) \<Longrightarrow>
      cl_id (?cs ! u) = cl_id (sy_callers st ! u) \<and> cl_request (?cs ! u) = cl_request (sy_callers st ! u)"
    using assms(2-4) by (auto simp: nth_list_update)
  show ?thesis
    using assms(1,2,5) core_cong[OF core] set_update_subset_insert[of "sy_callers st" t c] unfolding link_inv_def
    by (auto split: option.splits)
qed

lemma link_conn_update:
  assumes "link_inv st" "sy_conn st = Some c" "conn_ok (sy_callers st) (length (sy_sessions st)) c'"
  shows "link_inv (st\<lparr>sy_conn := Some c'\<rparr>)"
  using assms by (simp add: link_inv_def)

lemma link_session_update:
  assumes "link_inv st" "n < length (sy_sessions st)" "good_session (asked (sy_callers st)) s'"
    and "se_answered s' = se_answered (sy_sessions st ! n)"
  shows "link_inv (st\<lparr>sy_sessions := (sy_sessions st)[n := s']\<rparr>)"
proof -
  have "link_inv (st\<lparr>sy_sessions := (sy_sessions st)[n := s']\<rparr>) \<and> sy_callers (st\<lparr>sy_sessions := (sy_sessions st)[n := s']\<rparr>) = sy_callers st"
  proof -
    have same: "map se_answered ((sy_sessions st)[n := s']) = map se_answered (sy_sessions st)"
      using assms(4) by (simp add: map_update list_update_same_conv assms(2))
    have "answer_log_of ss = \<Union> (set ` set (map se_answered ss))" for ss by (simp add: answer_log_of_def)
    then have "answer_log_of ((sy_sessions st)[n := s']) = answer_log_of (sy_sessions st)" using same by metis
    then show ?thesis
      using assms(1,3) set_update_subset_insert[of "sy_sessions st" n s'] unfolding link_inv_def by (auto split: option.splits)
  qed
  then show ?thesis by simp
qed

lemma queue_good:
  assumes "good_session C s" "is_request cmd \<longrightarrow> cmd \<in> C"
  shows "good_session C (s\<lparr>se_queue := se_queue s @ [cmd]\<rparr>)"
  using assms by (auto simp: good_session_def)

lemma conn_ok_send_failed: "conn_ok cs n c \<Longrightarrow> conn_ok cs n (send_failed rq i c)"
  by (cases rq) (auto simp: conn_ok_def complete_defs intro: pending_ok_delete)

lemma link_send_cmd:
  assumes "link_inv st" "send_cmd t st = Some st'"
  shows "link_inv st'"
proof -
  let ?cl = "sy_callers st ! t"
  have t: "t < length (sy_callers st)" using assms(2) by (auto simp: send_cmd_def split: if_splits)
  obtain n c where n: "cl_phase ?cl = Sending n" "sy_conn st = Some c" "n < length (sy_sessions st)"
    using assms(2) by (auto simp: send_cmd_def Let_def split: if_splits caller_phase.splits option.splits)
  let ?s = "sy_sessions st ! n"
  have cl: "good_caller (answer_log_of (sy_sessions st)) (length (sy_sessions st)) ?cl" using assms(1) t by (simp add: link_inv_def)
  have conn: "conn_ok (sy_callers st) (length (sy_sessions st)) c" using assms(1) n by (simp add: link_inv_def)
  show ?thesis
  proof (cases "se_receiver ?s")
    case False
    let ?st1 = "st\<lparr>sy_conn := Some (send_failed (cl_request ?cl) (cl_id ?cl) c)\<rparr>"
    let ?cl1 = "?cl\<lparr>cl_phase := Returned (without_answer (cl_request ?cl) (lit ''semantic worker writer channel closed''))\<rparr>"
    have 1: "link_inv ?st1" by (rule link_conn_update[OF assms(1) n(2) conn_ok_send_failed[OF conn]])
    have "good_caller (answer_log_of (sy_sessions st)) (length (sy_sessions st)) ?cl1"
      using cl by (simp add: good_caller_def good_reply_def good_outcome_def cl_cmd_def)
    then have "link_inv (?st1\<lparr>sy_callers := (sy_callers ?st1)[t := ?cl1]\<rparr>)" using t by (intro link_callers_update[OF 1]) auto
    moreover have "st' = ?st1\<lparr>sy_callers := (sy_callers ?st1)[t := ?cl1]\<rparr>"
      using assms(2) t n False by (simp add: send_cmd_def Let_def)
    ultimately show ?thesis by simp
  next
    case True
    let ?cl1 = "?cl\<lparr>cl_phase := Awaiting\<rparr>"
    let ?st1 = "st\<lparr>sy_callers := (sy_callers st)[t := ?cl1]\<rparr>"
    have room: "length (se_queue ?s) < WRITER_QUEUE_CAPACITY" and st': "st' = ?st1\<lparr>sy_sessions := (sy_sessions st)[n := ?s\<lparr>se_queue := se_queue ?s @ [cl_cmd ?cl]\<rparr>]\<rparr>"
      using assms(2) t n True by (simp_all add: send_cmd_def Let_def split: if_splits)
    have "good_caller (answer_log_of (sy_sessions st)) (length (sy_sessions st)) ?cl1"
      using cl by (simp add: good_caller_def good_reply_def cl_cmd_def)
    then have 1: "link_inv ?st1" using t by (intro link_callers_update[OF assms(1)]) auto
    have "cl_cmd ?cl \<in> asked (sy_callers ?st1)"
      using t nth_mem[of t "(sy_callers st)[t := ?cl1]"] by (auto simp: asked_def cl_cmd_def image_iff intro!: bexI[of _ ?cl1])
    then have "link_inv (?st1\<lparr>sy_sessions := (sy_sessions ?st1)[n := ?s\<lparr>se_queue := se_queue ?s @ [cl_cmd ?cl]\<rparr>]\<rparr>)"
      using 1 n(3) by (intro link_session_update[OF 1] queue_good) (auto simp: link_inv_def)
    then show ?thesis unfolding st' by simp
  qed
qed

lemma link_collect:
  assumes "link_inv st" "collect expired t st = Some st'"
  shows "link_inv st'"
proof -
  let ?cl = "sy_callers st ! t"
  have t: "t < length (sy_callers st)" using assms(2) by (auto simp: collect_def split: if_splits)
  have cl: "good_caller (answer_log_of (sy_sessions st)) (length (sy_sessions st)) ?cl" using assms(1) t by (simp add: link_inv_def)
  obtain out where out: "st' = st\<lparr>sy_callers := (sy_callers st)[t := ?cl\<lparr>cl_phase := Returned out\<rparr>]\<rparr>"
    "(\<exists>r. cl_slot ?cl = Some r \<and> out = outcome_of r) \<or> no_answer (cl_request ?cl) out"
    using assms(2) t by (auto simp: collect_def Let_def split: if_splits option.splits bool.splits)
  have "good_outcome (answer_log_of (sy_sessions st)) ?cl out"
    using out(2)
  proof
    assume "\<exists>r. cl_slot ?cl = Some r \<and> out = outcome_of r"
    then show ?thesis using cl good_reply_outcome by (auto simp: good_caller_def)
  qed (simp add: good_outcome_def)
  then have "good_caller (answer_log_of (sy_sessions st)) (length (sy_sessions st)) (?cl\<lparr>cl_phase := Returned out\<rparr>)"
    using cl by (simp add: good_caller_def good_reply_def good_outcome_def cl_cmd_def)
  then show ?thesis unfolding out(1) using t by (intro link_callers_update[OF assms(1)]) auto
qed

lemma link_push_cmd:
  assumes "link_inv st" "n < length (sy_sessions st)" "\<not> is_request cmd"
  shows "link_inv (push_cmd n cmd st)"
  using assms unfolding push_cmd_def Let_def
  by (intro link_session_update queue_good) (auto simp: link_inv_def)

lemma link_forward:
  assumes "link_inv st" "\<not> is_request cmd"
  shows "link_inv (forward cmd st)"
proof (cases "sy_conn st")
  case (Some c)
  then have w: "sc_writer c < length (sy_sessions st)" using assms(1) by (simp add: link_inv_def conn_ok_def)
  have "link_inv (st\<lparr>sy_waiting := sy_waiting st @ [(sc_writer c, cmd)]\<rparr>)"
    using assms w by (simp add: link_inv_def cong: option.case_cong)
  then show ?thesis using Some link_push_cmd[OF assms(1) w assms(2)] assms(1) by (simp add: forward_def Let_def)
qed (use assms in \<open>simp add: forward_def\<close>)

lemma broadcast_no_request: "cmd \<in> set (broadcast_cmds b) \<Longrightarrow> \<not> is_request cmd"
  by (auto simp: broadcast_cmds_def)

lemma link_forwards:
  assumes "link_inv st" "\<forall>cmd\<in>set cmds. \<not> is_request cmd"
  shows "link_inv (fold forward cmds st)"
  using assms by (induction cmds arbitrary: st) (simp_all add: link_forward)

lemma link_push_waiting:
  assumes "link_inv st" "push_waiting k st = Some st'"
  shows "link_inv st'"
proof -
  have k: "k < length (sy_waiting st)" using assms(2) by (auto simp: push_waiting_def split: if_splits)
  obtain n cmd where nc: "sy_waiting st ! k = (n, cmd)" by fastforce
  let ?st = "st\<lparr>sy_waiting := take k (sy_waiting st) @ drop (Suc k) (sy_waiting st)\<rparr>"
  have n: "n < length (sy_sessions st)" "\<not> is_request cmd"
    using assms(1) k nc nth_mem[OF k] by (auto simp: link_inv_def)
  have inv: "link_inv ?st"
    using assms(1) set_drop_one[of k "sy_waiting st"] unfolding link_inv_def by (auto split: option.splits)
  have "link_inv (push_cmd n cmd ?st)" using n by (intro link_push_cmd[OF inv]) auto
  then show ?thesis using assms(2) inv k nc by (auto simp: push_waiting_def Let_def split: if_splits)
qed

lemma link_read_msg:
  assumes "link_inv st" "read_msg n st = Some st'" "length (sy_callers st) < 2 ^ 64"
  shows "link_inv st'"
proof -
  have n: "n < length (sy_sessions st)" using assms(2) by (auto simp: read_msg_def split: if_splits)
  let ?s = "sy_sessions st ! n"
  obtain m rest c where m: "se_outbox ?s = m # rest" "sy_conn st = Some c"
    using assms(2) by (auto simp: read_msg_def Let_def split: if_splits list.splits option.splits)
  obtain ds calls c' where h: "handle_msg m c = (ds, calls, c')" by (metis surj_pair)
  let ?s' = "?s\<lparr>se_outbox := rest, se_serving := se_serving ?s @ calls\<rparr>"
  have st': "st' = st\<lparr>sy_conn := Some c', sy_callers := put_replies ds (sy_callers st), sy_sessions := (sy_sessions st)[n := ?s']\<rparr>"
    using assms(2) n m h by (simp add: read_msg_def Let_def)
  define A where "A = answer_log_of (sy_sessions st)"
  have good: "good_session (asked (sy_callers st)) ?s" using assms(1) n by (simp add: link_inv_def)
  have "msg_reply m \<noteq> None \<longrightarrow> (\<exists>cmd. (cmd, m) \<in> A \<and> cmd \<in> asked (sy_callers st) \<and> (\<exists>tr. task_reply tr cmd = Some m))"
    using good m(1) n unfolding good_session_def A_def answer_log_of_def by fastforce
  note hm = handle_msg_good[OF _ _ assms(3) h this]
  have ds: "good_deliveries A (sy_callers st) ds" "conn_ok (sy_callers st) (length (sy_sessions st)) c'"
    using hm assms(1) m(2) by (auto simp: link_inv_def)
  let ?st1 = "st\<lparr>sy_conn := Some c'\<rparr>"
  let ?st2 = "?st1\<lparr>sy_callers := put_replies ds (sy_callers st)\<rparr>"
  have "\<forall>c\<in>set (put_replies ds (sy_callers st)). good_caller A (length (sy_sessions st)) c"
    using assms(1) by (intro put_replies_good ds(1)) (simp add: link_inv_def A_def)
  then have 2: "link_inv ?st2" using assms(1) ds(2) by (simp add: link_inv_def A_def)
  have "good_session (asked (sy_callers ?st2)) ?s'" using good m(1) by (auto simp: good_session_def)
  then have "link_inv (?st2\<lparr>sy_sessions := (sy_sessions ?st2)[n := ?s']\<rparr>)" using n by (intro link_session_update[OF 2]) auto
  then show ?thesis unfolding st' by simp
qed

lemma fail_all_good:
  assumes "conn_ok cs n c" "fail_all_pending e c = (ds, c')"
  shows "good_deliveries A cs ds" "conn_ok cs n c'"
proof -
  have "good_deliveries A cs (map (\<lambda>(_, t). (t, r)) m)"
    if "pending_ok P cs m" "\<And>c. P (cl_request c) \<Longrightarrow> good_reply A c r" for P m r
    using that by (auto simp: good_deliveries_def pending_ok_def)
  from this[OF _ error_good(1)] this[OF _ error_good(2)] this[OF _ error_good(3), of "\<lambda>rq. rq = AskBackfill"]
  show "good_deliveries A cs ds" using assms by (auto simp: fail_all_pending_def conn_ok_def)
  show "conn_ok cs n c'" using assms by (auto simp: fail_all_pending_def conn_ok_def)
qed

lemma link_session_over:
  assumes "link_inv st"
  shows "link_inv (session_over st)"
proof (cases "sy_conn st")
  case (Some c)
  obtain ds c' where f: "fail_all_pending worker_disconnected c = (ds, c')" by fastforce
  have ok: "conn_ok (sy_callers st) (length (sy_sessions st)) c" using assms Some by (simp add: link_inv_def)
  note fg = fail_all_good[OF ok f]
  have "\<forall>c\<in>set (put_replies ds (sy_callers st)). good_caller (answer_log_of (sy_sessions st)) (length (sy_sessions st)) c"
    using assms by (intro put_replies_good fg(1)) (simp add: link_inv_def)
  then show ?thesis using assms Some f fg(2) by (simp add: session_over_def link_inv_def)
qed (use assms in \<open>auto simp: session_over_def link_inv_def\<close>)

lemma link_session_end:
  assumes "link_inv st" "session_end st = Some st'"
  shows "link_inv st'"
proof -
  let ?n = "length (sy_sessions st) - 1"
  let ?s = "(sy_sessions st ! ?n)\<lparr>se_worker_up := False, se_tasks := []\<rparr>"
  have n: "?n < length (sy_sessions st)" using assms by (auto simp: link_inv_def session_end_def split: if_splits)
  have "good_session (asked (sy_callers st)) (sy_sessions st ! ?n)" using assms(1) n by (simp add: link_inv_def)
  then have "good_session (asked (sy_callers st)) ?s" by (auto simp: good_session_def)
  then have "link_inv (st\<lparr>sy_sessions := (sy_sessions st)[?n := ?s]\<rparr>)" using n by (intro link_session_update[OF assms(1)]) auto
  then show ?thesis using assms(2) link_session_over by (auto simp: session_end_def Let_def split: if_splits)
qed

lemma link_session_attempt:
  assumes "link_inv st" "session_attempt ack st = Some st'"
  shows "link_inv st'"
proof (cases "case ack of None \<Rightarrow> False | Some m \<Rightarrow> handshake_accepted m")
  case False
  then show ?thesis using assms(2) link_session_over[OF assms(1)] by (auto simp: session_attempt_def split: if_splits)
next
  case True
  let ?n = "length (sy_sessions st)"
  let ?c = "case sy_conn st of Some c \<Rightarrow> rebind_writer ?n c | None \<Rightarrow> connection_new ?n"
  have st': "st' = st\<lparr>sy_sessions := sy_sessions st @ [session_new], sy_state := WorkerReady, sy_conn := Some ?c\<rparr>"
    using assms(2) True by (simp add: session_attempt_def Let_def split: if_splits)
  have "conn_ok (sy_callers st) (Suc ?n) ?c"
    using assms(1) by (auto simp: link_inv_def conn_ok_def rebind_writer_def connection_new_def split: option.splits)
  moreover have "answer_log_of (sy_sessions st @ [session_new]) = answer_log_of (sy_sessions st)"
    by (simp add: answer_log_of_def session_new_def)
  moreover have "good_session C session_new" for C by (simp add: good_session_def session_new_def)
  moreover have "good_caller A (Suc ?n) c" if "good_caller A ?n c" for A c by (rule good_caller_mono[OF that]) auto
  ultimately show ?thesis using assms(1) unfolding st' link_inv_def by (auto simp: less_SucI)
qed

lemma link_backoff: "link_inv st \<Longrightarrow> backoff_over st = Some st' \<Longrightarrow> link_inv st'"
  by (auto simp: backoff_over_def link_inv_def split: if_splits option.splits)

lemma link_step:
  assumes "link_inv st" "sem_step a st = Some st'" "length (sy_callers st) < 2 ^ 64"
  shows "link_inv st'"
proof -
  note local_step = link_in_session[OF assms(1), THEN conjunct1]
  show ?thesis
  proof (cases a)
    case (Broadcast b)
    then show ?thesis using assms link_forwards[OF assms(1)] broadcast_no_request by auto
  next
    case (StartCall n up d)
    then show ?thesis using assms(2) call_steps_good(1) by (auto intro!: local_step split: if_splits) blast
  next
    case (WorkerDies n)
    then show ?thesis using assms(2) by (auto intro!: local_step simp: good_session_def)
  next
    case (SinkStep n)
    with assms(2) local_step[OF _ sink_step_good] show ?thesis by simp
  next
    case (DispatchStep n)
    with assms(2) local_step[OF _ dispatch_step_good] show ?thesis by simp
  next
    case (FinishTask n k tr)
    with assms(2) local_step[OF _ finish_task_good] show ?thesis by simp
  next
    case (EndCall n expired k)
    with assms(2) local_step[OF _ call_steps_good(2)] show ?thesis by simp
  next
    case (ServeStep n k v)
    with assms(2) local_step[OF _ call_steps_good(3)] show ?thesis by simp
  qed (use assms(2,3) in \<open>auto intro: link_ask[OF assms(1)] link_send_cmd[OF assms(1)] link_collect[OF assms(1)]
      link_push_waiting[OF assms(1)] link_read_msg[OF assms(1)] link_session_attempt[OF assms(1)] link_session_end[OF assms(1)]
      link_backoff[OF assms(1)]\<close>)
qed

lemma callers_grow:
  assumes "sem_step a st = Some st'"
  shows "length (sy_callers st) \<le> length (sy_callers st')"
proof -
  have "sy_callers (fold forward cmds st) = sy_callers st" for cmds st
    by (induction cmds arbitrary: st) (auto simp: forward_def push_cmd_def Let_def split: option.splits)
  then show ?thesis using assms
    by (cases a) (auto simp: ask_def alloc_req_id_def send_cmd_def collect_def push_waiting_def push_cmd_def in_session_def read_msg_def
        session_attempt_def session_end_def session_over_def backoff_over_def Let_def
        split: if_splits option.splits prod.splits caller_phase.splits bool.splits list.splits)
qed

lemma reachable_link:
  assumes "sem_reachable st" "length (sy_callers st) < 2 ^ 64"
  shows "link_inv st"
  using assms
proof (induction rule: sem_reachable.induct)
  case sem_init
  show ?case by (simp add: system_new_def link_inv_def ids_in_order_def)
next
  case (sem_next st a st')
  then show ?case using link_step callers_grow by (metis order_le_less_trans)
qed

section \<open>Nobody waits for a worker that is gone\<close>

fun pending_for :: "sem_request \<Rightarrow> semantic_connection \<Rightarrow> (req_id \<times> nat) list" where
  "pending_for (AskText _ _) c = sc_pending_search c"
| "pending_for (AskImage _ _) c = sc_pending_search c"
| "pending_for (AskClassify _) c = sc_pending_classify c"
| "pending_for AskBackfill c = sc_pending_backfill c"




text \<open>A registration only goes away together with a delivery to its caller.\<close>

definition released :: "semantic_connection \<Rightarrow> deliveries \<Rightarrow> semantic_connection \<Rightarrow> bool" where
  "released c ds c' = (\<forall>rq i t. map_of (pending_for rq c) i = Some t \<longrightarrow> map_of (pending_for rq c') i = Some t \<or> t \<in> fst ` set ds)"

lemma released_refl [simp]: "released c [] c"
  by (simp add: released_def)


























section \<open>Invariants of the sessions\<close>

text \<open>A property of a session that every action keeps holds in every session of an execution.\<close>

locale session_invariant =
  fixes P :: "sem_session \<Rightarrow> bool"
  assumes new_ok: "P session_new"
    and queue_ok: "P s \<Longrightarrow> (\<And>i r. cmd \<noteq> CmdCallbackReply i r) \<Longrightarrow> P (s\<lparr>se_queue := se_queue s @ [cmd]\<rparr>)"
    and sink_ok: "P s \<Longrightarrow> sink_step s = Some s' \<Longrightarrow> P s'"
    and dispatch_ok: "P s \<Longrightarrow> dispatch_step s = Some s' \<Longrightarrow> P s'"
    and finish_ok: "P s \<Longrightarrow> finish_task k tr s = Some s' \<Longrightarrow> P s'"
    and start_ok: "P s \<Longrightarrow> P (start_call up a s)"
    and end_ok: "P s \<Longrightarrow> end_call expired k s = Some s' \<Longrightarrow> P s'"
    and serve_ok: "P s \<Longrightarrow> serve_step k v s = Some s' \<Longrightarrow> P s'"
    and dies_ok: "P s \<Longrightarrow> P (s\<lparr>se_worker_up := False\<rparr>)"
    and over_ok: "P s \<Longrightarrow> P (s\<lparr>se_worker_up := False, se_tasks := []\<rparr>)"
    and read_ok: "P s \<Longrightarrow> se_outbox s = m # rest \<Longrightarrow> handle_msg m c = (ds, calls, c') \<Longrightarrow>
        P (s\<lparr>se_outbox := rest, se_serving := se_serving s @ calls\<rparr>)"
begin

definition everywhere :: "sem_system \<Rightarrow> bool" where
  "everywhere st = ((\<forall>s\<in>set (sy_sessions st). P s) \<and> (\<forall>(n, cmd)\<in>set (sy_waiting st). \<forall>i r. cmd \<noteq> CmdCallbackReply i r))"

lemma everywhere_update:
  assumes "everywhere st" "n < length (sy_sessions st) \<Longrightarrow> P s"
  shows "everywhere (st\<lparr>sy_sessions := (sy_sessions st)[n := s]\<rparr>)"
  using assms set_update_subset_insert[of "sy_sessions st" n s]
  by (cases "n < length (sy_sessions st)") (auto simp: everywhere_def list_update_beyond)

lemma everywhere_same: "everywhere st \<Longrightarrow> sy_sessions st' = sy_sessions st \<Longrightarrow> sy_waiting st' = sy_waiting st \<Longrightarrow> everywhere st'"
  by (simp add: everywhere_def)

lemma everywhere_nth: "everywhere st \<Longrightarrow> n < length (sy_sessions st) \<Longrightarrow> P (sy_sessions st ! n)"
  by (simp add: everywhere_def)

lemma everywhere_push:
  "everywhere st \<Longrightarrow> (\<And>i r. cmd \<noteq> CmdCallbackReply i r) \<Longrightarrow> everywhere (push_cmd n cmd st)"
  unfolding push_cmd_def Let_def by (intro everywhere_update queue_ok everywhere_nth)

lemma everywhere_forward:
  assumes "everywhere st" "\<And>i r. cmd \<noteq> CmdCallbackReply i r"
  shows "everywhere (forward cmd st)"
proof -
  have "everywhere (st\<lparr>sy_waiting := sy_waiting st @ [(n, cmd)]\<rparr>)" for n using assms by (auto simp: everywhere_def)
  then show ?thesis using assms everywhere_push[OF assms] by (auto simp: forward_def Let_def split: option.splits)
qed

lemma everywhere_forwards:
  "everywhere st \<Longrightarrow> \<forall>cmd\<in>set cmds. \<forall>i r. cmd \<noteq> CmdCallbackReply i r \<Longrightarrow> everywhere (fold forward cmds st)"
  by (induction cmds arbitrary: st) (auto intro: everywhere_forward)

lemma everywhere_push_waiting:
  assumes "everywhere st" "push_waiting k st = Some st'"
  shows "everywhere st'"
proof -
  have k: "k < length (sy_waiting st)" using assms(2) by (auto simp: push_waiting_def split: if_splits)
  obtain n cmd where nc: "sy_waiting st ! k = (n, cmd)" by fastforce
  have cmd: "\<And>i r. cmd \<noteq> CmdCallbackReply i r" using assms(1) nth_mem[OF k] nc by (fastforce simp: everywhere_def)
  have 1: "everywhere (st\<lparr>sy_waiting := take k (sy_waiting st) @ drop (Suc k) (sy_waiting st)\<rparr>)"
    using assms(1) set_drop_one[of k "sy_waiting st"] unfolding everywhere_def by (simp, blast)
  show ?thesis using assms(2) k nc 1 everywhere_push[OF 1 cmd] by (auto simp: push_waiting_def Let_def split: if_splits)
qed

lemma everywhere_in_session:
  assumes "everywhere st" "in_session n f st = Some st'" "\<And>s s'. P s \<Longrightarrow> f s = Some s' \<Longrightarrow> P s'"
  shows "everywhere st'"
  using assms everywhere_nth[OF assms(1), of n] by (auto simp: in_session_def split: if_splits intro!: everywhere_update)

lemma everywhere_over: "everywhere st \<Longrightarrow> everywhere (session_over st)"
  by (auto simp: session_over_def Let_def split: option.splits prod.splits intro: everywhere_same)

lemma everywhere_step:
  assumes "everywhere st" "sem_step a st = Some st'"
  shows "everywhere st'"
proof (cases a)
  case (Broadcast b)
  then show ?thesis using assms by (auto intro!: everywhere_forwards simp: broadcast_cmds_def)
next
  case (SendCmd t)
  have "build_cmd rq i \<noteq> CmdCallbackReply j r" for rq i j r by (cases rq) auto
  then show ?thesis using SendCmd assms
    by (auto simp: send_cmd_def Let_def cl_cmd_def split: if_splits caller_phase.splits option.splits
        intro!: everywhere_update[of "st\<lparr>sy_callers := cs\<rparr>" for cs, simplified] queue_ok everywhere_nth intro: everywhere_same)
next
  case (ReadMsg n)
  then show ?thesis using assms
    by (auto simp: read_msg_def Let_def split: if_splits list.splits option.splits prod.splits
        intro!: everywhere_update[of "st\<lparr>sy_conn := c, sy_callers := cs\<rparr>" for c cs, simplified] intro: read_ok everywhere_nth everywhere_same)
next
  case SessionEnd
  then show ?thesis using assms
    by (auto simp: session_end_def Let_def split: if_splits intro!: everywhere_over everywhere_update over_ok everywhere_nth)
next
  case (SessionAttempt ack)
  have "everywhere (st\<lparr>sy_sessions := sy_sessions st @ [session_new], sy_state := w, sy_conn := c\<rparr>)" for w c
    using assms(1) new_ok by (auto simp: everywhere_def)
  then show ?thesis using SessionAttempt assms everywhere_over[OF assms(1)]
    by (auto simp: session_attempt_def Let_def split: if_splits)
next
  case (StartCall n up d)
  then have "in_session n (\<lambda>s. if backfilling s then Some (start_call up d s) else None) st = Some st'" using assms(2) by simp
  then show ?thesis by (rule everywhere_in_session[OF assms(1)]) (auto intro: start_ok split: if_splits)
next
  case (WorkerDies n)
  then have "in_session n (\<lambda>s. Some (s\<lparr>se_worker_up := False\<rparr>)) st = Some st'" using assms(2) by simp
  then show ?thesis by (rule everywhere_in_session[OF assms(1)]) (auto intro: dies_ok)
next
  case (SinkStep n)
  then show ?thesis using assms everywhere_in_session[OF _ _ sink_ok] by simp
next
  case (DispatchStep n)
  then show ?thesis using assms everywhere_in_session[OF _ _ dispatch_ok] by simp
next
  case (FinishTask n k tr)
  then show ?thesis using assms everywhere_in_session[OF _ _ finish_ok] by simp
next
  case (EndCall n expired k)
  then show ?thesis using assms everywhere_in_session[OF _ _ end_ok] by simp
next
  case (ServeStep n k v)
  then show ?thesis using assms everywhere_in_session[OF _ _ serve_ok] by simp
next
  case (PushWaiting k)
  then show ?thesis using assms everywhere_push_waiting by simp
qed (use assms in \<open>auto simp: ask_def alloc_req_id_def collect_def backoff_over_def Let_def
      split: if_splits option.splits bool.splits intro: everywhere_same\<close>)

lemma reachable_sessions:
  assumes "sem_reachable st" "s \<in> set (sy_sessions st)"
  shows "P s"
proof -
  have "everywhere st" using assms(1)
  proof (induction rule: sem_reachable.induct)
    case sem_init
    show ?case by (simp add: everywhere_def system_new_def)
  qed (rule everywhere_step)
  then show ?thesis using assms(2) by (simp add: everywhere_def)
qed

end

text \<open>The semaphore: never more search and classification tasks than permits.\<close>

definition permits_ok :: "sem_session \<Rightarrow> bool" where
  "permits_ok s = (length (filter needs_permit (se_tasks s)) \<le> SEARCH_CONCURRENCY)"

lemma filter_drop_one: "length (filter Q (take k xs @ drop (Suc k) xs)) \<le> length (filter Q xs)"
proof -
  have "length (filter Q (drop (Suc k) xs)) \<le> length (filter Q (drop k xs))"
    by (cases "k < length xs") (simp_all flip: Cons_nth_drop_Suc)
  moreover have "length (filter Q xs) = length (filter Q (take k xs)) + length (filter Q (drop k xs))"
    by (metis append_take_drop_id filter_append length_append)
  ultimately show ?thesis by simp
qed

lemma dispatch_permits:
  assumes "permits_ok s" "dispatch_step s = Some s'"
  shows "permits_ok s'"
proof -
  obtain cmd rest where c: "se_inbox s = cmd # rest" "dispatch_cmd cmd (s\<lparr>se_inbox := rest\<rparr>) = Some s'"
    using assms(2) by (auto simp: dispatch_step_def split: list.splits if_splits)
  then show ?thesis using assms(1) by (cases cmd) (auto simp: permits_ok_def split: if_splits)
qed

interpretation permits: session_invariant permits_ok
proof
  show "permits_ok s \<Longrightarrow> finish_task k tr s = Some s' \<Longrightarrow> permits_ok s'" for s k tr s'
    using filter_drop_one[of needs_permit k "se_tasks s"]
    by (auto simp: finish_task_def permits_ok_def split: if_splits option.splits)
qed (auto simp: permits_ok_def session_new_def SEARCH_CONCURRENCY_def sink_step_def start_call_def end_call_def serve_step_def Let_def
      intro: dispatch_permits[unfolded permits_ok_def SEARCH_CONCURRENCY_def] split: if_splits list.splits option.splits bool.splits)














lemma dc_msg_id [simp]: "msg_req_id (dc_msg c) = dc_id c"
  by (cases "dc_ask c") (auto simp: dc_msg_def)





lemma ask_msg_inj: "ask_msg a i = ask_msg b j \<Longrightarrow> a = b \<and> i = j"
  by (cases a; cases b) auto












section \<open>A sample execution\<close>

fun sem_run :: "sem_action list \<Rightarrow> sem_system \<Rightarrow> sem_system option" where
  "sem_run [] st = Some st"
| "sem_run (a # as) st = (case sem_step a st of None \<Rightarrow> None | Some st' \<Rightarrow> sem_run as st')"

lemma sem_run_reachable: "sem_reachable st \<Longrightarrow> sem_run as st = Some st' \<Longrightarrow> sem_reachable st'"
  by (induction as arbitrary: st) (auto split: option.splits intro: sem_next)

definition sample_results :: task_results where
  "sample_results = \<lparr>tr_search = Inr [\<lparr>ah_doc_id = lit ''fs:a'', ah_distance = 0\<rparr>], tr_classify = Inr MImage, tr_backfill = Inr (1, 2)\<rparr>"

definition sample_view :: doc_store_view where
  "sample_view = \<lparr>dv_all_doc_ids = Inr [lit ''fs:a''], dv_hydrate_doc = (\<lambda>d. Inr None), dv_get_body = (\<lambda>d. Inr (Some d))\<rparr>"

text \<open>Two requests are answered in the other order, a backfill asks for a body, and the worker dies with the backfill running.\<close>

definition sample_actions :: "sem_action list" where
  "sample_actions = [SessionAttempt (Some (MsgHandshakeOk 2)), Ask (AskText (lit ''q'') 5), Ask (AskClassify (lit ''q'')), Ask AskBackfill,
     SendCmd 0, SendCmd 1, SendCmd 2, SinkStep 0, SinkStep 0, SinkStep 0, DispatchStep 0, DispatchStep 0, DispatchStep 0,
     FinishTask 0 1 sample_results, FinishTask 0 0 sample_results, StartCall 0 True (AskGetBody (lit ''d'')), ReadMsg 0, ReadMsg 0, ReadMsg 0,
     ServeStep 0 0 (Some sample_view), SinkStep 0, DispatchStep 0, EndCall 0 False 0, Collect False 1, Collect False 0]"

definition sample_system :: sem_system where
  "sample_system = the (sem_run sample_actions system_new)"

lemmas sample_simps = sample_actions_def system_new_def session_attempt_def handshake_accepted_def SEMANTIC_PROTOCOL_def
  connection_new_def ask_def alloc_req_id_def register_search_def register_classify_def register_backfill_def send_cmd_def
  session_new_def WRITER_QUEUE_CAPACITY_def in_session_def sink_step_def dispatch_step_def SEARCH_CONCURRENCY_def finish_task_def
  sample_results_def err_or_def start_call_def backfilling_def read_msg_def complete_defs taken_def put_replies_def put_reply_def
  serve_step_def sample_view_def resp_or_def deliver_def end_call_def collect_def cl_cmd_def Let_def U32_MAX_def

lemma sample_run: "\<exists>st. sem_run sample_actions system_new = Some st \<and> length (sy_callers st) = 3
    \<and> cl_phase (sy_callers st ! 0) = Returned (GotHits [\<lparr>ah_doc_id = lit ''fs:a'', ah_distance = 0\<rparr>])
    \<and> cl_request (sy_callers st ! 0) = AskText (lit ''q'') 5 \<and> cl_id (sy_callers st ! 0) = 1
    \<and> cl_phase (sy_callers st ! 2) = Awaiting \<and> sy_state st = WorkerReady \<and> length (sy_sessions st) = 1
    \<and> length (se_calls (sy_sessions st ! 0)) = 1 \<and> dc_ask (se_calls (sy_sessions st ! 0) ! 0) = AskGetBody (lit ''d'')
    \<and> dc_id (se_calls (sy_sessions st ! 0) ! 0) = 2 ^ 32
    \<and> dc_phase (se_calls (sy_sessions st ! 0) ! 0) = CallReturned (Some (RespGetBody (Some (lit ''d''))))"
  by (simp add: sample_simps)

lemma sample_reachable: "sem_reachable sample_system"
  using sample_run sem_run_reachable[OF sem_init] by (auto simp: sample_system_def)

lemma sample_facts:
  "length (sy_callers sample_system) = 3" "cl_phase (sy_callers sample_system ! 0) = Returned (GotHits [\<lparr>ah_doc_id = lit ''fs:a'', ah_distance = 0\<rparr>])"
  "cl_request (sy_callers sample_system ! 0) = AskText (lit ''q'') 5" "cl_id (sy_callers sample_system ! 0) = 1"
  "cl_phase (sy_callers sample_system ! 2) = Awaiting" "sy_state sample_system = WorkerReady" "length (sy_sessions sample_system) = 1"
  "length (se_calls (sy_sessions sample_system ! 0)) = 1" "dc_ask (se_calls (sy_sessions sample_system ! 0) ! 0) = AskGetBody (lit ''d'')"
  "dc_id (se_calls (sy_sessions sample_system ! 0) ! 0) = 2 ^ 32"
  "dc_phase (se_calls (sy_sessions sample_system ! 0) ! 0) = CallReturned (Some (RespGetBody (Some (lit ''d''))))"
  using sample_run by (auto simp: sample_system_def)

section \<open>What the supervision does not do\<close>

text \<open>
  A request made while the supervisor sleeps. The old writer is still open until its next write fails: the request is accepted, its
  command is lost with that write, and the next session neither sends it again nor fails it. The caller waits for its own time-out,
  half an hour for a backfill, with a worker that is ready.
\<close>

definition stranded_actions :: "sem_action list" where
  "stranded_actions = [SessionAttempt (Some (MsgHandshakeOk 2)), WorkerDies 0, SessionEnd, Ask AskBackfill, SendCmd 0, SinkStep 0,
     BackoffOver, SessionAttempt (Some (MsgHandshakeOk 2))]"

theorem request_during_backoff_is_stranded:
  "\<exists>st. sem_run stranded_actions system_new = Some st \<and> sy_state st = WorkerReady
     \<and> cl_phase (sy_callers st ! 0) = Awaiting \<and> cl_slot (sy_callers st ! 0) = None
     \<and> (\<forall>s\<in>set (sy_sessions st). se_queue s = [] \<and> se_inbox s = [] \<and> se_tasks s = [] \<and> se_outbox s = [])"
  by (simp add: stranded_actions_def sample_simps session_end_def session_over_def fail_all_pending_def backoff_over_def
      rebind_writer_def MIN_BACKOFF_def MAX_BACKOFF_def)

text \<open>The backoff only grows: a session that held for days does not reset it.\<close>

theorem backoff_never_resets:
  assumes "sem_step a st = Some st'" "sy_backoff st \<le> MAX_BACKOFF"
  shows "sy_backoff st \<le> sy_backoff st' \<and> sy_backoff st' \<le> MAX_BACKOFF"
proof -
  have "sy_backoff (fold forward cmds st) = sy_backoff st" for cmds st
    by (induction cmds arbitrary: st) (auto simp: forward_def push_cmd_def Let_def split: option.splits)
  then show ?thesis using assms
    by (cases a) (auto simp: ask_def alloc_req_id_def send_cmd_def collect_def push_waiting_def push_cmd_def in_session_def read_msg_def
        session_attempt_def session_end_def session_over_def backoff_over_def Let_def
        split: if_splits option.splits prod.splits caller_phase.splits bool.splits list.splits)
qed

text \<open>
  A full queue can swap an upsert and a later delete of the same document: the upsert waits in a task of its own, and a slot that
  becomes free before that task has run goes to the delete.
\<close>

theorem full_queue_reorders:
  assumes "sy_conn st = Some c" "sc_writer c = 0" "sy_sessions st = [s]" "sy_waiting st = []" "se_receiver s" "se_worker_up s"
    and "length (se_queue s) = WRITER_QUEUE_CAPACITY" "se_queue s = x # y # rest"
  shows "\<exists>st1 st2 st3. forward (CmdEmbed docs) st = st1 \<and> sem_step (SinkStep 0) st1 = Some st2
     \<and> sem_step (SinkStep 0) (forward (CmdDelete d) st2) = Some st3
     \<and> (\<exists>st4. sem_step (PushWaiting 0) st3 = Some st4 \<and> se_queue (sy_sessions st4 ! 0) = rest @ [CmdDelete d, CmdEmbed docs])"
  using assms by (simp add: forward_def in_session_def sink_step_def push_cmd_def push_waiting_def Let_def)

section \<open>Properties\<close>

text \<open>
  C22: Replies reach the caller that asked. Whatever callers, sessions, restarts, time-outs and late messages there have been, a caller of the
  semantic worker that has returned either has no answer (no hits, text modality, or an error for a backfill), or has exactly what
  the worker answered, in some session, to the command built from this caller's own request and request id, which no other caller's
  command equals. The 64-bit id counter must not have wrapped.
\<close>

theorem semantic_replies_correlated:
  assumes "sem_reachable st" "length (sy_callers st) < 2 ^ 64" "t < length (sy_callers st)" "c = sy_callers st ! t" "cl_phase c = Returned out"
  shows "(no_answer (cl_request c) out
          \<or> (\<exists>s\<in>set (sy_sessions st). \<exists>m r. (build_cmd (cl_request c) (cl_id c), m) \<in> set (se_answered s) \<and> msg_reply m = Some r \<and> out = outcome_of r))
       \<and> {u. u < length (sy_callers st) \<and> cl_cmd (sy_callers st ! u) = build_cmd (cl_request c) (cl_id c)} = {t}"
proof -
  have inv: "link_inv st" by (rule reachable_link[OF assms(1,2)])
  then have "good_outcome (answer_log_of (sy_sessions st)) c out"
    using assms(3-5) nth_mem[OF assms(3)] by (auto simp: link_inv_def good_caller_def split: caller_phase.splits)
  then have "no_answer (cl_request c) out
      \<or> (\<exists>s\<in>set (sy_sessions st). \<exists>m r. (build_cmd (cl_request c) (cl_id c), m) \<in> set (se_answered s) \<and> msg_reply m = Some r \<and> out = outcome_of r)"
    unfolding good_outcome_def own_reply_def answer_log_of_def cl_cmd_def by blast
  moreover have "u = t" if "u < length (sy_callers st)" "cl_cmd (sy_callers st ! u) = build_cmd (cl_request c) (cl_id c)" for u
    using unique_id[of "sy_callers st" u t] inv assms(2-4) that
    by (metis cl_cmd_id(1) link_inv_def request_build(2))
  moreover have "cl_cmd (sy_callers st ! t) = build_cmd (cl_request c) (cl_id c)" using assms(4) by (simp add: cl_cmd_def)
  ultimately show ?thesis using assms(3) by blast
qed

theorem semantic_replies_correlated_witness:
  "(no_answer (AskText (lit ''q'') 5) (GotHits [\<lparr>ah_doc_id = lit ''fs:a'', ah_distance = 0\<rparr>])
     \<or> (\<exists>s\<in>set (sy_sessions sample_system). \<exists>m r. (CmdSearchText 1 (lit ''q'') 5, m) \<in> set (se_answered s) \<and> msg_reply m = Some r
         \<and> GotHits [\<lparr>ah_doc_id = lit ''fs:a'', ah_distance = 0\<rparr>] = outcome_of r))
   \<and> {u. u < length (sy_callers sample_system) \<and> cl_cmd (sy_callers sample_system ! u) = CmdSearchText 1 (lit ''q'') 5} = {0}"
  using semantic_replies_correlated[OF sample_reachable _ _ refl, of 0 "GotHits [\<lparr>ah_doc_id = lit ''fs:a'', ah_distance = 0\<rparr>]"] sample_facts
  by (simp add: U32_MAX_def)





end
