(* ===== verification/Text_Extraction.thy ===== *)
theory Text_Extraction
  imports Index_Search
begin

text \<open>
  Text extraction, \<^verbatim>\<open>lixun-extract/src\<close>: the choice of an extractor, the in-process extractors for zipped XML and
  RTF with their limits, plain text files, the capture of an external tool's output (\<^verbatim>\<open>lib.rs\<close>,
  \<^verbatim>\<open>shell.rs\<close>) and the extraction cache (\<^verbatim>\<open>cache.rs\<close>).

  Bytes are integers from 0 to 255. Third-party code is a parameter: the zip reader (an archive is the list of its entries), the
  RTF tokenizer, the character-set detector, the external programs, the hash of the cache keys and the compression, of which only
  the result of reading a stored entry matters. UTF-8 decoding is the standard library's and is written out.
\<close>

section \<open>UTF-8 decoding\<close>

type_synonym byte_string = "int list"

definition cont_byte :: "int \<Rightarrow> bool" where
  "cont_byte b \<longleftrightarrow> 128 \<le> b \<and> b < 192"

text \<open>The second byte after a lead byte: this is where overlong forms, surrogates and values past the last scalar are excluded.\<close>

definition second_ok :: "int \<Rightarrow> int \<Rightarrow> bool" where
  "second_ok b0 b \<longleftrightarrow>
     (if 194 \<le> b0 \<and> b0 < 224 then cont_byte b
      else if b0 = 224 then 160 \<le> b \<and> b < 192
      else if b0 = 237 then 128 \<le> b \<and> b < 160
      else if 225 \<le> b0 \<and> b0 < 240 then cont_byte b
      else if b0 = 240 then 144 \<le> b \<and> b < 192
      else if 241 \<le> b0 \<and> b0 < 244 then cont_byte b
      else if b0 = 244 then 128 \<le> b \<and> b < 144
      else False)"

fun utf8_step :: "byte_string \<Rightarrow> (rchar \<times> byte_string) option" where
  "utf8_step [] = None"
| "utf8_step (b0 # bs) =
     (if 0 \<le> b0 \<and> b0 < 128 then Some (b0, bs)
      else case bs of
             [] \<Rightarrow> None
           | b1 # bs1 \<Rightarrow>
               if \<not> second_ok b0 b1 then None
               else if b0 < 224 then Some ((b0 - 192) * 64 + (b1 - 128), bs1)
               else (case bs1 of
                       [] \<Rightarrow> None
                     | b2 # bs2 \<Rightarrow>
                         if \<not> cont_byte b2 then None
                         else if b0 < 240 then Some ((b0 - 224) * 4096 + (b1 - 128) * 64 + (b2 - 128), bs2)
                         else (case bs2 of
                                 [] \<Rightarrow> None
                               | b3 # bs3 \<Rightarrow>
                                   if \<not> cont_byte b3 then None
                                   else Some ((b0 - 240) * 262144 + (b1 - 128) * 4096 + (b2 - 128) * 64 + (b3 - 128), bs3))))"

lemma utf8_step_shorter: "utf8_step bs = Some (c, rest) \<Longrightarrow> length rest < length bs"
  by (cases bs) (auto split: list.splits if_splits)

function from_utf8 :: "byte_string \<Rightarrow> rstring option" where
  "from_utf8 bs =
     (if bs = [] then Some []
      else case utf8_step bs of
             None \<Rightarrow> None
           | Some (c, rest) \<Rightarrow> map_option (Cons c) (from_utf8 rest))"
  by pat_completeness auto

termination
  by (relation "measure length") (auto dest: utf8_step_shorter)

declare from_utf8.simps [simp del]

text \<open>Lossy decoding replaces every maximal invalid part by U+FFFD.\<close>

definition bad_len :: "byte_string \<Rightarrow> nat" where
  "bad_len bs =
     (case bs of
        b0 # b1 # rest \<Rightarrow>
          if \<not> second_ok b0 b1 then 1
          else (case rest of b2 # _ \<Rightarrow> if cont_byte b2 then 3 else 2 | [] \<Rightarrow> 2)
      | _ \<Rightarrow> 1)"

lemma bad_len_pos: "0 < bad_len bs"
  by (simp add: bad_len_def split: list.split)

function from_utf8_lossy :: "byte_string \<Rightarrow> rstring" where
  "from_utf8_lossy bs =
     (if bs = [] then []
      else case utf8_step bs of
             None \<Rightarrow> 65533 # from_utf8_lossy (drop (bad_len bs) bs)
           | Some (c, rest) \<Rightarrow> c # from_utf8_lossy rest)"
  by pat_completeness auto

termination
  by (relation "measure length") (auto dest: utf8_step_shorter simp: bad_len_pos)

declare from_utf8_lossy.simps [simp del]

definition is_scalar :: "rchar \<Rightarrow> bool" where
  "is_scalar c \<longleftrightarrow> 0 \<le> c \<and> c < 1114112 \<and> \<not> (55296 \<le> c \<and> c < 57344)"

lemma utf8_step_bytes: "is_scalar c \<Longrightarrow> utf8_step (utf8_bytes c @ rest) = Some (c, rest)"
proof -
  assume c: "is_scalar c"
  consider "c < 128" | "128 \<le> c" "c < 2048" | "2048 \<le> c" "c < 65536" | "65536 \<le> c" by linarith
  then show ?thesis
  proof cases
    case 1
    then show ?thesis using c by (simp add: utf8_bytes_def is_scalar_def)
  next
    case 2
    define q r where "q = c div 64" and "r = c mod 64"
    have eq: "utf8_bytes c = [192 + q, 128 + r]" using 2 by (simp add: utf8_bytes_def q_def r_def)
    have v: "c = q * 64 + r" "0 \<le> r" "r < 64" by (auto simp: q_def r_def)
    then have "2 \<le> q" "q < 32" using 2 by linarith+
    then show ?thesis unfolding eq using v by (simp add: second_ok_def cont_byte_def)
  next
    case 3
    define q m r where "q = c div 4096" and "m = c div 64 mod 64" and "r = c mod 64"
    have eq: "utf8_bytes c = [224 + q, 128 + m, 128 + r]" using 3 by (simp add: utf8_bytes_def q_def m_def r_def)
    have "q = c div 64 div 64" using zdiv_zmult2_eq[of 64 c 64] by (simp add: q_def)
    then have v: "c = q * 4096 + m * 64 + r"
      using div_mult_mod_eq[of c 64] div_mult_mod_eq[of "c div 64" 64] unfolding m_def r_def by linarith
    have w: "0 \<le> r" "r < 64" "0 \<le> m" "m < 64" by (auto simp: m_def r_def)
    have x: "0 \<le> q" "q < 16" "q = 0 \<longrightarrow> 32 \<le> m" "q = 13 \<longrightarrow> m < 32" using 3 v w c by (auto simp: is_scalar_def)
    show ?thesis unfolding eq using v w x by (simp add: second_ok_def cont_byte_def)
  next
    case 4
    define q n m r where "q = c div 262144" and "n = c div 4096 mod 64" and "m = c div 64 mod 64" and "r = c mod 64"
    have eq: "utf8_bytes c = [240 + q, 128 + n, 128 + m, 128 + r]" using 4 by (simp add: utf8_bytes_def q_def n_def m_def r_def)
    have "c div 4096 = c div 64 div 64" "q = c div 4096 div 64"
      using zdiv_zmult2_eq[of 64 c 64] zdiv_zmult2_eq[of 64 c 4096] by (simp_all add: q_def)
    then have v: "c = q * 262144 + n * 4096 + m * 64 + r"
      using div_mult_mod_eq[of c 64] div_mult_mod_eq[of "c div 64" 64] div_mult_mod_eq[of "c div 4096" 64]
      unfolding n_def m_def r_def by linarith
    have w: "0 \<le> r" "r < 64" "0 \<le> m" "m < 64" "0 \<le> n" "n < 64" by (auto simp: m_def r_def n_def)
    have x: "0 \<le> q" "q < 5" "q = 0 \<longrightarrow> 16 \<le> n" "q = 4 \<longrightarrow> n < 16" using 4 v w c by (auto simp: is_scalar_def)
    show ?thesis unfolding eq using v w x by (simp add: second_ok_def cont_byte_def)
  qed
qed

lemma from_utf8_append:
  assumes "list_all is_scalar s"
  shows "from_utf8 (utf8_encode s @ rest) = map_option (append s) (from_utf8 rest)"
  using assms
proof (induction s)
  case (Cons c s)
  have "utf8_bytes c \<noteq> []" by (simp add: utf8_bytes_def)
  then show ?case using Cons utf8_step_bytes[of c "utf8_encode s @ rest"]
    by (subst from_utf8.simps) (cases "from_utf8 rest"; simp)
qed (cases "from_utf8 rest"; simp)

lemma from_utf8_encode: "list_all is_scalar s \<Longrightarrow> from_utf8 (utf8_encode s) = Some s"
  using from_utf8_append[of s "[]"] by (simp add: from_utf8.simps)

text \<open>A character cut in the middle is not UTF-8.\<close>

lemma cut_character: "is_scalar c \<Longrightarrow> strict_prefix p (utf8_bytes c) \<Longrightarrow> p \<noteq> [] \<Longrightarrow> from_utf8 p = None"
  by (subst from_utf8.simps) (auto simp: utf8_bytes_def strict_prefix_def prefix_Cons is_scalar_def split: if_splits)

section \<open>Capabilities and limits\<close>

datatype extract_error =
    TooBig | ZipBroken | ZipEntries | ZipEntryTooBig | ZipTooBig | MissingPart | NotText
  | RtfParse | RtfNoProgress | RtfTokens | RtfDepth | RtfDeadline | ToolFailed | ToolTimedOut | ReadFailed | Panicked

definition andthen :: "'e + 'a \<Rightarrow> ('a \<Rightarrow> 'e + 'b) \<Rightarrow> 'e + 'b" where
  "andthen r k = (case r of Inl e \<Rightarrow> Inl e | Inr x \<Rightarrow> k x)"

lemma andthen_simps [simp]: "andthen (Inl e) k = Inl e" "andthen (Inr x) k = k x"
  by (simp_all add: andthen_def)

lemma andthen_Inr: "andthen r k = Inr y \<longleftrightarrow> (\<exists>x. r = Inr x \<and> k x = Inr y)"
  by (cases r) auto

record capabilities =
  xc_max_input :: nat
  xc_max_decompress :: nat
  xc_max_output :: nat
  xc_max_zip_entries :: nat
  xc_has_pdftotext :: bool
  xc_has_antiword :: bool
  xc_has_catdoc :: bool
  xc_has_libreoffice :: bool

definition MIB :: nat where
  "MIB = 1024 * 1024"

definition ZIP_ENTRY_MAX_BYTES :: nat where
  "ZIP_ENTRY_MAX_BYTES = 32 * MIB"

definition RTF_MAX_TOKENS :: nat where
  "RTF_MAX_TOKENS = 1000000"

definition RTF_MAX_NESTING_DEPTH :: nat where
  "RTF_MAX_NESTING_DEPTH = 256"

definition RTF_DEADLINE_CHECK_TOKENS :: nat where
  "RTF_DEADLINE_CHECK_TOKENS = 1024"

definition RTF_NO_PROGRESS_LIMIT :: nat where
  "RTF_NO_PROGRESS_LIMIT = 1024"

definition ensure_len :: "nat \<Rightarrow> nat \<Rightarrow> extract_error + unit" where
  "ensure_len n limit = (if limit < n then Inl TooBig else Inr ())"

text \<open>Both pushes check the new length in 64 bits (the overflow case is an error too) before appending.\<close>

definition push_capped :: "('a list \<Rightarrow> nat) \<Rightarrow> 'a list \<Rightarrow> 'a list \<Rightarrow> nat \<Rightarrow> extract_error + 'a list" where
  "push_capped len out addition limit =
     (if 2 ^ 64 \<le> len out + len addition \<or> limit < len out + len addition then Inl TooBig else Inr (out @ addition))"

definition push_capped_bytes :: "byte_string \<Rightarrow> byte_string \<Rightarrow> nat \<Rightarrow> extract_error + byte_string" where
  "push_capped_bytes = push_capped length"

definition push_capped_str :: "rstring \<Rightarrow> rstring \<Rightarrow> nat \<Rightarrow> extract_error + rstring" where
  "push_capped_str = push_capped utf8_len"

section \<open>Zipped XML\<close>

text \<open>An entry of an archive: whether it can be opened, its declared size, and the bytes its stream yields (\<open>None\<close>: a read error).\<close>

record zip_entry =
  ze_name :: rstring
  ze_opens :: bool
  ze_size :: nat
  ze_stream :: "byte_string option"

fun validate_entries :: "capabilities \<Rightarrow> nat \<Rightarrow> zip_entry list \<Rightarrow> extract_error + unit" where
  "validate_entries caps acc [] = Inr ()"
| "validate_entries caps acc (z # zs) =
     (if \<not> ze_opens z then Inl ZipBroken
      else if ZIP_ENTRY_MAX_BYTES < ze_size z then Inl ZipEntryTooBig
      else if 2 ^ 64 \<le> acc + ze_size z \<or> xc_max_decompress caps < acc + ze_size z then Inl ZipTooBig
      else validate_entries caps (acc + ze_size z) zs)"

definition validate_zip_archive :: "capabilities \<Rightarrow> zip_entry list \<Rightarrow> extract_error + unit" where
  "validate_zip_archive caps zs = (if xc_max_zip_entries caps < length zs then Inl ZipEntries else validate_entries caps 0 zs)"

definition read_zip_file_to_string :: "capabilities \<Rightarrow> zip_entry \<Rightarrow> extract_error + rstring" where
  "read_zip_file_to_string caps z =
     (if ZIP_ENTRY_MAX_BYTES < ze_size z then Inl ZipEntryTooBig
      else if xc_max_decompress caps < ze_size z then Inl ZipTooBig
      else case ze_stream z of
             None \<Rightarrow> Inl ReadFailed
           | Some bs \<Rightarrow> (case from_utf8 (take (ze_size z + 1) bs) of Some s \<Rightarrow> Inr s | None \<Rightarrow> Inl NotText))"

fun strip_tags :: "bool \<Rightarrow> rstring \<Rightarrow> rstring" where
  "strip_tags in_tag [] = []"
| "strip_tags in_tag (c # cs) =
     (if c = 60 then strip_tags True cs
      else if c = 62 then strip_tags False cs
      else if in_tag then strip_tags in_tag cs
      else c # strip_tags in_tag cs)"

definition strip_xml_tags :: "rstring \<Rightarrow> rstring" where
  "strip_xml_tags s = strip_tags False s"

definition by_name :: "rstring \<Rightarrow> zip_entry list \<Rightarrow> zip_entry option" where
  "by_name name zs = (case find (\<lambda>z. ze_name z = name) zs of Some z \<Rightarrow> if ze_opens z then Some z else None | None \<Rightarrow> None)"

definition part_matches :: "rstring \<Rightarrow> zip_entry \<Rightarrow> bool" where
  "part_matches dir z = (ze_opens z \<and> starts_with (ze_name z) dir \<and> suffix (lit ''.xml'') (ze_name z))"

definition add_part :: "capabilities \<Rightarrow> rstring \<Rightarrow> zip_entry \<Rightarrow> extract_error + rstring" where
  "add_part caps out z =
     andthen (read_zip_file_to_string caps z) (\<lambda>content. push_capped_str out (strip_xml_tags content) (xc_max_output caps))"

fun add_parts :: "capabilities \<Rightarrow> rstring \<Rightarrow> rstring \<Rightarrow> zip_entry list \<Rightarrow> extract_error + rstring" where
  "add_parts caps dir out [] = Inr out"
| "add_parts caps dir out (z # zs) =
     (if part_matches dir z then andthen (add_part caps out z) (\<lambda>out'. add_parts caps dir out' zs)
      else add_parts caps dir out zs)"

definition extract_ooxml :: "capabilities \<Rightarrow> (byte_string \<Rightarrow> zip_entry list option) \<Rightarrow> byte_string \<Rightarrow> extract_error + rstring" where
  "extract_ooxml caps unzip bs =
     andthen (ensure_len (length bs) (xc_max_input caps)) (\<lambda>_.
     case unzip bs of
       None \<Rightarrow> Inl ZipBroken
     | Some zs \<Rightarrow>
         andthen (validate_zip_archive caps zs) (\<lambda>_.
         andthen (case by_name (lit ''word/document.xml'') zs of Some z \<Rightarrow> add_part caps [] z | None \<Rightarrow> Inr []) (\<lambda>out.
         andthen (if out = [] then add_parts caps (lit ''xl/worksheets/'') out zs else Inr out) (\<lambda>out.
         andthen (if out = [] then add_parts caps (lit ''ppt/slides/'') out zs else Inr out) (\<lambda>out.
         Inr (trim out))))))"

definition extract_odt :: "capabilities \<Rightarrow> (byte_string \<Rightarrow> zip_entry list option) \<Rightarrow> byte_string \<Rightarrow> extract_error + rstring" where
  "extract_odt caps unzip bs =
     andthen (ensure_len (length bs) (xc_max_input caps)) (\<lambda>_.
     case unzip bs of
       None \<Rightarrow> Inl ZipBroken
     | Some zs \<Rightarrow>
         andthen (validate_zip_archive caps zs) (\<lambda>_.
         case by_name (lit ''content.xml'') zs of
           None \<Rightarrow> Inl MissingPart
         | Some z \<Rightarrow>
             andthen (read_zip_file_to_string caps z) (\<lambda>content.
             let out = trim (strip_xml_tags content)
             in andthen (ensure_len (utf8_len out) (xc_max_output caps)) (\<lambda>_. Inr out))))"

section \<open>RTF\<close>

datatype rtf_token =
    StartGroup | EndGroup | TextTok byte_string | ControlWord rstring | ControlSymbol rchar | NewlineTok byte_string | OtherTok

record rtf_state =
  rs_out :: byte_string
  rs_tokens :: nat
  rs_depth :: nat
  rs_stuck :: nat

definition rtf_token_step :: "nat \<Rightarrow> rtf_token \<Rightarrow> rtf_state \<Rightarrow> extract_error + rtf_state" where
  "rtf_token_step limit tok st =
     (case tok of
        StartGroup \<Rightarrow>
          if RTF_MAX_NESTING_DEPTH < rs_depth st + 1 then Inl RtfDepth else Inr (st\<lparr>rs_depth := rs_depth st + 1\<rparr>)
      | EndGroup \<Rightarrow> Inr (st\<lparr>rs_depth := rs_depth st - 1\<rparr>)
      | TextTok d \<Rightarrow> andthen (push_capped_bytes (rs_out st) d limit) (\<lambda>out. Inr (st\<lparr>rs_out := out\<rparr>))
      | ControlWord name \<Rightarrow>
          if name = lit ''par'' \<or> name = lit ''line''
          then andthen (push_capped_bytes (rs_out st) [10] limit) (\<lambda>out. Inr (st\<lparr>rs_out := out\<rparr>)) else Inr st
      | ControlSymbol c \<Rightarrow>
          if c = 126 then andthen (push_capped_bytes (rs_out st) [32] limit) (\<lambda>out. Inr (st\<lparr>rs_out := out\<rparr>)) else Inr st
      | NewlineTok d \<Rightarrow> andthen (push_capped_bytes (rs_out st) d limit) (\<lambda>out. Inr (st\<lparr>rs_out := out\<rparr>))
      | OtherTok \<Rightarrow> Inr st)"

text \<open>\<open>late n\<close>: the deadline has passed when the check at token \<open>n\<close> is made.\<close>

function rtf_loop ::
  "(byte_string \<Rightarrow> (byte_string \<times> rtf_token) option) \<Rightarrow> (nat \<Rightarrow> bool) \<Rightarrow> nat \<Rightarrow> byte_string \<Rightarrow> rtf_state \<Rightarrow> extract_error + rtf_state" where
  "rtf_loop read_next late limit input st =
     (if input = [] then Inr st
      else if rs_tokens st mod RTF_DEADLINE_CHECK_TOKENS = 0 \<and> late (rs_tokens st) then Inl RtfDeadline
      else case read_next input of
             None \<Rightarrow> Inl RtfParse
           | Some (remaining, tok) \<Rightarrow>
               if length input \<le> length remaining
               then if RTF_NO_PROGRESS_LIMIT < rs_stuck st + 1 then Inl RtfNoProgress
                    else rtf_loop read_next late limit input (st\<lparr>rs_stuck := rs_stuck st + 1\<rparr>)
               else if RTF_MAX_TOKENS < rs_tokens st + 1 then Inl RtfTokens
               else (case rtf_token_step limit tok (st\<lparr>rs_stuck := 0, rs_tokens := rs_tokens st + 1\<rparr>) of
                       Inl e \<Rightarrow> Inl e
                     | Inr st' \<Rightarrow> rtf_loop read_next late limit remaining st'))"
  by pat_completeness auto

termination
  by (relation "inv_image (less_than <*lex*> less_than)
      (\<lambda>(_, _, _, input, st). (length input, RTF_NO_PROGRESS_LIMIT + 1 - rs_stuck st))") auto

declare rtf_loop.simps [simp del]

definition rtf_text :: "byte_string \<Rightarrow> rstring" where
  "rtf_text out = (case from_utf8 out of Some s \<Rightarrow> trim s | None \<Rightarrow> trim out)"

definition extract_rtf ::
  "capabilities \<Rightarrow> (byte_string \<Rightarrow> (byte_string \<times> rtf_token) option) \<Rightarrow> (nat \<Rightarrow> bool) \<Rightarrow> byte_string \<Rightarrow> extract_error + rstring" where
  "extract_rtf caps read_next late bs =
     andthen (ensure_len (length bs) (xc_max_input caps)) (\<lambda>_.
     andthen (rtf_loop read_next late (xc_max_output caps) bs \<lparr>rs_out = [], rs_tokens = 0, rs_depth = 0, rs_stuck = 0\<rparr>) (\<lambda>st.
     Inr (rtf_text (rs_out st))))"

section \<open>External tools\<close>

definition MAX_CAPTURED_STREAM_BYTES :: nat where
  "MAX_CAPTURED_STREAM_BYTES = 16 * 1024 * 1024"

fun read_capped_loop :: "nat \<Rightarrow> byte_string \<Rightarrow> byte_string list \<Rightarrow> byte_string" where
  "read_capped_loop limit buf [] = buf"
| "read_capped_loop limit buf (chunk # chunks) =
     (if chunk = [] then buf else read_capped_loop limit (buf @ take (min (length chunk) (limit - length buf)) chunk) chunks)"

definition read_capped :: "nat \<Rightarrow> byte_string list \<Rightarrow> byte_string" where
  "read_capped limit chunks = read_capped_loop limit [] chunks"

text \<open>What a child process did: it could not be started, did not end in time, or ended, with the reads of its output.\<close>

datatype run_outcome = SpawnFailed | RanTooLong | Exited bool "byte_string list"

definition system_run :: "run_outcome \<Rightarrow> extract_error + rstring" where
  "system_run oc =
     (case oc of
        SpawnFailed \<Rightarrow> Inl ToolFailed
      | RanTooLong \<Rightarrow> Inl ToolTimedOut
      | Exited success chunks \<Rightarrow>
          if success then Inr (from_utf8_lossy (read_capped MAX_CAPTURED_STREAM_BYTES chunks)) else Inl ToolFailed)"

section \<open>Choosing an extractor\<close>

datatype extractor = PdfExtractor | OoxmlExtractor | OdtExtractor | RtfExtractor | ShellDoc | ShellXls | ShellPpt

definition extractor_for_ext :: "capabilities \<Rightarrow> rstring \<Rightarrow> extractor option" where
  "extractor_for_ext caps ext =
     (if ext = lit ''pdf'' \<and> xc_has_pdftotext caps then Some PdfExtractor
      else if ext \<in> {lit ''docx'', lit ''xlsx'', lit ''pptx''} then Some OoxmlExtractor
      else if ext = lit ''odt'' then Some OdtExtractor
      else if ext = lit ''rtf'' then Some RtfExtractor
      else if ext = lit ''doc'' \<and> xc_has_antiword caps then Some ShellDoc
      else if ext = lit ''xls'' \<and> xc_has_catdoc caps then Some ShellXls
      else if ext = lit ''ppt'' \<and> xc_has_libreoffice caps then Some ShellPpt
      else None)"

record tools =
  xt_unzip :: "byte_string \<Rightarrow> zip_entry list option"
  xt_rtf :: "byte_string \<Rightarrow> (byte_string \<times> rtf_token) option"
  xt_late :: "nat \<Rightarrow> bool"
  xt_run :: "rstring \<Rightarrow> rstring list \<Rightarrow> byte_string \<Rightarrow> run_outcome"
  xt_detect :: "byte_string \<Rightarrow> rstring"
  xt_panics :: "extractor \<Rightarrow> byte_string \<Rightarrow> bool"

text \<open>The document is handed to a tool in a temporary file, here the third argument of \<open>xt_run\<close>.\<close>

definition run_extractor :: "capabilities \<Rightarrow> tools \<Rightarrow> extractor \<Rightarrow> byte_string \<Rightarrow> extract_error + rstring" where
  "run_extractor caps tools x bs =
     (case x of
        PdfExtractor \<Rightarrow> system_run (xt_run tools (lit ''pdftotext'') [lit ''-layout'', lit ''-enc'', lit ''UTF-8''] bs)
      | OoxmlExtractor \<Rightarrow> extract_ooxml caps (xt_unzip tools) bs
      | OdtExtractor \<Rightarrow> extract_odt caps (xt_unzip tools) bs
      | RtfExtractor \<Rightarrow> extract_rtf caps (xt_rtf tools) (xt_late tools) bs
      | ShellDoc \<Rightarrow> system_run (xt_run tools (lit ''antiword'') [lit ''-m'', lit ''UTF-8''] bs)
      | ShellXls \<Rightarrow> system_run (xt_run tools (lit ''catdoc'') [] bs)
      | ShellPpt \<Rightarrow> system_run (xt_run tools (lit ''libreoffice'') [lit ''--headless'', lit ''--cat''] bs))"

definition sniff_bytes :: "byte_string \<Rightarrow> rstring" where
  "sniff_bytes bs = (if 0 \<in> set bs then [] else case from_utf8 bs of Some s \<Rightarrow> s | None \<Rightarrow> [])"

definition extract_bytes :: "capabilities \<Rightarrow> tools \<Rightarrow> rstring option \<Rightarrow> byte_string \<Rightarrow> extract_error + rstring" where
  "extract_bytes caps tools ext_hint bs =
     (let ext = to_ascii_lowercase (case ext_hint of Some e \<Rightarrow> e | None \<Rightarrow> [])
      in case extractor_for_ext caps ext of
           Some x \<Rightarrow> run_extractor caps tools x bs
         | None \<Rightarrow> Inr (sniff_bytes bs))"

definition TEXT_EXTS :: "rstring list" where
  "TEXT_EXTS = map lit
     [''txt'', ''md'', ''log'', ''csv'', ''json'', ''xml'', ''html'', ''htm'', ''yaml'', ''yml'', ''toml'', ''ini'', ''cfg'',
      ''conf'', ''rs'', ''py'', ''js'', ''ts'', ''c'', ''h'', ''cpp'', ''hpp'', ''java'', ''go'', ''sh'', ''css'', ''scss'',
      ''sql'', ''rb'']"

definition extract_text_file :: "capabilities \<Rightarrow> tools \<Rightarrow> byte_string \<Rightarrow> extract_error + rstring" where
  "extract_text_file caps tools content =
     (let bs = take (xc_max_input caps) content;
          txt = (case from_utf8 bs of Some s \<Rightarrow> s | None \<Rightarrow> xt_detect tools bs)
      in andthen (ensure_len (utf8_len txt) (xc_max_output caps)) (\<lambda>_. Inr txt))"

definition SNIFF_LEN :: nat where
  "SNIFF_LEN = 8192"

text \<open>\<open>content\<close> is \<open>None\<close> when the file cannot be opened; \<open>ext\<close> is the lower-cased extension, empty when there is none.\<close>

definition extract_path :: "capabilities \<Rightarrow> tools \<Rightarrow> rstring \<Rightarrow> byte_string option \<Rightarrow> extract_error + rstring" where
  "extract_path caps tools ext content =
     (case extractor_for_ext caps ext of
        Some x \<Rightarrow>
          (case content of
             None \<Rightarrow> Inl ReadFailed
           | Some bs \<Rightarrow> if xt_panics tools x bs then Inl Panicked else run_extractor caps tools x bs)
      | None \<Rightarrow>
          if ext \<in> set TEXT_EXTS then (case content of None \<Rightarrow> Inl ReadFailed | Some bs \<Rightarrow> extract_text_file caps tools bs)
          else case content of
                 Some bs \<Rightarrow>
                   let sniff = take SNIFF_LEN bs
                   in if ext = [] \<and> sniff \<noteq> [] \<and> 0 \<notin> set sniff \<and> from_utf8 sniff \<noteq> None
                      then extract_text_file caps tools bs else Inr []
               | None \<Rightarrow> Inr [])"

section \<open>The cache\<close>

definition engine_tag_for_ext :: "capabilities \<Rightarrow> rstring \<Rightarrow> rstring" where
  "engine_tag_for_ext caps ext =
     (if ext = lit ''pdf'' \<and> xc_has_pdftotext caps then lit ''pdftotext:v1''
      else if ext \<in> {lit ''docx'', lit ''xlsx'', lit ''pptx''} then lit ''ooxml:v1''
      else if ext = lit ''odt'' then lit ''odt:v1''
      else if ext = lit ''rtf'' then lit ''rtf:v1''
      else if ext = lit ''doc'' \<and> xc_has_antiword caps then lit ''antiword:v1''
      else if ext = lit ''xls'' \<and> xc_has_catdoc caps then lit ''catdoc:v1''
      else if ext = lit ''ppt'' \<and> xc_has_libreoffice caps then lit ''libreoffice:v1''
      else lit ''utf8-sniff:v1'')"

fun le_bytes :: "nat \<Rightarrow> int \<Rightarrow> byte_string" where
  "le_bytes 0 v = []"
| "le_bytes (Suc n) v = v mod 256 # le_bytes n (v div 256)"

text \<open>The bytes hashed for a key.\<close>

definition path_message :: "rstring \<Rightarrow> rstring \<Rightarrow> int \<Rightarrow> nat \<Rightarrow> byte_string" where
  "path_message tag canon mtime_ns sz =
     lit ''lixun-extract-cache:path:v1'' @ [0] @ utf8_encode tag @ [0] @ utf8_encode canon @ [0] @
     le_bytes 16 mtime_ns @ le_bytes 8 (int sz)"

definition bytes_message :: "rstring \<Rightarrow> byte_string \<Rightarrow> byte_string" where
  "bytes_message tag bs = lit ''lixun-extract-cache:bytes:v1'' @ [0] @ utf8_encode tag @ [0] @ bs"

datatype stored = Stored rstring | CorruptEntry

definition entry_get :: "bool \<Rightarrow> 'k \<Rightarrow> ('k \<rightharpoonup> stored) \<Rightarrow> rstring option \<times> ('k \<rightharpoonup> stored)" where
  "entry_get readable k c =
     (if \<not> readable then (None, c)
      else case c k of
             None \<Rightarrow> (None, c)
           | Some (Stored txt) \<Rightarrow> (Some txt, c)
           | Some CorruptEntry \<Rightarrow> (None, c(k := None)))"

definition entry_put :: "bool \<Rightarrow> 'k \<Rightarrow> rstring \<Rightarrow> ('k \<rightharpoonup> stored) \<Rightarrow> ('k \<rightharpoonup> stored)" where
  "entry_put writable k txt c = (if writable then c(k \<mapsto> Stored txt) else c)"

definition text_to_option :: "rstring \<Rightarrow> rstring option" where
  "text_to_option s = (if trim s = [] then None else Some s)"

record cached_file =
  cf_ext :: rstring
  cf_canon :: rstring
  cf_stat :: "(int \<times> nat) option"
  cf_content :: "byte_string option"

definition through_cache ::
  "bool \<Rightarrow> bool \<Rightarrow> 'k \<Rightarrow> (extract_error + rstring) \<Rightarrow> ('k \<rightharpoonup> stored) \<Rightarrow> (extract_error + rstring option) \<times> ('k \<rightharpoonup> stored)" where
  "through_cache readable writable k direct c =
     (case entry_get readable k c of
        (Some txt, c1) \<Rightarrow> (Inr (text_to_option txt), c1)
      | (None, c1) \<Rightarrow>
          (case direct of
             Inl e \<Rightarrow> (Inl e, c1)
           | Inr txt \<Rightarrow> (Inr (text_to_option txt), entry_put writable k txt c1)))"

definition cached_extract_path ::
  "capabilities \<Rightarrow> tools \<Rightarrow> (byte_string \<Rightarrow> 'k) \<Rightarrow> bool \<Rightarrow> bool \<Rightarrow> cached_file \<Rightarrow> ('k \<rightharpoonup> stored)
     \<Rightarrow> (extract_error + rstring option) \<times> ('k \<rightharpoonup> stored)" where
  "cached_extract_path caps tools hash readable writable fl c =
     (case cf_stat fl of
        None \<Rightarrow> (Inl ReadFailed, c)
      | Some (mtime_ns, sz) \<Rightarrow>
          through_cache readable writable (hash (path_message (engine_tag_for_ext caps (cf_ext fl)) (cf_canon fl) mtime_ns sz))
            (extract_path caps tools (cf_ext fl) (cf_content fl)) c)"

definition cached_extract_bytes ::
  "capabilities \<Rightarrow> tools \<Rightarrow> (byte_string \<Rightarrow> 'k) \<Rightarrow> bool \<Rightarrow> bool \<Rightarrow> rstring option \<Rightarrow> byte_string \<Rightarrow> ('k \<rightharpoonup> stored)
     \<Rightarrow> (extract_error + rstring option) \<times> ('k \<rightharpoonup> stored)" where
  "cached_extract_bytes caps tools hash readable writable ext_hint bs c =
     (let ext = to_ascii_lowercase (case ext_hint of Some e \<Rightarrow> e | None \<Rightarrow> [])
      in through_cache readable writable (hash (bytes_message (engine_tag_for_ext caps ext) bs)) (extract_bytes caps tools ext_hint bs) c)"

section \<open>Sizes\<close>

lemma utf8_len_Nil [simp]: "utf8_len [] = 0"
  by (simp add: utf8_len_def)

lemma utf8_len_Cons [simp]: "utf8_len (c # s) = utf8_width c + utf8_len s"
  by (simp add: utf8_len_def)

lemma utf8_len_append_eq [simp]: "utf8_len (s @ t) = utf8_len s + utf8_len t"
  by (simp add: utf8_len_def)

lemma utf8_len_prefix: "prefix a s \<Longrightarrow> utf8_len a \<le> utf8_len s"
  by (auto simp: prefix_def)

lemma utf8_len_suffix: "suffix a s \<Longrightarrow> utf8_len a \<le> utf8_len s"
  by (auto simp: suffix_def)

lemma utf8_len_trim: "utf8_len (trim s) \<le> utf8_len s"
  using utf8_len_prefix[OF prefix_trim_end_matches[of is_whitespace "trim_start s"]]
    utf8_len_suffix[OF suffix_dropWhile[of is_whitespace s]]
  by (simp add: trim_def trim_end_def trim_start_def trim_start_matches_def)

lemma utf8_step_width: "utf8_step bs = Some (c, rest) \<Longrightarrow> length bs = utf8_width c + length rest"
  by (cases bs) (auto simp: utf8_width_def second_ok_def cont_byte_def split: list.splits if_splits)

lemma from_utf8_len: "from_utf8 bs = Some s \<Longrightarrow> utf8_len s = length bs"
proof (induction bs arbitrary: s rule: from_utf8.induct)
  case (1 bs)
  show ?case
  proof (cases "bs = []")
    case True
    then show ?thesis using 1 by (simp add: from_utf8.simps)
  next
    case False
    then obtain c rest s' where "utf8_step bs = Some (c, rest)" "from_utf8 rest = Some s'" "s = c # s'"
      using 1(2) by (subst (asm) from_utf8.simps) (auto split: option.splits)
    then show ?thesis using 1(1)[OF False, of "(c, rest)" c rest s'] utf8_step_width by simp
  qed
qed

lemma from_utf8_lossy_len: "utf8_len (from_utf8_lossy bs) \<le> 3 * length bs"
proof (induction bs rule: from_utf8_lossy.induct)
  case (1 bs)
  show ?case
  proof (cases "bs = []")
    case True
    then show ?thesis by (simp add: from_utf8_lossy.simps)
  next
    case False
    show ?thesis
    proof (cases "utf8_step bs")
      case None
      have "0 < length bs" "length (drop (bad_len bs) bs) < length bs" using False bad_len_pos[of bs] by auto
      moreover have "utf8_len (from_utf8_lossy (drop (bad_len bs) bs)) \<le> 3 * length (drop (bad_len bs) bs)"
        using 1(1)[OF False None] .
      ultimately have "utf8_len (from_utf8_lossy (drop (bad_len bs) bs)) + 3 \<le> 3 * length bs" by linarith
      then show ?thesis using False None by (subst from_utf8_lossy.simps) (simp add: utf8_width_def)
    next
      case (Some p)
      obtain c rest where p: "p = (c, rest)" by (cases p)
      have "utf8_len (from_utf8_lossy rest) \<le> 3 * length rest" using 1(2)[OF False Some[unfolded p] refl] .
      moreover have "length bs = utf8_width c + length rest" using Some p utf8_step_width by simp
      ultimately show ?thesis using False Some p by (subst from_utf8_lossy.simps) simp
    qed
  qed
qed

lemma utf8_len_bytes: "list_all (\<lambda>b. b < 256) bs \<Longrightarrow> utf8_len bs \<le> 2 * length bs"
  by (induction bs) (auto simp: utf8_width_def)

lemma read_capped_take:
  assumes "[] \<notin> set chunks"
  shows "read_capped limit chunks = take limit (concat chunks)"
proof -
  have "length buf \<le> limit \<Longrightarrow> [] \<notin> set cs \<Longrightarrow> read_capped_loop limit buf cs = buf @ take (limit - length buf) (concat cs)" for buf cs
  proof (induction cs arbitrary: buf)
    case (Cons c cs)
    let ?k = "min (length c) (limit - length buf)"
    have "length (buf @ take ?k c) \<le> limit" using Cons.prems(1) by auto
    then have "read_capped_loop limit (buf @ take ?k c) cs = (buf @ take ?k c) @ take (limit - length (buf @ take ?k c)) (concat cs)"
      using Cons.IH Cons.prems(2) by simp
    then show ?case using Cons.prems by (auto simp: min_def)
  qed simp
  then show ?thesis using assms by (simp add: read_capped_def)
qed

lemma read_capped_len: "length (read_capped limit chunks) \<le> limit"
proof -
  have "length buf \<le> limit \<Longrightarrow> length (read_capped_loop limit buf cs) \<le> limit" for buf cs
    by (induction cs arbitrary: buf) auto
  then show ?thesis by (simp add: read_capped_def)
qed

subsection \<open>Archives\<close>

lemma push_capped_len: "push_capped len out addition limit = Inr out' \<Longrightarrow> len out' = len (out @ addition) \<and> len out + len addition \<le> limit"
  by (auto simp: push_capped_def split: if_splits)

lemma push_capped_str_len: "push_capped_str out addition limit = Inr out' \<Longrightarrow> utf8_len out' \<le> limit"
  unfolding push_capped_str_def by (drule push_capped_len) simp

lemma add_part_len: "add_part caps out z = Inr out' \<Longrightarrow> utf8_len out' \<le> xc_max_output caps"
  by (auto simp: add_part_def andthen_Inr dest: push_capped_str_len)

lemma add_parts_len: "add_parts caps dir out zs = Inr out' \<Longrightarrow> utf8_len out \<le> xc_max_output caps \<Longrightarrow> utf8_len out' \<le> xc_max_output caps"
  by (induction zs arbitrary: out) (auto simp: andthen_Inr dest: add_part_len split: if_splits)

lemma extract_ooxml_len:
  assumes "extract_ooxml caps unzip bs = Inr s"
  shows "utf8_len s \<le> xc_max_output caps"
proof -
  from assms obtain zs where "andthen (case by_name (lit ''word/document.xml'') zs of Some z \<Rightarrow> add_part caps [] z | None \<Rightarrow> Inr []) (\<lambda>out.
         andthen (if out = [] then add_parts caps (lit ''xl/worksheets/'') out zs else Inr out) (\<lambda>out.
         andthen (if out = [] then add_parts caps (lit ''ppt/slides/'') out zs else Inr out) (\<lambda>out.
         Inr (trim out)))) = Inr s"
    unfolding extract_ooxml_def by (cases "unzip bs") (simp_all add: andthen_Inr, blast)
  then obtain a b c where
    "(case by_name (lit ''word/document.xml'') zs of Some z \<Rightarrow> add_part caps [] z | None \<Rightarrow> Inr []) = Inr a"
    "(if a = [] then add_parts caps (lit ''xl/worksheets/'') a zs else Inr a) = Inr b"
    "(if b = [] then add_parts caps (lit ''ppt/slides/'') b zs else Inr b) = Inr c" "s = trim c"
    unfolding andthen_Inr by blast
  then have "utf8_len a \<le> xc_max_output caps" "utf8_len b \<le> xc_max_output caps" "utf8_len c \<le> xc_max_output caps"
    using add_part_len add_parts_len by (auto split: option.splits if_splits)
  then show ?thesis using utf8_len_trim[of c] \<open>s = trim c\<close> by simp
qed

lemma extract_odt_len: "extract_odt caps unzip bs = Inr s \<Longrightarrow> utf8_len s \<le> xc_max_output caps"
  by (auto simp: extract_odt_def andthen_Inr ensure_len_def Let_def split: option.splits if_splits)

lemma validate_entries_sum:
  "validate_entries caps acc zs = Inr () \<Longrightarrow> acc \<le> xc_max_decompress caps \<Longrightarrow> acc + sum_list (map ze_size zs) \<le> xc_max_decompress caps"
  by (induction zs arbitrary: acc) (fastforce split: if_splits)+

subsection \<open>RTF\<close>

lemma push_capped_bytes_len: "push_capped_bytes out addition limit = Inr out' \<Longrightarrow> length out' \<le> limit \<and> out' = out @ addition"
  by (auto simp: push_capped_bytes_def push_capped_def split: if_splits)

text \<open>What is relied on of the lexer: its tokens carry bytes.\<close>

definition bytes_only :: "byte_string \<Rightarrow> bool" where
  "bytes_only bs = list_all (\<lambda>b. 0 \<le> b \<and> b < 256) bs"

definition token_bytes :: "rtf_token \<Rightarrow> bool" where
  "token_bytes tok = (case tok of TextTok d \<Rightarrow> bytes_only d | NewlineTok d \<Rightarrow> bytes_only d | _ \<Rightarrow> True)"

definition rtf_lexer :: "(byte_string \<Rightarrow> (byte_string \<times> rtf_token) option) \<Rightarrow> bool" where
  "rtf_lexer read_next = (\<forall>input remaining tok. read_next input = Some (remaining, tok) \<longrightarrow> token_bytes tok)"

definition rtf_ok :: "nat \<Rightarrow> rtf_state \<Rightarrow> bool" where
  "rtf_ok limit st \<longleftrightarrow> length (rs_out st) \<le> limit \<and> bytes_only (rs_out st) \<and> rs_tokens st \<le> RTF_MAX_TOKENS \<and> rs_depth st \<le> RTF_MAX_NESTING_DEPTH"

lemma rtf_token_step_ok:
  "rtf_token_step limit tok st = Inr st' \<Longrightarrow> token_bytes tok \<Longrightarrow> rtf_ok limit st
    \<Longrightarrow> rtf_ok limit st' \<and> rs_tokens st' = rs_tokens st \<and> rs_stuck st' = rs_stuck st"
  by (auto simp: rtf_token_step_def rtf_ok_def token_bytes_def bytes_only_def andthen_Inr dest!: push_capped_bytes_len
      split: rtf_token.splits if_splits)

lemma rtf_loop_ok: "rtf_loop read_next late limit input st = Inr st' \<Longrightarrow> rtf_ok limit st \<Longrightarrow> rtf_lexer read_next \<Longrightarrow> rtf_ok limit st'"
proof (induction read_next late limit input st rule: rtf_loop.induct)
  case (1 read_next late limit input st)
  note [simp] = rtf_loop.simps[of read_next late limit input st]
  show ?case
  proof (cases "input = []")
    case True
    then show ?thesis using 1(3,4) by (simp add: rtf_loop.simps[of read_next late limit "[]" st])
  next
    case False
    with 1(3) obtain remaining tok where r: "read_next input = Some (remaining, tok)"
      and nl: "\<not> (rs_tokens st mod RTF_DEADLINE_CHECK_TOKENS = 0 \<and> late (rs_tokens st))"
      by (auto split: if_splits option.splits)
    show ?thesis
    proof (cases "length input \<le> length remaining")
      case True
      then have "\<not> RTF_NO_PROGRESS_LIMIT < rs_stuck st + 1" "rtf_loop read_next late limit input (st\<lparr>rs_stuck := rs_stuck st + 1\<rparr>) = Inr st'"
        using 1(3) False r nl by (auto split: if_splits)
      moreover have "rtf_ok limit (st\<lparr>rs_stuck := rs_stuck st + 1\<rparr>)" using 1(4) by (simp add: rtf_ok_def)
      ultimately show ?thesis using 1(1)[OF False nl r refl True] 1(5) by blast
    next
      case nle: False
      let ?st = "st\<lparr>rs_stuck := 0, rs_tokens := rs_tokens st + 1\<rparr>"
      obtain mid where nt: "\<not> RTF_MAX_TOKENS < rs_tokens st + 1" and m: "rtf_token_step limit tok ?st = Inr mid"
        "rtf_loop read_next late limit remaining mid = Inr st'"
        using 1(3) False r nl nle by (auto split: if_splits sum.splits)
      have "rtf_ok limit ?st" using 1(4) nt by (simp add: rtf_ok_def)
      then have "rtf_ok limit mid" using rtf_token_step_ok[OF m(1)] r 1(5) unfolding rtf_lexer_def by blast
      then show ?thesis using 1(2)[OF False nl r refl nle nt m(1)] m(2) 1(5) by blast
    qed
  qed
qed

lemma extract_rtf_len:
  assumes "extract_rtf caps read_next late bs = Inr s" "rtf_lexer read_next"
  shows "utf8_len s \<le> 2 * xc_max_output caps"
proof -
  obtain st where st: "rtf_loop read_next late (xc_max_output caps) bs \<lparr>rs_out = [], rs_tokens = 0, rs_depth = 0, rs_stuck = 0\<rparr> = Inr st"
    "s = rtf_text (rs_out st)"
    using assms(1) by (auto simp: extract_rtf_def andthen_Inr)
  have "rtf_ok (xc_max_output caps) st"
    by (rule rtf_loop_ok[OF st(1) _ assms(2)]) (simp add: rtf_ok_def bytes_only_def)
  then have out: "length (rs_out st) \<le> xc_max_output caps" "list_all (\<lambda>b. b < 256) (rs_out st)"
    by (auto simp: rtf_ok_def bytes_only_def list_all_iff)
  show ?thesis
  proof (cases "from_utf8 (rs_out st)")
    case None
    then show ?thesis using st(2) out(1) utf8_len_bytes[OF out(2)] utf8_len_trim[of "rs_out st"] by (simp add: rtf_text_def)
  next
    case (Some t)
    then show ?thesis using st(2) out(1) from_utf8_len[OF Some] utf8_len_trim[of t] by (simp add: rtf_text_def)
  qed
qed

lemma system_run_len:
  assumes "system_run oc = Inr s"
  shows "utf8_len s \<le> 3 * MAX_CAPTURED_STREAM_BYTES"
proof -
  obtain chunks where "s = from_utf8_lossy (read_capped MAX_CAPTURED_STREAM_BYTES chunks)"
    using assms by (auto simp: system_run_def split: run_outcome.splits if_splits)
  then show ?thesis
    using from_utf8_lossy_len[of "read_capped MAX_CAPTURED_STREAM_BYTES chunks"] read_capped_len[of MAX_CAPTURED_STREAM_BYTES chunks]
    by (simp add: order_trans[OF _ mult_le_mono2])
qed

lemma extract_text_file_len: "extract_text_file caps tools bs = Inr s \<Longrightarrow> utf8_len s \<le> xc_max_output caps"
  by (auto simp: extract_text_file_def Let_def andthen_Inr ensure_len_def split: if_splits)

section \<open>Cache keys\<close>

lemma split_at_nul:
  assumes "xs @ 0 # ys = xs' @ 0 # ys'" "0 \<notin> set xs" "0 \<notin> set (xs' :: int list)"
  shows "xs = xs' \<and> ys = ys'"
proof -
  have "takeWhile (\<lambda>b. b \<noteq> 0) (zs @ 0 # us) = zs" if "0 \<notin> set zs" for zs us :: "int list"
    using that by (induction zs) auto
  then have "xs = xs'" using assms by metis
  then show ?thesis using assms(1) by simp
qed

lemma le_bytes_length [simp]: "length (le_bytes n v) = n"
  by (induction n arbitrary: v) simp_all

lemma le_bytes_mod: "le_bytes n v = le_bytes n w \<Longrightarrow> v mod 256 ^ n = w mod 256 ^ n"
proof (induction n arbitrary: v w)
  case (Suc n)
  have "v mod 256 = w mod 256" "le_bytes n (v div 256) = le_bytes n (w div 256)" using Suc.prems by simp_all
  note this(1) Suc.IH[OF this(2)]
  moreover have "x mod (256 * 256 ^ n) = 256 * (x div 256 mod 256 ^ n) + x mod 256" for x :: int
    by (simp add: zmod_zmult2_eq)
  ultimately show ?case by simp
qed simp

definition good_name :: "rstring \<Rightarrow> bool" where
  "good_name s \<longleftrightarrow> list_all is_scalar s \<and> 0 \<notin> set s"

definition good_stat :: "int \<Rightarrow> nat \<Rightarrow> bool" where
  "good_stat m z \<longleftrightarrow> - (2 ^ 127) \<le> m \<and> m < 2 ^ 127 \<and> z < 2 ^ 64"

lemma good_name_nul: "good_name s \<Longrightarrow> 0 \<notin> set (utf8_encode s)"
  by (simp add: good_name_def utf8_encode_low)

lemma good_name_inj: "good_name s \<Longrightarrow> good_name t \<Longrightarrow> utf8_encode s = utf8_encode t \<Longrightarrow> s = t"
  by (metis from_utf8_encode good_name_def option.inject)

lemma i128_mod_inj:
  fixes v w :: int
  assumes "v mod 2 ^ 128 = w mod 2 ^ 128" "- (2 ^ 127) \<le> v" "v < 2 ^ 127" "- (2 ^ 127) \<le> w" "w < 2 ^ 127"
  shows "v = w"
proof -
  have "2 ^ 128 dvd v - w" using assms(1) by (simp add: mod_eq_dvd_iff)
  moreover have "\<bar>v - w\<bar> < 2 ^ 128" using assms by auto
  ultimately show ?thesis using dvd_imp_le_int[of "v - w" "2 ^ 128"] by fastforce
qed

lemma path_message_inj:
  assumes "path_message t p m z = path_message t' p' m' z'"
    and "good_name t" "good_name t'" "good_name p" "good_name p'" "good_stat m z" "good_stat m' z'"
  shows "t = t' \<and> p = p' \<and> m = m' \<and> z = z'"
proof -
  have "utf8_encode t @ 0 # utf8_encode p @ 0 # le_bytes 16 m @ le_bytes 8 (int z)
      = utf8_encode t' @ 0 # utf8_encode p' @ 0 # le_bytes 16 m' @ le_bytes 8 (int z')"
    using assms(1) by (simp add: path_message_def)
  then have t: "utf8_encode t = utf8_encode t'" and
    "utf8_encode p @ 0 # le_bytes 16 m @ le_bytes 8 (int z) = utf8_encode p' @ 0 # le_bytes 16 m' @ le_bytes 8 (int z')"
    using split_at_nul good_name_nul assms(2,3) by metis+
  then have p: "utf8_encode p = utf8_encode p'" and "le_bytes 16 m @ le_bytes 8 (int z) = le_bytes 16 m' @ le_bytes 8 (int z')"
    using split_at_nul good_name_nul assms(4,5) by metis+
  then have "le_bytes 16 m = le_bytes 16 m'" "le_bytes 8 (int z) = le_bytes 8 (int z')" by (simp_all add: append_eq_append_conv)
  then have mz: "m mod 256 ^ 16 = m' mod 256 ^ 16" "int z mod 256 ^ 8 = int z' mod 256 ^ 8" using le_bytes_mod by blast+
  have "m = m'" using i128_mod_inj[of m m'] mz(1) assms(6,7) by (simp add: good_stat_def)
  moreover have "z = z'" using mz(2) assms(6,7) by (simp add: good_stat_def)
  ultimately show ?thesis using good_name_inj t p assms(2-5) by simp
qed

lemma bytes_message_inj:
  assumes "bytes_message t bs = bytes_message t' bs'" "good_name t" "good_name t'"
  shows "t = t' \<and> bs = bs'"
proof -
  have "utf8_encode t @ 0 # bs = utf8_encode t' @ 0 # bs'" using assms(1) by (simp add: bytes_message_def)
  then show ?thesis using split_at_nul good_name_nul good_name_inj assms(2,3) by metis
qed

lemma messages_differ: "path_message t p m z \<noteq> bytes_message t' bs"
  by (simp add: path_message_def bytes_message_def lit_def)

lemma good_engine_tag: "good_name (engine_tag_for_ext caps ext)"
  by (simp add: engine_tag_for_ext_def good_name_def lit_def is_scalar_def)

definition tag_of :: "extractor option \<Rightarrow> rstring" where
  "tag_of x =
     (case x of
        Some PdfExtractor \<Rightarrow> lit ''pdftotext:v1'' | Some OoxmlExtractor \<Rightarrow> lit ''ooxml:v1'' | Some OdtExtractor \<Rightarrow> lit ''odt:v1''
      | Some RtfExtractor \<Rightarrow> lit ''rtf:v1'' | Some ShellDoc \<Rightarrow> lit ''antiword:v1'' | Some ShellXls \<Rightarrow> lit ''catdoc:v1''
      | Some ShellPpt \<Rightarrow> lit ''libreoffice:v1'' | None \<Rightarrow> lit ''utf8-sniff:v1'')"

lemma engine_tag_tag_of: "engine_tag_for_ext caps ext = tag_of (extractor_for_ext caps ext)"
  unfolding engine_tag_for_ext_def extractor_for_ext_def if_distrib[of tag_of]
  by (simp only: tag_of_def option.case extractor.case)

lemma lit_inj: "lit a = lit b \<longleftrightarrow> a = b"
  by (metis injD inj_mapI inj_of_char lit_def)

lemma tag_of_inj: "tag_of x = tag_of y \<Longrightarrow> x = y"
  by (cases x; cases y) (auto simp: tag_of_def lit_inj split: extractor.splits)

lemma tag_decides_extractor:
  "engine_tag_for_ext caps e = engine_tag_for_ext caps e' \<Longrightarrow> extractor_for_ext caps e = extractor_for_ext caps e'"
  using tag_of_inj by (simp add: engine_tag_tag_of)

section \<open>Runs with a cache\<close>

text \<open>
  What happens to the cache: extractions (with the outcome of reading and writing the entry), results of the OCR worker stored under
  the key of its own engine, entries evicted by the sweep, entries damaged on disk.
\<close>

datatype 'k cache_op =
    ExtractFile bool bool cached_file
  | ExtractData bool bool "rstring option" byte_string
  | OcrPut bool rstring rstring int nat rstring
  | Evict 'k
  | Damage 'k

definition cache_do ::
  "capabilities \<Rightarrow> tools \<Rightarrow> (byte_string \<Rightarrow> 'k) \<Rightarrow> 'k cache_op \<Rightarrow> ('k \<rightharpoonup> stored)
     \<Rightarrow> (extract_error + rstring option) option \<times> ('k \<rightharpoonup> stored)" where
  "cache_do caps tools hash op c =
     (case op of
        ExtractFile readable writable fl \<Rightarrow> apfst Some (cached_extract_path caps tools hash readable writable fl c)
      | ExtractData readable writable ext_hint bs \<Rightarrow> apfst Some (cached_extract_bytes caps tools hash readable writable ext_hint bs c)
      | OcrPut writable tag canon m z txt \<Rightarrow> (None, entry_put writable (hash (path_message tag canon m z)) txt c)
      | Evict k \<Rightarrow> (None, c(k := None))
      | Damage k \<Rightarrow> (None, c(k := map_option (\<lambda>_. CorruptEntry) (c k))))"

fun cache_run ::
  "capabilities \<Rightarrow> tools \<Rightarrow> (byte_string \<Rightarrow> 'k) \<Rightarrow> 'k cache_op list \<Rightarrow> ('k \<rightharpoonup> stored) \<Rightarrow> (extract_error + rstring option) option list" where
  "cache_run caps tools hash [] c = []"
| "cache_run caps tools hash (op # ops) c =
     (case cache_do caps tools hash op c of (r, c') \<Rightarrow> r # cache_run caps tools hash ops c')"

text \<open>The specification: no cache.\<close>

definition direct :: "capabilities \<Rightarrow> tools \<Rightarrow> 'k cache_op \<Rightarrow> (extract_error + rstring option) option" where
  "direct caps tools op =
     (case op of
        ExtractFile _ _ fl \<Rightarrow>
          Some (if cf_stat fl = None then Inl ReadFailed else map_sum id text_to_option (extract_path caps tools (cf_ext fl) (cf_content fl)))
      | ExtractData _ _ ext_hint bs \<Rightarrow> Some (map_sum id text_to_option (extract_bytes caps tools ext_hint bs))
      | _ \<Rightarrow> None)"

text \<open>
  The circumstances: canonical path, modification time and size determine the content of a file, its extension is that of its
  canonical path, and the engine tag of the OCR worker is none of the extractors'.
\<close>

definition op_ok :: "capabilities \<Rightarrow> (rstring \<Rightarrow> rstring) \<Rightarrow> (rstring \<Rightarrow> int \<Rightarrow> nat \<Rightarrow> byte_string option) \<Rightarrow> 'k cache_op \<Rightarrow> bool" where
  "op_ok caps ext_of content_of op =
     (case op of
        ExtractFile _ _ fl \<Rightarrow>
          (case cf_stat fl of
             None \<Rightarrow> True
           | Some (m, z) \<Rightarrow> good_name (cf_canon fl) \<and> good_stat m z \<and> cf_ext fl = ext_of (cf_canon fl)
               \<and> cf_content fl = content_of (cf_canon fl) m z)
      | OcrPut _ tag canon m z _ \<Rightarrow> good_name tag \<and> good_name canon \<and> good_stat m z \<and> tag \<notin> range tag_of
      | _ \<Rightarrow> True)"

text \<open>What an entry under a key may hold: the text of every extraction that has that key.\<close>

definition true_entry ::
  "capabilities \<Rightarrow> tools \<Rightarrow> (byte_string \<Rightarrow> 'k) \<Rightarrow> (rstring \<Rightarrow> rstring) \<Rightarrow> (rstring \<Rightarrow> int \<Rightarrow> nat \<Rightarrow> byte_string option)
     \<Rightarrow> 'k \<Rightarrow> rstring \<Rightarrow> bool" where
  "true_entry caps tools hash ext_of content_of k s \<longleftrightarrow>
     (\<forall>canon m z. good_name canon \<longrightarrow> good_stat m z \<longrightarrow>
        k = hash (path_message (engine_tag_for_ext caps (ext_of canon)) canon m z) \<longrightarrow>
        extract_path caps tools (ext_of canon) (content_of canon m z) = Inr s) \<and>
     (\<forall>ext_hint bs. k = hash (bytes_message (engine_tag_for_ext caps (to_ascii_lowercase (case ext_hint of Some e \<Rightarrow> e | None \<Rightarrow> []))) bs) \<longrightarrow>
        extract_bytes caps tools ext_hint bs = Inr s)"

definition cache_true ::
  "capabilities \<Rightarrow> tools \<Rightarrow> (byte_string \<Rightarrow> 'k) \<Rightarrow> (rstring \<Rightarrow> rstring) \<Rightarrow> (rstring \<Rightarrow> int \<Rightarrow> nat \<Rightarrow> byte_string option)
     \<Rightarrow> ('k \<rightharpoonup> stored) \<Rightarrow> bool" where
  "cache_true caps tools hash ext_of content_of c \<longleftrightarrow>
     (\<forall>k s. c k = Some (Stored s) \<longrightarrow> true_entry caps tools hash ext_of content_of k s)"

lemma through_cache_true:
  assumes "cache_true caps tools hash ext_of content_of c"
    and hit: "\<And>s. true_entry caps tools hash ext_of content_of k s \<Longrightarrow> d = Inr s"
    and new: "\<And>s. d = Inr s \<Longrightarrow> true_entry caps tools hash ext_of content_of k s"
  shows "fst (through_cache readable writable k d c) = map_sum id text_to_option d
    \<and> cache_true caps tools hash ext_of content_of (snd (through_cache readable writable k d c))"
proof -
  have "d = Inr s" if "c k = Some (Stored s)" for s using assms(1) hit that by (auto simp: cache_true_def)
  then show ?thesis
    using assms(1) new
    by (auto simp: cache_true_def through_cache_def entry_get_def entry_put_def split: option.splits stored.splits sum.splits if_splits)
qed

lemma extract_bytes_by_tag:
  assumes "engine_tag_for_ext caps (to_ascii_lowercase (case a of Some e \<Rightarrow> e | None \<Rightarrow> [])) =
    engine_tag_for_ext caps (to_ascii_lowercase (case b of Some e \<Rightarrow> e | None \<Rightarrow> []))"
  shows "extract_bytes caps tools a bs = extract_bytes caps tools b bs"
  using tag_decides_extractor[OF assms] by (simp add: extract_bytes_def Let_def)

lemma true_entry_path:
  assumes "inj hash" "good_name canon" "good_stat m z"
  shows "true_entry caps tools hash ext_of content_of (hash (path_message (engine_tag_for_ext caps (ext_of canon)) canon m z)) s
    \<longleftrightarrow> extract_path caps tools (ext_of canon) (content_of canon m z) = Inr s"
  using assms path_message_inj[OF _ good_engine_tag good_engine_tag] messages_differ
  by (auto simp: true_entry_def inj_eq; metis)

lemma true_entry_bytes:
  assumes "inj hash"
  shows "true_entry caps tools hash ext_of content_of
      (hash (bytes_message (engine_tag_for_ext caps (to_ascii_lowercase (case ext_hint of Some e \<Rightarrow> e | None \<Rightarrow> []))) bs)) s
    \<longleftrightarrow> extract_bytes caps tools ext_hint bs = Inr s"
proof -
  have same: "extract_bytes caps tools h bs' = extract_bytes caps tools ext_hint bs"
    if "bytes_message (engine_tag_for_ext caps (to_ascii_lowercase (case ext_hint of Some e \<Rightarrow> e | None \<Rightarrow> []))) bs =
      bytes_message (engine_tag_for_ext caps (to_ascii_lowercase (case h of Some e \<Rightarrow> e | None \<Rightarrow> []))) bs'" for h bs'
    using bytes_message_inj[OF that good_engine_tag good_engine_tag] extract_bytes_by_tag[of caps ext_hint h tools bs] by simp
  show ?thesis
    unfolding true_entry_def inj_eq[OF assms] using messages_differ[THEN not_sym] by (metis same)
qed

lemma true_entry_ocr:
  assumes "inj hash" "good_name tag" "good_name canon" "good_stat m z" "tag \<notin> range tag_of"
  shows "true_entry caps tools hash ext_of content_of (hash (path_message tag canon m z)) s"
proof -
  have "\<not> path_message tag canon m z = path_message (engine_tag_for_ext caps e) canon' m' z'"
    if "good_name canon'" "good_stat m' z'" for e canon' m' z'
    using path_message_inj[OF _ assms(2) good_engine_tag assms(3) that(1) assms(4) that(2)] assms(5) engine_tag_tag_of by blast
  then show ?thesis using messages_differ by (auto simp: true_entry_def inj_eq[OF assms(1)])
qed

lemma cache_do_true:
  assumes "inj hash" "op_ok caps ext_of content_of op" "cache_true caps tools hash ext_of content_of c"
  shows "fst (cache_do caps tools hash op c) = direct caps tools op
    \<and> cache_true caps tools hash ext_of content_of (snd (cache_do caps tools hash op c))"
proof (cases op)
  case (ExtractFile r w fl)
  show ?thesis
  proof (cases "cf_stat fl")
    case None
    then show ?thesis using assms(3) by (simp add: ExtractFile cache_do_def direct_def cached_extract_path_def)
  next
    case (Some mz)
    obtain m z where mz: "mz = (m, z)" by (cases mz)
    have ok: "good_name (cf_canon fl)" "good_stat m z" "cf_ext fl = ext_of (cf_canon fl)" "cf_content fl = content_of (cf_canon fl) m z"
      using assms(2) by (auto simp: op_ok_def ExtractFile Some mz)
    show ?thesis
      using through_cache_true[OF assms(3), of "hash (path_message (engine_tag_for_ext caps (cf_ext fl)) (cf_canon fl) m z)"
          "extract_path caps tools (cf_ext fl) (cf_content fl)" r w] true_entry_path[OF assms(1) ok(1,2)]
      by (simp add: ExtractFile cache_do_def direct_def cached_extract_path_def Some mz ok(3,4))
  qed
next
  case (ExtractData r w h bs)
  show ?thesis
    using through_cache_true[OF assms(3), of
        "hash (bytes_message (engine_tag_for_ext caps (to_ascii_lowercase (case h of Some e \<Rightarrow> e | None \<Rightarrow> []))) bs)"
        "extract_bytes caps tools h bs" r w] true_entry_bytes[OF assms(1)]
    by (simp add: ExtractData cache_do_def direct_def cached_extract_bytes_def Let_def)
next
  case (OcrPut w tag canon m z s)
  have "true_entry caps tools hash ext_of content_of (hash (path_message tag canon m z)) s"
    using true_entry_ocr[OF assms(1)] assms(2) by (simp add: OcrPut op_ok_def)
  then show ?thesis using assms(3) by (auto simp: OcrPut cache_do_def direct_def entry_put_def cache_true_def)
qed (use assms(3) in \<open>auto simp: cache_do_def direct_def cache_true_def\<close>)

lemma cache_run_true:
  assumes "inj hash"
  shows "list_all (op_ok caps ext_of content_of) ops \<Longrightarrow> cache_true caps tools hash ext_of content_of c
    \<Longrightarrow> cache_run caps tools hash ops c = map (direct caps tools) ops"
  by (induction ops arbitrary: c) (auto simp: split_beta dest: cache_do_true[OF assms])

text \<open>
  C20: A cached extraction is the extraction. Start with an empty cache directory and let files and attachments be extracted, results
  of OCR be stored, entries be evicted and damaged, entries fail to be read or written, in any order: every extraction returns exactly
  what an extraction without a cache returns, error or text, provided no two messages have the same digest, the state of a file on
  disk is determined by its canonical path, modification time and size, and its extension is that of its canonical path.
\<close>

theorem extraction_cache_transparent:
  assumes "inj hash" "list_all (op_ok caps ext_of content_of) ops"
  shows "cache_run caps tools hash ops (\<lambda>_. None) = map (direct caps tools) ops"
  by (rule cache_run_true[OF assms]) (simp add: cache_true_def)

definition sample_caps :: capabilities where
  "sample_caps =
     \<lparr>xc_max_input = 100, xc_max_decompress = 100, xc_max_output = 4, xc_max_zip_entries = 10, xc_has_pdftotext = True,
      xc_has_antiword = False, xc_has_catdoc = False, xc_has_libreoffice = False\<rparr>"

text \<open>Tools for examples: \<open>pdftotext\<close> prints the document, the lexer returns one byte at a time.\<close>

definition sample_tools :: tools where
  "sample_tools =
     \<lparr>xt_unzip = (\<lambda>_. None),
      xt_rtf = (\<lambda>bs. if bs = [] then None else Some (tl bs, TextTok [hd bs mod 256])), xt_late = (\<lambda>_. False),
      xt_run = (\<lambda>_ _ bs. Exited True [bs]), xt_detect = id, xt_panics = (\<lambda>_ _. False)\<rparr>"

definition sample_pdf :: cached_file where
  "sample_pdf = \<lparr>cf_ext = lit ''pdf'', cf_canon = lit ''/a'', cf_stat = Some (5, 2), cf_content = Some [104, 105]\<rparr>"

lemma sample_pdf_text: "extract_path sample_caps sample_tools (lit ''pdf'') (Some [104, 105]) = Inr [104, 105]"
  by (simp add: extract_path_def extractor_for_ext_def sample_caps_def sample_tools_def run_extractor_def system_run_def
      read_capped_def MAX_CAPTURED_STREAM_BYTES_def from_utf8_lossy.simps)

lemma sample_data_text: "extract_bytes sample_caps sample_tools None [104, 0] = Inr []"
  by (simp add: extract_bytes_def extractor_for_ext_def to_ascii_lowercase_def sniff_bytes_def lit_def)

lemma ocr_is_no_extractor: "lit ''ocr'' \<noteq> tag_of x"
  by (auto simp: tag_of_def lit_inj split: option.splits extractor.splits)

lemma sample_ops_ok:
  "list_all (op_ok sample_caps (\<lambda>_. lit ''pdf'') (\<lambda>_ _ _. Some [104, 105]))
     [ExtractFile True True sample_pdf, ExtractFile True True sample_pdf, OcrPut True (lit ''ocr'') (lit ''/a'') 5 2 (lit ''x''),
      ExtractData True True None [104, 0], Damage [1], Evict [1], ExtractFile True True sample_pdf]"
  using ocr_is_no_extractor by (auto simp: op_ok_def sample_pdf_def good_name_def good_stat_def lit_def is_scalar_def)

theorem extraction_cache_transparent_witness:
  "cache_run sample_caps sample_tools id
     [ExtractFile True True sample_pdf, ExtractFile True True sample_pdf, OcrPut True (lit ''ocr'') (lit ''/a'') 5 2 (lit ''x''),
      ExtractData True True None [104, 0], Damage [1], Evict [1], ExtractFile True True sample_pdf] (\<lambda>_. None)
   = [Some (Inr (Some [104, 105])), Some (Inr (Some [104, 105])), None, Some (Inr None), None, None, Some (Inr (Some [104, 105]))]"
  unfolding extraction_cache_transparent[OF inj_on_id sample_ops_ok]
  by (simp add: direct_def sample_pdf_text sample_data_text) (simp add: sample_pdf_def sample_pdf_text text_to_option_def trim_def trim_end_def trim_start_def
      trim_start_matches_def trim_end_matches_def is_whitespace_def)

section \<open>Bounds\<close>

definition output_bound :: "capabilities \<Rightarrow> extractor option \<Rightarrow> nat" where
  "output_bound caps x =
     (if x \<in> {Some PdfExtractor, Some ShellDoc, Some ShellXls, Some ShellPpt} then 3 * MAX_CAPTURED_STREAM_BYTES
      else if x = Some RtfExtractor then 2 * xc_max_output caps
      else xc_max_output caps)"

text \<open>
  C21: No file makes the extracted text exceed its bound, whatever it contains: the text of an Office or OpenDocument archive, or of a
  plain text file, has at most the configured number of bytes, that of an RTF file at most twice that, and that of an external tool at
  most three times the number of bytes captured of its output (each undecodable byte becomes a replacement character of three).
\<close>

theorem extraction_bounded:
  assumes "extract_path caps tools ext content = Inr s" "rtf_lexer (xt_rtf tools)"
  shows "utf8_len s \<le> output_bound caps (extractor_for_ext caps ext)"
proof (cases "extractor_for_ext caps ext")
  case None
  then show ?thesis
    using assms(1)
    by (auto simp: extract_path_def output_bound_def Let_def dest: extract_text_file_len split: if_splits option.splits)
next
  case (Some x)
  then obtain bs where "run_extractor caps tools x bs = Inr s"
    using assms(1) by (auto simp: extract_path_def split: option.splits if_splits)
  then show ?thesis
    using assms(2)
    by (cases x) (auto simp: Some run_extractor_def output_bound_def
        dest: system_run_len extract_ooxml_len extract_odt_len extract_rtf_len)
qed

text \<open>Two bytes that are not UTF-8 in an RTF file: read as Latin-1, they take four bytes.\<close>

definition latin_caps :: "nat \<Rightarrow> capabilities" where
  "latin_caps n = sample_caps\<lparr>xc_max_output := n\<rparr>"

lemma sample_lexer: "rtf_lexer (xt_rtf sample_tools)"
  by (auto simp: rtf_lexer_def sample_tools_def token_bytes_def bytes_only_def)

lemma latin_rtf: "extract_path (latin_caps 2) sample_tools (lit ''rtf'') (Some [233, 233]) = Inr [233, 233]"
  by (simp add: extract_path_def extractor_for_ext_def latin_caps_def sample_caps_def sample_tools_def run_extractor_def
      extract_rtf_def ensure_len_def rtf_loop.simps rtf_token_step_def push_capped_bytes_def push_capped_def RTF_MAX_TOKENS_def
      rtf_text_def from_utf8.simps lit_def trim_def trim_end_def trim_start_def trim_start_matches_def trim_end_matches_def
      is_whitespace_def)

theorem extraction_bounded_witness: "utf8_len [233, 233] \<le> output_bound (latin_caps 2) (Some RtfExtractor)"
  using extraction_bounded[OF latin_rtf sample_lexer] by (simp add: extractor_for_ext_def lit_inj)

text \<open>The bound of an RTF file is not the configured one: its text can be longer than the limit the loop enforces.\<close>

theorem rtf_fallback_exceeds_cap:
  "extract_path (latin_caps 2) sample_tools (lit ''rtf'') (Some [233, 233]) = Inr [233, 233] \<and> xc_max_output (latin_caps 2) < utf8_len [233, 233]"
  using latin_rtf by (simp add: latin_caps_def utf8_width_def)

text \<open>A file without an extension whose first \<open>SNIFF_LEN\<close> bytes end inside a character yields nothing, though all of it is text.\<close>

theorem sniff_cuts_character:
  assumes "length s = 8191" "list_all (\<lambda>c. 0 \<le> c \<and> c < 128) s"
  shows "extract_path caps tools [] (Some (utf8_encode (s @ [233]))) = Inr [] \<and> from_utf8 (utf8_encode (s @ [233])) = Some (s @ [233])"
proof -
  have "list_all is_scalar s" "utf8_encode s = s" using assms(2)
    by (induction s) (auto simp: is_scalar_def utf8_encode_def utf8_bytes_def)
  moreover have "utf8_encode (s @ [233]) = utf8_encode s @ [195, 169]" by (simp add: utf8_encode_def utf8_bytes_def)
  ultimately have "take SNIFF_LEN (utf8_encode (s @ [233])) = utf8_encode s @ [195]" using assms(1) by (simp add: SNIFF_LEN_def)
  moreover have "from_utf8 (utf8_encode s @ [195]) = None"
    using from_utf8_append[OF \<open>list_all is_scalar s\<close>, of "[195]"] cut_character[of 233 "[195]"]
    by (simp add: is_scalar_def utf8_bytes_def strict_prefix_def)
  ultimately show ?thesis
    using from_utf8_encode[of "s @ [233]"] \<open>list_all is_scalar s\<close>
    by (simp add: extract_path_def extractor_for_ext_def TEXT_EXTS_def lit_def is_scalar_def Let_def)
qed

text \<open>Removing the tags of two paragraphs joins their words.\<close>

theorem paragraphs_run_together: "strip_xml_tags (lit ''<p>foo</p><p>bar</p>'') = lit ''foobar''"
  by (simp add: strip_xml_tags_def lit_def)

text \<open>
  Two names of one file, of which only one has a text extension, share an entry: extracted under the first name after the second, the
  file yields nothing.
\<close>

theorem symlink_shares_entry:
  assumes "good_stat m z"
  defines "fl ext \<equiv> \<lparr>cf_ext = ext, cf_canon = lit ''/a'', cf_stat = Some (m, z), cf_content = Some [104, 105]\<rparr>"
  shows "cache_run sample_caps sample_tools id [ExtractFile True True (fl (lit ''bin'')), ExtractFile True True (fl (lit ''txt''))] (\<lambda>_. None)
      = [Some (Inr None), Some (Inr None)]
    \<and> direct sample_caps sample_tools (ExtractFile True True (fl (lit ''txt''))) = Some (Inr (Some [104, 105]))"
  by (simp add: fl_def cache_do_def cached_extract_path_def through_cache_def entry_get_def entry_put_def direct_def
      engine_tag_for_ext_def extract_path_def extractor_for_ext_def TEXT_EXTS_def lit_inj sample_caps_def text_to_option_def
      extract_text_file_def from_utf8.simps ensure_len_def utf8_width_def Let_def trim_def trim_end_def trim_start_def trim_start_matches_def
      trim_end_matches_def is_whitespace_def) (simp add: lit_def)

end
