(* ===== verification/Mail_Sources.thy ===== *)
theory Mail_Sources
  imports Crawler Text_Extraction Index_Writer
begin

text \<open>
  The mail sources: Thunderbird's mbox files and their attachments (\<^verbatim>\<open>lixun-source-thunderbird/src/mbox.rs\<close>,
  \<^verbatim>\<open>attachments.rs\<close>), Thunderbird's message database (\<^verbatim>\<open>gloda.rs\<close>) and maildir folders
  (\<^verbatim>\<open>lixun-source-maildir/src\<close>).

  The MIME parser, the base64 and quoted-printable decoders and SQLite are third-party code: a parsed message is a tree of parts,
  each with the slice of the message it was read from; the database is the list of its rows. Byte strings are lists of integers,
  offsets are positions in them. A source sends its mutations to a sink that may be closed at any point.
\<close>

section \<open>The sink\<close>

text \<open>\<open>sk_left\<close>: how many more mutations are accepted before the channel is closed (\<open>None\<close>: it stays open).\<close>

record mutation_sink =
  sk_out :: "mutation list"
  sk_left :: "nat option"

datatype source_error = SinkClosed | DbError

definition emit :: "mutation \<Rightarrow> mutation_sink \<Rightarrow> mutation_sink \<times> (source_error + unit)" where
  "emit m s =
     (case sk_left s of
        Some 0 \<Rightarrow> (s, Inl SinkClosed)
      | Some (Suc n) \<Rightarrow> (s\<lparr>sk_out := sk_out s @ [m], sk_left := Some n\<rparr>, Inr ())
      | None \<Rightarrow> (s\<lparr>sk_out := sk_out s @ [m]\<rparr>, Inr ()))"

text \<open>What the index holds after a list of mutations, by document id.\<close>

type_synonym doc_index = "doc_id \<rightharpoonup> document"

fun index_apply :: "mutation \<Rightarrow> doc_index \<Rightarrow> doc_index" where
  "index_apply (Upsert d) ix = ix(doc_id d \<mapsto> d)"
| "index_apply (UpsertMany ds) ix = fold (\<lambda>d ix. ix(doc_id d \<mapsto> d)) ds ix"
| "index_apply (Delete i) ix = ix(i := None)"
| "index_apply (DeleteMany ids) ix = ix |` (- set ids)"
| "index_apply (DeleteSourceInstance src) ix =
     (\<lambda>i. case ix i of Some d \<Rightarrow> if doc_source_instance d = src then None else Some d | None \<Rightarrow> None)"
| "index_apply _ ix = ix"

definition index_after :: "mutation list \<Rightarrow> doc_index \<Rightarrow> doc_index" where
  "index_after ms ix = fold index_apply ms ix"

lemma index_after_append: "index_after (ms @ ns) ix = index_after ns (index_after ms ix)"
  by (simp add: index_after_def)

section \<open>Numbers in ids\<close>

fun digits :: "nat \<Rightarrow> rstring" where
  "digits n = (if n < 10 then [48 + int n] else digits (n div 10) @ [48 + int (n mod 10)])"

declare digits.simps [simp del]

fun read_digits :: "nat \<Rightarrow> rstring \<Rightarrow> nat option" where
  "read_digits acc [] = Some acc"
| "read_digits acc (c # cs) = (if is_ascii_digit c then read_digits (10 * acc + nat (c - 48)) cs else None)"

text \<open>\<^verbatim>\<open>str::parse::<u64>\<close>: an optional sign, at least one digit, at most \<open>2 ^ 64 - 1\<close>.\<close>

definition parse_u64 :: "rstring \<Rightarrow> nat option" where
  "parse_u64 s =
     (let ds = (case s of c # cs \<Rightarrow> if c = 43 then cs else s | [] \<Rightarrow> [])
      in if ds = [] then None
         else case read_digits 0 ds of Some n \<Rightarrow> if n < 2 ^ 64 then Some n else None | None \<Rightarrow> None)"

lemma read_digits_append: "read_digits acc (xs @ ys) = (case read_digits acc xs of Some n \<Rightarrow> read_digits n ys | None \<Rightarrow> None)"
  by (induction xs arbitrary: acc) auto

lemma read_digits_digits: "read_digits 0 (digits n) = Some n"
proof (induction n rule: digits.induct)
  case (1 n)
  show ?case
  proof (cases "n < 10")
    case True
    then show ?thesis by (simp add: digits.simps[of n] is_ascii_digit_def)
  next
    case False
    then show ?thesis using 1 by (subst digits.simps) (simp add: read_digits_append is_ascii_digit_def)
  qed
qed

lemma digits_not_sign: "digits n \<noteq> [] \<and> hd (digits n) \<noteq> 43"
proof (induction n rule: digits.induct)
  case (1 n)
  then show ?case by (subst (1 2) digits.simps) (auto simp: hd_append)
qed

lemma parse_digits: "n < 2 ^ 64 \<Longrightarrow> parse_u64 (digits n) = Some n"
  using digits_not_sign[of n] read_digits_digits[of n] unfolding parse_u64_def Let_def by (cases "digits n") (auto simp del: read_digits.simps)

lemma digits_inj: "digits m = digits n \<Longrightarrow> m = n"
  by (metis option.inject read_digits_digits)

section \<open>Mbox files\<close>

datatype part_encoding = Base64 | QuotedPrintable | SevenBit | EightBit | Binary

definition as_mime_str :: "part_encoding \<Rightarrow> rstring" where
  "as_mime_str e =
     (case e of Base64 \<Rightarrow> lit ''base64'' | QuotedPrintable \<Rightarrow> lit ''quoted-printable'' | SevenBit \<Rightarrow> lit ''7bit''
      | EightBit \<Rightarrow> lit ''8bit'' | Binary \<Rightarrow> lit ''binary'')"

definition from_header :: "rstring \<Rightarrow> part_encoding" where
  "from_header s =
     (let t = to_ascii_lowercase (trim s)
      in if t = lit ''base64'' then Base64
         else if t = lit ''quoted-printable'' then QuotedPrintable
         else if t = lit ''7bit'' then SevenBit
         else if t = lit ''8bit'' then EightBit
         else if t = lit ''binary'' then Binary
         else SevenBit)"

fun find_headers_end :: "byte_string \<Rightarrow> nat option" where
  "find_headers_end [] = None"
| "find_headers_end (b # bs) =
     (if prefix [13, 10, 13, 10] (b # bs) then Some 4
      else if prefix [10, 10] (b # bs) then Some 2
      else map_option Suc (find_headers_end bs))"

definition MBOX_FROM :: byte_string where
  "MBOX_FROM = [70, 114, 111, 109, 32]"

text \<open>The scan for separators: \<open>i\<close> is the position, \<open>bs\<close> what is left from there.\<close>

function from_starts :: "nat \<Rightarrow> byte_string \<Rightarrow> nat list" where
  "from_starts i bs =
     (if length bs \<le> 5 then []
      else if prefix (10 # MBOX_FROM) bs then (i + 1) # from_starts (i + 6) (drop 6 bs)
      else from_starts (i + 1) (drop 1 bs))"
  by pat_completeness auto

termination
  by (relation "measure (\<lambda>(i, bs). length bs)") auto

declare from_starts.simps [simp del]

fun slices :: "byte_string \<Rightarrow> nat list \<Rightarrow> (nat \<times> byte_string) list" where
  "slices bs [] = []"
| "slices bs [s] = [(s, drop s bs)]"
| "slices bs (s # t # r) = (s, take (t - s) (drop s bs)) # slices bs (t # r)"

definition split_mbox_messages :: "byte_string \<Rightarrow> (nat \<times> byte_string) list" where
  "split_mbox_messages bs =
     (if bs = [] then []
      else let starts = (if prefix MBOX_FROM bs then [0] else []) @ from_starts 0 bs
           in if starts = [] then [(0, bs)] else slices bs starts)"

fun position :: "byte_string \<Rightarrow> byte_string \<Rightarrow> nat option" where
  "position pat [] = (if pat = [] then Some 0 else None)"
| "position pat (b # bs) = (if prefix pat (b # bs) then Some 0 else map_option Suc (position pat bs))"

definition strip_mbox_envelope :: "byte_string \<Rightarrow> (nat \<times> byte_string) option" where
  "strip_mbox_envelope bs =
     (if prefix MBOX_FROM bs
      then (case position [13, 10] bs of
              Some p \<Rightarrow> Some (p + 2, drop (p + 2) bs)
            | None \<Rightarrow> (case position [10] bs of Some p \<Rightarrow> Some (p + 1, drop (p + 1) bs) | None \<Rightarrow> None))
      else Some (0, bs))"

subsection \<open>Parts\<close>

text \<open>
  A parsed message: where its bytes start in the message that was parsed, the bytes, its headers (first value by name), its content type
  and the \<^verbatim>\<open>name\<close> parameter of that, its subparts.
\<close>

datatype parsed_mail =
  ParsedMail (pm_start: nat) (pm_raw: byte_string) (pm_header: "rstring \<Rightarrow> rstring option") (pm_mimetype: rstring)
    (pm_name: "rstring option") (pm_subparts: "parsed_mail list")

record mbox_part =
  mp_mbox_path :: rstring
  mp_message_id :: "rstring option"
  mp_part_index :: nat
  mp_msg_byte_offset :: nat
  mp_msg_length :: nat
  mp_body_byte_offset :: nat
  mp_body_length :: nat
  mp_filename :: rstring
  mp_mime :: rstring
  mp_encoding :: part_encoding
  mp_subject :: "rstring option"
  mp_date :: "int option"

fun take_utf8 :: "nat \<Rightarrow> rstring \<Rightarrow> rstring" where
  "take_utf8 n [] = []"
| "take_utf8 n (c # cs) = (if utf8_width c \<le> n then c # take_utf8 (n - utf8_width c) cs else [])"

text \<open>The cut moves back from byte 200 to a character boundary: the longest prefix of whole characters within 200 bytes.\<close>

definition sanitize_filename :: "rstring \<Rightarrow> rstring" where
  "sanitize_filename s =
     (let a = filter (\<lambda>c. c \<noteq> slash \<and> c \<noteq> 92 \<and> c \<noteq> 0) s;
          b = trim_start_matches (\<lambda>c. c = dot) a;
          out = (if b = [] then lit ''attachment'' else b)
      in if 200 < utf8_len out then take_utf8 200 out else out)"

definition is_attachment :: "parsed_mail \<Rightarrow> bool" where
  "is_attachment p =
     ((case pm_header p (lit ''Content-Disposition'') of
         Some d \<Rightarrow> contains_str (to_ascii_lowercase d) (lit ''attachment'') \<or> contains_str (to_ascii_lowercase d) (lit ''filename='')
       | None \<Rightarrow> False) \<or> pm_name p \<noteq> None)"

definition trim_matches :: "(rchar \<Rightarrow> bool) \<Rightarrow> rstring \<Rightarrow> rstring" where
  "trim_matches P s = trim_end_matches P (trim_start_matches P s)"

definition disposition_filename :: "rstring \<Rightarrow> rstring option" where
  "disposition_filename d =
     (case position (lit ''filename='') (to_ascii_lowercase d) of
        None \<Rightarrow> None
      | Some start \<Rightarrow>
          (let name = trim_matches (\<lambda>c. c = 34) (trim (takeWhile (\<lambda>c. c \<noteq> 59) (drop (start + 9) d)))
           in if name = [] then None else Some name))"

definition extract_filename :: "parsed_mail \<Rightarrow> rstring option" where
  "extract_filename p =
     (case (case pm_header p (lit ''Content-Disposition'') of Some d \<Rightarrow> disposition_filename d | None \<Rightarrow> None) of
        Some name \<Rightarrow> Some name
      | None \<Rightarrow> pm_name p)"

record walk_context =
  wc_msg_slice :: byte_string
  wc_msg_offset :: nat
  wc_mbox_path :: rstring
  wc_message_id :: "rstring option"
  wc_subject :: "rstring option"
  wc_date :: "int option"

definition part_at :: "walk_context \<Rightarrow> nat \<Rightarrow> nat \<Rightarrow> parsed_mail \<Rightarrow> mbox_part" where
  "part_at cx i headers_end p =
     \<lparr>mp_mbox_path = wc_mbox_path cx, mp_message_id = wc_message_id cx, mp_part_index = i,
      mp_msg_byte_offset = wc_msg_offset cx, mp_msg_length = length (wc_msg_slice cx),
      mp_body_byte_offset = wc_msg_offset cx + pm_start p + headers_end,
      mp_body_length = length (pm_raw p) - headers_end,
      mp_filename = sanitize_filename (case extract_filename p of Some n \<Rightarrow> n | None \<Rightarrow> lit ''attachment-'' @ digits i),
      mp_mime = pm_mimetype p,
      mp_encoding = (case pm_header p (lit ''Content-Transfer-Encoding'') of Some v \<Rightarrow> from_header v | None \<Rightarrow> SevenBit),
      mp_subject = wc_subject cx, mp_date = wc_date cx\<rparr>"

text \<open>\<open>out\<close> are the parts found so far, whose number is not the next index: that counts the parts of this message only.\<close>

fun walk_parts :: "walk_context \<Rightarrow> parsed_mail \<Rightarrow> nat \<times> mbox_part list \<Rightarrow> nat \<times> mbox_part list" and
  walk_subparts :: "walk_context \<Rightarrow> parsed_mail list \<Rightarrow> nat \<times> mbox_part list \<Rightarrow> nat \<times> mbox_part list" where
  "walk_parts cx (ParsedMail st raw hdr mime nm subs) (i, out) =
     walk_subparts cx subs
       (let p = ParsedMail st raw hdr mime nm subs
        in if subs = [] \<and> is_attachment p
           then (case find_headers_end raw of
                   Some headers_end \<Rightarrow> (i + 1, out @ [part_at cx i headers_end p])
                 | None \<Rightarrow> (i, out))
           else (i, out))"
| "walk_subparts cx [] acc = acc"
| "walk_subparts cx (p # ps) acc = walk_subparts cx ps (walk_parts cx p acc)"

text \<open>The third-party parsers: of a message, and of a \<^verbatim>\<open>Date\<close> header.\<close>

record mail_parser =
  ml_parse_mail :: "byte_string \<Rightarrow> parsed_mail option"
  ml_dateparse :: "rstring \<Rightarrow> int option"

definition message_parts :: "mail_parser \<Rightarrow> rstring \<Rightarrow> nat \<times> byte_string \<Rightarrow> mbox_part list" where
  "message_parts ml path m =
     (case m of (msg_offset, msg_slice) \<Rightarrow>
        case strip_mbox_envelope msg_slice of
          None \<Rightarrow> []
        | Some (start, bs) \<Rightarrow>
            (case ml_parse_mail ml bs of
               None \<Rightarrow> []
             | Some p \<Rightarrow>
                 snd (walk_parts
                   \<lparr>wc_msg_slice = bs, wc_msg_offset = msg_offset + start, wc_mbox_path = path,
                    wc_message_id = map_option (\<lambda>v. trim_end_matches (\<lambda>c. c = 62) (trim_start_matches (\<lambda>c. c = 60) (trim v)))
                      (pm_header p (lit ''Message-ID'')),
                    wc_subject = pm_header p (lit ''Subject''),
                    wc_date = Option.bind (pm_header p (lit ''Date'')) (ml_dateparse ml)\<rparr> p (0, []))))"

definition parse_mbox_parts :: "mail_parser \<Rightarrow> rstring \<Rightarrow> byte_string \<Rightarrow> mbox_part list" where
  "parse_mbox_parts ml path bs = concat (map (message_parts ml path) (split_mbox_messages bs))"

subsection \<open>Messages partition the file\<close>

lemma from_starts_hits:
  "t \<in> set (from_starts i bs) \<Longrightarrow> i < t \<and> t + 5 \<le> i + length bs \<and> prefix MBOX_FROM (drop (t - i) bs)"
proof (induction i bs rule: from_starts.induct)
  case (1 i bs)
  have step: "t \<in> set (from_starts (i + k) (drop k bs)) \<Longrightarrow> ?case" if "0 < k" "\<not> length bs \<le> 5"
    "t \<in> set (from_starts (i + k) (drop k bs)) \<Longrightarrow>
       i + k < t \<and> t + 5 \<le> i + k + length (drop k bs) \<and> prefix MBOX_FROM (drop (t - (i + k)) (drop k bs))" "k \<le> length bs" for k
  proof -
    assume "t \<in> set (from_starts (i + k) (drop k bs))"
    then have "i + k < t" "t + 5 \<le> i + k + length (drop k bs)" "prefix MBOX_FROM (drop (t - (i + k)) (drop k bs))" using that(3) by auto
    moreover have "drop (t - (i + k)) (drop k bs) = drop (t - i) bs" using \<open>i + k < t\<close> by simp
    ultimately show ?thesis using that by simp
  qed
  show ?case
  proof (cases "length bs \<le> 5")
    case True
    then show ?thesis using 1(3) by (simp add: from_starts.simps[of i bs])
  next
    case long: False
    show ?thesis
    proof (cases "prefix (10 # MBOX_FROM) bs")
      case True
      then have "prefix MBOX_FROM (drop 1 bs)" by (auto simp: prefix_def)
      moreover have "t = i + 1 \<or> t \<in> set (from_starts (i + 6) (drop 6 bs))"
        using 1(3) long True by (simp add: from_starts.simps[of i bs])
      ultimately show ?thesis using step[of 6] 1(1)[OF long True] long by auto
    next
      case False
      then have "t \<in> set (from_starts (i + 1) (drop 1 bs))" using 1(3) long by (simp add: from_starts.simps[of i bs])
      then show ?thesis using step[of 1] 1(2)[OF long False] long by auto
    qed
  qed
qed

lemma from_starts_sorted: "sorted_wrt (<) (from_starts i bs)"
proof (induction i bs rule: from_starts.induct)
  case (1 i bs)
  have "i + 1 < t" if "t \<in> set (from_starts (i + 6) (drop 6 bs))" for t using from_starts_hits[OF that] by simp
  then show ?case using 1 by (subst from_starts.simps) simp
qed

lemma slices_concat: "sorted_wrt (<) starts \<Longrightarrow> starts \<noteq> [] \<Longrightarrow> concat (map snd (slices bs starts)) = drop (hd starts) bs"
proof (induction bs starts rule: slices.induct)
  case (3 bs s t r)
  then have "concat (map snd (slices bs (t # r))) = drop t bs" "s < t" by auto
  moreover have "take (t - s) (drop s bs) @ drop (t - s) (drop s bs) = drop s bs" by (rule append_take_drop_id)
  ultimately show ?case by simp
qed auto


lemma slices_starts: "map fst (slices bs starts) = starts"
  by (induction bs starts rule: slices.induct) auto

definition mbox_starts :: "byte_string \<Rightarrow> nat list" where
  "mbox_starts bs = (if prefix MBOX_FROM bs then [0] else []) @ from_starts 0 bs"

lemma mbox_starts_sorted: "sorted_wrt (<) (mbox_starts bs)"
  using from_starts_hits[of _ 0 bs] by (auto simp: mbox_starts_def from_starts_sorted)


lemma split_partition:
  assumes "prefix MBOX_FROM bs"
  shows "concat (map snd (split_mbox_messages bs)) = bs"
proof -
  have ne: "bs \<noteq> []" "mbox_starts bs \<noteq> []" using assms by (auto simp: mbox_starts_def MBOX_FROM_def)
  then have "split_mbox_messages bs = slices bs (mbox_starts bs)" by (simp add: split_mbox_messages_def mbox_starts_def)
  moreover have "hd (mbox_starts bs) = 0" using assms by (simp add: mbox_starts_def)
  ultimately show ?thesis using slices_concat[OF mbox_starts_sorted ne(2), of bs] by simp
qed


subsection \<open>Offsets\<close>











section \<open>File names\<close>

lemma take_utf8_prefix: "prefix (take_utf8 n s) s"
  by (induction n s rule: take_utf8.induct) auto

lemma take_utf8_len: "utf8_len (take_utf8 n s) \<le> n"
  by (induction n s rule: take_utf8.induct) auto

lemma utf8_width_le: "utf8_width c \<le> 4"
  by (simp add: utf8_width_def)

text \<open>
  A name from a message is safe to use as a file name: whatever the sender wrote, the sanitised name is not empty, has no slash,
  backslash or NUL, does not begin with a dot (so it is neither hidden nor a parent directory), and has at most 200 bytes.
\<close>

theorem sanitized_names_are_safe:
  "sanitize_filename s \<noteq> [] \<and> slash \<notin> set (sanitize_filename s) \<and> 92 \<notin> set (sanitize_filename s) \<and> 0 \<notin> set (sanitize_filename s)
    \<and> hd (sanitize_filename s) \<noteq> dot \<and> utf8_len (sanitize_filename s) \<le> 200"
proof -
  define a where "a = filter (\<lambda>c. c \<noteq> slash \<and> c \<noteq> 92 \<and> c \<noteq> 0) s"
  define b where "b = trim_start_matches (\<lambda>c. c = dot) a"
  define t where "t = (if b = [] then lit ''attachment'' else b)"
  have b: "set b \<subseteq> set a" "b \<noteq> [] \<Longrightarrow> hd b \<noteq> dot"
    unfolding b_def trim_start_matches_def using hd_dropWhile[of "\<lambda>c. c = dot" a] by (auto dest: set_dropWhileD simp del: dropWhile_eq_Nil_conv)
  have "slash \<notin> set b" "92 \<notin> set b" "0 \<notin> set b" using b(1) by (auto simp: a_def)
  then have t: "t \<noteq> []" "slash \<notin> set t" "92 \<notin> set t" "0 \<notin> set t" "hd t \<noteq> dot"
    using b(2) by (simp_all add: t_def lit_def slash_def dot_def ch_def)
  have eq: "sanitize_filename s = (if 200 < utf8_len t then take_utf8 200 t else t)"
    by (simp add: sanitize_filename_def t_def b_def a_def Let_def)
  obtain c cs where c: "t = c # cs" using t(1) by (cases t) auto
  then have u: "take_utf8 200 t = c # take_utf8 (200 - utf8_width c) cs" using utf8_width_le[of c] by simp
  have "hd (sanitize_filename s) = c" "sanitize_filename s \<noteq> []" by (auto simp: eq u) (auto simp: c)
  moreover have "set (sanitize_filename s) \<subseteq> set t"
    using set_mono_prefix[OF take_utf8_prefix, of 200 t] by (simp add: eq)
  moreover have "utf8_len (sanitize_filename s) \<le> 200" using take_utf8_len[of 200 t] by (simp add: eq)
  ultimately show ?thesis using t by (auto simp: c)
qed

section \<open>Attachments\<close>

text \<open>A carriage return, with the line feed after it if there is one, becomes a line feed.\<close>

fun normalize_newlines :: "byte_string \<Rightarrow> byte_string" where
  "normalize_newlines [] = []"
| "normalize_newlines (b # bs) =
     (if b = 13 then 10 # normalize_newlines (if bs \<noteq> [] \<and> hd bs = 10 then tl bs else bs)
      else b # normalize_newlines bs)"

record decoders =
  dc_base64 :: "byte_string \<Rightarrow> byte_string option"
  dc_quoted_printable :: "byte_string \<Rightarrow> byte_string option"
  dc_mime :: "rstring \<Rightarrow> (rstring \<times> rstring) option"
  dc_hash :: "rstring \<Rightarrow> rstring"

definition is_ascii_whitespace :: "int \<Rightarrow> bool" where
  "is_ascii_whitespace b \<longleftrightarrow> b \<in> {9, 10, 12, 13, 32}"

definition decode_bytes :: "decoders \<Rightarrow> byte_string \<Rightarrow> part_encoding \<Rightarrow> byte_string option" where
  "decode_bytes dc raw enc =
     (case enc of
        Base64 \<Rightarrow> dc_base64 dc (filter (\<lambda>b. \<not> is_ascii_whitespace b) raw)
      | QuotedPrintable \<Rightarrow> map_option normalize_newlines (dc_quoted_printable dc raw)
      | _ \<Rightarrow> Some raw)"

definition fallback_id :: "decoders \<Rightarrow> rstring \<Rightarrow> nat \<Rightarrow> rstring" where
  "fallback_id dc path offset = dc_hash dc path @ lit ''-'' @ digits offset"

definition attachment_metadata :: "decoders \<Rightarrow> rstring \<Rightarrow> rstring \<times> rstring" where
  "attachment_metadata dc mime =
     (case dc_mime dc mime of
        None \<Rightarrow> (lit ''mail-attachment'', lit ''Attachment'')
      | Some m \<Rightarrow> (mime_to_icon_name m, lit ''Attachment '' @ [183] @ lit '' '' @ human_kind m))"

record tb_attachments =
  ta_caps :: capabilities
  ta_tools :: tools
  ta_decoders :: decoders
  ta_parser :: mail_parser
  ta_max_attachment_bytes :: nat

text \<open>The extraction goes through the cache of theory \<open>Text_Extraction\<close>, which does not change its result.\<close>

definition attachment_body :: "tb_attachments \<Rightarrow> byte_string \<Rightarrow> mbox_part \<Rightarrow> rstring option \<times> bool" where
  "attachment_body ta fb mp =
     (if ta_max_attachment_bytes ta < mp_body_length mp then (None, True)
      else if length fb < mp_body_byte_offset mp + mp_body_length mp then (None, True)
      else case decode_bytes (ta_decoders ta) (take (mp_body_length mp) (drop (mp_body_byte_offset mp) fb)) (mp_encoding mp) of
             None \<Rightarrow> (None, True)
           | Some decoded \<Rightarrow>
               (case map_sum id text_to_option (extract_bytes (ta_caps ta) (ta_tools ta) (extension [mp_filename mp]) decoded) of
                  Inr (Some txt) \<Rightarrow> (Some txt, False)
                | Inr None \<Rightarrow> (None, False)
                | Inl _ \<Rightarrow> (None, True)))"

definition attachment_doc :: "tb_attachments \<Rightarrow> byte_string \<Rightarrow> mbox_part \<Rightarrow> document" where
  "attachment_doc ta fb mp =
     (case (attachment_body ta fb mp, attachment_metadata (ta_decoders ta) (mp_mime mp)) of
        ((body, fail), (icon, kind)) \<Rightarrow>
          \<lparr>doc_id = lit ''att:'' @ (case mp_message_id mp of Some i \<Rightarrow> i
                      | None \<Rightarrow> fallback_id (ta_decoders ta) (mp_mbox_path mp) (mp_msg_byte_offset mp)) @ lit ''#'' @ digits (mp_part_index mp),
           doc_category = Attachment, doc_title = mp_filename mp,
           doc_subtitle = (case mp_subject mp of Some t \<Rightarrow> t | None \<Rightarrow> lit ''(no subject)''),
           doc_icon_name = Some icon, doc_kind_label = Some kind, doc_body = body, doc_path = mp_mbox_path mp,
           doc_mtime = (case mp_date mp of Some d \<Rightarrow> d | None \<Rightarrow> 0), doc_size = mp_body_length mp,
           doc_action = OpenEmbedded (mp_mbox_path mp) (mp_body_byte_offset mp) (mp_body_length mp) (mp_mime mp)
             (as_mime_str (mp_encoding mp)) (mp_filename mp),
           doc_extract_fail = fail, doc_sender = None, doc_recipients = None,
           doc_source_instance = lit ''builtin:tb_attachments'', doc_extra = [],
           doc_secondary_action = map_option (\<lambda>i. OpenUri (lit ''mid:'' @ i)) (mp_message_id mp), doc_mime = Some (mp_mime mp)\<rparr>)"

text \<open>A file below the \<^verbatim>\<open>Mail\<close> and \<^verbatim>\<open>ImapMail\<close> directories of the profile; \<open>None\<close>: it cannot be read.\<close>

record mail_file =
  mf_path :: rstring
  mf_name :: rstring
  mf_bytes :: "byte_string option"

definition attachments_index_all :: "tb_attachments \<Rightarrow> mail_file list \<Rightarrow> document list" where
  "attachments_index_all ta files =
     concat (map (\<lambda>mf.
       if suffix (lit ''.msf'') (mf_name mf) \<or> starts_with (mf_name mf) (lit ''.'') then []
       else case mf_bytes mf of
              None \<Rightarrow> []
            | Some fb \<Rightarrow> map (attachment_doc ta fb) (parse_mbox_parts (ta_parser ta) (mf_path mf) fb)) files)"

definition attachments_reindex :: "tb_attachments \<Rightarrow> rstring \<Rightarrow> mail_file list \<Rightarrow> mutation_sink \<Rightarrow> mutation_sink \<times> (source_error + unit)" where
  "attachments_reindex ta instance_id files s =
     (case emit (DeleteSourceInstance instance_id) s of
        (s1, Inl e) \<Rightarrow> (s1, Inl e)
      | (s1, Inr _) \<Rightarrow>
          (let docs = attachments_index_all ta files
           in if docs = [] then (s1, Inr ())
              else emit (UpsertMany (map (\<lambda>d. d\<lparr>doc_source_instance := instance_id\<rparr>) docs)) s1))"

section \<open>The message database\<close>

record gloda_row =
  gr_id :: nat
  gr_key :: "int option"
  gr_header_id :: "rstring option"
  gr_subject :: "rstring option"
  gr_author :: "rstring option"
  gr_recipients :: "rstring option"
  gr_body :: "rstring option"
  gr_date :: "int option"
  gr_deleted :: bool

definition nonempty :: "rstring option \<Rightarrow> rstring option" where
  "nonempty s = (case s of Some (c # cs) \<Rightarrow> Some (c # cs) | _ \<Rightarrow> None)"

definition gloda_date_to_unix_secs :: "int option \<Rightarrow> int" where
  "gloda_date_to_unix_secs d = (case d of Some us \<Rightarrow> max (sgn us * (\<bar>us\<bar> div 1000000)) 0 | None \<Rightarrow> 0)"

definition strip_brackets :: "rstring \<Rightarrow> rstring" where
  "strip_brackets s = (if 2 \<le> length s \<and> hd s = 60 \<and> last s = 62 then butlast (tl s) else s)"

definition int_str :: "int \<Rightarrow> rstring" where
  "int_str i = (if i < 0 then 45 # digits (nat (- i)) else digits (nat i))"

definition gloda_doc :: "gloda_row \<Rightarrow> document" where
  "gloda_doc r =
     \<lparr>doc_id = lit ''mail:'' @ digits (gr_id r), doc_category = Mail,
      doc_title = (case gr_subject r of Some t \<Rightarrow> t | None \<Rightarrow> lit ''(no subject)''),
      doc_subtitle = (case nonempty (gr_author r) of Some a \<Rightarrow> a | None \<Rightarrow> []),
      doc_icon_name = Some (lit ''mail-message''), doc_kind_label = Some (lit ''Email''),
      doc_body = nonempty (gr_body r), doc_path = lit ''thunderbird:'' @ digits (gr_id r),
      doc_mtime = gloda_date_to_unix_secs (gr_date r), doc_size = 0,
      doc_action = OpenUri (lit ''mid:'' @
        (case map_option strip_brackets (nonempty (gr_header_id r)) of
           Some i \<Rightarrow> i
         | None \<Rightarrow> (case gr_key r of Some k \<Rightarrow> int_str k | None \<Rightarrow> []))),
      doc_extract_fail = False, doc_sender = nonempty (gr_author r), doc_recipients = nonempty (gr_recipients r),
      doc_source_instance = lit ''builtin:gloda'', doc_extra = [], doc_secondary_action = None, doc_mime = None\<rparr>"

definition query_messages :: "gloda_row list \<Rightarrow> nat \<Rightarrow> nat \<Rightarrow> document list" where
  "query_messages db last_key limit =
     map gloda_doc (take limit (filter (\<lambda>r. last_key < gr_id r \<and> \<not> gr_deleted r) (sort_key gr_id db)))"

definition doc_gloda_id :: "document \<Rightarrow> nat option" where
  "doc_gloda_id d = Option.bind (strip_prefix (doc_id d) (lit ''mail:'')) parse_u64"

text \<open>SQLite: \<open>Busy\<close> stands for \<^verbatim>\<open>SQLITE_BUSY\<close> and \<^verbatim>\<open>SQLITE_LOCKED\<close>.\<close>

datatype sqlite_error = Busy | OtherSqlite

definition gloda_is_busy :: "sqlite_error \<Rightarrow> bool" where
  "gloda_is_busy e = (e = Busy)"

text \<open>\<open>n\<close> backoffs are left; \<open>f i\<close> is the outcome of attempt \<open>i\<close>.\<close>

fun busy_retry :: "nat \<Rightarrow> ('e \<Rightarrow> bool) \<Rightarrow> (nat \<Rightarrow> 'e + 'a) \<Rightarrow> nat \<Rightarrow> 'e + 'a" where
  "busy_retry n classify f i =
     (case f i of
        Inr v \<Rightarrow> Inr v
      | Inl e \<Rightarrow> if \<not> classify e then Inl e else case n of 0 \<Rightarrow> Inl e | Suc m \<Rightarrow> busy_retry m classify f (i + 1))"

declare busy_retry.simps [simp del]

definition gloda_retry :: "(nat \<Rightarrow> sqlite_error + 'a) \<Rightarrow> sqlite_error + 'a" where
  "gloda_retry f = busy_retry 3 gloda_is_busy f 0"

text \<open>How opening (by attempt of the query and of the open itself) and querying the database fare.\<close>

record gloda_env =
  ge_exists :: bool
  ge_open :: "nat \<Rightarrow> nat \<Rightarrow> sqlite_error + unit"
  ge_query :: "nat \<Rightarrow> sqlite_error + unit"

definition fetch_messages :: "gloda_env \<Rightarrow> gloda_row list \<Rightarrow> nat \<Rightarrow> nat \<Rightarrow> sqlite_error + document list" where
  "fetch_messages env db cursor limit =
     gloda_retry (\<lambda>i.
       case gloda_retry (ge_open env i) of
         Inl e \<Rightarrow> Inl e
       | Inr _ \<Rightarrow> (case ge_query env i of Inl e \<Rightarrow> Inl e | Inr _ \<Rightarrow> Inr (query_messages db cursor limit)))"

definition batch_cursor :: "document list \<Rightarrow> nat \<Rightarrow> nat" where
  "batch_cursor docs cursor = fold (\<lambda>d c. case doc_gloda_id d of Some g \<Rightarrow> max c g | None \<Rightarrow> c) docs cursor"

definition own :: "rstring \<Rightarrow> document list \<Rightarrow> document list" where
  "own instance_id docs = map (\<lambda>d. d\<lparr>doc_source_instance := instance_id\<rparr>) docs"

text \<open>The cursor file: \<open>None\<close> when it is missing or cannot be read.\<close>

definition read_cursor :: "nat option \<Rightarrow> nat" where
  "read_cursor f = (case f of Some c \<Rightarrow> c | None \<Rightarrow> 0)"

definition gloda_tick ::
  "gloda_env \<Rightarrow> bool \<Rightarrow> gloda_row list \<Rightarrow> nat \<Rightarrow> rstring \<Rightarrow> nat option \<times> mutation_sink \<Rightarrow> (nat option \<times> mutation_sink) \<times> (source_error + unit)" where
  "gloda_tick env writable db limit instance_id st =
     (case st of (cf, s) \<Rightarrow>
        if \<not> ge_exists env then (st, Inr ())
        else case fetch_messages env db (read_cursor cf) limit of
               Inl e \<Rightarrow> if gloda_is_busy e then (st, Inr ()) else (st, Inl DbError)
             | Inr docs \<Rightarrow>
                 if docs = [] then (st, Inr ())
                 else case emit (UpsertMany (own instance_id docs)) s of
                        (s1, Inl e) \<Rightarrow> ((cf, s1), Inl e)
                      | (s1, Inr _) \<Rightarrow>
                          (let c = batch_cursor docs (read_cursor cf)
                           in ((if read_cursor cf < c \<and> writable then Some c else cf, s1), Inr ())))"

lemma doc_gloda_id_doc: "doc_gloda_id (gloda_doc r) = (if gr_id r < 2 ^ 64 then Some (gr_id r) else None)"
  using digits_not_sign[of "gr_id r"] read_digits_digits[of "gr_id r"]
  by (cases "digits (gr_id r)")
    (auto simp: doc_gloda_id_def gloda_doc_def strip_prefix_def starts_with_def lit_def parse_u64_def Let_def simp del: read_digits.simps)

lemma batch_cursor_ge: "cursor \<le> batch_cursor docs cursor"
  unfolding batch_cursor_def
proof (induction docs arbitrary: cursor)
  case (Cons d docs)
  have "cursor \<le> (case doc_gloda_id d of Some g \<Rightarrow> max cursor g | None \<Rightarrow> cursor)" by (simp split: option.splits)
  then show ?case using Cons[of "case doc_gloda_id d of Some g \<Rightarrow> max cursor g | None \<Rightarrow> cursor"] by simp
qed simp

lemma batch_cursor_from: "batch_cursor docs cursor = cursor \<or> (\<exists>d\<in>set docs. doc_gloda_id d = Some (batch_cursor docs cursor))"
proof -
  have "fold (\<lambda>d c. case doc_gloda_id d of Some g \<Rightarrow> max c g | None \<Rightarrow> c) docs c = c
    \<or> (\<exists>d\<in>set docs. doc_gloda_id d = Some (fold (\<lambda>d c. case doc_gloda_id d of Some g \<Rightarrow> max c g | None \<Rightarrow> c) docs c))" for c
  proof (induction docs arbitrary: c)
    case (Cons d docs)
    show ?case using Cons[of "case doc_gloda_id d of Some g \<Rightarrow> max c g | None \<Rightarrow> c"] by (auto simp: max_def split: option.splits if_splits)
  qed simp
  then show ?thesis by (simp add: batch_cursor_def)
qed

text \<open>What is left to fetch beyond a cursor.\<close>

definition unseen :: "gloda_row list \<Rightarrow> nat \<Rightarrow> gloda_row list" where
  "unseen db cursor = filter (\<lambda>r. cursor < gr_id r \<and> \<not> gr_deleted r) (sort_key gr_id db)"

lemma query_messages_unseen: "query_messages db cursor limit = map gloda_doc (take limit (unseen db cursor))"
  by (simp add: query_messages_def unseen_def)

lemma batch_advances:
  assumes "batch_cursor (query_messages db cursor limit) cursor \<noteq> cursor"
  shows "length (unseen db (batch_cursor (query_messages db cursor limit) cursor)) < length (unseen db cursor)"
proof -
  let ?c = "batch_cursor (query_messages db cursor limit) cursor"
  obtain r where r: "r \<in> set (unseen db cursor)" "gr_id r = ?c"
    using batch_cursor_from[of "query_messages db cursor limit" cursor] assms
    by (auto simp: query_messages_unseen doc_gloda_id_doc split: if_splits dest: in_set_takeD)
  have "unseen db ?c = filter (\<lambda>r. ?c < gr_id r) (unseen db cursor)"
    using batch_cursor_ge[of cursor "query_messages db cursor limit"] by (auto simp: unseen_def intro: filter_cong)
  then show ?thesis using r by (auto intro: length_filter_less)
qed

text \<open>The loop of \<^verbatim>\<open>reindex_full\<close>; \<open>env c\<close> is how the database behaves for the query after cursor \<open>c\<close>.\<close>

function gloda_reindex_loop ::
  "(nat \<Rightarrow> gloda_env) \<Rightarrow> gloda_row list \<Rightarrow> nat \<Rightarrow> rstring \<Rightarrow> nat \<Rightarrow> mutation_sink \<Rightarrow> mutation_sink \<times> (source_error + nat option)" where
  "gloda_reindex_loop env db limit instance_id cursor s =
     (case fetch_messages (env cursor) db cursor limit of
        Inl e \<Rightarrow> if gloda_is_busy e then (s, Inr None) else (s, Inl DbError)
      | Inr docs \<Rightarrow>
          if docs = [] then (s, Inr (Some cursor))
          else case emit (UpsertMany (own instance_id docs)) s of
                 (s1, Inl e) \<Rightarrow> (s1, Inl e)
               | (s1, Inr _) \<Rightarrow>
                   (let c = batch_cursor docs cursor
                    in if c = cursor then (s1, Inr (Some cursor)) else gloda_reindex_loop env db limit instance_id c s1))"
  by pat_completeness auto

lemma busy_retry_Inr: "busy_retry n classify f i = Inr v \<Longrightarrow> \<exists>j. f j = Inr v"
  by (induction n arbitrary: i) (subst (asm) busy_retry.simps; auto split: sum.splits if_splits)+

lemma fetch_messages_Inr:
  assumes "fetch_messages env db cursor limit = Inr docs"
  shows "docs = query_messages db cursor limit"
proof -
  let ?f = "\<lambda>i. case gloda_retry (ge_open env i) of
         Inl e \<Rightarrow> Inl e
       | Inr _ \<Rightarrow> (case ge_query env i of Inl e \<Rightarrow> Inl e | Inr _ \<Rightarrow> Inr (query_messages db cursor limit))"
  have "busy_retry 3 gloda_is_busy ?f 0 = Inr docs" using assms by (simp only: fetch_messages_def gloda_retry_def[of ?f])
  then obtain i where "?f i = Inr docs" by (blast dest: busy_retry_Inr)
  then show ?thesis by (cases "gloda_retry (ge_open env i)"; cases "ge_query env i") auto
qed

termination gloda_reindex_loop
  by (relation "measure (\<lambda>(env, db, limit, instance_id, cursor, s). length (unseen db cursor))")
    (auto dest!: fetch_messages_Inr batch_advances)

declare gloda_reindex_loop.simps [simp del]

text \<open>The cursor file is removed first and written again at the end of a pass that was not given up.\<close>

definition gloda_reindex ::
  "(nat \<Rightarrow> gloda_env) \<Rightarrow> bool \<Rightarrow> gloda_row list \<Rightarrow> nat \<Rightarrow> rstring \<Rightarrow> nat option \<times> mutation_sink \<Rightarrow> (nat option \<times> mutation_sink) \<times> (source_error + unit)" where
  "gloda_reindex env writable db limit instance_id st =
     (case st of (cf, s) \<Rightarrow>
        case emit (DeleteSourceInstance instance_id) s of
          (s1, Inl e) \<Rightarrow> ((cf, s1), Inl e)
        | (s1, Inr _) \<Rightarrow>
            if \<not> ge_exists (env 0) then ((None, s1), Inr ())
            else case gloda_reindex_loop env db limit instance_id 0 s1 of
                   (s2, Inl e) \<Rightarrow> ((None, s2), Inl e)
                 | (s2, Inr None) \<Rightarrow> ((None, s2), Inr ())
                 | (s2, Inr (Some c)) \<Rightarrow> ((if writable then Some c else None, s2), Inr ()))"

subsection \<open>Every message once\<close>

text \<open>A database that answers: some attempt of each query is not turned away.\<close>

definition gloda_answers :: "gloda_env \<Rightarrow> bool" where
  "gloda_answers env \<longleftrightarrow> ge_exists env \<and> (\<exists>i\<le>3. (\<exists>j\<le>3. ge_open env i j = Inr () \<and> (\<forall>k<j. ge_open env i k = Inl Busy)) \<and> ge_query env i = Inr () \<and>
     (\<forall>k<i. (\<forall>j. ge_open env k j = Inl Busy) \<or> ((\<exists>j\<le>3. ge_open env k j = Inr () \<and> (\<forall>l<j. ge_open env k l = Inl Busy)) \<and> ge_query env k = Inl Busy)))"

lemma busy_retry_succeeds:
  "f (i + j) = Inr v \<Longrightarrow> (\<And>k. k < j \<Longrightarrow> \<exists>e. f (i + k) = Inl e \<and> classify e) \<Longrightarrow> j \<le> n \<Longrightarrow> busy_retry n classify f i = Inr v"
proof (induction n arbitrary: i j)
  case 0
  then show ?case by (subst busy_retry.simps) simp
next
  case (Suc n)
  show ?case
  proof (cases j)
    case 0
    then show ?thesis using Suc(2) by (subst busy_retry.simps) simp
  next
    case (Suc m)
    obtain e where "f i = Inl e" "classify e" using Suc.prems(2)[of 0] Suc by auto
    moreover have "busy_retry n classify f (i + 1) = Inr v"
    proof (rule Suc.IH[of _ m])
      show "f (i + 1 + m) = Inr v" "m \<le> n" using Suc.prems Suc by simp_all
      show "\<exists>e. f (i + 1 + k) = Inl e \<and> classify e" if "k < m" for k using Suc.prems(2)[of "k + 1"] Suc that by simp
    qed
    ultimately show ?thesis by (subst busy_retry.simps) simp
  qed
qed

lemma busy_retry_busy: "(\<And>j. f j = Inl e) \<Longrightarrow> busy_retry n classify f i = Inl e"
  by (induction n arbitrary: i) (simp_all add: busy_retry.simps[of 0] busy_retry.simps[of "Suc _"])

lemma gloda_retry_open:
  "j \<le> 3 \<Longrightarrow> f j = Inr () \<Longrightarrow> (\<forall>k<j. f k = Inl Busy) \<Longrightarrow> gloda_retry f = Inr ()"
  unfolding gloda_retry_def by (rule busy_retry_succeeds[of _ _ j]) (auto simp: gloda_is_busy_def)

lemma fetch_answers:
  assumes "gloda_answers env"
  shows "fetch_messages env db cursor limit = Inr (query_messages db cursor limit)"
proof -
  obtain i where i: "i \<le> 3" "\<exists>j\<le>3. ge_open env i j = Inr () \<and> (\<forall>k<j. ge_open env i k = Inl Busy)" "ge_query env i = Inr ()"
    and b: "\<And>k. k < i \<Longrightarrow> (\<forall>j. ge_open env k j = Inl Busy) \<or>
      ((\<exists>j\<le>3. ge_open env k j = Inr () \<and> (\<forall>l<j. ge_open env k l = Inl Busy)) \<and> ge_query env k = Inl Busy)"
    using assms unfolding gloda_answers_def by auto
  have "gloda_retry (ge_open env i) = Inr ()" using i(2) gloda_retry_open by blast
  moreover have "gloda_retry (ge_open env k) = Inl Busy \<or> gloda_retry (ge_open env k) = Inr () \<and> ge_query env k = Inl Busy" if "k < i" for k
    using b[OF that] gloda_retry_open[of _ "ge_open env k"] busy_retry_busy[of "ge_open env k" Busy] unfolding gloda_retry_def by blast
  ultimately show ?thesis
    using i(1,3) unfolding fetch_messages_def gloda_retry_def[of "\<lambda>i. case _ i of Inl e \<Rightarrow> _ e | Inr _ \<Rightarrow> _ i"]
    by (intro busy_retry_succeeds[of _ _ i]) (fastforce simp: gloda_is_busy_def)+
qed

definition good_rows :: "gloda_row list \<Rightarrow> bool" where
  "good_rows db \<longleftrightarrow> distinct (map gr_id db) \<and> (\<forall>r\<in>set db. gr_id r < 2 ^ 63)"

lemma unseen_sorted:
  assumes "good_rows db"
  shows "sorted_wrt (\<lambda>a b. gr_id a < gr_id b) (unseen db cursor)"
proof -
  have "distinct (map gr_id (sort_key gr_id db))" using assms by (metis good_rows_def distinct_map distinct_sort set_sort)
  moreover have "sorted (map gr_id (sort_key gr_id db))" by simp
  ultimately have "sorted_wrt (<) (map gr_id (sort_key gr_id db))" using strict_sorted_iff by blast
  then show ?thesis by (simp add: unseen_def sorted_wrt_map sorted_wrt_filter)
qed

lemma sorted_batch_cursor:
  "sorted_wrt (\<lambda>a b. gr_id a < gr_id b) rs \<Longrightarrow> (\<forall>r\<in>set rs. c < gr_id r \<and> gr_id r < 2 ^ 64) \<Longrightarrow>
    batch_cursor (map gloda_doc rs) c = (if rs = [] then c else gr_id (last rs))"
proof (induction rs arbitrary: c)
  case (Cons r rs)
  have "batch_cursor (map gloda_doc (r # rs)) c = batch_cursor (map gloda_doc rs) (gr_id r)"
    using Cons.prems(2) by (simp add: batch_cursor_def doc_gloda_id_doc max_def)
  then show ?case using Cons by simp
qed (simp add: batch_cursor_def)

lemma batch_step:
  assumes "good_rows db" "0 < limit" "unseen db cursor \<noteq> []"
  defines "c \<equiv> batch_cursor (query_messages db cursor limit) cursor"
  shows "cursor < c" "unseen db c = drop limit (unseen db cursor)" "c = gr_id (last (take limit (unseen db cursor)))"
proof -
  let ?u = "unseen db cursor"
  have u: "r \<in> set ?u \<Longrightarrow> cursor < gr_id r \<and> gr_id r < 2 ^ 64" for r using assms(1) by (fastforce simp: unseen_def good_rows_def)
  have ne: "take limit ?u \<noteq> []" using assms(2,3) by simp
  have sw: "sorted_wrt (\<lambda>a b. gr_id a < gr_id b) ?u" by (rule unseen_sorted[OF assms(1)])
  have c: "c = gr_id (last (take limit ?u))"
    unfolding c_def query_messages_unseen
    using sorted_batch_cursor[of "take limit ?u" cursor] sorted_wrt_take[OF sw] u ne by (auto dest: in_set_takeD)
  then show "c = gr_id (last (take limit ?u))" .
  show gt: "cursor < c" using u[of "last (take limit ?u)"] last_in_set[OF ne] c by (auto dest: in_set_takeD)
  have *: "unseen db c = filter (\<lambda>r. c < gr_id r) ?u" using gt by (auto simp: unseen_def intro!: filter_cong)
  have sp: "sorted_wrt (\<lambda>a b. gr_id a < gr_id b) (take limit ?u @ drop limit ?u)" using sw by simp
  have "filter (\<lambda>r. c < gr_id r) (take limit ?u) = []"
  proof -
    have "gr_id r \<le> c" if "r \<in> set (take limit ?u)" for r
    proof -
      have "take limit ?u = butlast (take limit ?u) @ [last (take limit ?u)]" using ne by simp
      then have "r \<in> set (butlast (take limit ?u)) \<or> r = last (take limit ?u)" using that by (metis Un_iff set_append set_ConsD empty_iff list.set(1))
      moreover have "sorted_wrt (\<lambda>a b. gr_id a < gr_id b) (butlast (take limit ?u) @ [last (take limit ?u)])"
        using sorted_wrt_take[OF sw] ne by simp
      ultimately show ?thesis using c by (fastforce simp: sorted_wrt_append)
    qed
    then show ?thesis by (fastforce simp: filter_empty_conv)
  qed
  moreover have "filter (\<lambda>r. c < gr_id r) (drop limit ?u) = drop limit ?u"
    using sp[unfolded sorted_wrt_append] last_in_set[OF ne] c by (intro filter_True) blast
  ultimately show "unseen db c = drop limit ?u"
    unfolding * by (metis append_Nil append_take_drop_id filter_append)
qed

lemma emit_open: "sk_left s = None \<Longrightarrow> emit m s = (s\<lparr>sk_out := sk_out s @ [m]\<rparr>, Inr ())"
  by (simp add: emit_def)

lemma gloda_loop_complete:
  assumes "\<And>c. gloda_answers (env c)" "good_rows db" "0 < limit"
  shows "sk_left s = None \<Longrightarrow> \<exists>batches c. gloda_reindex_loop env db limit inst cursor s
      = (s\<lparr>sk_out := sk_out s @ map UpsertMany batches\<rparr>, Inr (Some c)) \<and> concat batches = own inst (map gloda_doc (unseen db cursor))
      \<and> unseen db c = []"
proof (induction "length (unseen db cursor)" arbitrary: cursor s rule: less_induct)
  case less
  have f: "fetch_messages (env cursor) db cursor limit = Inr (map gloda_doc (take limit (unseen db cursor)))"
    using fetch_answers[OF assms(1)] by (simp add: query_messages_unseen)
  show ?case
  proof (cases "unseen db cursor = []")
    case True
    then show ?thesis
      by (intro exI[of _ "[]"] exI[of _ cursor]) (subst gloda_reindex_loop.simps, simp add: f own_def)
  next
    case False
    define c where "c = batch_cursor (query_messages db cursor limit) cursor"
    note st = batch_step[OF assms(2,3) False, folded c_def]
    let ?b = "own inst (map gloda_doc (take limit (unseen db cursor)))"
    let ?s = "s\<lparr>sk_out := sk_out s @ [UpsertMany ?b]\<rparr>"
    have "length (unseen db c) < length (unseen db cursor)" using st(2) False assms(3) by simp
    from less(1)[OF this, of ?s] less(2) obtain batches c' where
      IH: "gloda_reindex_loop env db limit inst c ?s = (?s\<lparr>sk_out := sk_out ?s @ map UpsertMany batches\<rparr>, Inr (Some c'))"
        "concat batches = own inst (map gloda_doc (unseen db c))" "unseen db c' = []" by auto
    have "gloda_reindex_loop env db limit inst cursor s = gloda_reindex_loop env db limit inst c ?s"
      using st(1) False assms(3) less(2)
      by (subst gloda_reindex_loop.simps) (simp add: f emit_open c_def[unfolded query_messages_unseen])
    moreover have "concat (?b # batches) = own inst (map gloda_doc (unseen db cursor))"
      using IH(2) st(2) by (simp add: own_def flip: map_append)
    ultimately show ?thesis using IH(1,3) by (intro exI[of _ "?b # batches"] exI[of _ c']) simp
  qed
qed

text \<open>Successive ticks on a database that does not change in between.\<close>

fun gloda_ticks ::
  "(nat \<Rightarrow> gloda_env) \<Rightarrow> gloda_row list \<Rightarrow> nat \<Rightarrow> rstring \<Rightarrow> nat \<Rightarrow> nat option \<times> mutation_sink \<Rightarrow> nat option \<times> mutation_sink" where
  "gloda_ticks env db limit inst 0 st = st"
| "gloda_ticks env db limit inst (Suc k) st = gloda_ticks env db limit inst k (fst (gloda_tick (env k) True db limit inst st))"

lemma gloda_tick_step:
  fixes cf :: "nat option"
  assumes "gloda_answers env" "good_rows db" "0 < limit" "sk_left s = None"
  defines "u \<equiv> unseen db (read_cursor cf)"
  shows "\<exists>cf'. fst (gloda_tick env True db limit inst (cf, s)) =
      (cf', if u = [] then s else s\<lparr>sk_out := sk_out s @ [UpsertMany (own inst (map gloda_doc (take limit u)))]\<rparr>)
    \<and> unseen db (read_cursor cf') = drop limit u"
proof -
  have f: "fetch_messages env db (read_cursor cf) limit = Inr (map gloda_doc (take limit u))" and ex: "ge_exists env"
    using fetch_answers[OF assms(1)] assms(1) by (simp_all add: query_messages_unseen u_def gloda_answers_def)
  show ?thesis
  proof (cases "u = []")
    case True
    then show ?thesis using f ex by (simp add: gloda_tick_def u_def)
  next
    case False
    note st = batch_step[OF assms(2,3) False[unfolded u_def]]
    then show ?thesis
      using f ex False assms(3,4) by (simp add: gloda_tick_def emit_open Let_def query_messages_unseen read_cursor_def u_def)
  qed
qed

text \<open>
  C26: Polling the message database delivers every message once, in order. From any cursor, after \<open>k\<close> ticks the batches sent to the
  index are, put together, the documents of the first \<open>k * limit\<close> messages beyond the cursor that are not deleted, in the order of
  their ids, each exactly once; so enough ticks deliver all of them.
\<close>

theorem gloda_ticks_deliver:
  assumes "\<And>i. gloda_answers (env i)" "good_rows db" "0 < limit" "sk_left s = None"
  shows "\<exists>batches cf'. gloda_ticks env db limit inst k (cf, s) = (cf', s\<lparr>sk_out := sk_out s @ map UpsertMany batches\<rparr>)
    \<and> concat batches = own inst (map gloda_doc (take (k * limit) (unseen db (read_cursor cf))))
    \<and> unseen db (read_cursor cf') = drop (k * limit) (unseen db (read_cursor cf))"
  using assms(4)
proof (induction k arbitrary: cf s)
  case 0
  show ?case by (intro exI[of _ "[]"] exI[of _ cf]) (simp add: own_def)
next
  case (Suc k)
  let ?u = "unseen db (read_cursor cf)"
  let ?b = "if ?u = [] then [] else [own inst (map gloda_doc (take limit ?u))]"
  obtain cf1 where t: "fst (gloda_tick (env k) True db limit inst (cf, s)) = (cf1, s\<lparr>sk_out := sk_out s @ map UpsertMany ?b\<rparr>)"
    "unseen db (read_cursor cf1) = drop limit ?u"
    using gloda_tick_step[OF assms(1-3) Suc.prems, of k inst cf] by (auto split: if_splits)
  let ?s = "s\<lparr>sk_out := sk_out s @ map UpsertMany ?b\<rparr>"
  obtain batches cf' where IH: "gloda_ticks env db limit inst k (cf1, ?s) = (cf', ?s\<lparr>sk_out := sk_out ?s @ map UpsertMany batches\<rparr>)"
    "concat batches = own inst (map gloda_doc (take (k * limit) (drop limit ?u)))"
    "unseen db (read_cursor cf') = drop (k * limit) (drop limit ?u)"
    using Suc.IH[of ?s cf1] Suc.prems t(2) by auto
  have "concat (?b @ batches) = own inst (map gloda_doc (take limit ?u)) @ own inst (map gloda_doc (take (k * limit) (drop limit ?u)))"
    using IH(2) by (simp add: own_def)
  also have "\<dots> = own inst (map gloda_doc (take (Suc k * limit) ?u))" by (simp add: own_def take_add flip: map_append)
  finally show ?case
    using IH(1,3) t(1) by (intro exI[of _ "?b @ batches"] exI[of _ cf']) (simp add: add.commute)
qed

text \<open>
  Reindexing the message database always ends, and replaces what was indexed: when the database answers, the mutations are the purge
  of the instance followed by batches that contain the document of every message that is not deleted, once, in the order of the ids.
\<close>

theorem gloda_reindex_complete:
  assumes "\<And>c. gloda_answers (env c)" "good_rows db" "0 < limit" "sk_left s = None"
  shows "\<exists>batches cf'. gloda_reindex env writable db limit inst (cf, s) =
      ((cf', s\<lparr>sk_out := sk_out s @ DeleteSourceInstance inst # map UpsertMany batches\<rparr>), Inr ())
    \<and> concat batches = own inst (map gloda_doc (filter (\<lambda>r. 0 < gr_id r \<and> \<not> gr_deleted r) (sort_key gr_id db)))"
proof -
  let ?s = "s\<lparr>sk_out := sk_out s @ [DeleteSourceInstance inst]\<rparr>"
  obtain batches c where "gloda_reindex_loop env db limit inst 0 ?s = (?s\<lparr>sk_out := sk_out ?s @ map UpsertMany batches\<rparr>, Inr (Some c))"
    "concat batches = own inst (map gloda_doc (unseen db 0))"
    using gloda_loop_complete[where env = env and s = ?s and inst = inst and cursor = 0, OF assms(1-3)] assms(4) by auto
  then show ?thesis
    using assms(1)[of 0] assms(4) by (intro exI[of _ batches]) (auto simp: gloda_reindex_def emit_open gloda_answers_def unseen_def)
qed

text \<open>
  What is behind the cursor is never looked at again: two databases with the same rows beyond it are told apart by no tick, even when a
  message already indexed has been deleted in one of them.
\<close>

theorem indexed_mail_is_never_revisited:
  assumes "unseen db (read_cursor cf) = unseen db' (read_cursor cf)"
  shows "gloda_tick env writable db limit inst (cf, s) = gloda_tick env writable db' limit inst (cf, s)"
  unfolding gloda_tick_def fetch_messages_def query_messages_unseen by (simp only: split assms)

text \<open>The first line feed after a carriage return ends the envelope line, wherever it is: here the whole message is dropped with it.\<close>

theorem mixed_line_endings_drop_message:
  "strip_mbox_envelope (MBOX_FROM @ [97, 10, 83, 58, 120, 10, 10, 121, 13, 10]) = Some (15, [])"
  by (simp add: strip_mbox_envelope_def MBOX_FROM_def)

text \<open>A semicolon inside the quotes ends the file name.\<close>

theorem quoted_semicolon_cuts_filename:
  "disposition_filename (lit ''attachment; filename='' @ [34, 97, 59, 98, 34]) = Some [97]"
  by (simp add: disposition_filename_def lit_def to_ascii_lowercase_def to_ascii_lower_def trim_matches_def trim_def trim_end_def trim_start_def
      trim_start_matches_def trim_end_matches_def is_whitespace_def Let_def)

section \<open>Maildir\<close>

definition md_cur :: rstring where "md_cur = lit ''cur''"
definition md_new :: rstring where "md_new = lit ''new''"
definition md_tmp :: rstring where "md_tmp = lit ''tmp''"

definition is_message_path :: "fpath \<Rightarrow> bool" where
  "is_message_path p \<longleftrightarrow> p \<noteq> [] \<and> (case file_name (butlast p) of Some n \<Rightarrow> n = md_cur \<or> n = md_new | None \<Rightarrow> False)"

definition is_tmp_dir :: "fpath \<Rightarrow> bool" where
  "is_tmp_dir p \<longleftrightarrow> file_name p = Some md_tmp"

text \<open>
  \<open>entries\<close>: what the walk below a root meets, with whether it is a regular file. \<^verbatim>\<open>filter_entry\<close> does not descend
  into an entry it rejects, so no directory from the root down to the file may be called \<^verbatim>\<open>tmp\<close>.
\<close>

definition walk_messages :: "fpath \<Rightarrow> (fpath \<times> bool) list \<Rightarrow> fpath list" where
  "walk_messages rt entries =
     map fst (filter (\<lambda>(p, is_file). list_all (\<lambda>k. \<not> is_tmp_dir (take k p)) [length rt..<Suc (length p)] \<and> is_file \<and> is_message_path p) entries)"

definition derive_folder :: "fpath \<Rightarrow> fpath \<Rightarrow> rstring" where
  "derive_folder rt p =
     (let rel = (if path_starts_with p rt then drop (length rt) p else [slash] # p);
          components = takeWhile (\<lambda>c. c \<noteq> md_cur \<and> c \<noteq> md_new \<and> c \<noteq> md_tmp) rel
      in if components = [] then lit ''INBOX'' else join [slash] components)"

definition flag_name :: "rchar \<Rightarrow> rstring option" where
  "flag_name c =
     (if c = 83 then Some (lit ''seen'') else if c = 82 then Some (lit ''replied'') else if c = 70 then Some (lit ''flagged'')
      else if c = 68 then Some (lit ''draft'') else if c = 80 then Some (lit ''passed'') else if c = 84 then Some (lit ''trashed'')
      else None)"

definition parse_flags :: "rstring \<Rightarrow> rstring list" where
  "parse_flags filename =
     (case position (lit '':2,'') filename of
        None \<Rightarrow> []
      | Some i \<Rightarrow>
          fold (\<lambda>c flags. case flag_name c of Some f \<Rightarrow> if f \<in> set flags then flags else flags @ [f] | None \<Rightarrow> flags)
            (drop (i + 3) filename) [])"

text \<open>\<^verbatim>\<open>str::replace\<close> with a pattern that is not empty.\<close>

function replace_str :: "rstring \<Rightarrow> rstring \<Rightarrow> rstring \<Rightarrow> rstring" where
  "replace_str pat rep s =
     (if pat = [] \<or> s = [] then s
      else if prefix pat s then rep @ replace_str pat rep (drop (length pat) s)
      else hd s # replace_str pat rep (tl s))"
  by pat_completeness auto

termination
  by (relation "measure (\<lambda>(pat, rep, s). length s)") (auto intro!: diff_less)

declare replace_str.simps [simp del]

definition strip_angle_brackets :: "rstring \<Rightarrow> rstring" where
  "strip_angle_brackets s = strip_brackets (trim s)"

text \<open>What the MIME parser returns of a message: the first value of a header, by its name in any case, and the text of the body.\<close>

record md_message =
  mm_header :: "rstring \<Rightarrow> rstring option"
  mm_body :: "rstring option"

record maildir_source =
  md_roots :: "fpath list"
  md_open_cmd :: "rstring list"
  md_parse :: "byte_string \<Rightarrow> md_message option"

definition find_root_for :: "maildir_source \<Rightarrow> fpath \<Rightarrow> fpath option" where
  "find_root_for src p = find (\<lambda>r. path_starts_with p r) (md_roots src)"

definition maildir_doc_id_for :: "fpath \<Rightarrow> doc_id" where
  "maildir_doc_id_for p = lit ''maildir:'' @ path_str p"

definition md_doc :: "maildir_source \<Rightarrow> fpath \<Rightarrow> fpath \<Rightarrow> byte_string \<Rightarrow> md_message \<Rightarrow> document" where
  "md_doc src rt p bs msg =
     (let subject = (case mm_header msg (lit ''Subject'') of Some v \<Rightarrow> v | None \<Rightarrow> lit ''(no subject)'');
          from = (case mm_header msg (lit ''From'') of Some v \<Rightarrow> v | None \<Rightarrow> []);
          to = (case mm_header msg (lit ''To'') of Some v \<Rightarrow> v | None \<Rightarrow> []);
          cc = (case mm_header msg (lit ''Cc'') of Some v \<Rightarrow> v | None \<Rightarrow> []);
          recipients_all = (if cc = [] then to else to @ lit '', '' @ cc);
          message_id = strip_angle_brackets (case mm_header msg (lit ''Message-ID'') of Some v \<Rightarrow> v | None \<Rightarrow> []);
          body = (case mm_body msg of Some b \<Rightarrow> b | None \<Rightarrow> []);
          folder = derive_folder rt p;
          flags = parse_flags (case file_name p of Some n \<Rightarrow> n | None \<Rightarrow> [])
      in \<lparr>doc_id = maildir_doc_id_for p, doc_category = Mail, doc_title = subject, doc_subtitle = from,
          doc_icon_name = Some (lit ''mail-message''), doc_kind_label = Some (lit ''Email''),
          doc_body = (if body = [] then None else Some body), doc_path = path_str p, doc_mtime = 0, doc_size = length bs,
          doc_action =
            (if md_open_cmd src \<noteq> []
             then Exec (map (\<lambda>a. replace_str (lit ''{message_id}'') message_id
                         (replace_str (lit ''{path}'') (path_str p) (replace_str (lit ''{folder}'') folder a))) (md_open_cmd src)) None False
             else OpenFile (path_str p)),
          doc_extract_fail = False, doc_sender = (if from = [] then None else Some from),
          doc_recipients = (if recipients_all = [] then None else Some recipients_all),
          doc_source_instance = [],
          doc_extra = [(lit ''maildir_folder'', PText folder)] @ map (\<lambda>f. (lit ''maildir_flags'', PText f)) flags
            @ (if from = [] then [] else [(lit ''maildir_from'', PText from)])
            @ (if recipients_all = [] then [] else [(lit ''maildir_to'', PText recipients_all)]),
          doc_secondary_action = None, doc_mime = None\<rparr>)"

definition parse_message :: "maildir_source \<Rightarrow> (fpath \<rightharpoonup> byte_string) \<Rightarrow> fpath \<Rightarrow> fpath \<Rightarrow> document option" where
  "parse_message src disk rt p =
     (case disk p of
        None \<Rightarrow> None
      | Some bs \<Rightarrow> (case md_parse src bs of None \<Rightarrow> None | Some msg \<Rightarrow> Some (md_doc src rt p bs msg)))"

datatype source_event_kind = EvCreated | EvModified | EvRemoved | EvRenamed fpath

record source_event =
  se_path :: fpath
  se_kind :: source_event_kind

definition upsert_message :: "maildir_source \<Rightarrow> (fpath \<rightharpoonup> byte_string) \<Rightarrow> rstring \<Rightarrow> fpath \<Rightarrow> fpath \<Rightarrow> mutation_sink \<Rightarrow> mutation_sink \<times> (source_error + unit)" where
  "upsert_message src disk instance_id rt p s =
     (case parse_message src disk rt p of
        None \<Rightarrow> (s, Inr ())
      | Some d \<Rightarrow> emit (Upsert (d\<lparr>doc_source_instance := instance_id\<rparr>)) s)"

definition then_do :: "mutation_sink \<times> (source_error + unit) \<Rightarrow> (mutation_sink \<Rightarrow> mutation_sink \<times> (source_error + unit)) \<Rightarrow> mutation_sink \<times> (source_error + unit)" where
  "then_do r k = (case r of (s, Inl e) \<Rightarrow> (s, Inl e) | (s, Inr _) \<Rightarrow> k s)"

definition on_fs_event :: "maildir_source \<Rightarrow> (fpath \<rightharpoonup> byte_string) \<Rightarrow> rstring \<Rightarrow> source_event \<Rightarrow> mutation_sink \<Rightarrow> mutation_sink \<times> (source_error + unit)" where
  "on_fs_event src disk instance_id e s =
     (if \<not> is_message_path (se_path e) then (s, Inr ())
      else case find_root_for src (se_path e) of
             None \<Rightarrow> (s, Inr ())
           | Some rt \<Rightarrow>
               (case se_kind e of
                  EvCreated \<Rightarrow> upsert_message src disk instance_id rt (se_path e) s
                | EvModified \<Rightarrow> upsert_message src disk instance_id rt (se_path e) s
                | EvRemoved \<Rightarrow> emit (Delete (maildir_doc_id_for (se_path e))) s
                | EvRenamed from \<Rightarrow>
                    then_do (emit (Delete (maildir_doc_id_for from)) s) (upsert_message src disk instance_id rt (se_path e))))"

fun on_fs_events :: "maildir_source \<Rightarrow> (fpath \<rightharpoonup> byte_string) \<Rightarrow> rstring \<Rightarrow> source_event list \<Rightarrow> mutation_sink \<Rightarrow> mutation_sink \<times> (source_error + unit)" where
  "on_fs_events src disk instance_id [] s = (s, Inr ())"
| "on_fs_events src disk instance_id (e # es) s =
     then_do (on_fs_event src disk instance_id e s) (on_fs_events src disk instance_id es)"

definition MD_BATCH :: nat where
  "MD_BATCH = 500"

fun push_batches :: "document list \<Rightarrow> document list \<Rightarrow> mutation_sink \<Rightarrow> mutation_sink \<times> (source_error + unit)" where
  "push_batches acc [] s = (if acc = [] then (s, Inr ()) else emit (UpsertMany acc) s)"
| "push_batches acc (d # ds) s =
     (if MD_BATCH \<le> length (acc @ [d]) then then_do (emit (UpsertMany (acc @ [d])) s) (push_batches [] ds)
      else push_batches (acc @ [d]) ds s)"

text \<open>\<open>entries\<close> maps each root that exists to what the walk meets there.\<close>

definition maildir_docs :: "maildir_source \<Rightarrow> (fpath \<rightharpoonup> byte_string) \<Rightarrow> (fpath \<rightharpoonup> (fpath \<times> bool) list) \<Rightarrow> document list" where
  "maildir_docs src disk entries =
     concat (map (\<lambda>rt. case entries rt of
        None \<Rightarrow> []
      | Some es \<Rightarrow> List.map_filter (parse_message src disk rt) (walk_messages rt es)) (md_roots src))"

definition maildir_reindex :: "maildir_source \<Rightarrow> (fpath \<rightharpoonup> byte_string) \<Rightarrow> (fpath \<rightharpoonup> (fpath \<times> bool) list) \<Rightarrow> rstring \<Rightarrow> mutation_sink
     \<Rightarrow> mutation_sink \<times> (source_error + unit)" where
  "maildir_reindex src disk entries instance_id s =
     then_do (emit (DeleteSourceInstance instance_id) s) (push_batches [] (own instance_id (maildir_docs src disk entries)))"

subsection \<open>The index follows the disk\<close>

definition watched :: "maildir_source \<Rightarrow> fpath \<Rightarrow> bool" where
  "watched src p \<longleftrightarrow> wf_path p \<and> is_message_path p \<and> find_root_for src p \<noteq> None"

text \<open>What the index should hold for a message file.\<close>

definition md_expected :: "maildir_source \<Rightarrow> rstring \<Rightarrow> (fpath \<rightharpoonup> byte_string) \<Rightarrow> fpath \<Rightarrow> document option" where
  "md_expected src instance_id disk p =
     (case find_root_for src p of
        None \<Rightarrow> None
      | Some rt \<Rightarrow> map_option (\<lambda>d. d\<lparr>doc_source_instance := instance_id\<rparr>) (parse_message src disk rt p))"

definition md_mirrors :: "maildir_source \<Rightarrow> rstring \<Rightarrow> (fpath \<rightharpoonup> byte_string) \<Rightarrow> doc_index \<Rightarrow> bool" where
  "md_mirrors src instance_id disk ix \<longleftrightarrow> (\<forall>p. watched src p \<longrightarrow> ix (maildir_doc_id_for p) = md_expected src instance_id disk p)"

text \<open>Changes of the mail folders, and the event each is reported as.\<close>

datatype md_change = Wrote fpath byte_string bool | Unlinked fpath | Moved fpath fpath

fun md_apply :: "md_change \<Rightarrow> (fpath \<rightharpoonup> byte_string) \<Rightarrow> (fpath \<rightharpoonup> byte_string)" where
  "md_apply (Wrote p bs is_new) disk = disk(p \<mapsto> bs)"
| "md_apply (Unlinked p) disk = disk(p := None)"
| "md_apply (Moved a b) disk = (if a = b then disk else disk(a := None, b := disk a))"

fun md_event :: "md_change \<Rightarrow> source_event" where
  "md_event (Wrote p bs is_new) = \<lparr>se_path = p, se_kind = (if is_new then EvCreated else EvModified)\<rparr>"
| "md_event (Unlinked p) = \<lparr>se_path = p, se_kind = EvRemoved\<rparr>"
| "md_event (Moved a b) = \<lparr>se_path = b, se_kind = EvRenamed a\<rparr>"

fun md_touched :: "md_change \<Rightarrow> fpath set" where
  "md_touched (Wrote p bs is_new) = {p}"
| "md_touched (Unlinked p) = {p}"
| "md_touched (Moved a b) = {a, b}"

lemma md_apply_untouched: "p \<notin> md_touched c \<Longrightarrow> md_apply c disk p = disk p"
  by (cases c) auto

lemma md_fold_untouched: "\<forall>c\<in>set cs. p \<notin> md_touched c \<Longrightarrow> fold md_apply cs disk p = disk p"
  by (induction cs arbitrary: disk) (auto simp: md_apply_untouched)

lemma maildir_id_inj: "wf_path p \<Longrightarrow> wf_path q \<Longrightarrow> maildir_doc_id_for p = maildir_doc_id_for q \<longleftrightarrow> p = q"
  using path_str_inj by (auto simp: maildir_doc_id_for_def)

lemma md_doc_id: "doc_id (md_doc src rt p bs msg) = maildir_doc_id_for p"
  by (simp add: md_doc_def Let_def)

lemma parse_message_id: "parse_message src disk rt p = Some d \<Longrightarrow> doc_id d = maildir_doc_id_for p"
  by (auto simp: parse_message_def md_doc_id split: option.splits)

lemma upsert_message_open:
  assumes "sk_left s = None"
  shows "upsert_message src disk inst rt p s =
    (s\<lparr>sk_out := sk_out s @ (case parse_message src disk rt p of None \<Rightarrow> [] | Some d \<Rightarrow> [Upsert (d\<lparr>doc_source_instance := inst\<rparr>)])\<rparr>, Inr ())"
  by (simp add: upsert_message_def emit_open[OF assms] split: option.splits)

text \<open>The mutations for one event.\<close>

definition event_mutations :: "maildir_source \<Rightarrow> (fpath \<rightharpoonup> byte_string) \<Rightarrow> rstring \<Rightarrow> source_event \<Rightarrow> mutation list" where
  "event_mutations src disk inst e = sk_out (fst (on_fs_event src disk inst e \<lparr>sk_out = [], sk_left = None\<rparr>))"

lemma on_fs_event_open:
  "sk_left s = None \<Longrightarrow> on_fs_event src disk inst e s = (s\<lparr>sk_out := sk_out s @ event_mutations src disk inst e\<rparr>, Inr ())"
  by (simp add: event_mutations_def on_fs_event_def upsert_message_open emit_open then_do_def split: option.splits source_event_kind.splits)

lemma on_fs_events_open:
  "sk_left s = None \<Longrightarrow> on_fs_events src disk inst es s = (s\<lparr>sk_out := sk_out s @ concat (map (event_mutations src disk inst) es)\<rparr>, Inr ())"
  by (induction es arbitrary: s) (simp_all add: on_fs_event_open then_do_def)

text \<open>Only a file that is there can be moved.\<close>

fun md_possible :: "md_change list \<Rightarrow> (fpath \<rightharpoonup> byte_string) \<Rightarrow> bool" where
  "md_possible [] disk = True"
| "md_possible (c # cs) disk = ((case c of Moved a b \<Rightarrow> disk a \<noteq> None | _ \<Rightarrow> True) \<and> md_possible cs (md_apply c disk))"

definition parses_all :: "maildir_source \<Rightarrow> (fpath \<rightharpoonup> byte_string) \<Rightarrow> bool" where
  "parses_all src disk \<longleftrightarrow> (\<forall>q bs. disk q = Some bs \<longrightarrow> md_parse src bs \<noteq> None)"

lemma parse_message_Some: "parses_all src disk \<Longrightarrow> disk p \<noteq> None \<Longrightarrow> parse_message src disk rt p \<noteq> None"
  by (fastforce simp: parse_message_def parses_all_def split: option.splits)

lemma md_expected_None: "disk p = None \<Longrightarrow> md_expected src inst disk p = None"
  by (simp add: md_expected_def parse_message_def split: option.splits)

lemma upsert_effect:
  assumes "wf_path p" "wf_path q" "find_root_for src p = Some rt"
  shows "index_after (case parse_message src disk rt p of None \<Rightarrow> [] | Some d \<Rightarrow> [Upsert (d\<lparr>doc_source_instance := inst\<rparr>)]) ix (maildir_doc_id_for q) =
    (if p = q \<and> parse_message src disk rt p \<noteq> None then md_expected src inst disk p else ix (maildir_doc_id_for q))"
  using assms maildir_id_inj[OF assms(1,2)]
  by (auto simp: index_after_def md_expected_def split: option.splits dest: parse_message_id)

lemma event_mutations_upsert:
  assumes "watched src p" "se_kind e = EvCreated \<or> se_kind e = EvModified" "se_path e = p" "find_root_for src p = Some rt"
  shows "event_mutations src disk inst e = (case parse_message src disk rt p of None \<Rightarrow> [] | Some d \<Rightarrow> [Upsert (d\<lparr>doc_source_instance := inst\<rparr>)])"
  using assms by (auto simp: event_mutations_def on_fs_event_def watched_def upsert_message_open)

lemma event_mutations_removed:
  assumes "watched src p" "se_kind e = EvRemoved" "se_path e = p"
  shows "event_mutations src disk inst e = [Delete (maildir_doc_id_for p)]"
  using assms by (auto simp: event_mutations_def on_fs_event_def watched_def emit_open)

lemma event_mutations_renamed:
  assumes "watched src p" "se_kind e = EvRenamed a" "se_path e = p" "find_root_for src p = Some rt"
  shows "event_mutations src disk inst e = Delete (maildir_doc_id_for a) #
    (case parse_message src disk rt p of None \<Rightarrow> [] | Some d \<Rightarrow> [Upsert (d\<lparr>doc_source_instance := inst\<rparr>)])"
  using assms by (auto simp: event_mutations_def on_fs_event_def watched_def upsert_message_open emit_open then_do_def)

lemma index_after_Cons: "index_after (m # ms) ix = index_after ms (index_apply m ix)"
  by (simp add: index_after_def)

text \<open>On a disk whose messages parse, the mutations of an event bring the files it is about up to date and leave the others alone.\<close>

lemma event_effect:
  assumes "\<forall>q\<in>md_touched c. watched src q" "watched src p" "parses_all src disk" "md_possible [c] d0"
    and "p \<in> md_touched c \<Longrightarrow> disk p = md_apply c d0 p"
  shows "index_after (event_mutations src disk inst (md_event c)) ix (maildir_doc_id_for p) =
    (if p \<in> md_touched c then md_expected src inst disk p else ix (maildir_doc_id_for p))"
proof (cases c)
  case (Wrote q bs is_new)
  obtain rt where q: "wf_path q" "find_root_for src q = Some rt" "watched src q" using assms(1) by (auto simp: Wrote watched_def)
  have p: "wf_path p" using assms(2) by (simp add: watched_def)
  have "parse_message src disk rt q \<noteq> None" if "q = p"
    using assms(5) that parse_message_Some[OF assms(3)] by (simp add: Wrote)
  then show ?thesis
    using event_mutations_upsert[OF q(3) _ _ q(2), of "md_event c" disk inst] upsert_effect[OF q(1) p q(2)] by (auto simp: Wrote)
next
  case (Unlinked q)
  have "watched src q" "wf_path q" "wf_path p" using assms(1,2) by (auto simp: Unlinked watched_def)
  then show ?thesis
    using event_mutations_removed[of src q "md_event c" disk inst] assms(5) maildir_id_inj[of p q] md_expected_None[of disk p]
    by (auto simp: Unlinked index_after_def)
next
  case (Moved a b)
  obtain rt where b: "wf_path b" "find_root_for src b = Some rt" "watched src b" "wf_path a" using assms(1) by (auto simp: Moved watched_def)
  have p: "wf_path p" using assms(2) by (simp add: watched_def)
  have "parse_message src disk rt b \<noteq> None" if "b = p"
    using assms(4,5) that parse_message_Some[OF assms(3), of p] by (auto simp: Moved split: if_splits)
  moreover have "md_expected src inst disk p = None" if "p = a" "a \<noteq> b"
    using assms(5) that md_expected_None by (simp add: Moved)
  moreover have "index_after (event_mutations src disk inst (md_event c)) ix (maildir_doc_id_for p) =
      (if b = p \<and> parse_message src disk rt b \<noteq> None then md_expected src inst disk b
       else (ix(maildir_doc_id_for a := None)) (maildir_doc_id_for p))"
    using event_mutations_renamed[OF b(3) _ _ b(2), of "md_event c" a disk inst] by (simp add: Moved index_after_Cons upsert_effect[OF b(1) p b(2)])
  moreover have "(ix(maildir_doc_id_for a := None)) (maildir_doc_id_for p) = (if p = a then None else ix (maildir_doc_id_for p))"
    using maildir_id_inj[OF p b(4)] by simp
  ultimately show ?thesis by (cases "p = b"; cases "p = a") (simp_all add: Moved)
qed

lemma events_effect:
  assumes "parses_all src (fold md_apply cs d0)" "md_possible cs d0" "\<forall>c\<in>set cs. \<forall>q\<in>md_touched c. watched src q" "watched src p"
    and "(\<forall>c\<in>set cs. p \<notin> md_touched c) \<longrightarrow> ix (maildir_doc_id_for p) = md_expected src inst (fold md_apply cs d0) p"
  shows "index_after (concat (map (event_mutations src (fold md_apply cs d0) inst \<circ> md_event) cs)) ix (maildir_doc_id_for p)
    = md_expected src inst (fold md_apply cs d0) p"
  using assms
proof (induction cs arbitrary: d0 ix)
  case Nil
  then show ?case by (simp add: index_after_def)
next
  case (Cons c cs)
  let ?D = "fold md_apply cs (md_apply c d0)"
  let ?ix = "index_after (event_mutations src ?D inst (md_event c)) ix"
  have "?ix (maildir_doc_id_for p) = md_expected src inst ?D p" if none: "\<forall>c\<in>set cs. p \<notin> md_touched c"
  proof -
    have "?D p = md_apply c d0 p" by (rule md_fold_untouched[OF none])
    then have "?ix (maildir_doc_id_for p) = (if p \<in> md_touched c then md_expected src inst ?D p else ix (maildir_doc_id_for p))"
      using event_effect[of c src p ?D d0 inst ix] Cons.prems by simp
    then show ?thesis using Cons.prems(5) none by simp
  qed
  then show ?case using Cons.IH[of "md_apply c d0" ?ix] Cons.prems by (simp add: index_after_append)
qed

text \<open>
  C25: Watching a maildir keeps the index equal to the disk. Let the index mirror the mail folders, let any changes happen (messages
  written, deleted, moved between folders or renamed when their flags change), and let their events be handled afterwards in one batch,
  when the files are already in their final state: the index then mirrors the final state, message by message, provided the messages parse.
\<close>

theorem maildir_follows_disk:
  assumes "md_mirrors src inst disk ix" "md_possible cs disk" "\<forall>c\<in>set cs. \<forall>q\<in>md_touched c. watched src q"
    and "parses_all src (fold md_apply cs disk)" "sk_left s = None" "sk_out s = []"
  shows "md_mirrors src inst (fold md_apply cs disk)
    (index_after (sk_out (fst (on_fs_events src (fold md_apply cs disk) inst (map md_event cs) s))) ix)"
  unfolding md_mirrors_def
proof (intro allI impI)
  fix p assume p: "watched src p"
  have "md_expected src inst (fold md_apply cs disk) p = md_expected src inst disk p" if "\<forall>c\<in>set cs. p \<notin> md_touched c"
    using md_fold_untouched[OF that, of disk] by (simp add: md_expected_def parse_message_def split: option.splits)
  then have "(\<forall>c\<in>set cs. p \<notin> md_touched c) \<longrightarrow> ix (maildir_doc_id_for p) = md_expected src inst (fold md_apply cs disk) p"
    using assms(1) p by (simp add: md_mirrors_def)
  from events_effect[where ix = ix and inst = inst, OF assms(4,2,3) p this] show "index_after (sk_out (fst (on_fs_events src (fold md_apply cs disk) inst (map md_event cs) s))) ix (maildir_doc_id_for p)
    = md_expected src inst (fold md_apply cs disk) p"
    by (simp add: on_fs_events_open assms(5,6))
qed

subsection \<open>A full reindex\<close>

lemma push_batches_open:
  "sk_left s = None \<Longrightarrow> \<exists>batches. push_batches acc ds s = (s\<lparr>sk_out := sk_out s @ map UpsertMany batches\<rparr>, Inr ())
    \<and> concat batches = acc @ ds"
proof (induction ds arbitrary: acc s)
  case Nil
  show ?case
  proof (cases "acc = []")
    case True
    then show ?thesis by (intro exI[of _ "[]"]) simp
  next
    case False
    then show ?thesis using Nil by (intro exI[of _ "[acc]"]) (simp add: emit_open)
  qed
next
  case (Cons d ds)
  show ?case
  proof (cases "MD_BATCH \<le> length (acc @ [d])")
    case True
    let ?s = "s\<lparr>sk_out := sk_out s @ [UpsertMany (acc @ [d])]\<rparr>"
    obtain batches where "push_batches [] ds ?s = (?s\<lparr>sk_out := sk_out ?s @ map UpsertMany batches\<rparr>, Inr ())" "concat batches = ds"
      using Cons.IH[of ?s "[]"] Cons.prems by auto
    then show ?thesis
      using True Cons.prems by (intro exI[of _ "(acc @ [d]) # batches"]) (simp add: emit_open then_do_def)
  next
    case False
    then show ?thesis using Cons.IH[of s "acc @ [d]"] Cons.prems by simp
  qed
qed

definition put_docs :: "document list \<Rightarrow> doc_index \<Rightarrow> doc_index" where
  "put_docs ds ix = fold (\<lambda>d ix. ix(doc_id d \<mapsto> d)) ds ix"

lemma index_after_batches: "index_after (map UpsertMany batches) ix = put_docs (concat batches) ix"
  by (induction batches arbitrary: ix) (simp_all add: index_after_def put_docs_def)

lemma put_docs_none: "(\<And>d. d \<in> set ds \<Longrightarrow> doc_id d \<noteq> i) \<Longrightarrow> put_docs ds ix i = ix i"
  by (induction ds arbitrary: ix) (auto simp: put_docs_def)

lemma in_map_filter: "d \<in> set (List.map_filter f xs) \<longleftrightarrow> (\<exists>x\<in>set xs. f x = Some d)"
  by (induction xs) (auto simp: map_filter_simps split: option.splits)

lemma in_concat_map: "d \<in> set (concat (map f xs)) \<longleftrightarrow> (\<exists>x\<in>set xs. d \<in> set (f x))"
  by auto

lemma put_docs_some: "(\<And>d. d \<in> set ds \<Longrightarrow> doc_id d = i \<Longrightarrow> d = e) \<Longrightarrow> \<exists>d\<in>set ds. doc_id d = i \<Longrightarrow> put_docs ds ix i = Some e"
proof (induction ds rule: rev_induct)
  case (snoc d ds)
  show ?case
  proof (cases "doc_id d = i")
    case True
    then show ?thesis using snoc.prems(1)[of d] by (simp add: put_docs_def)
  next
    case False
    have "put_docs ds ix i = Some e" by (rule snoc.IH) (use snoc.prems False in auto)
    then show ?thesis using False by (simp add: put_docs_def)
  qed
qed simp

text \<open>The walk finds the message files below each root, and no root is below another.\<close>

definition walk_complete :: "maildir_source \<Rightarrow> (fpath \<rightharpoonup> byte_string) \<Rightarrow> (fpath \<rightharpoonup> (fpath \<times> bool) list) \<Rightarrow> bool" where
  "walk_complete src disk entries \<longleftrightarrow>
     (\<forall>rt\<in>set (md_roots src). \<exists>es. entries rt = Some es \<and>
        set (walk_messages rt es) = {p. watched src p \<and> path_starts_with p rt \<and> disk p \<noteq> None})"

definition roots_apart :: "maildir_source \<Rightarrow> bool" where
  "roots_apart src \<longleftrightarrow> (\<forall>p. \<forall>r\<in>set (md_roots src). \<forall>r'\<in>set (md_roots src). path_starts_with p r \<longrightarrow> path_starts_with p r' \<longrightarrow> r = r')"

lemma find_root_apart:
  assumes "roots_apart src" "rt \<in> set (md_roots src)" "path_starts_with p rt"
  shows "find_root_for src p = Some rt"
proof -
  obtain r where r: "find_root_for src p = Some r"
    using assms(2,3) by (cases "find_root_for src p") (auto simp: find_root_for_def find_None_iff)
  then have "r \<in> set (md_roots src)" "path_starts_with p r" by (auto simp: find_root_for_def find_Some_iff)
  then show ?thesis using r assms by (auto simp: roots_apart_def)
qed

lemma md_expected_iff:
  "md_expected src inst disk p = Some e \<longleftrightarrow>
    (\<exists>rt d. find_root_for src p = Some rt \<and> parse_message src disk rt p = Some d \<and> e = d\<lparr>doc_source_instance := inst\<rparr>)"
  by (auto simp: md_expected_def split: option.splits)

lemma maildir_docs_set:
  assumes "walk_complete src disk entries" "roots_apart src"
  shows "set (own inst (maildir_docs src disk entries)) = {d. \<exists>p. watched src p \<and> md_expected src inst disk p = Some d}"
proof -
  have "d \<in> set (maildir_docs src disk entries) \<longleftrightarrow>
      (\<exists>p rt. watched src p \<and> find_root_for src p = Some rt \<and> parse_message src disk rt p = Some d)" for d
  proof -
    have *: "d \<in> set (case entries rt of None \<Rightarrow> [] | Some es \<Rightarrow> List.map_filter (parse_message src disk rt) (walk_messages rt es))
        \<longleftrightarrow> (\<exists>p. watched src p \<and> path_starts_with p rt \<and> disk p \<noteq> None \<and> parse_message src disk rt p = Some d)"
      if "rt \<in> set (md_roots src)" for rt
    proof -
      from assms(1)[unfolded walk_complete_def, rule_format, OF that] obtain es where "entries rt = Some es"
        "set (walk_messages rt es) = {p. watched src p \<and> path_starts_with p rt \<and> disk p \<noteq> None}" by (elim exE conjE)
      then show ?thesis by (simp add: in_map_filter)
    qed
    have disk: "parse_message src disk rt p = Some d \<Longrightarrow> disk p \<noteq> None" for rt p by (auto simp: parse_message_def split: option.splits)
    have "d \<in> set (maildir_docs src disk entries) \<longleftrightarrow>
      (\<exists>rt\<in>set (md_roots src). \<exists>p. watched src p \<and> path_starts_with p rt \<and> disk p \<noteq> None \<and> parse_message src disk rt p = Some d)"
      unfolding maildir_docs_def in_concat_map by (rule bex_cong[OF refl]) (rule *)
    also have "\<dots> \<longleftrightarrow> (\<exists>p rt. watched src p \<and> find_root_for src p = Some rt \<and> parse_message src disk rt p = Some d)"
    proof -
      have "path_starts_with p rt \<and> rt \<in> set (md_roots src) \<longleftrightarrow> find_root_for src p = Some rt" for p rt
        using find_root_apart[OF assms(2), of rt p] by (auto simp: find_root_for_def find_Some_iff)
      then show ?thesis using disk by blast
    qed
    finally show ?thesis .
  qed
  then have "e \<in> set (own inst (maildir_docs src disk entries)) \<longleftrightarrow> (\<exists>p. watched src p \<and> md_expected src inst disk p = Some e)" for e
    unfolding own_def md_expected_iff set_map image_iff by blast
  then show ?thesis by blast
qed

text \<open>
  A full reindex of a maildir makes the index mirror the disk, whatever it held before for this instance: afterwards the entry of
  every message file is the document of its current content, and a message that is gone has no entry.
\<close>

theorem maildir_reindex_mirrors:
  assumes "walk_complete src disk entries" "roots_apart src" "sk_left s = None" "sk_out s = []"
    and "\<forall>p d. watched src p \<longrightarrow> ix (maildir_doc_id_for p) = Some d \<longrightarrow> doc_source_instance d = inst"
  shows "md_mirrors src inst disk (index_after (sk_out (fst (maildir_reindex src disk entries inst s))) ix)"
  unfolding md_mirrors_def
proof (intro allI impI)
  fix p assume p: "watched src p"
  let ?ds = "own inst (maildir_docs src disk entries)"
  let ?s = "s\<lparr>sk_out := [DeleteSourceInstance inst]\<rparr>"
  let ?ix = "index_apply (DeleteSourceInstance inst) ix"
  obtain batches where "push_batches [] ?ds ?s = (?s\<lparr>sk_out := sk_out ?s @ map UpsertMany batches\<rparr>, Inr ())" "concat batches = ?ds"
    using push_batches_open[of ?s "[]" ?ds] assms(3) by auto
  then have out: "index_after (sk_out (fst (maildir_reindex src disk entries inst s))) ix = put_docs ?ds ?ix"
    using assms(3,4) by (simp add: maildir_reindex_def emit_open then_do_def index_after_Cons index_after_batches del: index_apply.simps)
  note ds = maildir_docs_set[OF assms(1,2), of inst]
  have owner: "q = p" if "watched src q" "md_expected src inst disk q = Some d" "doc_id d = maildir_doc_id_for p" for q d
  proof -
    have "doc_id d = maildir_doc_id_for q" using that(2) by (auto simp: md_expected_def split: option.splits dest: parse_message_id)
    then show ?thesis using that(1,3) p maildir_id_inj[of q p] by (auto simp: watched_def)
  qed
  show "index_after (sk_out (fst (maildir_reindex src disk entries inst s))) ix (maildir_doc_id_for p) = md_expected src inst disk p"
  proof (cases "md_expected src inst disk p")
    case None
    then have "put_docs ?ds ?ix (maildir_doc_id_for p) = ?ix (maildir_doc_id_for p)"
      using owner by (intro put_docs_none) (auto simp: ds, fastforce)
    moreover have "?ix (maildir_doc_id_for p) = None" using assms(5) p by (auto split: option.splits)
    ultimately show ?thesis using None out by simp
  next
    case (Some e)
    have "doc_id e = maildir_doc_id_for p" using Some by (auto simp: md_expected_def split: option.splits dest: parse_message_id)
    then have "put_docs ?ds ?ix (maildir_doc_id_for p) = Some e"
      using owner Some p by (intro put_docs_some) (auto simp: ds, fastforce+)
    then show ?thesis using Some out by simp
  qed
qed

section \<open>Examples\<close>









definition sample_env :: gloda_env where
  "sample_env = \<lparr>ge_exists = True, ge_open = (\<lambda>_ _. Inr ()), ge_query = (\<lambda>i. if i = 0 then Inl Busy else Inr ())\<rparr>"

definition sample_row :: "nat \<Rightarrow> gloda_row" where
  "sample_row n = \<lparr>gr_id = n, gr_key = None, gr_header_id = None, gr_subject = None, gr_author = None, gr_recipients = None, gr_body = None,
     gr_date = None, gr_deleted = (n = 2)\<rparr>"

lemma sample_env_answers: "gloda_answers sample_env"
  unfolding gloda_answers_def sample_env_def by (simp, rule exI[of _ 1], auto intro: exI[of _ 0])

lemma sample_rows_good: "good_rows [sample_row 3, sample_row 1, sample_row 2]"
  by (simp add: good_rows_def sample_row_def)

theorem gloda_ticks_deliver_witness:
  "\<exists>batches cf'. gloda_ticks (\<lambda>_. sample_env) [sample_row 3, sample_row 1, sample_row 2] 1 (lit ''g'') 5 (None, \<lparr>sk_out = [], sk_left = None\<rparr>)
      = (cf', \<lparr>sk_out = map UpsertMany batches, sk_left = None\<rparr>)
    \<and> concat batches = own (lit ''g'') [gloda_doc (sample_row 1), gloda_doc (sample_row 3)]"
proof -
  have "unseen [sample_row 3, sample_row 1, sample_row 2] 0 = [sample_row 1, sample_row 3]"
    by (simp add: unseen_def sample_row_def)
  then show ?thesis
    using gloda_ticks_deliver[of "\<lambda>_. sample_env", OF sample_env_answers sample_rows_good, of 1 "\<lparr>sk_out = [], sk_left = None\<rparr>" "lit ''g''" 5 None]
    by (auto simp: read_cursor_def)
qed

theorem gloda_reindex_complete_witness:
  "\<exists>batches cf'. gloda_reindex (\<lambda>_. sample_env) True [sample_row 3, sample_row 1, sample_row 2] 1 (lit ''g'') (Some 9, \<lparr>sk_out = [], sk_left = None\<rparr>)
      = ((cf', \<lparr>sk_out = DeleteSourceInstance (lit ''g'') # map UpsertMany batches, sk_left = None\<rparr>), Inr ())
    \<and> concat batches = own (lit ''g'') [gloda_doc (sample_row 1), gloda_doc (sample_row 3)]"
  using gloda_reindex_complete[of "\<lambda>_. sample_env", OF sample_env_answers sample_rows_good, of 1 "\<lparr>sk_out = [], sk_left = None\<rparr>" True "lit ''g''" "Some 9"]
  by (auto simp: sample_row_def)

text \<open>A maildir at the top of the disk, whose messages all parse.\<close>

definition sample_maildir :: maildir_source where
  "sample_maildir = \<lparr>md_roots = [[lit ''m'']], md_open_cmd = [], md_parse = (\<lambda>_. Some \<lparr>mm_header = (\<lambda>_. None), mm_body = None\<rparr>)\<rparr>"

definition sample_msg :: "string \<Rightarrow> string \<Rightarrow> fpath" where
  "sample_msg sub name = [lit ''m'', lit sub, lit name]"

lemma sample_watched: "watched sample_maildir (sample_msg ''new'' ''a'')" "watched sample_maildir (sample_msg ''cur'' ''a'')"
  by (simp_all add: watched_def sample_msg_def is_message_path_def file_name_def md_cur_def md_new_def find_root_for_def sample_maildir_def
      path_starts_with_def) (simp_all add: lit_def slash_def ch_def)

theorem maildir_follows_disk_witness:
  "md_mirrors sample_maildir (lit ''i'') (Map.empty(sample_msg ''cur'' ''a'' \<mapsto> [65]))
     (index_after (sk_out (fst (on_fs_events sample_maildir (Map.empty(sample_msg ''cur'' ''a'' \<mapsto> [65])) (lit ''i'')
        (map md_event [Wrote (sample_msg ''new'' ''a'') [65] True, Moved (sample_msg ''new'' ''a'') (sample_msg ''cur'' ''a'')])
        \<lparr>sk_out = [], sk_left = None\<rparr>))) Map.empty)"
proof -
  let ?cs = "[Wrote (sample_msg ''new'' ''a'') [65] True, Moved (sample_msg ''new'' ''a'') (sample_msg ''cur'' ''a'')]"
  have ne: "sample_msg ''new'' ''a'' \<noteq> sample_msg ''cur'' ''a''" by (simp add: sample_msg_def lit_inj)
  then have d: "fold md_apply ?cs Map.empty = Map.empty(sample_msg ''cur'' ''a'' \<mapsto> [65])" by (auto simp: fun_eq_iff)
  have "md_mirrors sample_maildir (lit ''i'') (fold md_apply ?cs Map.empty)
     (index_after (sk_out (fst (on_fs_events sample_maildir (fold md_apply ?cs Map.empty) (lit ''i'') (map md_event ?cs)
        \<lparr>sk_out = [], sk_left = None\<rparr>))) Map.empty)"
    by (rule maildir_follows_disk)
      (use sample_watched in \<open>auto simp: md_mirrors_def md_expected_def parse_message_def parses_all_def sample_maildir_def split: option.splits\<close>)
  then show ?thesis by (simp only: d)
qed

text \<open>A message moved out of the watched folders is reported as modified; it cannot be read, and stays in the index.\<close>

theorem moved_out_message_stays_indexed:
  "disk p = None \<Longrightarrow> on_fs_events src disk inst [\<lparr>se_path = p, se_kind = EvModified\<rparr>] s = (s, Inr ())"
  by (simp add: on_fs_event_def upsert_message_def parse_message_def then_do_def split: option.splits)

end
