(* ===== verification/Plugin_Watcher.thy ===== *)
theory Plugin_Watcher
  imports Mail_Sources
begin

text \<open>
  The watcher that hands file-system events to the plugin sources (\<^verbatim>\<open>lixun-indexer/src/plugin_fs_watcher.rs\<close>): the routes from
  watched directories to source instances, the batching of events, and the dispatch with its cooldown.

  The notifications of the operating system arrive as a list of events with their times in milliseconds; the bounded queue between
  the callback and the loop is a parameter of the step that receives.
\<close>

section \<open>Routes\<close>

record watch_spec =
  wsp_path :: fpath
  wsp_recursive :: bool

text \<open>A source instance: its kind and the directories it wants watched (\<open>None\<close>: asking failed).\<close>

record plugin_instance =
  pi_kind :: rstring
  pi_watch_paths :: "watch_spec list option"

type_synonym route_table = "(fpath \<times> nat \<times> bool) list"

definition add_specs :: "nat \<Rightarrow> plugin_instance \<Rightarrow> route_table \<Rightarrow> route_table" where
  "add_specs i inst table =
     (if pi_kind inst = lit ''fs'' then table
      else case pi_watch_paths inst of
             None \<Rightarrow> table
           | Some specs \<Rightarrow> fold (\<lambda>sp t. AList.update (wsp_path sp) (i, wsp_recursive sp) t) specs table)"

fun build_routes :: "nat \<Rightarrow> plugin_instance list \<Rightarrow> route_table \<Rightarrow> route_table" where
  "build_routes i [] table = table"
| "build_routes i (inst # insts) table = build_routes (Suc i) insts (add_specs i inst table)"

definition routes :: "plugin_instance list \<Rightarrow> route_table" where
  "routes insts = build_routes 0 insts []"

text \<open>The table is a hash map: \<open>max_by_key\<close> runs over it in an arbitrary order and keeps the last of the longest.\<close>

fun deepest :: "(fpath \<times> nat \<times> bool) option \<Rightarrow> route_table \<Rightarrow> (fpath \<times> nat \<times> bool) option" where
  "deepest best [] = best"
| "deepest best (r # rs) =
     deepest (case best of None \<Rightarrow> Some r | Some b \<Rightarrow> if length (fst b) \<le> length (fst r) then Some r else Some b) rs"

definition longest_prefix_instance :: "route_table \<Rightarrow> fpath \<Rightarrow> nat option" where
  "longest_prefix_instance table p = map_option (fst \<circ> snd) (deepest None (filter (\<lambda>r. path_starts_with p (fst r)) table))"

section \<open>Events\<close>

datatype notify_kind = NotifyCreate | NotifyRemove | NotifyRenameBoth | NotifyOther

record plugin_fs_event =
  ne_kind :: notify_kind
  ne_paths :: "fpath list"

definition map_notify_kind :: "plugin_fs_event \<Rightarrow> source_event_kind" where
  "map_notify_kind e =
     (case ne_kind e of
        NotifyCreate \<Rightarrow> EvCreated
      | NotifyRemove \<Rightarrow> EvRemoved
      | NotifyRenameBoth \<Rightarrow> if length (ne_paths e) = 2 then EvRenamed (ne_paths e ! 0) else EvModified
      | NotifyOther \<Rightarrow> EvModified)"

definition EVENT_CHANNEL_CAP :: nat where
  "EVENT_CHANNEL_CAP = 1024"

definition PLUGIN_DEBOUNCE :: nat where
  "PLUGIN_DEBOUNCE = 2000"

definition PER_INSTANCE_COOLDOWN :: nat where
  "PER_INSTANCE_COOLDOWN = 5000"

text \<open>The callback: an error of the notifier (\<open>None\<close>) or a full queue loses the event.\<close>

definition notify_callback :: "plugin_fs_event option \<Rightarrow> plugin_fs_event list \<times> nat \<Rightarrow> plugin_fs_event list \<times> nat" where
  "notify_callback res st =
     (case (res, st) of
        (None, _) \<Rightarrow> st
      | (Some e, (queue, dropped)) \<Rightarrow> if length queue < EVENT_CHANNEL_CAP then (queue @ [e], dropped) else (queue, dropped + 1))"

text \<open>A batch ends when nothing arrives for \<open>PLUGIN_DEBOUNCE\<close>; it is dispatched then.\<close>

fun gather :: "nat \<Rightarrow> plugin_fs_event list \<Rightarrow> (nat \<times> plugin_fs_event) list \<Rightarrow> (nat \<times> plugin_fs_event list) list" where
  "gather last_time batch [] = [(last_time + PLUGIN_DEBOUNCE, batch)]"
| "gather last_time batch ((t, e) # es) =
     (if t < last_time + PLUGIN_DEBOUNCE then gather t (batch @ [e]) es
      else (last_time + PLUGIN_DEBOUNCE, batch) # gather t [e] es)"

definition event_batches :: "(nat \<times> plugin_fs_event) list \<Rightarrow> (nat \<times> plugin_fs_event list) list" where
  "event_batches es = (case es of [] \<Rightarrow> [] | (t, e) # rest \<Rightarrow> gather t [e] rest)"

definition events_for :: "route_table \<Rightarrow> nat \<Rightarrow> plugin_fs_event list \<Rightarrow> source_event list" where
  "events_for table i batch =
     concat (map (\<lambda>e. map (\<lambda>p. \<lparr>se_path = p, se_kind = map_notify_kind e\<rparr>)
       (filter (\<lambda>p. longest_prefix_instance table p = Some i) (ne_paths e))) batch)"

text \<open>One instance of the loop over \<^verbatim>\<open>per_instance\<close>: the events handed to it, if any, and its last dispatch.\<close>

definition dispatch_instance :: "route_table \<Rightarrow> nat \<Rightarrow> nat \<Rightarrow> plugin_fs_event list \<Rightarrow> (nat \<rightharpoonup> nat) \<Rightarrow> source_event list option \<times> (nat \<rightharpoonup> nat)" where
  "dispatch_instance table i now batch last_dispatch =
     (let events = events_for table i batch
      in if events = [] then (None, last_dispatch)
         else case last_dispatch i of
                Some t \<Rightarrow> if now - t < PER_INSTANCE_COOLDOWN then (None, last_dispatch) else (Some events, last_dispatch(i \<mapsto> now))
              | None \<Rightarrow> (Some events, last_dispatch(i \<mapsto> now)))"

text \<open>What one instance is handed over a run; the instances do not influence each other.\<close>

fun handed :: "route_table \<Rightarrow> nat \<Rightarrow> (nat \<rightharpoonup> nat) \<Rightarrow> (nat \<times> plugin_fs_event list) list \<Rightarrow> source_event list list" where
  "handed table i ld [] = []"
| "handed table i ld ((now, batch) # bs) =
     (case dispatch_instance table i now batch ld of
        (None, ld') \<Rightarrow> handed table i ld' bs
      | (Some es, ld') \<Rightarrow> es # handed table i ld' bs)"

definition plugin_watch :: "plugin_instance list \<Rightarrow> nat \<Rightarrow> (nat \<times> plugin_fs_event) list \<Rightarrow> source_event list list" where
  "plugin_watch insts i es =
     (if routes insts = [] then [] else handed (routes insts) i Map.empty (event_batches es))"

section \<open>Routing\<close>

lemma routes_distinct: "distinct (map fst table) \<Longrightarrow> distinct (map fst (build_routes i insts table))"
proof (induction insts arbitrary: i table)
  case (Cons inst insts)
  have "distinct (map fst (fold (\<lambda>sp t. AList.update (wsp_path sp) (i, wsp_recursive sp) t) specs table))" for specs :: "watch_spec list"
    using Cons.prems by (induction specs arbitrary: table) (simp_all add: distinct_update)
  then have "distinct (map fst (add_specs i inst table))" using Cons.prems by (simp add: add_specs_def split: option.splits)
  then show ?case using Cons.IH by simp
qed simp

lemma deepest_max:
  "deepest best rs = Some r \<Longrightarrow> (r \<in> set rs \<or> best = Some r) \<and> (\<forall>q\<in>set rs. length (fst q) \<le> length (fst r))
    \<and> (\<forall>b. best = Some b \<longrightarrow> length (fst b) \<le> length (fst r))"
proof (induction rs arbitrary: best)
  case (Cons q rs)
  from Cons.IH[OF Cons.prems[simplified]] show ?case
    by (cases best) (auto split: if_splits simp del: split_paired_All split_paired_Ex)
qed simp

lemma deepest_None: "deepest best rs = None \<longleftrightarrow> best = None \<and> rs = []"
  by (induction rs arbitrary: best) (auto split: option.splits if_splits)

text \<open>Two roots of the same length that both contain a path are the same root.\<close>

lemma deepest_root_unique:
  "path_starts_with p r \<Longrightarrow> path_starts_with p r' \<Longrightarrow> length r = length r' \<Longrightarrow> r = r'"
  by (auto simp: path_starts_with_def prefix_def append_eq_append_conv)

lemma longest_prefix_spec:
  assumes "distinct (map fst table)"
  shows "longest_prefix_instance table p = Some i \<longleftrightarrow>
    (\<exists>r b. (r, i, b) \<in> set table \<and> path_starts_with p r \<and> (\<forall>q\<in>set table. path_starts_with p (fst q) \<longrightarrow> length (fst q) \<le> length r))"
proof
  assume "longest_prefix_instance table p = Some i"
  then obtain r b where "deepest None (filter (\<lambda>r. path_starts_with p (fst r)) table) = Some (r, i, b)"
    by (auto simp: longest_prefix_instance_def)
  from deepest_max[OF this] show "\<exists>r b. (r, i, b) \<in> set table \<and> path_starts_with p r \<and> (\<forall>q\<in>set table. path_starts_with p (fst q) \<longrightarrow> length (fst q) \<le> length r)"
    by fastforce
next
  assume "\<exists>r b. (r, i, b) \<in> set table \<and> path_starts_with p r \<and> (\<forall>q\<in>set table. path_starts_with p (fst q) \<longrightarrow> length (fst q) \<le> length r)"
  then obtain r b where r: "(r, i, b) \<in> set table" "path_starts_with p r" "\<forall>q\<in>set table. path_starts_with p (fst q) \<longrightarrow> length (fst q) \<le> length r"
    by blast
  then obtain x where x: "deepest None (filter (\<lambda>r. path_starts_with p (fst r)) table) = Some x"
    using deepest_None[of None "filter (\<lambda>r. path_starts_with p (fst r)) table"]
    by (cases "deepest None (filter (\<lambda>r. path_starts_with p (fst r)) table)") (auto simp: filter_empty_conv)
  have "x \<in> set table" "path_starts_with p (fst x)" "length r \<le> length (fst x)" using deepest_max[OF x] r(1,2) by auto
  then have "fst x = r" using deepest_root_unique[of p "fst x" r] r by (simp add: le_antisym)
  then have "x = (r, i, b)" using assms \<open>x \<in> set table\<close> r(1) by (metis eq_key_imp_eq_value prod.collapse)
  then show "longest_prefix_instance table p = Some i" using x by (simp add: longest_prefix_instance_def)
qed

section \<open>Delivery\<close>








text \<open>
  Events that fall into the cooldown are not kept for later: of two messages that arrive three seconds apart, the second is never
  handed to the source.
\<close>

definition inbox :: plugin_instance where
  "inbox = \<lparr>pi_kind = lit ''maildir'', pi_watch_paths = Some [\<lparr>wsp_path = [lit ''m''], wsp_recursive = True\<rparr>]\<rparr>"

definition arrival :: "string \<Rightarrow> plugin_fs_event" where
  "arrival name = \<lparr>ne_kind = NotifyCreate, ne_paths = [[lit ''m'', lit ''new'', lit name]]\<rparr>"

lemma inbox_routes: "routes [inbox] = [([lit ''m''], 0, True)]"
  by (simp add: routes_def add_specs_def inbox_def lit_inj)

lemma arrival_events: "events_for [([lit ''m''], 0, True)] 0 [arrival name] = [\<lparr>se_path = [lit ''m'', lit ''new'', lit name], se_kind = EvCreated\<rparr>]"
  by (auto simp: events_for_def arrival_def map_notify_kind_def longest_prefix_instance_def path_starts_with_def)

theorem cooldown_loses_events:
  "plugin_watch [inbox] 0 [(0, arrival ''a''), (3000, arrival ''b'')] = [[\<lparr>se_path = [lit ''m'', lit ''new'', lit ''a''], se_kind = EvCreated\<rparr>]]"
  by (simp add: plugin_watch_def inbox_routes event_batches_def PLUGIN_DEBOUNCE_def dispatch_instance_def arrival_events PER_INSTANCE_COOLDOWN_def)


text \<open>A directory wanted by two instances is watched for the second only.\<close>

theorem shared_directory_goes_to_the_last:
  assumes "pi_kind a \<noteq> lit ''fs''" "pi_kind b \<noteq> lit ''fs''" "pi_watch_paths a = Some [sp]" "pi_watch_paths b = Some [sp]"
  shows "longest_prefix_instance (routes [a, b]) p \<noteq> Some 0"
  using assms by (auto simp: routes_def add_specs_def longest_prefix_instance_def)

text \<open>The order in which the hash map is read does not matter.\<close>

theorem routing_ignores_order:
  assumes "distinct (map fst table)" "set table = set table'" "distinct (map fst table')"
  shows "longest_prefix_instance table p = longest_prefix_instance table' p"
  using longest_prefix_spec[OF assms(1), of p] longest_prefix_spec[OF assms(3), of p] assms(2)
  by (metis not_Some_eq)

end
