(* ===== verification/Query_Plugins.thy ===== *)
theory Query_Plugins
  imports Search_Handler Mail_Sources Ocr_Worker
begin

text \<open>
  The sources that answer a query when it is typed: the calculator (\<^verbatim>\<open>lixun-source-calculator\<close>), the shell
  (\<^verbatim>\<open>lixun-source-shell\<close>), keyword web searches (\<^verbatim>\<open>lixun-source-keyword\<close>) and external commands
  (\<^verbatim>\<open>lixun-source-command\<close>). Each is a \<open>plugin\<close> of the search handler.

  The expression evaluator \<^verbatim>\<open>meval\<close>, the word splitter \<^verbatim>\<open>shell_words\<close>, the JSON parser and the child process are parameters. A
  64-bit float is a real number and every operation rounds; the sign of zero is not kept, and no value the conversions can reach
  from 256 characters of input overflows.
\<close>

section \<open>Hits\<close>

definition plugin_hit :: "rstring \<Rightarrow> doc_id \<Rightarrow> category \<Rightarrow> rstring \<Rightarrow> rstring \<Rightarrow> rstring \<Rightarrow> rstring \<Rightarrow> f32 \<Rightarrow> action \<Rightarrow> action option \<Rightarrow> hit" where
  "plugin_hit inst i cat title subtitle icon kind score act act2 = \<lparr>
     hit_id = i, hit_category = cat, hit_title = title, hit_subtitle = subtitle, hit_icon_name = Some icon,
     hit_kind_label = Some kind, hit_score = score, hit_action = act, hit_extract_fail = False,
     hit_sender = None, hit_recipients = None, hit_body = None, hit_secondary_action = act2,
     hit_source_instance = inst, hit_row_menu = row_menu_empty, hit_mime = None,
     hit_timestamp = None, hit_size = None\<rparr>"

section \<open>Keyword searches\<close>

record keyword_source =
  kw_key :: rstring
  kw_url :: rstring
  kw_name :: rstring
  kw_claimed :: rstring

definition hex_upper :: "int \<Rightarrow> rchar" where
  "hex_upper d = (if d < 10 then 48 + d else 55 + d)"

definition hex_lower :: "nat \<Rightarrow> rchar" where
  "hex_lower d = (if d < 10 then 48 + int d else 87 + int d)"

definition unreserved :: "int \<Rightarrow> bool" where
  "unreserved b \<longleftrightarrow> is_ascii_alphabetic b \<or> is_ascii_digit b \<or> b \<in> {45, 95, 46, 126}"

definition encode_byte :: "int \<Rightarrow> rstring" where
  "encode_byte b = (if unreserved b then [b] else if b = 32 then [43] else [37, hex_upper (b div 16), hex_upper (b mod 16)])"

definition urlencode :: "rstring \<Rightarrow> rstring" where
  "urlencode input = concat (map encode_byte (utf8_encode input))"

definition render_url :: "keyword_source \<Rightarrow> rstring \<Rightarrow> rstring" where
  "render_url k terms = replace_str (lit ''{query}'') (urlencode terms) (kw_url k)"

definition keyword_search_hit :: "keyword_source \<Rightarrow> rstring \<Rightarrow> rstring \<Rightarrow> hit" where
  "keyword_search_hit k terms inst =
     (let uri = render_url k terms in
      plugin_hit inst (lit ''keyword:'' @ kw_key k @ lit '':'' @ terms) File
        (lit ''Search '' @ kw_name k @ lit '' for '' @ [8220] @ terms @ [8221]) uri (lit ''web-browser'') (lit ''Web Search'') 999
        (OpenUri uri) None)"

definition keyword_placeholder_hit :: "keyword_source \<Rightarrow> rstring \<Rightarrow> rstring \<Rightarrow> hit" where
  "keyword_placeholder_hit k q inst =
     plugin_hit inst (lit ''keyword:'' @ kw_key k @ lit '':__placeholder__'') File (lit ''Search '' @ kw_name k)
       (lit ''Type a search term after '' @ [8220] @ kw_key k @ [8221]) (lit ''web-browser'') (lit ''Web Search'') 999
       (ReplaceQuery q) None"

definition keyword_on_query :: "keyword_source \<Rightarrow> rstring \<Rightarrow> rstring \<Rightarrow> hit list" where
  "keyword_on_query k inst q =
     (case strip_prefix q (kw_claimed k) of
        None \<Rightarrow> []
      | Some rest \<Rightarrow>
          let terms = trim rest in
          if terms = [] then [keyword_placeholder_hit k q inst] else [keyword_search_hit k terms inst])"

definition keyword_plugin :: "keyword_source \<Rightarrow> rstring \<Rightarrow> plugin" where
  "keyword_plugin k inst = \<lparr>pl_instance_id = inst, pl_claims_query = (\<lambda>q. starts_with q (kw_claimed k)),
     pl_on_query = (\<lambda>q. Some (keyword_on_query k inst q)), pl_excludes_from_query_log = (\<lambda>q. False),
     pl_claimed_prefix = Some (kw_claimed k),
     pl_row_menu = [\<lparr>rmi_label = lit ''Copy URL'', rmi_verb = VCopy, rmi_visibility = Always\<rparr>]\<rparr>"

section \<open>The shell\<close>

record shell_source =
  sh_working_dir :: path
  sh_strict_mode :: bool
  sh_shell_mode :: bool

definition WHITELIST :: "rstring list" where
  "WHITELIST = map lit [''ls'', ''echo'', ''pwd'', ''cat'', ''grep'', ''rg'', ''fd'', ''find'', ''git'', ''cargo'', ''make'', ''head'', ''tail'',
     ''wc'', ''tree'', ''stat'', ''du'', ''df'', ''free'', ''ps'', ''top'', ''htop'', ''btop'', ''uname'', ''whoami'', ''id'',
     ''date'', ''uptime'', ''which'', ''type'', ''env'']"

definition base_name :: "rstring \<Rightarrow> rstring" where
  "base_name p = rev (takeWhile (\<lambda>c. c \<noteq> 47) (rev p))"

definition is_whitelisted :: "rstring \<Rightarrow> bool" where
  "is_whitelisted program \<longleftrightarrow> base_name program \<in> set WHITELIST"

definition wrap_with_hold :: "rstring \<Rightarrow> rstring" where
  "wrap_with_hold cmd = cmd @ [10] @ lit ''ec=$?'' @ [10] @ lit ''printf '' @ [39] @ [92] @ lit ''n[exit %s '' @ [8212] @
     lit '' press Enter to close] '' @ [39] @ lit '' '' @ [34] @ lit ''$ec'' @ [34] @ [10] @ lit ''read -r _'' @ [10]"

definition shell_placeholder_hit :: "rstring \<Rightarrow> rstring \<Rightarrow> hit" where
  "shell_placeholder_hit q inst =
     plugin_hit inst (lit ''shell:__placeholder__'') Shell (lit ''Run a shell command'') (lit ''Type a command after >'')
       (lit ''utilities-terminal'') (lit ''Shell'') 900 (ReplaceQuery q) None"

definition argv_hit :: "(rstring \<Rightarrow> rstring list option) \<Rightarrow> shell_source \<Rightarrow> rstring \<Rightarrow> rstring \<Rightarrow> hit list" where
  "argv_hit split s cmd inst =
     (case split cmd of
        None \<Rightarrow> []
      | Some [] \<Rightarrow> []
      | Some (program # args) \<Rightarrow>
          let argv = program # args; whitelisted = is_whitelisted program in
          if sh_strict_mode s \<and> \<not> whitelisted then []
          else [plugin_hit inst (lit ''shell:'' @ cmd) Shell
                 (if whitelisted then lit ''Run: '' @ cmd else lit ''Run: '' @ cmd @ [32, 9888]) (lit ''shell'')
                 (lit ''utilities-terminal'') (lit ''Shell'') 900 (Exec argv (Some (sh_working_dir s)) True)
                 (Some (ExecCapture argv (Some (sh_working_dir s))))])"

definition legacy_sh_c_hit :: "shell_source \<Rightarrow> rstring \<Rightarrow> rstring \<Rightarrow> hit list" where
  "legacy_sh_c_hit s cmd inst =
     [plugin_hit inst (lit ''shell:'' @ cmd) Shell (lit ''Run: '' @ cmd) (lit ''shell'') (lit ''utilities-terminal'') (lit ''Shell'') 900
       (Exec [lit ''sh'', lit ''-c'', wrap_with_hold cmd] (Some (sh_working_dir s)) True)
       (Some (ExecCapture [lit ''sh'', lit ''-c'', cmd] (Some (sh_working_dir s))))]"

definition shell_on_query :: "(rstring \<Rightarrow> rstring list option) \<Rightarrow> shell_source \<Rightarrow> rstring \<Rightarrow> rstring \<Rightarrow> hit list" where
  "shell_on_query split s inst q =
     (case strip_prefix q (lit ''>'') of
        None \<Rightarrow> []
      | Some rest \<Rightarrow>
          let body = trim_start rest in
          if body = [] then [shell_placeholder_hit q inst]
          else if sh_shell_mode s then legacy_sh_c_hit s body inst
          else argv_hit split s body inst)"

definition shell_plugin :: "(rstring \<Rightarrow> rstring list option) \<Rightarrow> shell_source \<Rightarrow> rstring \<Rightarrow> plugin" where
  "shell_plugin split s inst = \<lparr>pl_instance_id = inst, pl_claims_query = (\<lambda>q. starts_with (trim_start q) (lit ''>'')),
     pl_on_query = (\<lambda>q. Some (shell_on_query split s inst q)),
     pl_excludes_from_query_log = (\<lambda>q. starts_with (trim_start q) (lit ''>'')), pl_claimed_prefix = Some (lit ''>''),
     pl_row_menu = [\<lparr>rmi_label = lit ''Execute'', rmi_verb = VOpen, rmi_visibility = Always\<rparr>]\<rparr>"

section \<open>External commands\<close>

definition MAX_STDOUT_BYTES :: nat where
  "MAX_STDOUT_BYTES = 256 * 1024"

definition MAX_STDERR_BYTES :: nat where
  "MAX_STDERR_BYTES = 4 * 1024"

definition MAX_HITS :: nat where
  "MAX_HITS = 20"

text \<open>The reads of a pipe up to its end: what is kept, and whether something was cut off.\<close>

fun read_bounded :: "nat \<Rightarrow> byte_string list \<Rightarrow> byte_string \<Rightarrow> bool \<Rightarrow> byte_string \<times> bool" where
  "read_bounded cap [] buf truncated = (buf, truncated)"
| "read_bounded cap (chunk # chunks) buf truncated =
     (if length buf < cap
      then let n = min (length chunk) (cap - length buf) in
           read_bounded cap chunks (buf @ take n chunk) (truncated \<or> n < length chunk)
      else read_bounded cap chunks buf True)"

datatype run_status = RunSuccess | RunFailed "int option" | RunTimedOut | RunCancelled

record command_outcome =
  ro_stdout :: byte_string
  ro_truncated :: bool
  ro_stderr_head :: rstring
  ro_status :: run_status

text \<open>One turn of the wait loop: whether the query is cancelled, the milliseconds since the start, and what \<open>try_wait\<close> says.\<close>

datatype child_poll = ChildRunning | ChildExited "int option" | WaitFailed rstring

record wait_turn =
  wt_cancelled :: bool
  wt_elapsed :: nat
  wt_poll :: child_poll

fun wait_loop :: "nat \<Rightarrow> (nat \<Rightarrow> wait_turn) \<Rightarrow> nat \<Rightarrow> nat \<Rightarrow> (rstring + run_status) option" where
  "wait_loop timeout turns i 0 = None"
| "wait_loop timeout turns i (Suc fuel) =
     (let t = turns i in
      if wt_cancelled t then Some (Inr RunCancelled)
      else if timeout < wt_elapsed t then Some (Inr RunTimedOut)
      else case wt_poll t of
             ChildExited (Some c) \<Rightarrow> Some (Inr (if c = 0 then RunSuccess else RunFailed (Some c)))
           | ChildExited None \<Rightarrow> Some (Inr (RunFailed None))
           | WaitFailed e \<Rightarrow> Some (Inl e)
           | ChildRunning \<Rightarrow> wait_loop timeout turns (Suc i) fuel)"

text \<open>
  What the system does with the child: the spawn, the turns of the loop, what its pipes deliver, and whether they are ever closed:
  a process the child has started may hold them open after the child is killed. The loop runs on fuel; \<open>None\<close> is a run that
  does not return.
\<close>

record child_env =
  ce_spawn :: "rstring + unit"
  ce_turns :: "nat \<Rightarrow> wait_turn"
  ce_stdout :: "byte_string list"
  ce_stderr :: "byte_string list"
  ce_pipes_close :: bool

definition run_bounded :: "nat \<Rightarrow> rstring list \<Rightarrow> nat \<Rightarrow> child_env \<Rightarrow> (rstring + command_outcome) option" where
  "run_bounded fuel argv timeout env =
     (if argv = [] then Some (Inl (lit ''command source argv is empty''))
      else case ce_spawn env of
             Inl e \<Rightarrow> Some (Inl e)
           | Inr _ \<Rightarrow>
               (case wait_loop timeout (ce_turns env) 0 fuel of
                  None \<Rightarrow> None
                | Some (Inl e) \<Rightarrow> Some (Inl e)
                | Some (Inr status) \<Rightarrow>
                    if \<not> ce_pipes_close env then None else
                    let (out, truncated) = read_bounded MAX_STDOUT_BYTES (ce_stdout env) [] False;
                        (err, _) = read_bounded MAX_STDERR_BYTES (ce_stderr env) [] False in
                    Some (Inr \<lparr>ro_stdout = out, ro_truncated = truncated, ro_stderr_head = trim (from_utf8_lossy err), ro_status = status\<rparr>)))"

datatype script_action =
    ScriptOpenUri rstring
  | ScriptOpenFile path
  | ScriptCopyText rstring
  | ScriptExec "rstring list" "path option" bool

record script_hit =
  st_title :: rstring
  st_subtitle :: "rstring option"
  st_icon :: "rstring option"
  st_action :: script_action

fun into_action :: "script_action \<Rightarrow> action" where
  "into_action (ScriptOpenUri uri) = OpenUri uri"
| "into_action (ScriptOpenFile p) = OpenFile p"
| "into_action (ScriptCopyText t) = CopyText t"
| "into_action (ScriptExec argv cwd terminal) = Exec argv cwd terminal"

record command_source =
  cm_name :: rstring
  cm_prefix :: rstring
  cm_argv :: "rstring list"
  cm_timeout :: nat
  cm_cwd :: "path option"

definition substitute_argv :: "rstring list \<Rightarrow> rstring \<Rightarrow> rstring list" where
  "substitute_argv template q = map (replace_str (lit ''{query}'') q) template"

text \<open>The JSON parser for an array of entries and for one entry.\<close>

record script_json =
  sj_array :: "rstring \<Rightarrow> rstring + script_hit list"
  sj_object :: "rstring \<Rightarrow> rstring + script_hit"

fun parse_lines :: "(rstring \<Rightarrow> rstring + script_hit) \<Rightarrow> nat \<Rightarrow> rstring list \<Rightarrow> rstring + script_hit list" where
  "parse_lines f n [] = Inr []"
| "parse_lines f n (l # ls) =
     (if trim l = [] then parse_lines f (Suc n) ls
      else case f (trim l) of
             Inl e \<Rightarrow> Inl (lit ''invalid JSON on line '' @ digits (n + 1) @ lit '': '' @ e)
           | Inr h \<Rightarrow> map_sum id (Cons h) (parse_lines f (Suc n) ls))"

definition parse_script_hits :: "script_json \<Rightarrow> rstring \<Rightarrow> rstring + script_hit list" where
  "parse_script_hits j stdout =
     (let trimmed = trim stdout in
      if trimmed = [] then Inr []
      else if starts_with trimmed (lit ''['') then map_sum (append (lit ''invalid JSON array: '')) id (sj_array j trimmed)
      else parse_lines (sj_object j) 0 (str_lines trimmed))"

definition error_hit :: "command_source \<Rightarrow> rstring \<Rightarrow> rstring \<Rightarrow> hit" where
  "error_hit c detail inst =
     plugin_hit inst (lit ''command:'' @ cm_name c @ lit '':__error__'') Shell (cm_name c @ lit '': command failed'') detail
       (lit ''dialog-error'') (cm_name c) 999 (CopyText detail) None"

definition map_script_hit :: "command_source \<Rightarrow> rstring \<Rightarrow> nat \<Rightarrow> script_hit \<Rightarrow> hit" where
  "map_script_hit c inst i sh =
     plugin_hit inst (lit ''command:'' @ cm_name c @ lit '':'' @ digits i) Shell (st_title sh)
       (case st_subtitle sh of Some s \<Rightarrow> s | None \<Rightarrow> []) (case st_icon sh of Some ic \<Rightarrow> ic | None \<Rightarrow> lit ''system-run'') (cm_name c)
       (rnd32 (999 - rnd32 (of_nat i))) (into_action (st_action sh)) None"

definition map_hits :: "command_source \<Rightarrow> script_hit list \<Rightarrow> rstring \<Rightarrow> hit list" where
  "map_hits c shs inst = map (\<lambda>(i, sh). map_script_hit c inst i sh) (enumerate 0 (take MAX_HITS shs))"

definition signed_digits :: "int \<Rightarrow> rstring" where
  "signed_digits n = (if n < 0 then 45 # digits (nat (- n)) else digits (nat n))"

text \<open>The answer of the source, given how the bounded run of the substituted command ended.\<close>

definition command_answer :: "script_json \<Rightarrow> command_source \<Rightarrow> rstring \<Rightarrow> rstring + command_outcome \<Rightarrow> hit list" where
  "command_answer j c inst res =
     (case res of
        Inl e \<Rightarrow> [error_hit c e inst]
      | Inr ro \<Rightarrow>
          (case ro_status ro of
             RunCancelled \<Rightarrow> []
           | RunTimedOut \<Rightarrow> [error_hit c (lit ''timed out after '' @ digits (cm_timeout c) @ lit '' ms'') inst]
           | RunFailed code \<Rightarrow>
               let detail = (case code of Some n \<Rightarrow> lit ''exited with code '' @ signed_digits n | None \<Rightarrow> lit ''killed by a signal'') in
               [error_hit c (if ro_stderr_head ro = [] then detail else detail @ lit '': '' @ ro_stderr_head ro) inst]
           | RunSuccess \<Rightarrow>
               (case parse_script_hits j (from_utf8_lossy (ro_stdout ro)) of
                  Inr hits \<Rightarrow> map_hits c hits inst
                | Inl e \<Rightarrow> [error_hit c e inst])))"

definition command_on_query :: "script_json \<Rightarrow> (rstring list \<Rightarrow> child_env) \<Rightarrow> nat \<Rightarrow> command_source \<Rightarrow> rstring \<Rightarrow> rstring \<Rightarrow> hit list option" where
  "command_on_query j env fuel c inst q =
     (case strip_prefix q (cm_prefix c) of
        None \<Rightarrow> Some []
      | Some rest \<Rightarrow>
          let argv = substitute_argv (cm_argv c) (trim rest) in
          map_option (command_answer j c inst) (run_bounded fuel argv (cm_timeout c) (env argv)))"

definition command_plugin :: "script_json \<Rightarrow> (rstring list \<Rightarrow> child_env) \<Rightarrow> nat \<Rightarrow> command_source \<Rightarrow> rstring \<Rightarrow> plugin" where
  "command_plugin j env fuel c inst = \<lparr>pl_instance_id = inst, pl_claims_query = (\<lambda>q. starts_with q (cm_prefix c)),
     pl_on_query = command_on_query j env fuel c inst, pl_excludes_from_query_log = (\<lambda>q. starts_with q (cm_prefix c)),
     pl_claimed_prefix = Some (cm_prefix c),
     pl_row_menu = [\<lparr>rmi_label = lit ''Open'', rmi_verb = VOpen, rmi_visibility = Always\<rparr>,
       \<lparr>rmi_label = lit ''Copy'', rmi_verb = VCopy, rmi_visibility = Always\<rparr>]\<rparr>"

section \<open>64-bit floats\<close>

type_synonym double = real

definition rnd64 :: "real \<Rightarrow> double" where
  "rnd64 x = (if x = 0 then 0 else let e = max (-1074) (ilog2 \<bar>x\<bar> - 52) in of_int (rhe (x / 2 powi e)) * 2 powi e)"

text \<open>\<^verbatim>\<open>{x:.p}\<close>: the exact value rounded to \<open>p\<close> decimals, ties to even, with a sign for negative values.\<close>

fun pad_left :: "nat \<Rightarrow> rstring \<Rightarrow> rstring" where
  "pad_left n s = replicate (n - length s) 48 @ s"

definition format_fixed :: "nat \<Rightarrow> double \<Rightarrow> rstring" where
  "format_fixed p x =
     (let n = nat (rhe (\<bar>x\<bar> * 10 ^ p));
          body = digits (n div 10 ^ p) @ (if p = 0 then [] else 46 # pad_left p (digits (n mod 10 ^ p))) in
      if x < 0 then 45 # body else body)"

definition is_integral :: "double \<Rightarrow> bool" where
  "is_integral x \<longleftrightarrow> of_int \<lfloor>x\<rfloor> = x"

definition trim_zeros :: "rstring \<Rightarrow> rstring" where
  "trim_zeros s = trim_end_matches (\<lambda>c. c = 46) (trim_end_matches (\<lambda>c. c = 48) s)"

text \<open>The value of an evaluated expression may also be infinite or not a number.\<close>

datatype eval_value = Finite double | NotFinite

definition format_result :: "double \<Rightarrow> rstring" where
  "format_result x = (if is_integral x then format_fixed 0 x else trim_zeros (format_fixed 10 x))"

section \<open>Conversions\<close>

definition MAX_INPUT_LEN :: nat where
  "MAX_INPUT_LEN = 256"

definition SIGNIFICANT_DIGITS :: int where
  "SIGNIFICANT_DIGITS = 7"

datatype dimension = Length | Mass | Temperature | Data | Time

record unit_def =
  un_names :: "rstring list"
  un_display :: rstring
  un_dimension :: dimension
  un_scale :: double
  un_offset :: double

definition affine :: "rstring list \<Rightarrow> rstring \<Rightarrow> dimension \<Rightarrow> real \<Rightarrow> real \<Rightarrow> unit_def" where
  "affine names display d scale offset =
     \<lparr>un_names = names, un_display = display, un_dimension = d, un_scale = rnd64 scale, un_offset = rnd64 offset\<rparr>"

definition linear :: "string list \<Rightarrow> string \<Rightarrow> dimension \<Rightarrow> real \<Rightarrow> unit_def" where
  "linear names display d scale = affine (map lit names) (lit display) d scale 0"

definition UNITS :: "unit_def list" where
  "UNITS =
    [linear [''mm''] ''mm'' Length (1 / 1000),
     linear [''cm''] ''cm'' Length (1 / 100),
     linear [''m'', ''meter'', ''meters'', ''metre'', ''metres''] ''m'' Length 1,
     linear [''km''] ''km'' Length 1000,
     linear [''in'', ''inch'', ''inches''] ''in'' Length (254 / 10000),
     linear [''ft'', ''feet'', ''foot''] ''ft'' Length (3048 / 10000),
     linear [''yd'', ''yard'', ''yards''] ''yd'' Length (9144 / 10000),
     linear [''mi'', ''mile'', ''miles''] ''mi'' Length (1609344 / 1000),
     linear [''mg''] ''mg'' Mass (1 / 10 ^ 6),
     linear [''g'', ''gram'', ''grams''] ''g'' Mass (1 / 1000),
     linear [''kg''] ''kg'' Mass 1,
     linear [''t'', ''tonne'', ''tonnes''] ''t'' Mass 1000,
     linear [''oz'', ''ounce'', ''ounces''] ''oz'' Mass (28349523125 / 10 ^ 12),
     linear [''lb'', ''lbs'', ''pound'', ''pounds''] ''lb'' Mass (45359237 / 10 ^ 8),
     linear [''st'', ''stone'', ''stones''] ''st'' Mass (635029318 / 10 ^ 8),
     affine [lit ''c'', [176, 99], lit ''celsius''] [176, 67] Temperature 1 (27315 / 100),
     affine [lit ''f'', [176, 102], lit ''fahrenheit''] [176, 70] Temperature (5 / 9) (rnd64 (rnd64 (45967 / 100) * 5) / 9),
     affine [lit ''k'', lit ''kelvin''] (lit ''K'') Temperature 1 0,
     linear [''bit'', ''bits''] ''bit'' Data (1 / 8),
     linear [''byte'', ''bytes''] ''B'' Data 1,
     linear [''kb'', ''kilobyte'', ''kilobytes''] ''kB'' Data (10 ^ 3),
     linear [''mb'', ''megabyte'', ''megabytes''] ''MB'' Data (10 ^ 6),
     linear [''gb'', ''gigabyte'', ''gigabytes''] ''GB'' Data (10 ^ 9),
     linear [''tb'', ''terabyte'', ''terabytes''] ''TB'' Data (10 ^ 12),
     linear [''kib'', ''kibibyte'', ''kibibytes''] ''KiB'' Data (2 ^ 10),
     linear [''mib'', ''mebibyte'', ''mebibytes''] ''MiB'' Data (2 ^ 20),
     linear [''gib'', ''gibibyte'', ''gibibytes''] ''GiB'' Data (2 ^ 30),
     linear [''tib'', ''tebibyte'', ''tebibytes''] ''TiB'' Data (2 ^ 40),
     linear [''ms'', ''millisecond'', ''milliseconds''] ''ms'' Time (1 / 1000),
     linear [''s'', ''sec'', ''secs'', ''second'', ''seconds''] ''s'' Time 1,
     linear [''min'', ''mins'', ''minute'', ''minutes''] ''min'' Time 60,
     linear [''h'', ''hr'', ''hrs'', ''hour'', ''hours''] ''h'' Time 3600,
     linear [''d'', ''day'', ''days''] ''d'' Time 86400,
     linear [''week'', ''weeks'', ''wk''] ''wk'' Time 604800]"

definition lookup_unit :: "unicode \<Rightarrow> rstring \<Rightarrow> unit_def option" where
  "lookup_unit U token =
     (let name = (if token = lit ''b'' then lit ''bit'' else if token = lit ''B'' then lit ''byte'' else u_str_lower U token) in
      find (\<lambda>u. name \<in> set (un_names u)) UNITS)"

definition is_conversion_keyword :: "rstring \<Rightarrow> bool" where
  "is_conversion_keyword token \<longleftrightarrow>
     eq_ignore_ascii_case token (lit ''in'') \<or> eq_ignore_ascii_case token (lit ''to'') \<or> eq_ignore_ascii_case token (lit ''as'')"

text \<open>A leading number: the sign, the digits before and after the dot.\<close>

definition number_parts :: "rstring \<Rightarrow> bool \<times> rstring \<times> rstring \<times> rstring" where
  "number_parts s =
     (let neg = (case s of c # _ \<Rightarrow> c = 45 | [] \<Rightarrow> False);
          s1 = (if neg then tl s else s);
          whole = takeWhile is_ascii_digit s1; s2 = dropWhile is_ascii_digit s1 in
      case s2 of
        [] \<Rightarrow> (neg, whole, [], [])
      | c # s3 \<Rightarrow> if c = 46 then (neg, whole, takeWhile is_ascii_digit s3, dropWhile is_ascii_digit s3) else (neg, whole, [], s2))"

definition digits_value :: "rstring \<Rightarrow> nat" where
  "digits_value ds = (case read_digits 0 ds of Some n \<Rightarrow> n | None \<Rightarrow> 0)"

definition split_leading_number :: "rstring \<Rightarrow> (double \<times> rstring) option" where
  "split_leading_number s =
     (let (neg, whole, frac, rest) = number_parts s in
      if whole = [] \<and> frac = [] then None
      else let v = rnd64 (of_nat (digits_value (whole @ frac)) / 10 ^ length frac) in Some (if neg then - v else v, rest))"

definition parse_full_number :: "rstring \<Rightarrow> double option" where
  "parse_full_number s = (case split_leading_number s of Some (v, rest) \<Rightarrow> if rest = [] then Some v else None | None \<Rightarrow> None)"

text \<open>\<open>lg\<close> is the floor of \<^verbatim>\<open>f64::log10\<close>, a function of the platform.\<close>

definition format_quantity :: "(double \<Rightarrow> int) \<Rightarrow> double \<Rightarrow> rstring" where
  "format_quantity lg x =
     (if x = 0 then lit ''0''
      else if is_integral x \<and> \<bar>x\<bar> < 10 ^ 15 then format_fixed 0 x
      else let precision = nat (max 0 (min 12 (SIGNIFICANT_DIGITS - 1 - lg \<bar>x\<bar>))) in trim_zeros (format_fixed precision x))"

definition unit_conversion :: "unicode \<Rightarrow> (double \<Rightarrow> int) \<Rightarrow> rstring \<Rightarrow> calculation option" where
  "unit_conversion U lg expr =
     (case split_leading_number expr of
        None \<Rightarrow> None
      | Some (v, rest) \<Rightarrow>
          (case split_whitespace rest of
             [src_token, keyword, dst_token] \<Rightarrow>
               if \<not> is_conversion_keyword keyword then None
               else (case (lookup_unit U src_token, lookup_unit U dst_token) of
                       (Some src, Some dst) \<Rightarrow>
                         if un_dimension src \<noteq> un_dimension dst then None
                         else let base = rnd64 (rnd64 (v * un_scale src) + un_offset src);
                                  converted = rnd64 (rnd64 (base - un_offset dst) / un_scale dst) in
                              Some \<lparr>calc_expr = expr, calc_result = format_quantity lg converted @ [32] @ un_display dst\<rparr>
                     | _ \<Rightarrow> None)
           | _ \<Rightarrow> None))"

text \<open>\<^verbatim>\<open>u64::from_str_radix\<close>: an optional plus sign, at least one digit, at most \<open>2 ^ 64 - 1\<close>.\<close>

definition digit_of :: "nat \<Rightarrow> rchar \<Rightarrow> nat option" where
  "digit_of radix c =
     (let d = (if is_ascii_digit c then nat (c - 48) else if is_ascii_alphabetic c then nat (to_ascii_lower c - 87) else 36) in
      if d < radix then Some d else None)"

fun read_radix :: "nat \<Rightarrow> nat \<Rightarrow> rstring \<Rightarrow> nat option" where
  "read_radix radix acc [] = Some acc"
| "read_radix radix acc (c # cs) =
     (case digit_of radix c of
        None \<Rightarrow> None
      | Some d \<Rightarrow> let n = radix * acc + d in if n < 2 ^ 64 then read_radix radix n cs else None)"

definition from_str_radix :: "nat \<Rightarrow> rstring \<Rightarrow> nat option" where
  "from_str_radix radix s =
     (case s of [] \<Rightarrow> None | c # cs \<Rightarrow> let ds = (if c = 43 then cs else s) in if ds = [] then None else read_radix radix 0 ds)"

definition parse_int_literal :: "rstring \<Rightarrow> nat option" where
  "parse_int_literal token =
     (let lower = to_ascii_lowercase token in
      case strip_prefix lower (lit ''0x'') of
        Some h \<Rightarrow> if h = [] then None else from_str_radix 16 h
      | None \<Rightarrow>
          (case strip_prefix lower (lit ''0b'') of
             Some b \<Rightarrow> if b = [] then None else from_str_radix 2 b
           | None \<Rightarrow> if token \<noteq> [] \<and> list_all is_ascii_digit token then parse_u64 token else None))"

definition base_literal :: "rstring \<Rightarrow> calculation option" where
  "base_literal expr =
     (if list_ex is_whitespace expr then None
      else let lower = to_ascii_lowercase expr in
           if \<not> starts_with lower (lit ''0x'') \<and> \<not> starts_with lower (lit ''0b'') then None
           else map_option (\<lambda>n. \<lparr>calc_expr = expr, calc_result = digits n\<rparr>) (parse_int_literal expr))"

fun to_radix :: "nat \<Rightarrow> nat \<Rightarrow> rstring" where
  "to_radix radix n =
     (if radix < 2 then []
      else if n < radix then [hex_lower n] else to_radix radix (n div radix) @ [hex_lower (n mod radix)])"

definition base_conversion :: "rstring \<Rightarrow> calculation option" where
  "base_conversion expr =
     (case split_whitespace expr of
        [literal, keyword, base] \<Rightarrow>
          if \<not> is_conversion_keyword keyword then None
          else (case parse_int_literal literal of
                  None \<Rightarrow> None
                | Some n \<Rightarrow>
                    let b = to_ascii_lowercase base in
                    if b = lit ''hex'' \<or> b = lit ''hexadecimal'' then Some \<lparr>calc_expr = expr, calc_result = lit ''0x'' @ to_radix 16 n\<rparr>
                    else if b = lit ''bin'' \<or> b = lit ''binary'' then Some \<lparr>calc_expr = expr, calc_result = lit ''0b'' @ to_radix 2 n\<rparr>
                    else if b = lit ''dec'' \<or> b = lit ''decimal'' then Some \<lparr>calc_expr = expr, calc_result = digits n\<rparr>
                    else None)
      | _ \<Rightarrow> None)"

definition percent_of :: "rstring \<Rightarrow> calculation option" where
  "percent_of expr =
     (if 37 \<notin> set expr then None
      else let percent_part = takeWhile (\<lambda>c. c \<noteq> 37) expr; rest = trim_start (tl (dropWhile (\<lambda>c. c \<noteq> 37) expr)) in
           case parse_full_number (trim_end percent_part) of
             None \<Rightarrow> None
           | Some percent \<Rightarrow>
               if \<not> (2 \<le> length rest \<and> eq_ignore_ascii_case (take 2 rest) (lit ''of'')) then None
               else let after_of = drop 2 rest in
                    if (case after_of of c # _ \<Rightarrow> \<not> is_whitespace c | [] \<Rightarrow> True) then None
                    else map_option (\<lambda>amount. \<lparr>calc_expr = expr, calc_result = format_result (rnd64 (rnd64 (percent / 100) * amount))\<rparr>)
                           (parse_full_number (trim after_of)))"

definition convert :: "unicode \<Rightarrow> (double \<Rightarrow> int) \<Rightarrow> rstring \<Rightarrow> calculation option" where
  "convert U lg input =
     (let expr = trim input in
      if expr = [] \<or> MAX_INPUT_LEN < utf8_len expr then None
      else case percent_of expr of
             Some c \<Rightarrow> Some c
           | None \<Rightarrow>
               (case base_literal expr of
                  Some c \<Rightarrow> Some c
                | None \<Rightarrow> (case base_conversion expr of Some c \<Rightarrow> Some c | None \<Rightarrow> unit_conversion U lg expr)))"

section \<open>The calculator\<close>

definition FUNCTIONS :: "rstring list" where
  "FUNCTIONS = map lit [''sqrt'', ''sin'', ''cos'', ''tan'', ''asin'', ''acos'', ''atan'', ''ln'', ''log'', ''exp'', ''abs'', ''floor'', ''ceil'']"

definition CONSTANTS :: "rstring list" where
  "CONSTANTS = map lit [''pi'', ''e'']"

definition math_operator :: "rchar \<Rightarrow> bool" where
  "math_operator c \<longleftrightarrow> c \<in> set (lit ''+-*/^%'')"

function math_scan :: "bool \<Rightarrow> rstring \<Rightarrow> bool" where
  "math_scan signal [] = signal"
| "math_scan signal (c # cs) =
     (if is_whitespace c then math_scan signal cs
      else if is_ascii_digit c \<or> math_operator c \<or> c \<in> set (lit ''.(),'') then math_scan (signal \<or> math_operator c) cs
      else if is_ascii_alphabetic c
      then let ident = takeWhile is_ascii_alphabetic (c # cs) in
           if ident \<in> set FUNCTIONS \<or> ident \<in> set CONSTANTS then math_scan True (dropWhile is_ascii_alphabetic cs) else False
      else False)"
  by pat_completeness auto

termination
  by (relation "measure (\<lambda>(signal, s). length s)") (auto simp: le_imp_less_Suc length_dropWhile_le)

definition looks_like_math :: "rstring \<Rightarrow> bool" where
  "looks_like_math input =
     (let trimmed = trim input in
      if trimmed = [] \<or> MAX_INPUT_LEN < utf8_len trimmed \<or> 33 \<in> set trimmed then False else math_scan False trimmed)"

definition detect :: "unicode \<Rightarrow> (double \<Rightarrow> int) \<Rightarrow> (rstring \<Rightarrow> eval_value option) \<Rightarrow> rstring \<Rightarrow> calculation option" where
  "detect U lg eval_str input =
     (let expr = trim input in
      case convert U lg expr of
        Some c \<Rightarrow> Some c
      | None \<Rightarrow>
          if \<not> looks_like_math expr then None
          else map_option (\<lambda>v. \<lparr>calc_expr = expr, calc_result = (case v of Finite x \<Rightarrow> format_result x | NotFinite \<Rightarrow> lit ''Error'')\<rparr>) (eval_str expr))"

definition result_hit :: "calculation \<Rightarrow> rstring \<Rightarrow> hit" where
  "result_hit c inst =
     plugin_hit inst (lit ''calculator:'' @ calc_expr c) Calculator (calc_result c) (lit ''= '' @ calc_expr c) (lit ''accessories-calculator'')
       (lit ''Calculator'') 999 (CopyText (calc_result c)) (Some (ReplaceQuery (calc_result c)))"

definition calculator_message :: "doc_id \<Rightarrow> rstring \<Rightarrow> rstring \<Rightarrow> rstring \<Rightarrow> hit" where
  "calculator_message i subtitle q inst =
     plugin_hit inst i Calculator (lit ''Calculator'') subtitle (lit ''accessories-calculator'') (lit ''Calculator'') 999 (ReplaceQuery q) None"

definition calculator_on_query :: "unicode \<Rightarrow> (double \<Rightarrow> int) \<Rightarrow> (rstring \<Rightarrow> eval_value option) \<Rightarrow> rstring \<Rightarrow> rstring \<Rightarrow> hit list" where
  "calculator_on_query U lg eval_str inst q =
     (case strip_prefix q (lit ''='') of
        None \<Rightarrow> (case detect U lg eval_str q of Some c \<Rightarrow> [result_hit c inst] | None \<Rightarrow> [])
      | Some rest \<Rightarrow>
          let expr = trim rest in
          if expr = [] then [calculator_message (lit ''calculator:__placeholder__'') (lit ''Type an expression after ='') q inst]
          else (case detect U lg eval_str expr of
                  None \<Rightarrow> [calculator_message (lit ''calculator:invalid:'' @ expr) (lit ''Invalid expression: '' @ expr) q inst]
                | Some c \<Rightarrow> [result_hit c inst]))"

definition calculator_plugin :: "unicode \<Rightarrow> (double \<Rightarrow> int) \<Rightarrow> (rstring \<Rightarrow> eval_value option) \<Rightarrow> rstring \<Rightarrow> plugin" where
  "calculator_plugin U lg eval_str inst = \<lparr>pl_instance_id = inst, pl_claims_query = (\<lambda>q. starts_with q (lit ''='')),
     pl_on_query = (\<lambda>q. Some (calculator_on_query U lg eval_str inst q)),
     pl_excludes_from_query_log = (\<lambda>q. starts_with (trim_start q) (lit ''='')), pl_claimed_prefix = Some (lit ''=''),
     pl_row_menu = [\<lparr>rmi_label = lit ''Copy result'', rmi_verb = VCopy, rmi_visibility = Always\<rparr>]\<rparr>"

section \<open>Keyword URLs\<close>
















section \<open>Shell commands\<close>


definition sample_shell :: shell_source where
  "sample_shell = \<lparr>sh_working_dir = lit ''/h'', sh_strict_mode = True, sh_shell_mode = False\<rparr>"


text \<open>The whitelist looks at the last component of the program only, and \<^verbatim>\<open>env\<close> runs any program.\<close>

theorem whitelist_is_a_name_check:
  assumes "split (lit ''/tmp/x/ls'') = Some [lit ''/tmp/x/ls'']" "split cmd = Some (lit ''env'' # lit ''sh'' # lit ''-c'' # args)"
  shows "(\<exists>h. argv_hit split sample_shell (lit ''/tmp/x/ls'') inst = [h] \<and> hit_action h = Exec [lit ''/tmp/x/ls''] (Some (lit ''/h'')) True)
     \<and> (\<exists>h. argv_hit split sample_shell cmd inst = [h] \<and> hit_action h = Exec (lit ''env'' # lit ''sh'' # lit ''-c'' # args) (Some (lit ''/h'')) True)"
  using assms by (simp add: argv_hit_def sample_shell_def is_whitelisted_def base_name_def WHITELIST_def plugin_hit_def lit_def Let_def)

text \<open>A query with a space before the prefix is claimed, so that the page shows nothing but this source, which has no hits for it.\<close>

theorem indented_prefix_is_claimed_and_unanswered:
  assumes "is_whitespace c" "starts_with (trim_start q) (lit ''>'')"
  shows "pl_claims_query (shell_plugin split s inst) (c # q) \<and> pl_on_query (shell_plugin split s inst) (c # q) = Some []"
proof -
  have "c \<noteq> 62" using assms(1) by (auto simp: is_whitespace_def)
  then show ?thesis using assms
    by (simp add: shell_plugin_def shell_on_query_def strip_prefix_def lit_def trim_start_def trim_start_matches_def)
qed

section \<open>Bounded runs\<close>

text \<open>What is kept of a pipe is a prefix of what it delivered, no longer than the cap.\<close>

lemma read_bounded_prefix:
  assumes "length buf \<le> cap"
  shows "fst (read_bounded cap chunks buf tr) = buf @ take (cap - length buf) (concat chunks)"
  using assms
proof (induction chunks arbitrary: buf tr)
  case (Cons c cs)
  show ?case
  proof (cases "length buf < cap")
    case True
    let ?n = "min (length c) (cap - length buf)"
    have "fst (read_bounded cap cs (buf @ take ?n c) (tr \<or> ?n < length c)) = (buf @ take ?n c) @ take (cap - length (buf @ take ?n c)) (concat cs)"
      using Cons.prems by (intro Cons.IH) auto
    then show ?thesis using True by (auto simp: Let_def min_def)
  next
    case False
    then have "cap = length buf" using Cons.prems by simp
    then show ?thesis using Cons.IH[of buf True] by simp
  qed
qed simp

text \<open>The wait loop ends: once the clock is past the time-out, at the latest.\<close>

lemma wait_loop_returns:
  assumes "timeout < wt_elapsed (turns n)" "i \<le> n" "n < i + fuel"
  shows "wait_loop timeout turns i fuel \<noteq> None"
  using assms
proof (induction fuel arbitrary: i)
  case (Suc fuel)
  show ?case
  proof (cases "i = n")
    case True
    then show ?thesis using Suc.prems by (simp add: Let_def)
  next
    case False
    then have "wait_loop timeout turns (Suc i) fuel \<noteq> None" using Suc.prems by (intro Suc.IH) auto
    then show ?thesis by (auto simp: Let_def split: child_poll.splits option.splits)
  qed
qed simp

theorem command_always_answers:
  assumes "timeout < wt_elapsed (ce_turns env n)" "n < fuel" "ce_pipes_close env"
  shows "run_bounded fuel argv timeout env \<noteq> None"
  using wait_loop_returns[of timeout "ce_turns env" n 0 fuel] assms
  by (auto simp: run_bounded_def Let_def split: sum.splits option.splits prod.splits)

text \<open>
  Killing the child is not enough: a process it has started keeps the pipes open, the reader threads wait for their end, and the
  source does not return, whatever its time-out.
\<close>

theorem open_pipe_outlives_the_timeout:
  assumes "argv \<noteq> []" "ce_spawn env = Inr ()" "\<not> ce_pipes_close env" "wait_loop timeout (ce_turns env) 0 fuel = Some (Inr RunTimedOut)"
  shows "run_bounded fuel argv timeout env = None"
  using assms by (simp add: run_bounded_def)

text \<open>At most twenty hits, whose scores fall strictly, so that sorting by score keeps the order of the script.\<close>

lemma map_hits_nth:
  assumes "i < length (map_hits c shs inst)"
  shows "map_hits c shs inst ! i = map_script_hit c inst i (shs ! i)"
  using assms by (simp add: map_hits_def nth_enumerate_eq)

lemma command_hits_bounded: "length (map_hits c shs inst) \<le> MAX_HITS"
  by (simp add: map_hits_def)

lemma map_script_hit_score: "i < MAX_HITS \<Longrightarrow> hit_score (map_script_hit c inst i sh) = 999 - real i"
proof -
  assume "i < MAX_HITS"
  then have i: "i < 20" by (simp add: MAX_HITS_def)
  have "rnd32 (of_int (int i)) = of_int (int i)" "rnd32 (of_int (999 - int i)) = of_int (999 - int i)"
    using i by (intro rnd32_id is_f32_of_int; simp)+
  then show ?thesis by (simp add: map_script_hit_def plugin_hit_def)
qed

theorem command_hits_bounded_and_ordered:
  "length (command_answer j c inst res) \<le> MAX_HITS
     \<and> sorted_wrt (\<lambda>h h'. hit_score h' < hit_score h) (command_answer j c inst res)"
proof -
  have one: "length [h :: hit] \<le> MAX_HITS \<and> sorted_wrt (\<lambda>h h'. hit_score h' < hit_score h) [h]" for h by (simp add: MAX_HITS_def)
  have "sorted_wrt (\<lambda>h h'. hit_score h' < hit_score h) (map_hits c shs inst)" for shs
    unfolding sorted_wrt_iff_nth_less
  proof (intro allI impI)
    fix i k assume ik: "i < k" "k < length (map_hits c shs inst)"
    then have "k < MAX_HITS" using command_hits_bounded[of c shs inst] by simp
    then show "hit_score (map_hits c shs inst ! k) < hit_score (map_hits c shs inst ! i)"
      using ik map_hits_nth[of _ c shs inst] map_script_hit_score[of _ c inst] by simp
  qed
  then show ?thesis using one command_hits_bounded
    by (auto simp: command_answer_def MAX_HITS_def Let_def split: sum.splits run_status.splits)
qed

section \<open>Numbers in other bases\<close>

declare to_radix.simps [simp del]

lemma digit_of_hex: "d < radix \<Longrightarrow> radix \<le> 16 \<Longrightarrow> digit_of radix (hex_lower d) = Some d"
  by (auto simp: digit_of_def hex_lower_def is_ascii_digit_def is_ascii_alphabetic_def to_ascii_lower_def)

lemma read_radix_append:
  "read_radix radix acc xs = Some n \<Longrightarrow> read_radix radix acc (xs @ ys) = read_radix radix n ys"
  by (induction xs arbitrary: acc) (auto simp: Let_def split: option.splits if_splits)

lemma read_radix_to_radix:
  assumes "2 \<le> radix" "radix \<le> 16" "n < 2 ^ 64"
  shows "read_radix radix 0 (to_radix radix n) = Some n"
  using assms
proof (induction radix n rule: to_radix.induct)
  case (1 radix n)
  show ?case
  proof (cases "n < radix")
    case True
    then show ?thesis using "1.prems" digit_of_hex[of n radix] by (simp add: to_radix.simps[of radix n])
  next
    case False
    have "n div radix < 2 ^ 64" using "1.prems"(3) by (meson div_le_dividend order_le_less_trans)
    then have "read_radix radix 0 (to_radix radix (n div radix)) = Some (n div radix)"
      using "1.IH" "1.prems" False by simp
    moreover have "digit_of radix (hex_lower (n mod radix)) = Some (n mod radix)" using "1.prems" by (intro digit_of_hex) auto
    ultimately show ?thesis using False "1.prems"
      by (simp add: to_radix.simps[of radix n] read_radix_append)
  qed
qed

lemma to_radix_chars:
  assumes "2 \<le> radix" "radix \<le> 16" "c \<in> set (to_radix radix n)"
  shows "to_ascii_lower c = c \<and> c \<noteq> 43 \<and> \<not> is_whitespace c"
  using assms
proof (induction radix n rule: to_radix.induct)
  case (1 radix n)
  have "to_ascii_lower (hex_lower d) = hex_lower d \<and> hex_lower d \<noteq> 43 \<and> \<not> is_whitespace (hex_lower d)" if "d < 16" for d
    using that by (auto simp: hex_lower_def to_ascii_lower_def is_whitespace_def)
  moreover have "n mod radix < 16" using "1.prems"(1,2) mod_less_divisor[of radix n] by linarith
  ultimately show ?case using 1 by (subst (asm) to_radix.simps) (auto split: if_splits)
qed

lemma to_radix_not_Nil: "2 \<le> radix \<Longrightarrow> to_radix radix n \<noteq> []"
  by (subst to_radix.simps) auto

text \<open>The hexadecimal or binary form of a number, typed again, evaluates to the number.\<close>

theorem base_conversion_roundtrip:
  assumes "n < 2 ^ 64" "radix = 16 \<and> pre = lit ''0x'' \<or> radix = 2 \<and> pre = lit ''0b''"
  shows "base_literal (pre @ to_radix radix n) = Some \<lparr>calc_expr = pre @ to_radix radix n, calc_result = digits n\<rparr>"
proof -
  let ?d = "to_radix radix n"
  have r: "2 \<le> radix" "radix \<le> 16" using assms(2) by auto
  note chars = to_radix_chars[OF r, of _ n]
  have low: "to_ascii_lowercase ?d = ?d" using chars by (simp add: to_ascii_lowercase_def map_idI)
  have ne: "?d \<noteq> []" "hd ?d \<noteq> 43" using to_radix_not_Nil[OF r(1)] chars hd_in_set by blast+
  have rd: "from_str_radix radix ?d = Some n"
    using ne read_radix_to_radix[OF r assms(1)] by (cases ?d) (auto simp: from_str_radix_def Let_def)
  have ws: "\<not> list_ex is_whitespace (pre @ ?d)" using assms(2) chars by (auto simp: list_ex_iff lit_def is_whitespace_def)
  have lp: "to_ascii_lowercase (pre @ ?d) = pre @ ?d"
    using assms(2) low by (auto simp: to_ascii_lowercase_def lit_def to_ascii_lower_def)
  have "parse_int_literal (pre @ ?d) = Some n"
    using assms(2) lp rd ne(1) by (auto simp: parse_int_literal_def strip_prefix_def lit_def)
  then show ?thesis using assms(2) ws lp by (auto simp: base_literal_def starts_with_def)
qed

section \<open>Prose is not a calculation\<close>

lemma math_scan_word:
  assumes "math_scan signal (pre @ w @ post)" "w \<noteq> []" "list_all is_ascii_alphabetic w"
    and "pre = [] \<or> \<not> is_ascii_alphabetic (last pre)" "post = [] \<or> \<not> is_ascii_alphabetic (hd post)"
  shows "w \<in> set FUNCTIONS \<union> set CONSTANTS"
  using assms(1,4)
proof (induction "length pre" arbitrary: pre signal rule: less_induct)
  case less
  have tw: "takeWhile is_ascii_alphabetic (w @ post) = w"
    using assms(3,5) by (cases post) (auto simp: takeWhile_append list_all_iff)
  show ?case
  proof (cases pre)
    case Nil
    obtain c cs where w: "w = c # cs" using assms(2) by (cases w) auto
    have c: "is_ascii_alphabetic c" using assms(3) w by simp
    then have "\<not> is_whitespace c \<and> \<not> is_ascii_digit c \<and> \<not> math_operator c \<and> c \<notin> set (lit ''.(),'')"
      by (auto simp: is_ascii_alphabetic_def is_whitespace_def is_ascii_digit_def math_operator_def lit_def)
    then show ?thesis using less.prems(1) Nil tw c unfolding w by (auto simp: Let_def split: if_splits)
  next
    case (Cons c rest)
    show ?thesis
    proof (cases "is_ascii_alphabetic c \<and> \<not> is_whitespace c \<and> \<not> (is_ascii_digit c \<or> math_operator c \<or> c \<in> set (lit ''.(),''))")
      case True
      have nl: "\<not> is_ascii_alphabetic (last pre)" using less.prems(2) Cons by simp
      then have ex: "\<exists>x\<in>set rest. \<not> is_ascii_alphabetic x" using Cons True by (cases "rest = []") auto
      have dw: "dropWhile is_ascii_alphabetic (rest @ w @ post) = dropWhile is_ascii_alphabetic rest @ w @ post"
        using ex dropWhile_append1[of _ rest is_ascii_alphabetic "w @ post"] by blast
      have scan: "math_scan True (dropWhile is_ascii_alphabetic rest @ w @ post)"
        using less.prems(1) Cons True dw by (simp add: Let_def split: if_splits)
      have "dropWhile is_ascii_alphabetic rest \<noteq> []" using ex by (auto simp: dropWhile_eq_Nil_conv)
      moreover from this have "rest \<noteq> []" by auto
      ultimately have "last (dropWhile is_ascii_alphabetic rest) = last pre"
        using Cons last_appendR[of "dropWhile is_ascii_alphabetic rest" "takeWhile is_ascii_alphabetic rest"] by simp
      then show ?thesis using less.hyps[OF _ scan] nl Cons length_dropWhile_le[of is_ascii_alphabetic rest] by simp
    next
      case False
      then obtain sg where scan: "math_scan sg (rest @ w @ post)" using less.prems(1) Cons by (auto split: if_splits)
      show ?thesis using less.hyps[OF _ scan] less.prems(2) Cons by (cases "rest = []") auto
    qed
  qed
qed

lemma no_number: "\<forall>c\<in>set s. \<not> is_ascii_digit c \<Longrightarrow> split_leading_number s = None"
proof -
  assume nd: "\<forall>c\<in>set s. \<not> is_ascii_digit c"
  have tw: "takeWhile is_ascii_digit t = []" "dropWhile is_ascii_digit t = t" if "set t \<subseteq> set s" for t
    using nd that by (cases t; auto)+
  define s1 where "s1 = (if (case s of c # _ \<Rightarrow> c = 45 | [] \<Rightarrow> False) then tl s else s)"
  have s1: "set s1 \<subseteq> set s" unfolding s1_def by (cases s) auto
  then have "set (tl s1) \<subseteq> set s" by (cases s1) auto
  then show ?thesis
    using tw[OF s1] tw[of "tl s1"]
    by (cases s1) (simp_all add: split_leading_number_def number_parts_def Let_def is_ascii_digit_def flip: s1_def)
qed

lemma no_literal:
  assumes "\<forall>c\<in>set s. \<not> is_ascii_digit c" "s \<noteq> []"
  shows "parse_int_literal s = None"
proof -
  have "c \<noteq> 48" if "c \<in> set (to_ascii_lowercase s)" for c
    using assms(1) that by (auto simp: to_ascii_lowercase_def to_ascii_lower_def is_ascii_digit_def split: if_splits)
  then have "\<not> prefix (48 # p) (to_ascii_lowercase s)" for p by (metis list.set_intros(1) prefix_Cons prefix_order.refl set_mono_prefix subsetD)
  moreover have "\<not> list_all is_ascii_digit s" using assms by (cases s) auto
  ultimately show ?thesis by (simp add: parse_int_literal_def strip_prefix_def lit_def)
qed

lemma no_digit_no_conversion:
  assumes "\<forall>c\<in>set s. \<not> is_ascii_digit c"
  shows "convert U lg s = None"
proof -
  let ?e = "trim s"
  have nd: "\<forall>c\<in>set ?e. \<not> is_ascii_digit c" using assms set_trim by blast
  have "percent_of ?e = None"
  proof -
    have "set (trim_end (takeWhile (\<lambda>c. c \<noteq> 37) ?e)) \<subseteq> set ?e"
      using set_trim_end_matches[of is_whitespace "takeWhile (\<lambda>c. c \<noteq> 37) ?e"] set_takeWhileD unfolding trim_end_def by fast
    then have "parse_full_number (trim_end (takeWhile (\<lambda>c. c \<noteq> 37) ?e)) = None"
      using no_number nd by (simp add: parse_full_number_def subset_iff)
    then show ?thesis by (simp add: percent_of_def Let_def)
  qed
  moreover have "base_literal ?e = None" using no_literal[OF nd] by (cases "?e = []") (auto simp: base_literal_def starts_with_def lit_def Let_def to_ascii_lowercase_def)
  moreover have "base_conversion ?e = None"
  proof -
    have "parse_int_literal w = None" if "w \<in> set (split_whitespace ?e)" for w
    proof (rule no_literal)
      have "set w \<subseteq> set (concat (split_whitespace ?e))" using that by auto
      then show "\<forall>c\<in>set w. \<not> is_ascii_digit c" using nd by (auto simp: split_whitespace_concat)
      show "w \<noteq> []" using split_whitespace_words[OF that] by simp
    qed
    then have "parse_int_literal (hd (split_whitespace ?e)) = None" if "split_whitespace ?e \<noteq> []" using that by simp
    then show ?thesis by (auto simp: base_conversion_def split: list.splits)
  qed
  moreover have "unit_conversion U lg ?e = None" using no_number[OF nd] by (simp add: unit_conversion_def)
  ultimately show ?thesis by (simp add: convert_def Let_def)
qed

lemma trim_around:
  assumes "w \<noteq> []" "list_all (\<lambda>c. \<not> is_whitespace c) w"
  shows "trim (pre @ w @ post) = dropWhile is_whitespace pre @ w @ rev (dropWhile is_whitespace (rev post))"
proof -
  obtain c cs where c: "w = c # cs" "\<not> is_whitespace c" using assms by (cases w) auto
  obtain d ds where d: "w = ds @ [d]" "\<not> is_whitespace d" using assms by (cases w rule: rev_cases) auto
  have "dropWhile is_whitespace (pre @ w @ post) = dropWhile is_whitespace pre @ w @ post"
    by (cases "\<exists>x\<in>set pre. \<not> is_whitespace x") (auto simp: dropWhile_append1 dropWhile_append2 dropWhile_append c dropWhile_eq_Nil_conv)
  moreover have "dropWhile is_whitespace (rev post @ rev w @ rev (dropWhile is_whitespace pre)) = dropWhile is_whitespace (rev post) @ rev w @ rev (dropWhile is_whitespace pre)"
    by (cases "\<exists>x\<in>set post. \<not> is_whitespace x") (auto simp: dropWhile_append d dropWhile_eq_Nil_conv)
  ultimately show ?thesis by (simp add: trim_def trim_start_def trim_end_def trim_start_matches_def trim_end_matches_def)
qed

text \<open>
  C31: The calculator stays silent on prose. A query without digits that contains a word other than the names of functions and constants, and
  does not start with the prefix, has no calculator hit, whatever the evaluator would make of it.
\<close>

theorem calculator_ignores_prose:
  assumes "\<forall>c\<in>set (pre @ w @ post). \<not> is_ascii_digit c" "w \<noteq> []" "list_all is_ascii_alphabetic w" "w \<notin> set FUNCTIONS \<union> set CONSTANTS"
    and "pre = [] \<or> \<not> is_ascii_alphabetic (last pre)" "post = [] \<or> \<not> is_ascii_alphabetic (hd post)" "\<not> starts_with (pre @ w @ post) (lit ''='')"
  shows "calculator_on_query U lg eval_str inst (pre @ w @ post) = []"
proof -
  let ?q = "pre @ w @ post"
  let ?pre = "dropWhile is_whitespace pre"
  let ?post = "rev (dropWhile is_whitespace (rev post))"
  have "list_all (\<lambda>c. \<not> is_whitespace c) w"
    using assms(3) by (auto simp: list_all_iff is_ascii_alphabetic_def is_whitespace_def)
  then have t: "trim ?q = ?pre @ w @ ?post" by (rule trim_around[OF assms(2)])
  have "last ?pre = last pre" if "?pre \<noteq> []"
    using that last_appendR[of ?pre "takeWhile is_whitespace pre"] by simp
  then have b1: "?pre = [] \<or> \<not> is_ascii_alphabetic (last ?pre)" using assms(5) by (cases "?pre = []") auto
  have "hd ?post = hd post" if "?post \<noteq> []"
    using that hd_append2[of ?post "rev (takeWhile is_whitespace (rev post))"] by (metis rev_append rev_rev_ident takeWhile_dropWhile_id)
  then have b2: "?post = [] \<or> \<not> is_ascii_alphabetic (hd ?post)" using assms(6) by (cases "?post = []") auto
  have "\<not> math_scan False (trim ?q)" using math_scan_word[OF _ assms(2,3) b1 b2] assms(4) unfolding t by blast
  then have "\<not> looks_like_math (trim ?q)" by (auto simp: looks_like_math_def Let_def)
  moreover have "convert U lg (trim ?q) = None" using assms(1) set_trim[of ?q] by (intro no_digit_no_conversion) blast
  ultimately have "detect U lg eval_str ?q = None" by (simp add: detect_def Let_def)
  then show ?thesis using assms(7) by (simp add: calculator_on_query_def strip_prefix_def starts_with_def)
qed

theorem calculator_ignores_prose_witness:
  "calculator_on_query ascii_unicode (\<lambda>x. 0) (\<lambda>s. Some (Finite 1)) [] (lit ''made '' @ lit ''in'' @ lit '' china'') = []"
  by (rule calculator_ignores_prose)
    (simp_all add: lit_def is_ascii_digit_def is_ascii_alphabetic_def FUNCTIONS_def CONSTANTS_def starts_with_def)

text \<open>
  With no decimals left to show, the zeros that are trimmed are those of the integer part: from a million on, a quantity that is not
  an integer loses its final zeros.
\<close>

theorem large_quantity_loses_zeros:
  assumes "lg (10000005 / 10) = 6"
  shows "format_quantity lg (10000005 / 10) = lit ''1''"
proof -
  have d: "digits 1000000 = lit ''1000000''" by (simp add: digits.simps lit_def)
  have "rhe (10000005 / 10) = 1000000" by (simp add: rhe_def Let_def)
  moreover have "\<not> is_integral (10000005 / 10)" by (simp add: is_integral_def)
  ultimately show ?thesis
    using assms by (simp add: format_quantity_def SIGNIFICANT_DIGITS_def format_fixed_def Let_def d trim_zeros_def trim_end_matches_def lit_def)
qed

text \<open>The standard parser accepts a sign after the base prefix.\<close>

theorem signed_literal_is_accepted:
  "base_literal (lit ''0x+ff'') = Some \<lparr>calc_expr = lit ''0x+ff'', calc_result = lit ''255''\<rparr>"
  by (simp add: base_literal_def parse_int_literal_def from_str_radix_def strip_prefix_def starts_with_def lit_def to_ascii_lowercase_def
      to_ascii_lower_def digit_of_def is_ascii_digit_def is_ascii_alphabetic_def digits.simps is_whitespace_def Let_def)

end
