(* ===== verification/Spec2Isabelle.thy ===== *)
theory Spec2Isabelle
  imports Search_Handler Index_Search Pipeline Accelerators Ocr_Worker Gui_Client Preview_Lifecycle Semantic_Worker Semantic_Link Text_Extraction Plugin_Watcher Query_Plugins
begin

text \<open>
  A verification development of lixun, a desktop search daemon written in Rust
  (\<^verbatim>\<open>src/crates\<close>).

  \<^bold>\<open>The program.\<close> A daemon keeps a full-text index of files, mail and applications. A crawler and a
  file-system watcher turn changes on disk into mutations; a writer task applies them to the index in batches and commits; an OCR
  worker fills in text of scanned documents. A client sends a search: the daemon asks the index, fuses the lexical ranking with
  two vector channels when a semantic worker is there, lets plugins contribute, applies the ranking stores (frecency, query
  latches, hidden documents) and streams frames of hits back. The configuration file, the impact level and
  the battery state tune the background work.

  \<^bold>\<open>Theories and sources.\<close>
  \<^item> \<open>Prelude\<close>, \<open>F32\<close>: strings as lists of code points with the string functions the code uses, lists and
    sorting, 64-bit wrap-around; single-precision arithmetic with its rounding.
  \<^item> \<open>Core_Types\<close>: categories, actions, hits, documents, queries, ranking configuration (\<^verbatim>\<open>lixun-core/src/lib.rs\<close>).
  \<^item> \<open>Text_Match\<close>: normalisation, identifier splitting, acronyms and stage-1 multipliers (\<^verbatim>\<open>lixun-index\<close>:
    \<^verbatim>\<open>normalize.rs\<close>, \<^verbatim>\<open>tokenizer.rs\<close>, \<^verbatim>\<open>scoring.rs\<close>).
  \<^item> \<open>State_Files\<close>, \<open>Frecency\<close>, \<open>Query_Latch\<close>, \<open>History_Stores\<close>: the ranking stores and their files
    (\<^verbatim>\<open>lixun-daemon\<close>: \<^verbatim>\<open>frecency.rs\<close>, \<^verbatim>\<open>query_latch.rs\<close>, \<^verbatim>\<open>blocklist.rs\<close>, \<^verbatim>\<open>query_log.rs\<close>). Both multiplier stores
    interpret one locale, \<open>doc_signal\<close>.
  \<^item> \<open>Top_Hit\<close>: the confidence gates of the top hit (\<^verbatim>\<open>top_hit.rs\<close>).
  \<^item> \<open>Fusion\<close>: reciprocal rank fusion, the precision-first partition and the streaming search (\<^verbatim>\<open>lixun-fusion\<close>); what it
    needs of the index is the locale \<open>lexical_provider\<close>.
  \<^item> \<open>Search_Handler\<close>: search requests, chunk processing, plugins, search slots and the ranking-store requests
    (\<^verbatim>\<open>lixun-daemon/src/main.rs\<close>).
  \<^item> \<open>Index_Store\<close>, \<open>Index_Search\<close>: documents in the index and back, commits and reloads, query construction and
    scoring (\<^verbatim>\<open>lixun-index/src/lib.rs\<close>, \<^verbatim>\<open>plugin_schema.rs\<close>); \<open>Index_Search\<close> interprets \<open>lexical_provider\<close>.
  \<^item> \<open>Index_Writer\<close>: the writer task, barriers, subtree deletes, shutdown, result cache (\<^verbatim>\<open>lixun-indexer/src/index_service.rs\<close>).
  \<^item> \<open>File_Paths\<close>, \<open>Crawler\<close>, \<open>Watcher\<close>, \<open>Pipeline\<close>: document ids, exclusions, manifest and aliases; the
    crawl; the watcher's coalescer and resolver; crawl and writer put together (\<^verbatim>\<open>lixun-sources\<close>, \<^verbatim>\<open>lixun-indexer\<close>).
  \<^item> \<open>Ocr_Queue\<close>, \<open>Cache_Sweep\<close>, \<open>Ocr_Worker\<close>: the OCR queue and worker, the extract-cache sweep, the idle gates and
    the worker's configuration (\<^verbatim>\<open>ocr_queue.rs\<close>, \<^verbatim>\<open>ocr_tick.rs\<close>, \<^verbatim>\<open>cache_sweep.rs\<close>, \<^verbatim>\<open>psi_gate.rs\<close>).
  \<^item> \<open>Impact\<close>, \<open>Config\<close>, \<open>Accelerators\<close>: impact levels, the configuration file, keybindings
    (\<^verbatim>\<open>impact.rs\<close>, \<^verbatim>\<open>battery.rs\<close>, \<^verbatim>\<open>lixun-config\<close>).

  \<^bold>\<open>State and operations.\<close> A struct is a record, an enum a datatype; a method is a function from the old state to
  the new one with its result; a task with a queue is a step function on a record and its runs are lists of steps or an inductive
  relation; a fallible call returns an option or a sum, and every error return of the source is a branch. Rust's
  \<^verbatim>\<open>f32\<close> is \<open>F32\<close>; machine integers are kept at their width where a wrap or a saturation is possible.

  \<^bold>\<open>Parameters.\<close> Code outside the repository appears as an argument with the documented behaviour as a named
  hypothesis: the Tantivy engine, the vector worker, serialisers, regular expressions, Unicode tables, text extractors, the file
  system, the kernel. Each property that assumes something of a parameter has a witness with a concrete one.

  \<^bold>\<open>What is shown.\<close> Searching: pages are sound, hidden documents never appear, ranking is the specified
  order, superseded searches fall silent, explanations change nothing. Indexing: a barrier answer means visible, deletes
  stay deleted, the index mirrors the disk after a crawl, no watcher event is lost, the OCR queue drains and never overwrites newer
  text. Stores: refinement of click logs, round trips through files also when saves fail. Configuration: always valid,
  precedence, exact diagnosis. Where code and comment disagree, a theorem states what the code does.

  \<^bold>\<open>Bounds and termination.\<close> Loops are structural recursion or carry a measure; no fuel is used where a loop of the
  code ends by itself. Queues and caches have the capacities of the code.

  \<^bold>\<open>Not modelled.\<close> GTK widgets and rendering, D-Bus and compositor integration, process spawning, terminal
  output, third-party parsers, log output, timers as such (a tick is a step), memory-allocator tuning.
\<close>

end
